(* ===== verification/RP_Prelude.thy ===== *)
theory RP_Prelude
  imports Complex_Main "HOL-Library.Word"
begin

unbundle bit_operations_syntax

text \<open>
  Shared vocabulary of the RetroPark development: the C integer types, little-endian byte
  assembly, the ordered map that models \<open>std::map\<close> with unsigned 64-bit keys, and the
  lemma collections the component theories feed.

  \<^item> \<open>u8\<close> ... \<open>u64\<close> are the fixed-width unsigned types; a frame number or a \<open>size_t\<close>
    whose wrap-around is written out where it matters is a \<open>nat\<close> (below \<open>2 ^ 64\<close>).
  \<^item> \<open>omap\<close> is an association list with strictly increasing keys: iteration order, \<open>find\<close>,
    \<open>operator[]\<close> assignment and the erase-from-the-front loop of the sources all have their
    counterpart here, and \<open>map_of\<close> gives the finite function they denote.
\<close>

type_synonym u8 = "8 word"
type_synonym u16 = "16 word"
type_synonym u32 = "32 word"
type_synonym u64 = "64 word"
type_synonym bytes = "u8 list"

named_theorems rp_defs \<open>definitions the component proofs unfold\<close>
named_theorems wire_simps \<open>round-trip and length facts of the wire format\<close>

lemma unat_bound: "unat (w :: 'a::len word) < 2 ^ LENGTH('a)"
  by (rule unsigned_less)

lemma unat_u8_bound [simp]: "unat (w :: u8) < 256"
  using unat_bound [of w] by simp

lemma unat_u32_bound [simp]: "unat (w :: u32) < 4294967296"
  using unat_bound [of w] by simp

lemma unat_u64_bound [simp]: "unat (w :: u64) < 18446744073709551616"
  using unat_bound [of w] by simp

lemma unat_of_nat_u32: "n < 2 ^ 32 \<Longrightarrow> unat (of_nat n :: u32) = n"
  by (simp add: unat_of_nat)

lemma unat_of_nat_u64: "n < 2 ^ 64 \<Longrightarrow> unat (of_nat n :: u64) = n"
  by (simp add: unat_of_nat)

section \<open>Little-endian bytes\<close>

definition le_bytes :: "nat \<Rightarrow> 'a::len word \<Rightarrow> bytes" where
  "le_bytes n v = map (\<lambda>i. ucast (drop_bit (8 * i) v)) [0..<n]"

definition or_bytes :: "(nat \<Rightarrow> u8) \<Rightarrow> nat \<Rightarrow> 'a::len word" where
  "or_bytes f n = fold (\<lambda>i acc. acc OR push_bit (8 * i) (ucast (f i))) [0..<n] 0"

lemma length_le_bytes [simp]: "length (le_bytes n v) = n"
  by (simp add: le_bytes_def)

lemma nth_le_bytes [simp]: "i < n \<Longrightarrow> le_bytes n v ! i = ucast (drop_bit (8 * i) v)"
  by (simp add: le_bytes_def)

lemma or_bytes_0 [simp]: "or_bytes f 0 = 0"
  by (simp add: or_bytes_def)

lemma or_bytes_Suc [simp]:
  "or_bytes f (Suc n) = or_bytes f n OR push_bit (8 * n) (ucast (f n))"
  by (simp add: or_bytes_def)

lemma bit_or_bytes:
  "bit (or_bytes f n :: 'a::len word) k \<longleftrightarrow>
     k < LENGTH('a) \<and> k div 8 < n \<and> bit (f (k div 8)) (k mod 8)"
proof (induction n)
  case 0
  then show ?case by simp
next
  case (Suc n)
  have byte: "bit (push_bit (8 * n) (ucast (f n)) :: 'a word) k \<longleftrightarrow>
      k < LENGTH('a) \<and> k div 8 = n \<and> bit (f n) (k mod 8)"
  proof (cases "k div 8 = n")
    case True
    then have "8 * n \<le> k" and "k - 8 * n = k mod 8" and "k mod 8 < 8"
      by (auto simp: minus_mult_div_eq_mod)
    with True show ?thesis
      by (auto simp: bit_push_bit_iff bit_ucast_iff)
  next
    case False
    then have "8 * n \<le> k \<Longrightarrow> 8 \<le> k - 8 * n"
      by auto
    with False show ?thesis
      by (auto simp: bit_push_bit_iff bit_ucast_iff dest: bit_imp_le_length)
  qed
  show ?case
    by (auto simp: bit_or_iff Suc.IH byte less_Suc_eq)
qed

lemma or_bytes_cong:
  "(\<And>i. i < n \<Longrightarrow> f i = g i) \<Longrightarrow> or_bytes f n = or_bytes g n"
  by (induction n) auto

lemma or_bytes_le_bytes:
  assumes "LENGTH('a) = 8 * n"
  shows "or_bytes (\<lambda>i. ucast (drop_bit (8 * i) v)) n = (v :: 'a::len word)"
proof (rule bit_word_eqI)
  fix k assume k: "k < LENGTH('a)"
  then have "k div 8 < n" and "8 * (k div 8) + k mod 8 = k"
    using assms by auto
  then show "bit (or_bytes (\<lambda>i. ucast (drop_bit (8 * i) v)) n :: 'a word) k = bit v k"
    using k by (simp add: bit_or_bytes bit_ucast_iff bit_drop_bit_eq)
qed

lemma le_bytes_inj:
  assumes "LENGTH('a) = 8 * n" "le_bytes n v = le_bytes n w"
  shows "v = (w :: 'a::len word)"
proof -
  have "or_bytes (\<lambda>i. ucast (drop_bit (8 * i) v)) n
      = (or_bytes (\<lambda>i. ucast (drop_bit (8 * i) w)) n :: 'a word)"
    using assms(2) by (intro or_bytes_cong) (metis nth_le_bytes)
  then show ?thesis using assms(1) by (simp add: or_bytes_le_bytes)
qed

lemma le_bytes_or_bytes:
  assumes "LENGTH('a) = 8 * n"
  shows "le_bytes n (or_bytes f n :: 'a::len word) = map f [0..<n]"
proof (rule nth_equalityI)
  fix i assume "i < length (le_bytes n (or_bytes f n :: 'a word))"
  then have i: "i < n" by simp
  have "ucast (drop_bit (8 * i) (or_bytes f n :: 'a word)) = f i"
  proof (rule bit_word_eqI)
    fix k assume "k < LENGTH(8)"
    then have k: "k < 8" by simp
    then have "8 * i + k < 8 * n" and "(8 * i + k) div 8 = i" and "(8 * i + k) mod 8 = k"
      using i by auto
    then show "bit (ucast (drop_bit (8 * i) (or_bytes f n :: 'a word)) :: u8) k = bit (f i) k"
      using k i assms by (simp add: bit_ucast_iff bit_drop_bit_eq bit_or_bytes)
  qed
  then show "le_bytes n (or_bytes f n :: 'a word) ! i = map f [0..<n] ! i"
    using i by simp
qed simp

lemma map_nth_slice:
  "off + n \<le> length p \<Longrightarrow> map (\<lambda>i. p ! (off + i)) [0..<n] = take n (drop off p)"
  by (rule nth_equalityI) auto

section \<open>Ordered maps\<close>

type_synonym 'v omap = "(nat \<times> 'v) list"

fun om_put :: "nat \<Rightarrow> 'v \<Rightarrow> 'v omap \<Rightarrow> 'v omap" where
  "om_put k v [] = [(k, v)]"
| "om_put k v ((k', v') # m) =
     (if k < k' then (k, v) # (k', v') # m
      else if k = k' then (k, v) # m
      else (k', v') # om_put k v m)"

definition om_find :: "'v omap \<Rightarrow> nat \<Rightarrow> 'v option" where
  "om_find m k = map_of m k"

definition om_drop_below :: "nat \<Rightarrow> 'v omap \<Rightarrow> 'v omap" where
  "om_drop_below lo m = dropWhile (\<lambda>kv. fst kv < lo) m"

definition om_ok :: "'v omap \<Rightarrow> bool" where
  "om_ok m \<longleftrightarrow> sorted_wrt (<) (map fst m)"

lemma om_ok_Nil [simp]: "om_ok []"
  by (simp add: om_ok_def)

lemma om_find_Nil [simp]: "om_find [] k = None"
  by (simp add: om_find_def)

lemma set_fst_om_put: "fst ` set (om_put k v m) = insert k (fst ` set m)"
  by (induction k v m rule: om_put.induct) auto

lemma om_ok_put [simp]: "om_ok m \<Longrightarrow> om_ok (om_put k v m)"
proof (induction k v m rule: om_put.induct)
  case (2 k v k' v' m)
  then have "\<not> k < k' \<Longrightarrow> k \<noteq> k' \<Longrightarrow> om_ok (om_put k v m)"
    by (auto simp: om_ok_def)
  moreover have "fst ` set (om_put k v m) = insert k (fst ` set m)"
    by (rule set_fst_om_put)
  ultimately show ?case
    using 2(2) by (fastforce simp: om_ok_def)
qed (simp add: om_ok_def)

lemma om_find_put [simp]: "om_ok m \<Longrightarrow> om_find (om_put k v m) j = (if j = k then Some v else om_find m j)"
proof (induction k v m rule: om_put.induct)
  case (2 k v k' v' m)
  then show ?case by (auto simp: om_find_def om_ok_def)
qed (simp add: om_find_def)

lemma om_ok_drop_below [simp]: "om_ok m \<Longrightarrow> om_ok (om_drop_below lo m)"
  by (induction m) (auto simp: om_ok_def om_drop_below_def)

lemma om_find_drop_below [simp]:
  "om_ok m \<Longrightarrow> om_find (om_drop_below lo m) k = (if k < lo then None else om_find m k)"
proof (induction m)
  case Nil
  then show ?case by (simp add: om_drop_below_def)
next
  case (Cons kv m)
  obtain k' v' where kv: "kv = (k', v')" by (cases kv)
  have ok: "om_ok m" and gt: "\<forall>j \<in> fst ` set m. k' < j"
    using Cons.prems by (auto simp: om_ok_def kv)
  show ?case
  proof (cases "k' < lo")
    case True
    then have "om_drop_below lo (kv # m) = om_drop_below lo m"
      by (simp add: om_drop_below_def kv)
    with True show ?thesis
      using Cons.IH [OF ok] by (auto simp: om_find_def kv)
  next
    case False
    then have "om_drop_below lo (kv # m) = kv # m"
      by (simp add: om_drop_below_def kv)
    moreover have "k < lo \<Longrightarrow> om_find (kv # m) k = None"
      using False gt by (force simp: om_find_def kv map_of_eq_None_iff)
    ultimately show ?thesis by simp
  qed
qed

lemma om_find_iff: "om_ok m \<Longrightarrow> om_find m k = Some v \<longleftrightarrow> (k, v) \<in> set m"
  by (simp add: om_find_def om_ok_def strict_sorted_iff
      map_of_eq_Some_iff)

section \<open>Blocks of equal length\<close>

lemma length_concat_const: "(\<And>x. x \<in> set xs \<Longrightarrow> length (f x) = n) \<Longrightarrow> length (concat (map f xs)) = length xs * n"
  by (induction xs) auto

text \<open>The block \<open>k\<close> of a concatenation of blocks of equal length.\<close>

lemma take_drop_concat:
  assumes "\<And>x. x \<in> set xs \<Longrightarrow> length (f x) = n" "k < length xs"
  shows "take n (drop (k * n) (concat (map f xs) @ ys)) = f (xs ! k)"
  using assms
proof (induction xs arbitrary: k)
  case (Cons x xs)
  then show ?case by (cases k) auto
qed simp

lemma take_drop_block: "k + m \<le> n \<Longrightarrow> take m (drop (k + a) zs) = take m (drop k (take n (drop a zs)))"
  by (simp add: drop_take add.commute min_absorb1)

end
