(* ===== verification/RP_Abi.thy ===== *)
theory RP_Abi
  imports RP_Prelude
begin

text \<open>
  The flat C contract of \<open>include/retropark/retropark_abi.h\<close>: result codes, core and graphics
  kinds, the input snapshot, geometry, surface hand-off and the core's function table.

  A core is code outside the runtime. Its function table is a record of functions over an
  instance state \<open>'c\<close>; a null function pointer is \<open>None\<close>. Calls a core makes back into the host
  while one of its functions runs are returned as a list of \<open>host_call\<close>s, in call order, which
  the runtime then serves; what the host shows a core during the call (the two input ports, the
  shareable GL context) is the \<open>host_view\<close> argument. A buffer the host lends is a byte list: it goes in
  with the length the host allocated and comes back with the core's writes applied.
\<close>

definition RETROPARK_ABI_VERSION :: u32 where
  "RETROPARK_ABI_VERSION = 9"

definition RP_CORE_ABI_EXPORT_NAME :: string where
  "RP_CORE_ABI_EXPORT_NAME = ''rp_get_core_abi''"

datatype rp_result =
    RP_OK
  | RP_ERR_ABI_MISMATCH
  | RP_ERR_BAD_ARG
  | RP_ERR_DEVICE
  | RP_ERR_INTERNAL
  | RP_ERR_TIMEOUT
  | RP_ERR_NOT_FOUND
  | RP_ERR_UNSUPPORTED

text \<open>The last constructor holds the values a cast from \<open>uint32_t\<close> admits beyond the enumerators.\<close>

datatype rp_core_type = RP_CORE_PRESENTING | RP_CORE_DRIVEN | RP_CORE_OTHER u32

datatype rp_graphics_api =
    RP_GFX_D3D11 | RP_GFX_VULKAN | RP_GFX_NONE | RP_GFX_OPENGL | RP_GFX_OTHER u32

definition core_type_of_u32 :: "u32 \<Rightarrow> rp_core_type" where
  "core_type_of_u32 v =
     (if v = 0 then RP_CORE_PRESENTING else if v = 1 then RP_CORE_DRIVEN else RP_CORE_OTHER v)"

definition graphics_api_of_u32 :: "u32 \<Rightarrow> rp_graphics_api" where
  "graphics_api_of_u32 v =
     (if v = 0 then RP_GFX_D3D11 else if v = 1 then RP_GFX_VULKAN
      else if v = 2 then RP_GFX_NONE else if v = 3 then RP_GFX_OPENGL else RP_GFX_OTHER v)"

definition RP_FMT_R8G8B8A8_UNORM :: u32 where
  "RP_FMT_R8G8B8A8_UNORM = 0"

text \<open>\<open>pad_axes\<close> are 16-bit patterns read as two's complement (\<open>sint\<close>).\<close>

record rp_input_state =
  keys :: "u8 list"
  pad_axes :: "16 word list"
  pad_buttons :: u16

definition wf_input :: "rp_input_state \<Rightarrow> bool" where
  "wf_input s \<longleftrightarrow> length (keys s) = 256 \<and> length (pad_axes s) = 8"

definition neutral_input :: rp_input_state where
  "neutral_input = \<lparr>keys = replicate 256 0, pad_axes = replicate 8 0, pad_buttons = 0\<rparr>"

lemma wf_neutral_input [simp]: "wf_input neutral_input"
  by (simp add: wf_input_def neutral_input_def)

definition RP_PAD_A :: nat where "RP_PAD_A = 0"
definition RP_PAD_B :: nat where "RP_PAD_B = 1"
definition RP_PAD_X :: nat where "RP_PAD_X = 2"
definition RP_PAD_Y :: nat where "RP_PAD_Y = 3"
definition RP_PAD_L :: nat where "RP_PAD_L = 4"
definition RP_PAD_R :: nat where "RP_PAD_R = 5"
definition RP_PAD_SELECT :: nat where "RP_PAD_SELECT = 6"
definition RP_PAD_START :: nat where "RP_PAD_START = 7"
definition RP_PAD_L3 :: nat where "RP_PAD_L3 = 8"
definition RP_PAD_R3 :: nat where "RP_PAD_R3 = 9"
definition RP_PAD_DPAD_UP :: nat where "RP_PAD_DPAD_UP = 10"
definition RP_PAD_DPAD_DOWN :: nat where "RP_PAD_DPAD_DOWN = 11"
definition RP_PAD_DPAD_LEFT :: nat where "RP_PAD_DPAD_LEFT = 12"
definition RP_PAD_DPAD_RIGHT :: nat where "RP_PAD_DPAD_RIGHT = 13"
definition RP_PAD_GUIDE :: nat where "RP_PAD_GUIDE = 14"
definition RP_AXIS_LEFT_X :: nat where "RP_AXIS_LEFT_X = 0"
definition RP_AXIS_LEFT_Y :: nat where "RP_AXIS_LEFT_Y = 1"
definition RP_AXIS_RIGHT_X :: nat where "RP_AXIS_RIGHT_X = 2"
definition RP_AXIS_RIGHT_Y :: nat where "RP_AXIS_RIGHT_Y = 3"
definition RP_AXIS_LEFT_TRIGGER :: nat where "RP_AXIS_LEFT_TRIGGER = 4"
definition RP_AXIS_RIGHT_TRIGGER :: nat where "RP_AXIS_RIGHT_TRIGGER = 5"

lemmas pad_defs =
  RP_PAD_A_def RP_PAD_B_def RP_PAD_X_def RP_PAD_Y_def RP_PAD_L_def RP_PAD_R_def
  RP_PAD_SELECT_def RP_PAD_START_def RP_PAD_L3_def RP_PAD_R3_def RP_PAD_DPAD_UP_def
  RP_PAD_DPAD_DOWN_def RP_PAD_DPAD_LEFT_def RP_PAD_DPAD_RIGHT_def RP_PAD_GUIDE_def
  RP_AXIS_LEFT_X_def RP_AXIS_LEFT_Y_def RP_AXIS_RIGHT_X_def RP_AXIS_RIGHT_Y_def
  RP_AXIS_LEFT_TRIGGER_def RP_AXIS_RIGHT_TRIGGER_def

record rp_av_info =
  av_fps :: rat
  av_sample_rate :: rat
  base_width :: u32
  base_height :: u32
  max_width :: u32
  max_height :: u32
  pixel_format :: u32

record rp_surface_desc =
  sd_index :: u32
  sd_width :: u32
  sd_height :: u32
  sd_format :: u32
  sd_shared_handle :: "nat option"
  sd_generation :: u64

record rp_surface_set =
  ss_count :: u32
  ss_surfaces :: "rp_surface_desc list"
  ss_sync_handle :: "nat option"
  ss_device_uuid :: bytes
  ss_consume_sync_handle :: "nat option"

record rp_core_info =
  ci_abi_version :: u32
  ci_type :: u32
  ci_graphics_api :: u32
  ci_id :: string

text \<open>
  The callbacks of \<open>rp_host_iface\<close> a core can make. \<open>HVideo None\<close> is a refresh with a null data
  pointer (a duplicate frame); \<open>HAudio None\<close> is an audio call with a null pointer.
\<close>

datatype host_call =
    HLog
  | HSubmit u32 u64 u64
  | HInput u32
  | HVideo "bytes option" u32 u32 u32
  | HAudio "16 word list option" nat
  | HVideoGL u32 u32 u32 bool

record host_view =
  hv_input :: "u32 \<Rightarrow> rp_input_state"
  hv_gl_context :: "nat option"

record 'c rp_core_abi =
  ca_abi_version :: u32
  ca_get_info :: "rp_core_info option"
  ca_create :: "(host_view \<Rightarrow> 'c option) option"
  ca_has_destroy :: bool
  ca_set_surfaces :: "('c \<Rightarrow> rp_surface_set \<Rightarrow> 'c \<times> rp_result) option"
  ca_start :: "('c \<Rightarrow> 'c \<times> rp_result) option"
  ca_stop :: "('c \<Rightarrow> 'c \<times> rp_result) option"
  ca_get_av_info :: "('c \<Rightarrow> rp_av_info) option"
  ca_run_frame :: "('c \<Rightarrow> host_view \<Rightarrow> 'c \<times> host_call list) option"
  ca_serialize_size :: "('c \<Rightarrow> nat) option"
  ca_serialize :: "('c \<Rightarrow> bytes \<Rightarrow> rp_result \<times> bytes) option"
  ca_unserialize :: "('c \<Rightarrow> bytes \<Rightarrow> 'c \<times> rp_result) option"
  ca_load_content :: "('c \<Rightarrow> host_view \<Rightarrow> string \<Rightarrow> 'c \<times> rp_result) option"
  ca_core_options_json :: "('c \<Rightarrow> 'c \<times> string option) option"
  ca_core_option_get :: "('c \<Rightarrow> string option \<Rightarrow> 'c \<times> string option) option"
  ca_core_option_set :: "('c \<Rightarrow> string option \<Rightarrow> string option \<Rightarrow> 'c \<times> rp_result) option"

end
