(* ===== verification/RP_Loader.thy ===== *)
theory RP_Loader
  imports RP_Abi
begin

text \<open>
  Loading cores: \<open>src/loader/\<close>. The manifest parser (on top of a JSON parser that is a parameter), the
  registry of statically linked cores, the two kinds of core module, and \<open>CoreLoader\<close>, the state
  machine every call into a core goes through.

  The loader record carries, beside the fields of the class, the calls it has made into the core
  (\<open>ld_calls\<close>); the class does not keep them. The protocol theorem reads them: whatever sequence of
  operations a client issues, a core sees create, start, stop and destroy in an order that respects
  its lifecycle.
\<close>

section \<open>Manifest\<close>

text \<open>A parsed JSON document, as far as the code looks into it.\<close>

datatype json = JNull | JBool bool | JUnsigned nat | JNumber rat | JString string | JArray "json list"
  | JObject "(string \<times> json) list"

definition json_get :: "json \<Rightarrow> string \<Rightarrow> json option" where
  "json_get j key = (case j of JObject kvs \<Rightarrow> map_of kvs key | _ \<Rightarrow> None)"

definition as_string :: "json \<Rightarrow> string \<Rightarrow> string option" where
  "as_string j key = (case json_get j key of Some (JString s) \<Rightarrow> Some s | _ \<Rightarrow> None)"

record CoreManifest =
  m_id :: string
  m_name :: string
  m_entry :: string
  m_type :: rp_core_type
  m_graphics_api :: rp_graphics_api
  m_abi_version :: u32

text \<open>\<open>get<uint32_t>()\<close> on an unsigned JSON number keeps its low 32 bits.\<close>

definition parse_manifest ::
  "(string \<Rightarrow> json option) \<Rightarrow> string \<Rightarrow> rp_result + CoreManifest" where
  "parse_manifest json_parse txt =
     (case json_parse txt of
        None \<Rightarrow> Inl RP_ERR_BAD_ARG
      | Some j \<Rightarrow>
         (case as_string j ''id'' of None \<Rightarrow> Inl RP_ERR_BAD_ARG | Some i \<Rightarrow>
          case as_string j ''name'' of None \<Rightarrow> Inl RP_ERR_BAD_ARG | Some n \<Rightarrow>
          case as_string j ''entry'' of None \<Rightarrow> Inl RP_ERR_BAD_ARG | Some e \<Rightarrow>
          case as_string j ''type'' of None \<Rightarrow> Inl RP_ERR_BAD_ARG | Some type_s \<Rightarrow>
          case as_string j ''graphics_api'' of None \<Rightarrow> Inl RP_ERR_BAD_ARG | Some gfx_s \<Rightarrow>
          case json_get j ''abi_version'' of
            Some (JUnsigned v) \<Rightarrow>
              (case (if type_s = ''presenting'' then Some RP_CORE_PRESENTING
                     else if type_s = ''driven'' then Some RP_CORE_DRIVEN else None) of
                 None \<Rightarrow> Inl RP_ERR_BAD_ARG
               | Some ty \<Rightarrow>
                   (case (if gfx_s = ''d3d11'' then Some RP_GFX_D3D11
                          else if gfx_s = ''vulkan'' then Some RP_GFX_VULKAN
                          else if gfx_s = ''none'' then Some RP_GFX_NONE else None) of
                      None \<Rightarrow> Inl RP_ERR_BAD_ARG
                    | Some gfx \<Rightarrow> Inr \<lparr>m_id = i, m_name = n, m_entry = e, m_type = ty,
                                      m_graphics_api = gfx, m_abi_version = of_nat v\<rparr>))
          | _ \<Rightarrow> Inl RP_ERR_BAD_ARG))"

section \<open>Registry and modules\<close>

text \<open>A getter is the function \<open>rp_get_core_abi\<close> of a core; it may return a null table, and a registry
  entry or a resolved symbol may itself be null.\<close>

type_synonym 'c getter = "'c rp_core_abi option"

type_synonym 'c core_module = "string \<Rightarrow> 'c getter option"

type_synonym 'c registry = "(string \<times> 'c getter option) list"

definition register_core :: "'c registry \<Rightarrow> string \<Rightarrow> 'c getter option \<Rightarrow> 'c registry" where
  "register_core r i g = (i, g) # filter (\<lambda>(k, _). k \<noteq> i) r"

definition registry_has :: "'c registry \<Rightarrow> string \<Rightarrow> bool" where
  "registry_has r i \<longleftrightarrow> map_of r i \<noteq> None"

definition registry_get :: "'c registry \<Rightarrow> string \<Rightarrow> 'c getter option" where
  "registry_get r i = (case map_of r i of None \<Rightarrow> None | Some g \<Rightarrow> g)"

definition StaticCoreModule_resolve :: "'c getter option \<Rightarrow> 'c core_module" where
  "StaticCoreModule_resolve g symbol = (if symbol = RP_CORE_ABI_EXPORT_NAME then g else None)"

text \<open>
  \<open>Win32CoreModule::open\<close>: the dynamic linker is a parameter, mapping a path to the symbols of the
  library it loads.
\<close>

definition Win32CoreModule_open ::
  "(string \<Rightarrow> 'c core_module option) \<Rightarrow> string \<Rightarrow> rp_result + 'c core_module" where
  "Win32CoreModule_open dlopen path =
     (case dlopen path of None \<Rightarrow> Inl RP_ERR_NOT_FOUND | Some h \<Rightarrow> Inr h)"

section \<open>The loader\<close>

datatype LoaderState = Unloaded | Loaded | Created | Started

text \<open>The calls into a core. That of \<open>create\<close> says whether it returned an instance, and whether the table it
  belongs to has a \<open>stop\<close> and a \<open>destroy\<close>: both may be missing.\<close>

datatype abi_call =
    AC_create bool bool bool
  | AC_set_surfaces
  | AC_start rp_result
  | AC_stop
  | AC_use
  | AC_destroy

record 'c CoreLoader =
  ld_state :: LoaderState
  ld_module :: bool
  ld_abi :: "'c rp_core_abi option"
  ld_core :: "'c option"
  ld_calls :: "abi_call list"

definition CoreLoader_new :: "'c CoreLoader" where
  "CoreLoader_new = \<lparr>ld_state = Unloaded, ld_module = False, ld_abi = None, ld_core = None,
                     ld_calls = []\<rparr>"

definition ld_call :: "abi_call \<Rightarrow> 'c CoreLoader \<Rightarrow> 'c CoreLoader" where
  "ld_call c ld = ld\<lparr>ld_calls := ld_calls ld @ [c]\<rparr>"

definition live_state :: "LoaderState \<Rightarrow> bool" where
  "live_state s \<longleftrightarrow> s = Created \<or> s = Started"

abbreviation abi_of :: "'c CoreLoader \<Rightarrow> 'c rp_core_abi" where
  "abi_of ld \<equiv> the (ld_abi ld)"

definition can_stop :: "'c CoreLoader \<Rightarrow> bool" where
  "can_stop ld \<longleftrightarrow> ca_stop (abi_of ld) \<noteq> None"

definition can_destroy :: "'c CoreLoader \<Rightarrow> bool" where
  "can_destroy ld \<longleftrightarrow> ca_has_destroy (abi_of ld)"

abbreviation core_of :: "'c CoreLoader \<Rightarrow> 'c" where
  "core_of ld \<equiv> the (ld_core ld)"

definition loader_load :: "'c CoreLoader \<Rightarrow> 'c core_module option \<Rightarrow> 'c CoreLoader \<times> rp_result" where
  "loader_load ld modul =
     (if ld_state ld \<noteq> Unloaded then (ld, RP_ERR_INTERNAL)
      else case modul of
        None \<Rightarrow> (ld, RP_ERR_BAD_ARG)
      | Some resolve \<Rightarrow>
          (case resolve RP_CORE_ABI_EXPORT_NAME of
             None \<Rightarrow> (ld, RP_ERR_NOT_FOUND)
           | Some None \<Rightarrow> (ld, RP_ERR_INTERNAL)
           | Some (Some abi) \<Rightarrow>
               if ca_abi_version abi \<noteq> RETROPARK_ABI_VERSION then (ld, RP_ERR_ABI_MISMATCH)
               else (ld\<lparr>ld_module := True, ld_abi := Some abi, ld_state := Loaded\<rparr>, RP_OK)))"

definition loader_create :: "'c CoreLoader \<Rightarrow> host_view \<Rightarrow> 'c CoreLoader \<times> rp_result" where
  "loader_create ld host =
     (if ld_state ld \<noteq> Loaded then (ld, RP_ERR_INTERNAL)
      else case ca_create (abi_of ld) of
        None \<Rightarrow> (ld, RP_ERR_INTERNAL)
      | Some create \<Rightarrow>
          (case create host of
             None \<Rightarrow> (ld_call (AC_create False (can_stop ld) (can_destroy ld)) (ld\<lparr>ld_core := None\<rparr>), RP_ERR_INTERNAL)
           | Some c \<Rightarrow>
               (ld_call (AC_create True (can_stop ld) (can_destroy ld)) (ld\<lparr>ld_core := Some c, ld_state := Created\<rparr>), RP_OK)))"

definition loader_set_surfaces ::
  "'c CoreLoader \<Rightarrow> rp_surface_set \<Rightarrow> 'c CoreLoader \<times> rp_result" where
  "loader_set_surfaces ld sset =
     (if ld_state ld \<noteq> Created then (ld, RP_ERR_INTERNAL)
      else case ca_set_surfaces (abi_of ld) of
        None \<Rightarrow> (ld, RP_ERR_UNSUPPORTED)
      | Some f \<Rightarrow> (case f (core_of ld) sset of (c, r) \<Rightarrow>
                    (ld_call AC_set_surfaces (ld\<lparr>ld_core := Some c\<rparr>), r)))"

definition loader_start :: "'c CoreLoader \<Rightarrow> 'c CoreLoader \<times> rp_result" where
  "loader_start ld =
     (if ld_state ld \<noteq> Created then (ld, RP_ERR_INTERNAL)
      else case ca_start (abi_of ld) of
        None \<Rightarrow> (ld, RP_ERR_UNSUPPORTED)
      | Some f \<Rightarrow> (case f (core_of ld) of (c, r) \<Rightarrow>
                    let ld = ld_call (AC_start r) (ld\<lparr>ld_core := Some c\<rparr>)
                    in (if r = RP_OK then ld\<lparr>ld_state := Started\<rparr> else ld, r)))"

definition loader_stop :: "'c CoreLoader \<Rightarrow> 'c CoreLoader \<times> rp_result" where
  "loader_stop ld =
     (if ld_state ld \<noteq> Started then (ld, RP_ERR_INTERNAL)
      else case ca_stop (abi_of ld) of
        None \<Rightarrow> (ld\<lparr>ld_state := Created\<rparr>, RP_OK)
      | Some f \<Rightarrow> (case f (core_of ld) of (c, r) \<Rightarrow>
                    (ld_call AC_stop (ld\<lparr>ld_core := Some c, ld_state := Created\<rparr>), r)))"

text \<open>The callbacks the core makes while it runs the frame come back with the result.\<close>

definition loader_run_frame ::
  "'c CoreLoader \<Rightarrow> host_view \<Rightarrow> 'c CoreLoader \<times> rp_result \<times> host_call list" where
  "loader_run_frame ld host =
     (if \<not> live_state (ld_state ld) then (ld, RP_ERR_INTERNAL, [])
      else case ca_run_frame (abi_of ld) of
        None \<Rightarrow> (ld, RP_ERR_UNSUPPORTED, [])
      | Some f \<Rightarrow> (case f (core_of ld) host of (c, hcs) \<Rightarrow>
                    (ld_call AC_use (ld\<lparr>ld_core := Some c\<rparr>), RP_OK, hcs)))"

definition loader_get_av_info :: "'c CoreLoader \<Rightarrow> 'c CoreLoader \<times> (rp_result + rp_av_info)" where
  "loader_get_av_info ld =
     (if \<not> live_state (ld_state ld) then (ld, Inl RP_ERR_INTERNAL)
      else case ca_get_av_info (abi_of ld) of
        None \<Rightarrow> (ld, Inl RP_ERR_UNSUPPORTED)
      | Some f \<Rightarrow> (ld_call AC_use ld, Inr (f (core_of ld))))"

definition loader_serialize_size :: "'c CoreLoader \<Rightarrow> 'c CoreLoader \<times> nat" where
  "loader_serialize_size ld =
     (if \<not> live_state (ld_state ld) then (ld, 0)
      else case ld_abi ld of None \<Rightarrow> (ld, 0)
      | Some abi \<Rightarrow> (case ca_serialize_size abi of
                      None \<Rightarrow> (ld, 0)
                    | Some f \<Rightarrow> (ld_call AC_use ld, f (core_of ld))))"

text \<open>The buffer is the caller's; the core returns it rewritten.\<close>

definition loader_serialize :: "'c CoreLoader \<Rightarrow> bytes \<Rightarrow> 'c CoreLoader \<times> rp_result \<times> bytes" where
  "loader_serialize ld buf =
     (if \<not> live_state (ld_state ld) then (ld, RP_ERR_INTERNAL, buf)
      else case ca_serialize (abi_of ld) of
        None \<Rightarrow> (ld, RP_ERR_UNSUPPORTED, buf)
      | Some f \<Rightarrow> (ld_call AC_use ld, f (core_of ld) buf))"

definition loader_unserialize :: "'c CoreLoader \<Rightarrow> bytes \<Rightarrow> 'c CoreLoader \<times> rp_result" where
  "loader_unserialize ld buf =
     (if \<not> live_state (ld_state ld) then (ld, RP_ERR_INTERNAL)
      else case ca_unserialize (abi_of ld) of
        None \<Rightarrow> (ld, RP_ERR_UNSUPPORTED)
      | Some f \<Rightarrow> (case f (core_of ld) buf of (c, r) \<Rightarrow>
                    (ld_call AC_use (ld\<lparr>ld_core := Some c\<rparr>), r)))"

definition loader_load_content ::
  "'c CoreLoader \<Rightarrow> host_view \<Rightarrow> string \<Rightarrow> 'c CoreLoader \<times> rp_result" where
  "loader_load_content ld host path =
     (if \<not> live_state (ld_state ld) then (ld, RP_ERR_INTERNAL)
      else case ca_load_content (abi_of ld) of
        None \<Rightarrow> (ld, RP_ERR_UNSUPPORTED)
      | Some f \<Rightarrow> (case f (core_of ld) host path of (c, r) \<Rightarrow>
                    (ld_call AC_use (ld\<lparr>ld_core := Some c\<rparr>), r)))"

definition loader_core_options_json :: "'c CoreLoader \<Rightarrow> 'c CoreLoader \<times> string" where
  "loader_core_options_json ld =
     (if \<not> live_state (ld_state ld) then (ld, ''[]'')
      else case ld_abi ld of None \<Rightarrow> (ld, ''[]'')
      | Some abi \<Rightarrow>
          (case ca_core_options_json abi of
             None \<Rightarrow> (ld, ''[]'')
           | Some f \<Rightarrow> (case f (core_of ld) of (c, j) \<Rightarrow>
                         (ld_call AC_use (ld\<lparr>ld_core := Some c\<rparr>),
                          case j of None \<Rightarrow> ''[]'' | Some s \<Rightarrow> s))))"

definition loader_core_option_get ::
  "'c CoreLoader \<Rightarrow> string option \<Rightarrow> 'c CoreLoader \<times> string option" where
  "loader_core_option_get ld key =
     (if \<not> live_state (ld_state ld) then (ld, None)
      else case ld_abi ld of None \<Rightarrow> (ld, None)
      | Some abi \<Rightarrow>
          (case ca_core_option_get abi of
             None \<Rightarrow> (ld, None)
           | Some f \<Rightarrow> (case f (core_of ld) key of (c, v) \<Rightarrow>
                         (ld_call AC_use (ld\<lparr>ld_core := Some c\<rparr>), v))))"

definition loader_core_option_set ::
  "'c CoreLoader \<Rightarrow> string option \<Rightarrow> string option \<Rightarrow> 'c CoreLoader \<times> rp_result" where
  "loader_core_option_set ld key value =
     (if \<not> live_state (ld_state ld) then (ld, RP_ERR_UNSUPPORTED)
      else case ld_abi ld of None \<Rightarrow> (ld, RP_ERR_UNSUPPORTED)
      | Some abi \<Rightarrow>
          (case ca_core_option_set abi of
             None \<Rightarrow> (ld, RP_ERR_UNSUPPORTED)
           | Some f \<Rightarrow> (case f (core_of ld) key value of (c, r) \<Rightarrow>
                         (ld_call AC_use (ld\<lparr>ld_core := Some c\<rparr>), r))))"

text \<open>An instance whose table has no \<open>destroy\<close> is not told: its pointer is only dropped.\<close>

definition loader_destroy :: "'c CoreLoader \<Rightarrow> 'c CoreLoader" where
  "loader_destroy ld =
     (let ld = (if ld_state ld = Started then fst (loader_stop ld) else ld);
          ld = (if ld_core ld \<noteq> None \<and> ld_abi ld \<noteq> None \<and> can_destroy ld then ld_call AC_destroy ld else ld)
      in ld\<lparr>ld_core := None, ld_abi := None, ld_module := False, ld_state := Unloaded\<rparr>)"

definition has_load_content :: "'c CoreLoader \<Rightarrow> bool" where
  "has_load_content ld \<longleftrightarrow> (case ld_abi ld of None \<Rightarrow> False | Some abi \<Rightarrow> ca_load_content abi \<noteq> None)"

section \<open>Invariant and protocol\<close>

definition loader_inv :: "'c CoreLoader \<Rightarrow> bool" where
  "loader_inv ld \<longleftrightarrow>
     (ld_abi ld = None \<longleftrightarrow> ld_state ld = Unloaded) \<and>
     (ld_core ld = None \<longleftrightarrow> \<not> live_state (ld_state ld)) \<and>
     (ld_module ld \<longleftrightarrow> ld_state ld \<noteq> Unloaded) \<and>
     (ld_state ld \<noteq> Unloaded \<longrightarrow> ca_abi_version (abi_of ld) = RETROPARK_ABI_VERSION)"

datatype 'c loader_op =
    OLoad "'c core_module option"
  | OCreate host_view
  | OSet_surfaces rp_surface_set
  | OStart
  | OStop
  | ORun_frame host_view
  | OGet_av_info
  | OSerialize_size
  | OSerialize bytes
  | OUnserialize bytes
  | OLoad_content host_view string
  | OOptions_json
  | OOption_get "string option"
  | OOption_set "string option" "string option"
  | ODestroy

fun loader_step :: "'c loader_op \<Rightarrow> 'c CoreLoader \<Rightarrow> 'c CoreLoader" where
  "loader_step (OLoad m) ld = fst (loader_load ld m)"
| "loader_step (OCreate h) ld = fst (loader_create ld h)"
| "loader_step (OSet_surfaces s) ld = fst (loader_set_surfaces ld s)"
| "loader_step OStart ld = fst (loader_start ld)"
| "loader_step OStop ld = fst (loader_stop ld)"
| "loader_step (ORun_frame h) ld = fst (loader_run_frame ld h)"
| "loader_step OGet_av_info ld = fst (loader_get_av_info ld)"
| "loader_step OSerialize_size ld = fst (loader_serialize_size ld)"
| "loader_step (OSerialize b) ld = fst (loader_serialize ld b)"
| "loader_step (OUnserialize b) ld = fst (loader_unserialize ld b)"
| "loader_step (OLoad_content h p) ld = fst (loader_load_content ld h p)"
| "loader_step OOptions_json ld = fst (loader_core_options_json ld)"
| "loader_step (OOption_get k) ld = fst (loader_core_option_get ld k)"
| "loader_step (OOption_set k v) ld = fst (loader_core_option_set ld k v)"
| "loader_step ODestroy ld = loader_destroy ld"

text \<open>
  The lifecycle a core may rely on: no instance, an instance that is not running, an instance that is
  running, the last two with whether it can be told to stop and to go. Surfaces are handed over, the
  instance is started and it is destroyed only while it is not running. An instance that cannot be
  told to stop may get these calls after its start as well; one that cannot be told to go may be
  followed by another.
\<close>

datatype phase = NoCore | Idle bool bool | Running bool bool

fun idle_protocol :: "bool \<Rightarrow> bool \<Rightarrow> abi_call \<Rightarrow> phase option" where
  "idle_protocol st ds AC_set_surfaces = Some (Idle st ds)"
| "idle_protocol st ds (AC_start r) = Some (if r = RP_OK then Running st ds else Idle st ds)"
| "idle_protocol st ds AC_use = Some (Idle st ds)"
| "idle_protocol st ds AC_stop = None"
| "idle_protocol st ds AC_destroy = (if ds then Some NoCore else None)"
| "idle_protocol st ds (AC_create ok st' ds') = (if ds then None else Some (if ok then Idle st' ds' else NoCore))"

fun protocol :: "phase \<Rightarrow> abi_call \<Rightarrow> phase option" where
  "protocol NoCore (AC_create ok st ds) = Some (if ok then Idle st ds else NoCore)"
| "protocol NoCore c = None"
| "protocol (Idle st ds) c = idle_protocol st ds c"
| "protocol (Running st ds) AC_use = Some (Running st ds)"
| "protocol (Running st ds) AC_stop = (if st then Some (Idle st ds) else None)"
| "protocol (Running st ds) c = (if st then None else idle_protocol st ds c)"

fun protocol_run :: "phase \<Rightarrow> abi_call list \<Rightarrow> phase option" where
  "protocol_run p [] = Some p"
| "protocol_run p (c # cs) = (case protocol p c of None \<Rightarrow> None | Some p' \<Rightarrow> protocol_run p' cs)"

text \<open>The phases the calls may have left a core in, by the state of its loader.\<close>

definition phases_of :: "'c CoreLoader \<Rightarrow> phase set" where
  "phases_of ld =
     (case ld_state ld of
        Started \<Rightarrow> {Running (can_stop ld) (can_destroy ld)}
      | Created \<Rightarrow> insert (Idle (can_stop ld) (can_destroy ld)) (if can_stop ld then {} else {Running False (can_destroy ld)})
      | _ \<Rightarrow> {NoCore, Idle True False, Idle False False, Running False False})"

definition loader_good :: "'c CoreLoader \<Rightarrow> bool" where
  "loader_good ld \<longleftrightarrow>
     loader_inv ld \<and> protocol_run NoCore (ld_calls ld) \<in> Some ` phases_of ld"

lemma protocol_run_snoc [simp]:
  "protocol_run p (cs @ [c]) =
     (case protocol_run p cs of None \<Rightarrow> None | Some p' \<Rightarrow> protocol p' c)"
  by (induction cs arbitrary: p) (auto split: option.splits)

lemmas loader_defs = loader_good_def loader_inv_def live_state_def ld_call_def phases_of_def can_stop_def
  can_destroy_def

lemma loader_good_new [simp]: "loader_good CoreLoader_new"
  by (simp add: loader_defs CoreLoader_new_def)

lemma loader_good_load: "loader_good ld \<Longrightarrow> loader_good (fst (loader_load ld m))"
  by (cases "ld_state ld") (auto simp: loader_load_def loader_defs split: option.splits)

lemma loader_good_create: "loader_good ld \<Longrightarrow> loader_good (fst (loader_create ld h))"
  by (cases "ld_state ld") (auto simp: loader_create_def loader_defs split: option.splits)

lemma loader_good_set_surfaces: "loader_good ld \<Longrightarrow> loader_good (fst (loader_set_surfaces ld s))"
  by (cases "ld_state ld") (auto simp: loader_set_surfaces_def loader_defs split: option.splits prod.splits)

lemma loader_good_start: "loader_good ld \<Longrightarrow> loader_good (fst (loader_start ld))"
  by (cases "ld_state ld") (auto simp: loader_start_def loader_defs Let_def split: option.splits prod.splits)

lemma loader_good_stop: "loader_good ld \<Longrightarrow> loader_good (fst (loader_stop ld))"
  by (cases "ld_state ld") (auto simp: loader_stop_def loader_defs split: option.splits prod.splits)

text \<open>Every call that only uses a live instance keeps the invariant.\<close>

lemma loader_good_use:
  "loader_good ld \<Longrightarrow> live_state (ld_state ld) \<Longrightarrow> loader_good (ld_call AC_use (ld\<lparr>ld_core := Some c\<rparr>))"
  by (cases "ld_state ld") (auto simp: loader_defs)

lemma loader_good_read:
  "loader_good ld \<Longrightarrow> live_state (ld_state ld) \<Longrightarrow> loader_good (ld_call AC_use ld)"
  by (cases "ld_state ld") (auto simp: loader_defs)

lemmas loader_use_defs = loader_run_frame_def loader_get_av_info_def loader_serialize_size_def
  loader_serialize_def loader_unserialize_def loader_load_content_def loader_core_options_json_def
  loader_core_option_get_def loader_core_option_set_def

lemma loader_stop_Started:
  "ld_state ld = Started \<Longrightarrow> ld_state (fst (loader_stop ld)) = Created"
  by (auto simp: loader_stop_def ld_call_def split: option.splits prod.splits)

lemma loader_good_destroy: "loader_good ld \<Longrightarrow> loader_good (loader_destroy ld)"
proof -
  assume good: "loader_good ld"
  define ld' where "ld' = (if ld_state ld = Started then fst (loader_stop ld) else ld)"
  have "loader_good ld'" "ld_state ld' \<noteq> Started"
    using good loader_good_stop [OF good] loader_stop_Started [of ld] by (auto simp: ld'_def)
  moreover have "loader_destroy ld =
      (if ld_core ld' \<noteq> None \<and> ld_abi ld' \<noteq> None \<and> can_destroy ld' then ld_call AC_destroy ld' else ld')
        \<lparr>ld_core := None, ld_abi := None, ld_module := False, ld_state := Unloaded\<rparr>"
    by (simp only: loader_destroy_def ld'_def Let_def)
  ultimately show ?thesis
    by (cases "ld_state ld'"; cases "can_stop ld'") (auto simp: loader_defs)
qed

lemma loader_good_step: "loader_good ld \<Longrightarrow> loader_good (loader_step op ld)"
  by (cases op)
    (auto simp: loader_use_defs loader_good_load loader_good_create loader_good_set_surfaces
      loader_good_start loader_good_stop loader_good_destroy
      intro: loader_good_use loader_good_read split: option.splits prod.splits)

text \<open>
  C14. Whatever sequence of operations a client issues on a loader, and whatever the core answers,
  the calls that reach the core follow its lifecycle: an instance is created only when the one before
  has been destroyed (or cannot be, its table having no \<open>destroy\<close>), it is started, given surfaces and
  destroyed only while not running and stopped only while running (unless its table has no \<open>stop\<close>:
  then it gets no such call, and may get the others after its start), and it is never used before
  creation or after destruction. The phase the calls have left the core in is one the loader's
  state stands for.
\<close>

theorem loader_protocol:
  "protocol_run NoCore (ld_calls (fold loader_step ops CoreLoader_new)) \<in>
     Some ` phases_of (fold loader_step ops CoreLoader_new)"
proof -
  have "loader_good ld \<Longrightarrow> loader_good (fold loader_step ops ld)" for ld :: "'a CoreLoader"
    by (induction ops arbitrary: ld) (simp_all add: loader_good_step)
  then show ?thesis
    using loader_good_new by (auto simp: loader_good_def)
qed

text \<open>
  A manifest is accepted exactly when the document parses to an object whose five text fields
  are strings, whose ABI version is an unsigned number, and whose type and graphics API are known
  names; the result carries those fields, and every other document is refused with
  \<open>RP_ERR_BAD_ARG\<close>.
\<close>

theorem parse_manifest_iff:
  "parse_manifest json_parse txt =
     (if \<exists>j i n e ty g v. json_parse txt = Some j \<and> as_string j ''id'' = Some i \<and>
            as_string j ''name'' = Some n \<and> as_string j ''entry'' = Some e \<and>
            as_string j ''type'' = Some ty \<and> as_string j ''graphics_api'' = Some g \<and>
            json_get j ''abi_version'' = Some (JUnsigned v) \<and>
            ty \<in> {''presenting'', ''driven''} \<and> g \<in> {''d3d11'', ''vulkan'', ''none''}
      then let j = the (json_parse txt) in
           Inr \<lparr>m_id = the (as_string j ''id''), m_name = the (as_string j ''name''),
                m_entry = the (as_string j ''entry''),
                m_type = (if as_string j ''type'' = Some ''driven'' then RP_CORE_DRIVEN
                          else RP_CORE_PRESENTING),
                m_graphics_api = (if as_string j ''graphics_api'' = Some ''d3d11'' then RP_GFX_D3D11
                                  else if as_string j ''graphics_api'' = Some ''vulkan''
                                  then RP_GFX_VULKAN else RP_GFX_NONE),
                m_abi_version = (case json_get j ''abi_version'' of
                                   Some (JUnsigned v) \<Rightarrow> of_nat v | _ \<Rightarrow> 0)\<rparr>
      else Inl RP_ERR_BAD_ARG)"
  by (auto simp: parse_manifest_def Let_def split: option.splits json.splits)

lemma registry_get_register:
  "registry_get (register_core r i g) k = (if k = i then g else registry_get r k)"
proof -
  have "k \<noteq> i \<Longrightarrow> map_of (filter (\<lambda>(k, _). k \<noteq> i) r) k = map_of r k"
    by (induction r) auto
  then show ?thesis
    by (auto simp: registry_get_def register_core_def)
qed

lemma registry_has_register:
  "registry_has (register_core r i g) k \<longleftrightarrow> k = i \<or> registry_has r k"
proof -
  have "k \<noteq> i \<Longrightarrow> map_of (filter (\<lambda>(k, _). k \<noteq> i) r) k = map_of r k"
    by (induction r) auto
  then show ?thesis
    by (auto simp: registry_has_def register_core_def)
qed

end
