(* ===== verification/RP_SurfaceRing.thy ===== *)
theory RP_SurfaceRing
  imports RP_Abi
begin

text \<open>
  The ring of shared surfaces of \<open>src/render/SurfaceRing.{h,cpp}\<close>: the host reallocates it (a new
  generation), the core's render thread submits finished slots, and the present path reads the
  latest one. Widths and wrap-around of the counters are those of the source.

  The operations are modelled one call after another first. The last section splits the reader and
  the writer into their individual atomic loads and stores, because they run on two threads that
  share no lock.
\<close>

record SurfaceRing =
  slot_count :: u32
  ring_width :: u32
  ring_height :: u32
  generation :: u64
  producer_cursor :: u32
  has_ready :: bool
  ready_index :: u32
  ready_generation :: u64
  ready_sync :: u64

definition SurfaceRing_new :: "u32 \<Rightarrow> SurfaceRing" where
  "SurfaceRing_new n = \<lparr>slot_count = (if n = 0 then 1 else n), ring_width = 0, ring_height = 0,
     generation = 0, producer_cursor = 0, has_ready = False, ready_index = 0, ready_generation = 0,
     ready_sync = 0\<rparr>"

definition reallocate :: "SurfaceRing \<Rightarrow> u32 \<Rightarrow> u32 \<Rightarrow> SurfaceRing \<times> u64" where
  "reallocate r w h =
     (let r' = r\<lparr>ring_width := w, ring_height := h, generation := generation r + 1,
                 producer_cursor := 0, has_ready := False\<rparr>
      in (r', generation r'))"

definition next_producer_slot :: "SurfaceRing \<Rightarrow> SurfaceRing \<times> u32" where
  "next_producer_slot r =
     (r\<lparr>producer_cursor := (producer_cursor r + 1) mod slot_count r\<rparr>, producer_cursor r)"

definition accept_submit :: "SurfaceRing \<Rightarrow> u32 \<Rightarrow> u64 \<Rightarrow> u64 \<Rightarrow> SurfaceRing \<times> bool" where
  "accept_submit r index gen sync_value =
     (if gen \<noteq> generation r then (r, False)
      else if slot_count r \<le> index then (r, False)
      else (r\<lparr>ready_index := index, ready_generation := gen, ready_sync := sync_value,
              has_ready := True\<rparr>, True))"

definition latest_ready :: "SurfaceRing \<Rightarrow> (u32 \<times> u64) option" where
  "latest_ready r =
     (if \<not> has_ready r then None
      else if ready_generation r \<noteq> generation r then None
      else Some (ready_index r, ready_sync r))"

section \<open>Invariant\<close>

definition ring_inv :: "SurfaceRing \<Rightarrow> bool" where
  "ring_inv r \<longleftrightarrow> 0 < slot_count r \<and> producer_cursor r < slot_count r \<and>
     (has_ready r \<longrightarrow> ready_index r < slot_count r \<and> ready_generation r = generation r)"

lemma ring_inv_new [simp]: "ring_inv (SurfaceRing_new n)"
  by (simp add: ring_inv_def SurfaceRing_new_def word_gt_0)

lemma ring_inv_reallocate [simp]: "ring_inv r \<Longrightarrow> ring_inv (fst (reallocate r w h))"
  by (simp add: ring_inv_def reallocate_def)

lemma ring_inv_next [simp]: "ring_inv r \<Longrightarrow> ring_inv (fst (next_producer_slot r))"
  by (auto simp: ring_inv_def next_producer_slot_def word_less_nat_alt unat_mod_distrib)

lemma ring_inv_submit [simp]: "ring_inv r \<Longrightarrow> ring_inv (fst (accept_submit r i g s))"
  by (simp add: ring_inv_def accept_submit_def not_le)

section \<open>Sequences of calls\<close>

datatype ring_op = Realloc u32 u32 | NextSlot | Submit u32 u64 u64 | Latest

datatype ring_out = NewGeneration u64 | ProducerSlot u32 | Accepted bool | Ready "(u32 \<times> u64) option"

fun ring_call :: "SurfaceRing \<Rightarrow> ring_op \<Rightarrow> SurfaceRing \<times> ring_out" where
  "ring_call r (Realloc w h) = (case reallocate r w h of (r, g) \<Rightarrow> (r, NewGeneration g))"
| "ring_call r NextSlot = (case next_producer_slot r of (r, i) \<Rightarrow> (r, ProducerSlot i))"
| "ring_call r (Submit i g s) = (case accept_submit r i g s of (r, ok) \<Rightarrow> (r, Accepted ok))"
| "ring_call r Latest = (r, Ready (latest_ready r))"

fun ring_trace :: "SurfaceRing \<Rightarrow> ring_op list \<Rightarrow> ring_out list" where
  "ring_trace r [] = []"
| "ring_trace r (c # cs) = (case ring_call r c of (r, out) \<Rightarrow> out # ring_trace r cs)"

text \<open>
  What the ring promises, over a state of three values: how often it was reallocated, how many
  producer slots it has handed out since, and the frame accepted last since.
\<close>

fun ring_spec :: "nat \<Rightarrow> nat \<times> nat \<times> (u32 \<times> u64) option \<Rightarrow> ring_op \<Rightarrow> (nat \<times> nat \<times> (u32 \<times> u64) option) \<times> ring_out" where
  "ring_spec n (g, k, f) (Realloc w h) = ((g + 1, 0, None), NewGeneration (of_nat (g + 1)))"
| "ring_spec n (g, k, f) NextSlot = ((g, k + 1, f), ProducerSlot (of_nat (k mod n)))"
| "ring_spec n (g, k, f) (Submit i g' s) =
     (let ok = (g' = of_nat g \<and> unat i < n) in ((g, k, if ok then Some (i, s) else f), Accepted ok))"
| "ring_spec n (g, k, f) Latest = ((g, k, f), Ready f)"

fun ring_spec_trace :: "nat \<Rightarrow> nat \<times> nat \<times> (u32 \<times> u64) option \<Rightarrow> ring_op list \<Rightarrow> ring_out list" where
  "ring_spec_trace n a [] = []"
| "ring_spec_trace n a (c # cs) = (case ring_spec n a c of (a, out) \<Rightarrow> out # ring_spec_trace n a cs)"

fun ring_sim :: "nat \<Rightarrow> SurfaceRing \<Rightarrow> nat \<times> nat \<times> (u32 \<times> u64) option \<Rightarrow> bool" where
  "ring_sim n r (g, k, f) \<longleftrightarrow> ring_inv r \<and> unat (slot_count r) = n \<and> generation r = of_nat g \<and>
     unat (producer_cursor r) = k mod n \<and> latest_ready r = f"

lemma ring_next_cursor:
  assumes "c < (n :: u32)"
  shows "unat ((c + 1) mod n) = Suc (unat c) mod unat n"
proof -
  have "unat c < unat n" "unat n < 4294967296"
    using assms unsigned_less [of n] by (simp_all add: word_less_nat_alt)
  then have "Suc (unat c) < 4294967296"
    by linarith
  then have "unat (c + 1) = Suc (unat c)"
    by (simp add: unat_word_ariths)
  then show ?thesis
    by (simp add: unat_mod_distrib)
qed

lemma ring_call_sim:
  assumes "ring_sim n r a"
  shows "snd (ring_call r c) = snd (ring_spec n a c)" "ring_sim n (fst (ring_call r c)) (fst (ring_spec n a c))"
proof -
  obtain g k f where a: "a = (g, k, f)" by (cases a)
  have r: "ring_inv r" "unat (slot_count r) = n" "generation r = of_nat g" "unat (producer_cursor r) = k mod n"
      "latest_ready r = f"
    using assms by (simp_all add: a)
  have cur: "producer_cursor r < slot_count r" "producer_cursor r = of_nat (k mod n)"
    using r by (simp_all add: ring_inv_def flip: r(4))
  have lt: "slot_count r \<le> i \<longleftrightarrow> \<not> unat i < n" for i
    using r(2) by (simp add: word_le_nat_alt not_less)
  show "snd (ring_call r c) = snd (ring_spec n a c)"
    using r cur(2) lt unfolding a
    by (cases c) (simp_all add: reallocate_def next_producer_slot_def accept_submit_def Let_def add.commute)
  show "ring_sim n (fst (ring_call r c)) (fst (ring_spec n a c))"
  proof (cases c)
    case NextSlot
    have "unat ((producer_cursor r + 1) mod slot_count r) = Suc k mod n"
      using ring_next_cursor [OF cur(1)] r(2,4) by (simp add: mod_Suc_eq)
    with NextSlot r ring_inv_next [OF r(1)] show ?thesis
      by (auto simp: a next_producer_slot_def latest_ready_def)
  next
    case (Realloc w h)
    with r ring_inv_reallocate [OF r(1), of w h] show ?thesis
      by (simp add: a reallocate_def latest_ready_def add.commute)
  next
    case (Submit i g' s)
    show ?thesis
    proof (cases "g' = of_nat g \<and> unat i < n")
      case True
      then have e: "accept_submit r i g' s =
          (r\<lparr>ready_index := i, ready_generation := g', ready_sync := s, has_ready := True\<rparr>, True)"
        using r(3) lt by (simp add: accept_submit_def)
      have "ring_inv (r\<lparr>ready_index := i, ready_generation := g', ready_sync := s, has_ready := True\<rparr>)"
        using ring_inv_submit [OF r(1), of i g' s] unfolding e by simp
      with e True Submit r show ?thesis
        by (simp add: a latest_ready_def)
    next
      case False
      then have "accept_submit r i g' s = (r, False)"
        using r(3) lt by (auto simp: accept_submit_def)
      with False Submit assms show ?thesis by (auto simp: a)
    qed
  next
    case Latest
    with assms show ?thesis by (simp add: a)
  qed
qed

lemma ring_trace_sim: "ring_sim n r a \<Longrightarrow> ring_trace r cs = ring_spec_trace n a cs"
proof (induction cs arbitrary: r a)
  case (Cons c cs)
  with ring_call_sim [OF Cons.prems, of c] show ?case by (simp add: split_beta)
qed simp

text \<open>
  C17. Over any sequence of calls on a fresh ring, made one at a time, every result is the one of the
  specification: a reallocation returns the count of reallocations (in 64 bits, so it comes round
  again after 2^64 of them), producer slots are handed out round-robin from 0 after each
  reallocation, a submission is accepted exactly when it names the current generation and an
  existing slot, and the reader gets exactly the frame accepted last since the last reallocation,
  or none.
\<close>

theorem ring_refines:
  "ring_trace (SurfaceRing_new n) cs = ring_spec_trace (if n = 0 then 1 else unat n) (0, 0, None) cs"
  by (rule ring_trace_sim) (auto simp: SurfaceRing_new_def ring_inv_def latest_ready_def word_gt_0)

text \<open>
  A submission that carries a generation other than the current one leaves the ring as it was
  and is refused, so a core still holding surfaces from before a resize cannot publish them.
\<close>

lemma stale_submit_refused:
  "g \<noteq> generation r \<Longrightarrow> accept_submit r i g s = (r, False)"
  by (simp add: accept_submit_def)

lemma stale_submit_refused_witness:
  "accept_submit (fst (reallocate (SurfaceRing_new 3) 64 64)) 0 0 7 =
     (fst (reallocate (SurfaceRing_new 3) 64 64), False)"
  by (rule stale_submit_refused) (simp add: reallocate_def SurfaceRing_new_def)

section \<open>Reader and writer on two threads\<close>

text \<open>
  The writer publishes with three relaxed stores and a release store of \<open>has_ready_\<close>; the reader loads
  \<open>has_ready_\<close>, the generation, the slot index and the sync value. Each of them is an access of its
  own; the generation and the number of slots they are compared with do not change while the core
  runs.
\<close>

definition submit_allowed :: "SurfaceRing \<Rightarrow> u32 \<Rightarrow> u64 \<Rightarrow> bool" where
  "submit_allowed r index gen \<longleftrightarrow> gen = generation r \<and> index < slot_count r"

definition store_index :: "u32 \<Rightarrow> SurfaceRing \<Rightarrow> SurfaceRing" where
  "store_index index r = r\<lparr>ready_index := index\<rparr>"

definition store_generation :: "u64 \<Rightarrow> SurfaceRing \<Rightarrow> SurfaceRing" where
  "store_generation gen r = r\<lparr>ready_generation := gen\<rparr>"

definition store_sync :: "u64 \<Rightarrow> SurfaceRing \<Rightarrow> SurfaceRing" where
  "store_sync sync_value r = r\<lparr>ready_sync := sync_value\<rparr>"

definition store_flag :: "SurfaceRing \<Rightarrow> SurfaceRing" where
  "store_flag r = r\<lparr>has_ready := True\<rparr>"

definition load_generation_current :: "SurfaceRing \<Rightarrow> bool" where
  "load_generation_current r \<longleftrightarrow> ready_generation r = generation r"

lemmas ring_access_defs = store_index_def store_generation_def store_sync_def store_flag_def load_generation_current_def

text \<open>One call after another, the accesses are the two operations.\<close>

lemma accept_submit_stores:
  "accept_submit r index gen sync_value =
     (if submit_allowed r index gen
      then (store_flag (store_sync sync_value (store_generation gen (store_index index r))), True) else (r, False))"
  by (auto simp: accept_submit_def submit_allowed_def ring_access_defs)

lemma latest_ready_loads:
  "latest_ready r =
     (if has_ready r then if load_generation_current r then Some (ready_index r, ready_sync r) else None else None)"
  by (simp add: latest_ready_def ring_access_defs)

text \<open>
  The flag orders the first publication before the first read. It does not order a later one against
  a read under way, since the flag is set already: from a ring where frame \<open>(0, 10)\<close> was published, a
  reader overtaken by the submission of \<open>(1, 12)\<close> between its last two loads gets slot 0 with value
  12, and one that comes between the first two stores of that submission gets slot 1 with value 10;
  no core submitted either pair.
\<close>

lemma latest_ready_can_tear:
  "\<exists>r r' r''. r = fst (accept_submit (fst (reallocate (SurfaceRing_new 3) 64 64)) 0 1 10) \<and>
          r' = fst (accept_submit r 1 1 12) \<and> r'' = store_index 1 r \<and>
          latest_ready r = Some (0, 10) \<and> latest_ready r' = Some (1, 12) \<and>
          (ready_index r, ready_sync r') = (0, 12) \<and> latest_ready r'' = Some (1, 10)"
  by (simp add: accept_submit_def reallocate_def SurfaceRing_new_def latest_ready_def ring_access_defs word_le_nat_alt)

end
