(* ===== verification/RP_Framebuffer.thy ===== *)
theory RP_Framebuffer
  imports RP_Abi
begin

text \<open>
  \<open>src/render/FramebufferCopy.{h,cpp}\<close>: the validity test for a driven core's frame, and the
  row-by-row copy between buffers of different pitch. Memory is a byte list; a \<open>memcpy\<close> that would
  touch a byte outside either buffer is undefined behaviour, which the copy models as \<open>None\<close>.
\<close>

definition driven_frame_valid :: "u32 \<Rightarrow> u32 \<Rightarrow> u32 \<Rightarrow> u32 \<Rightarrow> u32 \<Rightarrow> bool" where
  "driven_frame_valid width height pitch maxw maxh =
     (if width = 0 \<or> height = 0 then False
      else if pitch < width * 4 then False
      else if maxw < width \<or> maxh < height then False
      else True)"

definition mem_copy :: "bytes \<Rightarrow> nat \<Rightarrow> bytes \<Rightarrow> nat \<Rightarrow> nat \<Rightarrow> bytes option" where
  "mem_copy dst doff src soff n =
     (if length dst < doff + n \<or> length src < soff + n then None
      else Some (take doff dst @ take n (drop soff src) @ drop (doff + n) dst))"

fun copy_rows :: "nat \<Rightarrow> nat \<Rightarrow> bytes \<Rightarrow> u32 \<Rightarrow> u32 \<Rightarrow> u32 \<Rightarrow> bytes \<Rightarrow> bytes option" where
  "copy_rows 0 y src row_bytes src_pitch dst_pitch dst = Some dst"
| "copy_rows (Suc k) y src row_bytes src_pitch dst_pitch dst =
     (case mem_copy dst (y * unat dst_pitch) src (y * unat src_pitch) (unat row_bytes) of
        None \<Rightarrow> None
      | Some dst' \<Rightarrow> copy_rows k (Suc y) src row_bytes src_pitch dst_pitch dst')"

definition copy_rgba8_rows :: "bytes \<Rightarrow> u32 \<Rightarrow> u32 \<Rightarrow> u32 \<Rightarrow> bytes \<Rightarrow> u32 \<Rightarrow> bytes option" where
  "copy_rgba8_rows src width height src_pitch dst dst_pitch =
     (if width = 0 \<or> height = 0 then Some dst
      else copy_rows (unat height) 0 src (width * 4) src_pitch dst_pitch dst)"

section \<open>Frame validity\<close>

text \<open>
  The validity test accepts exactly the frames with non-zero size inside the core's declared
  maximum whose pitch is at least \<open>4 * width\<close> computed modulo \<open>2 ^ 32\<close>.
\<close>

lemma driven_frame_valid_iff:
  "driven_frame_valid w h p mw mh \<longleftrightarrow>
     0 < unat w \<and> 0 < unat h \<and> unat w \<le> unat mw \<and> unat h \<le> unat mh \<and>
     (unat w * 4) mod 2 ^ 32 \<le> unat p"
proof -
  have "unat (w * 4) = (unat w * 4) mod 2 ^ 32"
    by (simp add: unat_word_ariths)
  then show ?thesis
    by (auto simp: driven_frame_valid_def word_less_nat_alt word_gt_0 unat_gt_0)
qed

text \<open>
  With a declared maximum width of \<open>2 ^ 30\<close> the product wraps to zero, and a frame of that width
  whose rows have pitch zero passes the test that is meant to reject it.
\<close>

lemma driven_frame_valid_wraps:
  "driven_frame_valid 0x40000000 1 0 0x40000000 1"
  by (simp add: driven_frame_valid_def)

section \<open>The row copy\<close>

lemma length_mem_copy: "mem_copy dst doff src soff n = Some d \<Longrightarrow> length d = length dst"
  by (auto simp: mem_copy_def split: if_splits)

lemma nth_mem_copy:
  assumes "mem_copy dst doff src soff n = Some d" "i < length dst"
  shows "d ! i = (if doff \<le> i \<and> i < doff + n then src ! (soff + (i - doff)) else dst ! i)"
proof -
  have b: "doff + n \<le> length dst" "soff + n \<le> length src"
    and d: "d = take doff dst @ take n (drop soff src) @ drop (doff + n) dst"
    using assms(1) by (auto simp: mem_copy_def split: if_splits)
  have "length (take doff dst) = doff" "length (take n (drop soff src)) = n"
    using b by simp_all
  then show ?thesis
    using assms(2) b by (auto simp: d nth_append)
qed

lemma copy_rows_inv:
  assumes "unat row \<le> unat dp" "(y + k - 1) * unat sp + unat row \<le> length src"
    "(y + k - 1) * unat dp + unat row \<le> length dst"
  shows "\<exists>d. copy_rows k y src row sp dp dst = Some d \<and> length d = length dst \<and>
    (\<forall>i < length dst. d ! i =
       (let r = i div unat dp; x = i mod unat dp
        in if y \<le> r \<and> r < y + k \<and> x < unat row then src ! (r * unat sp + x) else dst ! i))"
  using assms
proof (induction k arbitrary: y dst)
  case 0
  then show ?case by (auto simp: Let_def)
next
  case (Suc k)
  have "y * unat sp + unat row \<le> length src" "y * unat dp + unat row \<le> length dst"
    using Suc.prems(2,3) by (auto simp: add_mult_distrib)
  then obtain d1 where
      d1: "mem_copy dst (y * unat dp) src (y * unat sp) (unat row) = Some d1"
    by (auto simp: mem_copy_def)
  have len1: "length d1 = length dst"
    by (rule length_mem_copy [OF d1])
  have "\<exists>d. copy_rows k (Suc y) src row sp dp d1 = Some d \<and> length d = length d1 \<and>
    (\<forall>i < length d1. d ! i =
       (let r = i div unat dp; x = i mod unat dp
        in if Suc y \<le> r \<and> r < Suc y + k \<and> x < unat row then src ! (r * unat sp + x) else d1 ! i))"
    using Suc.prems len1 by (intro Suc.IH) simp_all
  then obtain d where d: "copy_rows k (Suc y) src row sp dp d1 = Some d" "length d = length d1"
    and nth: "\<And>i. i < length d1 \<Longrightarrow> d ! i =
       (let r = i div unat dp; x = i mod unat dp
        in if Suc y \<le> r \<and> r < Suc y + k \<and> x < unat row then src ! (r * unat sp + x) else d1 ! i)"
    by blast
  have "d ! i = (let r = i div unat dp; x = i mod unat dp
      in if y \<le> r \<and> r < y + Suc k \<and> x < unat row then src ! (r * unat sp + x) else dst ! i)"
    if i: "i < length dst" for i
  proof -
    let ?r = "i div unat dp" and ?x = "i mod unat dp"
    have split: "i = ?r * unat dp + ?x" by simp
    have in_row: "y * unat dp \<le> i \<and> i < y * unat dp + unat row \<longleftrightarrow> ?r = y \<and> ?x < unat row"
    proof
      assume a: "y * unat dp \<le> i \<and> i < y * unat dp + unat row"
      then have "i < y * unat dp + unat dp" using Suc.prems(1) by simp
      with a have "?r = y"
        by (intro div_nat_eqI) (simp_all add: mult.commute)
      with a split show "?r = y \<and> ?x < unat row"
        by (metis add_less_cancel_left)
    next
      assume "?r = y \<and> ?x < unat row"
      with split show "y * unat dp \<le> i \<and> i < y * unat dp + unat row"
        by (metis add_less_cancel_left le_add1)
    qed
    have off: "?r = y \<Longrightarrow> i - y * unat dp = ?x"
      using split by (metis add_diff_cancel_left')
    have d1i: "d1 ! i = (if ?r = y \<and> ?x < unat row then src ! (?r * unat sp + ?x) else dst ! i)"
      unfolding nth_mem_copy [OF d1 i] in_row using off by simp
    show ?thesis
      using nth [of i] i len1 d1i by (auto simp: Let_def)
  qed
  with d d1 len1 show ?case by simp
qed

text \<open>
  C33. When the row fits both pitches and both buffers hold all rows, the copy returns (no access
  out of bounds), moves row \<open>y\<close> byte for byte, and leaves every byte outside the rows alone.
\<close>

theorem copy_rgba8_rows_correct:
  assumes "unat width * 4 < 2 ^ 32" "0 < unat width" "0 < unat height"
    and "unat width * 4 \<le> unat dst_pitch"
    and "(unat height - 1) * unat src_pitch + unat width * 4 \<le> length src"
    and "(unat height - 1) * unat dst_pitch + unat width * 4 \<le> length dst"
  shows "\<exists>d. copy_rgba8_rows src width height src_pitch dst dst_pitch = Some d \<and>
    length d = length dst \<and>
    (\<forall>i < length dst. d ! i =
       (let r = i div unat dst_pitch; x = i mod unat dst_pitch
        in if r < unat height \<and> x < unat width * 4 then src ! (r * unat src_pitch + x) else dst ! i))"
proof -
  have row: "unat (width * 4) = unat width * 4"
    using assms(1) by (simp add: unat_word_ariths)
  have "width \<noteq> 0" "height \<noteq> 0"
    using assms(2,3) by auto
  then show ?thesis
    using copy_rows_inv [of "width * 4" dst_pitch 0 "unat height" src_pitch src dst] assms row
    by (simp add: copy_rgba8_rows_def)
qed

theorem copy_rgba8_rows_witness:
  "\<exists>d. copy_rgba8_rows [1, 2, 3, 4, 9, 5, 6, 7, 8, 9] 1 2 5 [0, 0, 0, 0, 0, 0, 0, 0, 0, 0] 6 = Some d \<and>
    length d = length [0, 0, 0, 0, 0, 0, 0, 0, 0, 0 :: u8] \<and>
    (\<forall>i < length [0, 0, 0, 0, 0, 0, 0, 0, 0, 0 :: u8]. d ! i =
       (let r = i div unat (6 :: u32); x = i mod unat (6 :: u32)
        in if r < unat (2 :: u32) \<and> x < unat (1 :: u32) * 4
           then [1, 2, 3, 4, 9, 5, 6, 7, 8, 9] ! (r * unat (5 :: u32) + x)
           else [0, 0, 0, 0, 0, 0, 0, 0, 0, 0] ! i))"
  by (rule copy_rgba8_rows_correct) simp_all

section \<open>Pictures without padding\<close>

definition tight_rows :: "nat \<Rightarrow> nat \<Rightarrow> nat \<Rightarrow> bytes \<Rightarrow> bytes" where
  "tight_rows row pitch h mem = concat (map (\<lambda>y. take row (drop (y * pitch) mem)) [0..<h])"

lemma tight_rows_cong:
  "(\<And>y. y < h \<Longrightarrow> take row (drop (y * p1) m1) = take row (drop (y * p2) m2)) \<Longrightarrow>
     tight_rows row p1 h m1 = tight_rows row p2 h m2"
  unfolding tight_rows_def by (intro arg_cong [of _ _ concat] map_cong) simp_all

text \<open>The copy into mapped memory, row by row.\<close>

lemma copy_rgba8_rows_slices:
  assumes "unat w * 4 < 2 ^ 32" "0 < unat w" "0 < unat h" "unat w * 4 \<le> unat dp"
    and "(unat h - 1) * unat sp + unat w * 4 \<le> length src" "unat dp * unat h \<le> length dst"
  shows "\<exists>d. copy_rgba8_rows src w h sp dst dp = Some d \<and> length d = length dst \<and>
     (\<forall>y < unat h. take (unat w * 4) (drop (y * unat dp) d) = take (unat w * 4) (drop (y * unat sp) src))"
proof -
  have row: "unat (w * 4) = unat w * 4"
    using assms(1) by (simp add: unat_word_ariths)
  have last: "(unat h - 1) * unat dp + unat w * 4 \<le> unat dp * unat h"
    using assms(3,4) by (cases "unat h") (simp_all add: algebra_simps)
  obtain d where d: "copy_rows (unat h) 0 src (w * 4) sp dp dst = Some d" "length d = length dst"
    and nth: "\<And>i. i < length dst \<Longrightarrow> d ! i =
       (let r = i div unat dp; x = i mod unat dp
        in if r < unat h \<and> x < unat w * 4 then src ! (r * unat sp + x) else dst ! i)"
    using copy_rows_inv [of "w * 4" dp 0 "unat h" sp src dst] assms last row by auto
  have "take (unat w * 4) (drop (y * unat dp) d) = take (unat w * 4) (drop (y * unat sp) src)" if y: "y < unat h" for y
  proof -
    have "y * unat dp \<le> (unat h - 1) * unat dp" "y * unat sp \<le> (unat h - 1) * unat sp"
      using y by (auto intro!: mult_le_mono1)
    then have len: "y * unat dp + unat w * 4 \<le> length dst" "y * unat sp + unat w * 4 \<le> length src"
      using last assms(5,6) by linarith+
    have "d ! (y * unat dp + x) = src ! (y * unat sp + x)" if "x < unat w * 4" for x
      using nth [of "y * unat dp + x"] that y len(1) assms(4) by (simp add: Let_def)
    with len d(2) show ?thesis by (intro nth_equalityI) simp_all
  qed
  moreover have "w \<noteq> 0" "h \<noteq> 0" using assms(2,3) by auto
  ultimately show ?thesis using d by (simp add: copy_rgba8_rows_def)
qed

lemma tight_rows_packed:
  assumes "h * row \<le> length mem"
  shows "tight_rows row row h mem = take (h * row) mem"
  using assms
proof (induction h)
  case (Suc h)
  have "tight_rows row row (Suc h) mem = tight_rows row row h mem @ take row (drop (h * row) mem)"
    by (simp add: tight_rows_def)
  also have "\<dots> = take (h * row) mem @ take row (drop (h * row) mem)"
    using Suc by simp
  also have "\<dots> = take (Suc h * row) mem"
    by (simp add: take_add [symmetric] add.commute)
  finally show ?case .
qed (simp add: tight_rows_def)

end
