(* ===== verification/RP_Audio.thy ===== *)
theory RP_Audio
  imports RP_Abi
begin

text \<open>
  Audio output: \<open>src/audio/AudioPool.cpp\<close> (the buffer pool's slot search) and
  \<open>src/audio/XAudio2Output.{h,cpp}\<close> (a pool of sixteen buffers feeding one source voice, and the
  adaptive feeder that tells a pulling core how many frames to produce).

  XAudio2 and COM are outside the sources: whether a call into them succeeds is an argument
  (\<open>xa_env\<close>, the flag of \<open>submit_step\<close>). What the code relies on is that the voice reports the end of a
  buffer only for a buffer that was submitted and not yet reported; that is the guard of the
  \<open>buffer_end\<close> steps. The calls are composed of the sections under the mutex and the single accesses
  to the atomics, and the submitting thread, the callback thread and a polling thread interleave
  between them.
\<close>

section \<open>Slot search\<close>

fun pick_from :: "nat \<Rightarrow> bool list \<Rightarrow> nat \<Rightarrow> int" where
  "pick_from 0 in_use i = -1"
| "pick_from (Suc k) in_use i = (if \<not> in_use ! i then int i else pick_from k in_use (Suc i))"

definition audio_pick_free_slot :: "bool list \<Rightarrow> nat \<Rightarrow> int" where
  "audio_pick_free_slot in_use n = pick_from n in_use 0"

lemma pick_from_spec:
  "(pick_from k in_use i = -1 \<and> (\<forall>j. i \<le> j \<and> j < i + k \<longrightarrow> in_use ! j)) \<or>
   (\<exists>j. pick_from k in_use i = int j \<and> i \<le> j \<and> j < i + k \<and> \<not> in_use ! j \<and>
        (\<forall>l. i \<le> l \<and> l < j \<longrightarrow> in_use ! l))"
proof (induction k in_use i rule: pick_from.induct)
  case (1 in_use i)
  then show ?case by auto
next
  case (2 k in_use i)
  show ?case
  proof (cases "in_use ! i")
    case False
    then show ?thesis by auto
  next
    case True
    have step: "\<And>j. i \<le> j \<longleftrightarrow> j = i \<or> Suc i \<le> j" by auto
    from True 2 show ?thesis
      unfolding pick_from.simps step by fastforce
  qed
qed

lemma audio_pick_free_slot_some:
  "0 \<le> audio_pick_free_slot in_use n \<Longrightarrow>
     nat (audio_pick_free_slot in_use n) < n \<and> \<not> in_use ! nat (audio_pick_free_slot in_use n)"
  using pick_from_spec [of n in_use 0] by (auto simp: audio_pick_free_slot_def)

lemma audio_pick_free_slot_none:
  "audio_pick_free_slot in_use n < 0 \<Longrightarrow> \<forall>j < n. in_use ! j"
  using pick_from_spec [of n in_use 0] by (auto simp: audio_pick_free_slot_def)

section \<open>The output\<close>

definition kPoolSize :: nat where "kPoolSize = 16"

record XAudio2Output =
  xa_engine :: bool
  xa_master :: bool
  xa_source :: bool
  xa_cb :: bool
  xa_channels :: u32
  xa_com_inited :: bool
  xa_bufs :: "16 word list list"
  xa_in_use :: "bool list"
  xa_target_frames :: u32
  xa_queued_frames :: u32
  xa_min_queued :: u32
  xa_starvations :: u32
  xa_started :: bool

record xa_env =
  env_com_s_ok :: bool
  env_create_ok :: bool
  env_master_ok :: bool
  env_source_ok :: bool

definition XAudio2Output_new :: XAudio2Output where
  "XAudio2Output_new = \<lparr>xa_engine = False, xa_master = False, xa_source = False, xa_cb = False,
     xa_channels = 2, xa_com_inited = False, xa_bufs = [], xa_in_use = replicate kPoolSize False,
     xa_target_frames = 1920, xa_queued_frames = 0, xa_min_queued = 0xFFFFFFFF, xa_starvations = 0,
     xa_started = False\<rparr>"

definition xa_close :: "XAudio2Output \<Rightarrow> XAudio2Output" where
  "xa_close x = x\<lparr>xa_source := False, xa_master := False, xa_engine := False, xa_cb := False,
                  xa_com_inited := False\<rparr>"

definition xa_open :: "xa_env \<Rightarrow> XAudio2Output \<Rightarrow> u32 \<Rightarrow> u32 \<Rightarrow> XAudio2Output \<times> rp_result" where
  "xa_open env x sample_rate channels =
     (let x = xa_close x;
          x = x\<lparr>xa_channels := channels,
                xa_target_frames := (if sample_rate \<noteq> 0 then sample_rate * 40 div 1000 else 1920),
                xa_queued_frames := 0, xa_min_queued := 0xFFFFFFFF, xa_starvations := 0,
                xa_started := False, xa_com_inited := env_com_s_ok env\<rparr>
      in if \<not> env_create_ok env then (x, RP_ERR_DEVICE)
         else let x = x\<lparr>xa_engine := True\<rparr>
         in if \<not> env_master_ok env then (x, RP_ERR_DEVICE)
         else let x = x\<lparr>xa_master := True, xa_cb := True\<rparr>
         in if \<not> env_source_ok env then (x, RP_ERR_DEVICE)
         else (x\<lparr>xa_source := True, xa_bufs := replicate kPoolSize []\<rparr>, RP_OK))"

text \<open>\<open>q > n ? q - (uint32_t)n : 0u\<close>, the saturating subtraction of both compare-exchange loops.\<close>

definition sat_sub :: "u32 \<Rightarrow> nat \<Rightarrow> u32" where
  "sat_sub q n = (if n < unat q then q - of_nat n else 0)"

text \<open>
  \<open>submit\<close> and \<open>on_buffer_end\<close> in the pieces other threads can come between: a section under the mutex,
  the copy into a buffer, an access to an atomic.
\<close>

definition xa_take_slot :: "XAudio2Output \<Rightarrow> XAudio2Output \<times> nat option" where
  "xa_take_slot x =
     (let slot = audio_pick_free_slot (xa_in_use x) kPoolSize
      in if slot < 0 then (x, None)
         else (x\<lparr>xa_in_use := (xa_in_use x)[nat slot := True]\<rparr>, Some (nat slot)))"

definition xa_fill_slot :: "nat \<Rightarrow> 16 word list \<Rightarrow> nat \<Rightarrow> XAudio2Output \<Rightarrow> XAudio2Output" where
  "xa_fill_slot slot frames num_frames x =
     x\<lparr>xa_bufs := (xa_bufs x)[slot := take (num_frames * unat (xa_channels x)) frames]\<rparr>"

definition xa_add_frames :: "nat \<Rightarrow> XAudio2Output \<Rightarrow> XAudio2Output" where
  "xa_add_frames num_frames x = x\<lparr>xa_queued_frames := xa_queued_frames x + of_nat num_frames\<rparr>"

definition xa_free_slot :: "nat \<Rightarrow> XAudio2Output \<Rightarrow> XAudio2Output" where
  "xa_free_slot slot x = x\<lparr>xa_in_use := (xa_in_use x)[slot := False]\<rparr>"

text \<open>The exchange that succeeds: \<open>q\<close> is still the value of the counter.\<close>

definition xa_sub_frames :: "nat \<Rightarrow> XAudio2Output \<Rightarrow> XAudio2Output" where
  "xa_sub_frames n x = x\<lparr>xa_queued_frames := sat_sub (xa_queued_frames x) n\<rparr>"

definition xa_mark_started :: "XAudio2Output \<Rightarrow> XAudio2Output" where
  "xa_mark_started x = x\<lparr>xa_started := True\<rparr>"

definition xa_end_slot :: "u32 \<Rightarrow> XAudio2Output \<Rightarrow> XAudio2Output \<times> u32" where
  "xa_end_slot ctx x =
     (let slot = unat ctx
      in if kPoolSize \<le> slot then (x, 0)
         else (xa_free_slot slot x,
               if xa_channels x \<noteq> 0 then of_nat (length (xa_bufs x ! slot) div unat (xa_channels x)) else 0))"

definition xa_submit_refused :: "XAudio2Output \<Rightarrow> 16 word list option \<Rightarrow> nat \<Rightarrow> bool" where
  "xa_submit_refused x frames num_frames \<longleftrightarrow> \<not> xa_source x \<or> frames = None \<or> num_frames = 0"

text \<open>The calls with no other thread in between; \<open>ok\<close> is the outcome of \<open>SubmitSourceBuffer\<close>.\<close>

definition xa_submit :: "XAudio2Output \<Rightarrow> 16 word list option \<Rightarrow> nat \<Rightarrow> bool \<Rightarrow> XAudio2Output" where
  "xa_submit x frames num_frames ok =
     (if xa_submit_refused x frames num_frames then x
      else case xa_take_slot x of
             (x, None) \<Rightarrow> x
           | (x, Some slot) \<Rightarrow>
               let x = xa_add_frames num_frames (xa_fill_slot slot (the frames) num_frames x)
               in if \<not> ok then xa_sub_frames num_frames (xa_free_slot slot x) else xa_mark_started x)"

definition xa_on_buffer_end :: "XAudio2Output \<Rightarrow> u32 \<Rightarrow> XAudio2Output" where
  "xa_on_buffer_end x ctx =
     (case xa_end_slot ctx x of (x, done_frames) \<Rightarrow>
        if done_frames \<noteq> 0 then xa_sub_frames (unat done_frames) x else x)"

definition xa_want_frames :: "XAudio2Output \<Rightarrow> XAudio2Output \<times> nat" where
  "xa_want_frames x =
     (let q = xa_queued_frames x;
          x = (if xa_started x
               then x\<lparr>xa_min_queued := min q (xa_min_queued x),
                      xa_starvations := (if q = 0 then xa_starvations x + 1 else xa_starvations x)\<rparr>
               else x)
      in (x, if xa_target_frames x \<le> q then 0 else unat (xa_target_frames x - q)))"

section \<open>Threads\<close>

text \<open>
  The thread that submits, the voice's callback thread and a thread that polls \<open>want_frames\<close>, each at
  one of its accesses. \<open>xt_live\<close> are the slots whose buffers the voice holds: submitted, and not yet
  reported as ended.
\<close>

datatype submit_pc =
    SIdle
  | SPick "16 word list" nat
  | SFill nat "16 word list" nat
  | SAdd nat nat
  | SVoice nat nat
  | SFree nat nat
  | SSub nat
  | SSubCas nat u32
  | SMark

datatype callback_pc = CIdle | CLock nat | CLoad nat | CCas nat u32

datatype poll_pc = PIdle | PStarted u32 | PMin u32 | PMinCas u32 u32 | PStarved u32

record xa_threads =
  xt_out :: XAudio2Output
  xt_submit :: submit_pc
  xt_callback :: callback_pc
  xt_poll :: poll_pc
  xt_live :: "nat set"

definition submit_call :: "16 word list option \<Rightarrow> nat \<Rightarrow> xa_threads \<Rightarrow> xa_threads" where
  "submit_call frames num_frames t =
     (if xa_submit_refused (xt_out t) frames num_frames then t else t\<lparr>xt_submit := SPick (the frames) num_frames\<rparr>)"

definition submit_step :: "bool \<Rightarrow> xa_threads \<Rightarrow> xa_threads" where
  "submit_step ok t =
     (let x = xt_out t
      in case xt_submit t of
           SIdle \<Rightarrow> t
         | SPick fr n \<Rightarrow> (case xa_take_slot x of
                            (x, None) \<Rightarrow> t\<lparr>xt_submit := SIdle\<rparr>
                          | (x, Some slot) \<Rightarrow> t\<lparr>xt_out := x, xt_submit := SFill slot fr n\<rparr>)
         | SFill slot fr n \<Rightarrow> t\<lparr>xt_out := xa_fill_slot slot fr n x, xt_submit := SAdd slot n\<rparr>
         | SAdd slot n \<Rightarrow> t\<lparr>xt_out := xa_add_frames n x, xt_submit := SVoice slot n\<rparr>
         | SVoice slot n \<Rightarrow> if ok then t\<lparr>xt_live := insert slot (xt_live t), xt_submit := SMark\<rparr>
                           else t\<lparr>xt_submit := SFree slot n\<rparr>
         | SFree slot n \<Rightarrow> t\<lparr>xt_out := xa_free_slot slot x, xt_submit := SSub n\<rparr>
         | SSub n \<Rightarrow> t\<lparr>xt_submit := SSubCas n (xa_queued_frames x)\<rparr>
         | SSubCas n q \<Rightarrow> if xa_queued_frames x = q then t\<lparr>xt_out := xa_sub_frames n x, xt_submit := SIdle\<rparr>
                         else t\<lparr>xt_submit := SSubCas n (xa_queued_frames x)\<rparr>
         | SMark \<Rightarrow> t\<lparr>xt_out := xa_mark_started x, xt_submit := SIdle\<rparr>)"

definition callback_call :: "nat \<Rightarrow> xa_threads \<Rightarrow> xa_threads" where
  "callback_call slot t = t\<lparr>xt_live := xt_live t - {slot}, xt_callback := CLock slot\<rparr>"

definition callback_step :: "xa_threads \<Rightarrow> xa_threads" where
  "callback_step t =
     (let x = xt_out t
      in case xt_callback t of
           CIdle \<Rightarrow> t
         | CLock slot \<Rightarrow> (case xa_end_slot (of_nat slot) x of (x, done_frames) \<Rightarrow>
                            t\<lparr>xt_out := x, xt_callback := (if done_frames \<noteq> 0 then CLoad (unat done_frames) else CIdle)\<rparr>)
         | CLoad n \<Rightarrow> t\<lparr>xt_callback := CCas n (xa_queued_frames x)\<rparr>
         | CCas n q \<Rightarrow> if xa_queued_frames x = q then t\<lparr>xt_out := xa_sub_frames n x, xt_callback := CIdle\<rparr>
                      else t\<lparr>xt_callback := CCas n (xa_queued_frames x)\<rparr>)"

definition poll_step :: "xa_threads \<Rightarrow> xa_threads" where
  "poll_step t =
     (let x = xt_out t
      in case xt_poll t of
           PIdle \<Rightarrow> t\<lparr>xt_poll := PStarted (xa_queued_frames x)\<rparr>
         | PStarted q \<Rightarrow> t\<lparr>xt_poll := (if xa_started x then PMin q else PIdle)\<rparr>
         | PMin q \<Rightarrow> t\<lparr>xt_poll := PMinCas q (xa_min_queued x)\<rparr>
         | PMinCas q prev \<Rightarrow>
             if \<not> q < prev then t\<lparr>xt_poll := PStarved q\<rparr>
             else if xa_min_queued x = prev then t\<lparr>xt_out := x\<lparr>xa_min_queued := q\<rparr>, xt_poll := PStarved q\<rparr>
             else t\<lparr>xt_poll := PMinCas q (xa_min_queued x)\<rparr>
         | PStarved q \<Rightarrow>
             t\<lparr>xt_out := (if q = 0 then x\<lparr>xa_starvations := xa_starvations x + 1\<rparr> else x), xt_poll := PIdle\<rparr>)"

definition max_chunk :: nat where "max_chunk = 2 ^ 27"

text \<open>
  What the steps rely on: a submission holds the samples it announces and less than \<open>2 ^ 27\<close> frames, and the
  voice reports the end of a buffer once, after it was submitted.
\<close>

inductive xa_step :: "xa_threads \<Rightarrow> xa_threads \<Rightarrow> bool" where
  submit: "xt_submit t = SIdle \<Longrightarrow> n < max_chunk \<Longrightarrow> length fr = n * unat (xa_channels (xt_out t)) \<Longrightarrow>
     xa_step t (submit_call (Some fr) n t)"
| submits: "xa_step t (submit_step ok t)"
| buffer_end: "xt_callback t = CIdle \<Longrightarrow> slot \<in> xt_live t \<Longrightarrow> xa_step t (callback_call slot t)"
| callbacks: "xa_step t (callback_step t)"
| polls: "xa_step t (poll_step t)"

definition xa_quiet :: "XAudio2Output \<Rightarrow> xa_threads" where
  "xa_quiet x = \<lparr>xt_out = x, xt_submit = SIdle, xt_callback = CIdle, xt_poll = PIdle, xt_live = {}\<rparr>"

section \<open>The backlog counter is exact\<close>

definition slot_frames :: "XAudio2Output \<Rightarrow> nat \<Rightarrow> nat" where
  "slot_frames x i = length (xa_bufs x ! i) div unat (xa_channels x)"

text \<open>What the counter holds beyond the buffers of the voice, by where the two threads are.\<close>

fun submit_owes :: "submit_pc \<Rightarrow> nat" where
  "submit_owes (SVoice slot n) = n"
| "submit_owes (SFree slot n) = n"
| "submit_owes (SSub n) = n"
| "submit_owes (SSubCas n q) = n"
| "submit_owes pc = 0"

fun callback_owes :: "XAudio2Output \<Rightarrow> callback_pc \<Rightarrow> nat" where
  "callback_owes x (CLock slot) = slot_frames x slot"
| "callback_owes x (CLoad n) = n"
| "callback_owes x (CCas n q) = n"
| "callback_owes x CIdle = 0"

text \<open>The slots the two threads hold, and what they know about their contents.\<close>

fun submit_slot :: "submit_pc \<Rightarrow> nat set" where
  "submit_slot (SFill slot fr n) = {slot}"
| "submit_slot (SAdd slot n) = {slot}"
| "submit_slot (SVoice slot n) = {slot}"
| "submit_slot (SFree slot n) = {slot}"
| "submit_slot pc = {}"

fun callback_slot :: "callback_pc \<Rightarrow> nat set" where
  "callback_slot (CLock slot) = {slot}"
| "callback_slot pc = {}"

fun submit_ok :: "XAudio2Output \<Rightarrow> submit_pc \<Rightarrow> bool" where
  "submit_ok x (SPick fr n) = (n < max_chunk \<and> length fr = n * unat (xa_channels x))"
| "submit_ok x (SFill slot fr n) = (n < max_chunk \<and> length fr = n * unat (xa_channels x))"
| "submit_ok x (SAdd slot n) = (n < max_chunk \<and> slot_frames x slot = n)"
| "submit_ok x (SVoice slot n) = (n < max_chunk \<and> slot_frames x slot = n)"
| "submit_ok x (SFree slot n) = (n < max_chunk)"
| "submit_ok x (SSub n) = (n < max_chunk)"
| "submit_ok x (SSubCas n q) = (n < max_chunk)"
| "submit_ok x pc = True"

definition xt_inv :: "xa_threads \<Rightarrow> bool" where
  "xt_inv t \<longleftrightarrow>
     (let x = xt_out t; held = xt_live t \<union> submit_slot (xt_submit t) \<union> callback_slot (xt_callback t)
      in length (xa_in_use x) = kPoolSize \<and> length (xa_bufs x) = kPoolSize \<and> 0 < unat (xa_channels x) \<and>
         held \<subseteq> {..<kPoolSize} \<and> (\<forall>i < kPoolSize. xa_in_use x ! i \<longleftrightarrow> i \<in> held) \<and>
         xt_live t \<inter> submit_slot (xt_submit t) = {} \<and> xt_live t \<inter> callback_slot (xt_callback t) = {} \<and>
         submit_slot (xt_submit t) \<inter> callback_slot (xt_callback t) = {} \<and>
         (\<forall>i \<in> xt_live t. slot_frames x i < max_chunk) \<and> submit_ok x (xt_submit t) \<and>
         callback_owes x (xt_callback t) < max_chunk \<and>
         unat (xa_queued_frames x) =
           (\<Sum>i \<in> xt_live t. slot_frames x i) + submit_owes (xt_submit t) + callback_owes x (xt_callback t))"

lemma submit_owes_bound: "submit_ok x pc \<Longrightarrow> submit_owes pc < max_chunk"
  by (cases pc) (simp_all add: max_chunk_def)

lemma sat_sub_exact: "n \<le> unat q \<Longrightarrow> unat (sat_sub q n) = unat q - n"
proof -
  assume n: "n \<le> unat q"
  then have "n < 2 ^ 32"
    using le_less_trans [OF _ unat_bound [of q]] by simp
  then have "unat (of_nat n :: u32) = n"
    by (rule unat_of_nat_u32)
  with n show ?thesis
    by (auto simp: sat_sub_def unat_sub word_le_nat_alt)
qed

text \<open>The sum of sixteen chunks and two more stays in the width of the counter.\<close>

lemma xt_inv_room:
  assumes "xt_inv t"
  shows "(\<Sum>i \<in> xt_live t. slot_frames (xt_out t) i) \<le> 16 * max_chunk"
proof -
  have sub: "xt_live t \<subseteq> {..<kPoolSize}" and each: "\<forall>i \<in> xt_live t. slot_frames (xt_out t) i < max_chunk"
    using assms by (simp_all add: xt_inv_def Let_def)
  have "(\<Sum>i \<in> xt_live t. slot_frames (xt_out t) i) \<le> (\<Sum>i \<in> xt_live t. max_chunk)"
    using each by (intro sum_mono) fastforce
  also have "\<dots> = card (xt_live t) * max_chunk" by simp
  also have "card (xt_live t) \<le> 16"
    using card_mono [OF _ sub] by (simp add: kPoolSize_def)
  finally show ?thesis by simp
qed

lemma slot_frames_same [simp]:
  "slot_frames (x\<lparr>xa_in_use := u\<rparr>) = slot_frames x" "slot_frames (x\<lparr>xa_queued_frames := q\<rparr>) = slot_frames x"
  "slot_frames (x\<lparr>xa_started := b\<rparr>) = slot_frames x" "slot_frames (x\<lparr>xa_min_queued := q\<rparr>) = slot_frames x"
  "slot_frames (x\<lparr>xa_starvations := q\<rparr>) = slot_frames x"
  by (simp_all add: slot_frames_def fun_eq_iff)

lemmas xa_piece_defs = xa_fill_slot_def xa_add_frames_def xa_free_slot_def xa_sub_frames_def xa_mark_started_def

text \<open>Updates of the output that the invariant does not look at.\<close>

definition xa_core :: "XAudio2Output \<Rightarrow> _" where
  "xa_core x = (xa_in_use x, xa_bufs x, xa_channels x, xa_queued_frames x)"

lemma xt_inv_same:
  assumes "xt_inv t" "xa_core (xt_out t') = xa_core (xt_out t)" "xt_live t' = xt_live t" "xt_callback t' = xt_callback t"
    and "submit_slot (xt_submit t') = submit_slot (xt_submit t)" "submit_owes (xt_submit t') = submit_owes (xt_submit t)"
    and "submit_ok (xt_out t') (xt_submit t')"
  shows "xt_inv t'"
proof -
  have "slot_frames (xt_out t') = slot_frames (xt_out t)"
    using assms(2) by (simp add: slot_frames_def xa_core_def fun_eq_iff)
  moreover from this have "callback_owes (xt_out t') (xt_callback t') = callback_owes (xt_out t) (xt_callback t)"
    using assms(4) by (cases "xt_callback t") simp_all
  ultimately show ?thesis
    using assms by (simp add: xt_inv_def xa_core_def Let_def)
qed

lemma xt_inv_counts:
  assumes "xt_inv t"
  shows "submit_owes (xt_submit t) \<le> unat (xa_queued_frames (xt_out t))"
    "callback_owes (xt_out t) (xt_callback t) \<le> unat (xa_queued_frames (xt_out t))"
    "unat (xa_queued_frames (xt_out t)) < 18 * max_chunk" "finite (xt_live t)"
  using assms xt_inv_room [OF assms] submit_owes_bound [of "xt_out t" "xt_submit t"] finite_subset [of "xt_live t" "{..<kPoolSize}"]
  by (auto simp: xt_inv_def Let_def)

lemma take_slot_inv:
  assumes inv: "xt_inv t" and pc: "xt_submit t = SPick fr n" and slot: "xa_take_slot (xt_out t) = (x, Some s)"
  shows "xt_inv (t\<lparr>xt_out := x, xt_submit := SFill s fr n\<rparr>)"
proof -
  have free: "s < kPoolSize" "\<not> xa_in_use (xt_out t) ! s"
    and x: "x = (xt_out t)\<lparr>xa_in_use := (xa_in_use (xt_out t))[s := True]\<rparr>"
    using slot audio_pick_free_slot_some [of "xa_in_use (xt_out t)" kPoolSize]
    by (auto simp: xa_take_slot_def Let_def split: if_splits)
  have "s \<notin> xt_live t \<union> callback_slot (xt_callback t)"
    using inv free by (auto simp: xt_inv_def Let_def)
  moreover have "callback_owes x (xt_callback t) = callback_owes (xt_out t) (xt_callback t)"
    by (cases "xt_callback t") (simp_all add: x)
  ultimately show ?thesis
    using inv pc free by (auto simp: xt_inv_def Let_def x nth_list_update)
qed

lemma fill_slot_inv:
  assumes inv: "xt_inv t" and pc: "xt_submit t = SFill s fr n"
  shows "xt_inv (t\<lparr>xt_out := xa_fill_slot s fr n (xt_out t), xt_submit := SAdd s n\<rparr>)"
proof -
  let ?x = "xa_fill_slot s fr n (xt_out t)"
  have h: "s < kPoolSize" "s \<notin> xt_live t" "s \<notin> callback_slot (xt_callback t)" "length (xa_bufs (xt_out t)) = kPoolSize"
      "length fr = n * unat (xa_channels (xt_out t))" "0 < unat (xa_channels (xt_out t))"
    using inv pc by (auto simp: xt_inv_def Let_def)
  have new: "slot_frames ?x s = n" and other: "i \<noteq> s \<Longrightarrow> slot_frames ?x i = slot_frames (xt_out t) i" for i
    using h by (simp_all add: slot_frames_def xa_fill_slot_def)
  have "(\<Sum>i \<in> xt_live t. slot_frames ?x i) = (\<Sum>i \<in> xt_live t. slot_frames (xt_out t) i)"
    using h(2) other by (intro sum.cong refl) metis
  moreover have "callback_owes ?x (xt_callback t) = callback_owes (xt_out t) (xt_callback t)"
    using h(3) other by (cases "xt_callback t") auto
  moreover have "\<forall>i \<in> xt_live t. slot_frames ?x i < max_chunk"
    using inv h(2) other by (metis xt_inv_def)
  moreover have "xa_in_use ?x = xa_in_use (xt_out t)" "length (xa_bufs ?x) = kPoolSize" "xa_channels ?x = xa_channels (xt_out t)"
      "xa_queued_frames ?x = xa_queued_frames (xt_out t)"
    using h(4) by (simp_all add: xa_fill_slot_def)
  ultimately show ?thesis
    using inv pc new by (simp add: xt_inv_def Let_def)
qed

lemma add_frames_inv:
  assumes inv: "xt_inv t" and pc: "xt_submit t = SAdd s n"
  shows "xt_inv (t\<lparr>xt_out := xa_add_frames n (xt_out t), xt_submit := SVoice s n\<rparr>)"
proof -
  have "n < max_chunk"
    using inv pc by (simp add: xt_inv_def Let_def)
  then have "unat (xa_queued_frames (xt_out t) + of_nat n) = unat (xa_queued_frames (xt_out t)) + n"
    using xt_inv_counts(3) [OF inv] by (simp add: unat_word_ariths unat_of_nat max_chunk_def)
  moreover have "callback_owes (xa_add_frames n (xt_out t)) (xt_callback t) = callback_owes (xt_out t) (xt_callback t)"
    by (cases "xt_callback t") (simp_all add: xa_add_frames_def)
  ultimately show ?thesis
    using inv pc by (simp add: xt_inv_def Let_def) (simp add: xa_add_frames_def)
qed

lemma free_slot_inv:
  assumes inv: "xt_inv t" and pc: "xt_submit t = SFree s n"
  shows "xt_inv (t\<lparr>xt_out := xa_free_slot s (xt_out t), xt_submit := SSub n\<rparr>)"
proof -
  have "callback_owes (xa_free_slot s (xt_out t)) (xt_callback t) = callback_owes (xt_out t) (xt_callback t)"
    by (cases "xt_callback t") (simp_all add: xa_free_slot_def)
  then show ?thesis
    using inv pc by (auto simp: xt_inv_def Let_def xa_free_slot_def nth_list_update)
qed

lemma submit_step_inv:
  assumes inv: "xt_inv t"
  shows "xt_inv (submit_step ok t)"
proof (cases "xt_submit t")
  case (SPick fr n)
  show ?thesis
  proof (cases "xa_take_slot (xt_out t)")
    case (Pair x slot)
    have idle: "xt_inv (t\<lparr>xt_submit := SIdle\<rparr>)"
      using inv by (rule xt_inv_same) (simp_all add: SPick)
    show ?thesis
      using Pair SPick idle take_slot_inv [OF inv SPick] by (cases slot) (simp_all add: submit_step_def)
  qed
next
  case (SFill s fr n)
  with fill_slot_inv [OF inv] show ?thesis by (simp add: submit_step_def Let_def)
next
  case (SAdd s n)
  with add_frames_inv [OF inv] show ?thesis by (simp add: submit_step_def Let_def)
next
  case (SVoice s n)
  have "xt_inv (t\<lparr>xt_submit := SFree s n\<rparr>)"
    using inv by (rule xt_inv_same) (use inv in \<open>simp_all add: SVoice xt_inv_def Let_def\<close>)
  moreover have "xt_inv (t\<lparr>xt_live := insert s (xt_live t), xt_submit := SMark\<rparr>)"
    using inv SVoice xt_inv_counts(4) [OF inv] by (auto simp: xt_inv_def Let_def)
  ultimately show ?thesis
    using SVoice by (simp add: submit_step_def Let_def)
next
  case (SFree s n)
  with free_slot_inv [OF inv] show ?thesis by (simp add: submit_step_def Let_def)
next
  case (SSub n)
  have "xt_inv (t\<lparr>xt_submit := SSubCas n (xa_queued_frames (xt_out t))\<rparr>)"
    using inv by (rule xt_inv_same) (use inv in \<open>simp_all add: SSub xt_inv_def Let_def\<close>)
  with SSub show ?thesis by (simp add: submit_step_def Let_def)
next
  case (SSubCas n q)
  have "xt_inv (t\<lparr>xt_submit := SSubCas n (xa_queued_frames (xt_out t))\<rparr>)"
    using inv by (rule xt_inv_same) (use inv in \<open>simp_all add: SSubCas xt_inv_def Let_def\<close>)
  moreover have "xt_inv (t\<lparr>xt_out := xa_sub_frames n (xt_out t), xt_submit := SIdle\<rparr>)"
  proof -
    have "callback_owes (xa_sub_frames n (xt_out t)) (xt_callback t) = callback_owes (xt_out t) (xt_callback t)"
      by (cases "xt_callback t") (simp_all add: xa_sub_frames_def)
    moreover have "unat (sat_sub (xa_queued_frames (xt_out t)) n) = unat (xa_queued_frames (xt_out t)) - n"
      using xt_inv_counts(1) [OF inv] SSubCas by (simp add: sat_sub_exact)
    ultimately show ?thesis
      using inv SSubCas by (simp add: xt_inv_def Let_def) (simp add: xa_sub_frames_def)
  qed
  ultimately show ?thesis
    using SSubCas by (simp add: submit_step_def Let_def)
next
  case SMark
  have "xt_inv (t\<lparr>xt_out := xa_mark_started (xt_out t), xt_submit := SIdle\<rparr>)"
    using inv by (rule xt_inv_same) (simp_all add: SMark xa_core_def xa_mark_started_def)
  with SMark show ?thesis by (simp add: submit_step_def Let_def)
qed (use inv in \<open>simp add: submit_step_def\<close>)

lemma callback_call_inv:
  assumes inv: "xt_inv t" and "xt_callback t = CIdle" "s \<in> xt_live t"
  shows "xt_inv (callback_call s t)"
proof -
  have "(\<Sum>i \<in> xt_live t. slot_frames (xt_out t) i) =
      slot_frames (xt_out t) s + (\<Sum>i \<in> xt_live t - {s}. slot_frames (xt_out t) i)"
    using assms(3) xt_inv_counts(4) [OF inv] by (simp add: sum.remove)
  then show ?thesis
    using assms by (auto simp: xt_inv_def callback_call_def Let_def)
qed

text \<open>The section under the mutex frees the slot and takes note of its frames.\<close>

lemma callback_lock_inv:
  assumes inv: "xt_inv t" and pc: "xt_callback t = CLock s"
  shows "xt_inv (callback_step t)"
proof -
  have h: "s < kPoolSize" "xa_channels (xt_out t) \<noteq> 0" "slot_frames (xt_out t) s < max_chunk"
    using inv pc by (auto simp: xt_inv_def Let_def)
  have n: "unat (of_nat s :: u32) = s" "unat (of_nat (slot_frames (xt_out t) s) :: u32) = slot_frames (xt_out t) s"
    using h by (intro unat_of_nat_u32; simp add: kPoolSize_def max_chunk_def)+
  have zero: "(of_nat (slot_frames (xt_out t) s) :: u32) \<noteq> 0 \<longleftrightarrow> slot_frames (xt_out t) s \<noteq> 0"
    unfolding unat_eq_zero [symmetric] n(2) by simp
  have ended: "xa_end_slot (of_nat s) (xt_out t) = (xa_free_slot s (xt_out t), of_nat (slot_frames (xt_out t) s))"
    unfolding xa_end_slot_def n(1) Let_def slot_frames_def using h(1,2) by simp
  have step: "callback_step t = t\<lparr>xt_out := xa_free_slot s (xt_out t),
      xt_callback := (if slot_frames (xt_out t) s \<noteq> 0 then CLoad (slot_frames (xt_out t) s) else CIdle)\<rparr>"
    unfolding callback_step_def Let_def pc callback_pc.case ended prod.case zero n(2) ..
  have ok: "submit_ok (xa_free_slot s (xt_out t)) pc' = submit_ok (xt_out t) pc'" for pc'
    by (cases pc') (simp_all add: xa_free_slot_def)
  have sf: "slot_frames (xa_free_slot s (xt_out t)) = slot_frames (xt_out t)"
    by (simp add: xa_free_slot_def)
  have use: "\<forall>i < kPoolSize. xa_in_use (xa_free_slot s (xt_out t)) ! i \<longleftrightarrow> i \<in> xt_live t \<union> submit_slot (xt_submit t)"
  proof (intro allI impI)
    fix i
    assume "i < kPoolSize"
    with inv pc show "xa_in_use (xa_free_slot s (xt_out t)) ! i \<longleftrightarrow> i \<in> xt_live t \<union> submit_slot (xt_submit t)"
      by (cases "i = s") (auto simp: xt_inv_def Let_def xa_free_slot_def)
  qed
  have len: "length (xa_in_use (xa_free_slot s (xt_out t))) = length (xa_in_use (xt_out t))"
    "xa_bufs (xa_free_slot s (xt_out t)) = xa_bufs (xt_out t)" "xa_channels (xa_free_slot s (xt_out t)) = xa_channels (xt_out t)"
    "xa_queued_frames (xa_free_slot s (xt_out t)) = xa_queued_frames (xt_out t)"
    by (simp_all add: xa_free_slot_def)
  have old: "length (xa_in_use (xt_out t)) = kPoolSize" "length (xa_bufs (xt_out t)) = kPoolSize"
    "0 < unat (xa_channels (xt_out t))" "xt_live t \<union> submit_slot (xt_submit t) \<subseteq> {..<kPoolSize}"
    "xt_live t \<inter> submit_slot (xt_submit t) = {}" "\<forall>i \<in> xt_live t. slot_frames (xt_out t) i < max_chunk"
    "submit_ok (xt_out t) (xt_submit t)" "unat (xa_queued_frames (xt_out t)) =
      (\<Sum>i \<in> xt_live t. slot_frames (xt_out t) i) + submit_owes (xt_submit t) + slot_frames (xt_out t) s"
    using inv pc unfolding xt_inv_def Let_def by (simp_all add: Un_assoc)
  have "xt_inv (t\<lparr>xt_out := xa_free_slot s (xt_out t), xt_callback := pc'\<rparr>)"
    if "callback_slot pc' = {}" "\<And>x. callback_owes x pc' = slot_frames (xt_out t) s" for pc'
    unfolding xt_inv_def Let_def using old h(3) use that by (simp add: ok sf len)
  then show ?thesis
    unfolding step by simp
qed

lemma callback_step_inv:
  assumes inv: "xt_inv t"
  shows "xt_inv (callback_step t)"
proof (cases "xt_callback t")
  case (CLock s)
  with callback_lock_inv [OF inv] show ?thesis by simp
next
  case (CLoad n)
  with inv show ?thesis by (simp add: callback_step_def xt_inv_def Let_def)
next
  case (CCas n q)
  have ok: "submit_ok (xa_sub_frames n (xt_out t)) pc = submit_ok (xt_out t) pc" for pc
    by (cases pc) (simp_all add: xa_sub_frames_def)
  have "unat (sat_sub (xa_queued_frames (xt_out t)) n) = unat (xa_queued_frames (xt_out t)) - n"
    using xt_inv_counts(2) [OF inv] CCas by (simp add: sat_sub_exact)
  then have "xt_inv (t\<lparr>xt_out := xa_sub_frames n (xt_out t), xt_callback := CIdle\<rparr>)"
    using inv CCas ok by (simp add: xt_inv_def Let_def) (simp add: xa_sub_frames_def max_chunk_def)
  moreover have "xt_inv (t\<lparr>xt_callback := CCas n (xa_queued_frames (xt_out t))\<rparr>)"
    using inv CCas by (simp add: xt_inv_def Let_def)
  ultimately show ?thesis
    using CCas by (simp add: callback_step_def Let_def)
qed (use inv in \<open>simp add: callback_step_def\<close>)

lemma poll_step_inv:
  assumes inv: "xt_inv t"
  shows "xt_inv (poll_step t)"
proof (rule xt_inv_same [OF inv])
  show core: "xa_core (xt_out (poll_step t)) = xa_core (xt_out t)" and "xt_live (poll_step t) = xt_live t"
    "xt_callback (poll_step t) = xt_callback t" and pc: "submit_slot (xt_submit (poll_step t)) = submit_slot (xt_submit t)"
    "submit_owes (xt_submit (poll_step t)) = submit_owes (xt_submit t)"
    by (auto simp: poll_step_def xa_core_def Let_def split: poll_pc.split)
  have "xt_submit (poll_step t) = xt_submit t"
    by (simp add: poll_step_def Let_def split: poll_pc.split)
  moreover have "slot_frames (xt_out (poll_step t)) = slot_frames (xt_out t)"
      "xa_channels (xt_out (poll_step t)) = xa_channels (xt_out t)"
    using core by (simp_all add: xa_core_def slot_frames_def fun_eq_iff)
  moreover have "submit_ok (xt_out t) (xt_submit t)"
    using inv by (simp add: xt_inv_def Let_def)
  ultimately show "submit_ok (xt_out (poll_step t)) (xt_submit (poll_step t))"
    by (cases "xt_submit t") simp_all
qed

lemma xa_step_inv: "xa_step t t' \<Longrightarrow> xt_inv t \<Longrightarrow> xt_inv t'"
proof (induction rule: xa_step.induct)
  case (submit t n fr)
  have "xt_inv (t\<lparr>xt_submit := SPick fr n\<rparr>)"
    using submit(4) by (rule xt_inv_same) (use submit in simp_all)
  with submit show ?case by (simp add: submit_call_def)
qed (simp_all add: submit_step_inv callback_call_inv callback_step_inv poll_step_inv)

lemma xt_inv_open:
  assumes "xa_open env XAudio2Output_new rate ch = (x, RP_OK)" "ch \<noteq> 0"
  shows "xt_inv (xa_quiet x)"
  using assms
  by (auto simp: xa_open_def xa_close_def XAudio2Output_new_def xa_quiet_def xt_inv_def max_chunk_def
      unat_gt_0 Let_def split: if_splits)

text \<open>
  C19. From a freshly opened output with a channel count other than 0, with one thread submitting
  (each time less than \<open>2 ^ 27\<close> frames, with the samples it announces), the voice's callback thread
  reporting each submitted buffer once, and a thread polling, in every interleaving of their sections
  under the mutex and their accesses to the atomics: the backlog counter is exactly the frames in the
  buffers the voice holds, plus those the submitting thread has counted and not yet handed over or
  taken back, plus those of the buffer whose end the callback thread is still accounting for. So
  whenever both threads are outside their calls it is exactly the backlog: it neither drifts nor
  wraps, and the saturating subtraction never saturates.
\<close>

theorem audio_backlog_exact:
  assumes "xa_open env XAudio2Output_new rate ch = (x, RP_OK)" "ch \<noteq> 0" "xa_step\<^sup>*\<^sup>* (xa_quiet x) t"
  shows "unat (xa_queued_frames (xt_out t)) =
      (\<Sum>i \<in> xt_live t. slot_frames (xt_out t) i) + submit_owes (xt_submit t) + callback_owes (xt_out t) (xt_callback t) \<and>
    (xt_submit t = SIdle \<and> xt_callback t = CIdle \<longrightarrow>
      unat (xa_queued_frames (xt_out t)) = (\<Sum>i \<in> xt_live t. slot_frames (xt_out t) i))"
proof -
  have "xt_inv t"
    using assms(3) xt_inv_open [OF assms(1,2)] by (induction rule: rtranclp_induct) (auto intro: xa_step_inv)
  then show ?thesis by (simp add: xt_inv_def Let_def)
qed

definition xa_demo :: XAudio2Output where
  "xa_demo = fst (xa_open \<lparr>env_com_s_ok = True, env_create_ok = True, env_master_ok = True,
                           env_source_ok = True\<rparr> XAudio2Output_new 48000 2)"

text \<open>Two frames submitted, and then their buffer ended and freed but not yet subtracted.\<close>

definition xa_demo_threads :: "nat \<Rightarrow> xa_threads" where
  "xa_demo_threads k =
     ((callback_step ^^ k) (callback_call 0 ((submit_step True ^^ 5) (submit_call (Some [1, 2, 3, 4]) 2 (xa_quiet xa_demo)))))"

lemma funpow_demo: "(f ^^ 5) x = f (f (f (f (f x))))" "(f ^^ 3) x = f (f (f x))"
  by (simp_all add: numeral_eq_Suc)

lemma demo_pool:
  "pick_from 16 (replicate 16 False) 0 = 0" "(replicate 16 a)[0 := b] = b # replicate 15 a"
  by (simp_all add: numeral_eq_Suc)

lemma xa_demo_submitted:
  "(submit_step True ^^ 5) (submit_call (Some [1, 2, 3, 4]) 2 (xa_quiet xa_demo)) =
     (xa_quiet (xa_demo\<lparr>xa_in_use := True # replicate 15 False, xa_bufs := [1, 2, 3, 4] # replicate 15 [],
        xa_queued_frames := 2, xa_started := True\<rparr>))\<lparr>xt_live := {0}\<rparr>"
  by (simp add: funpow_demo demo_pool submit_step_def submit_call_def xa_submit_refused_def xa_quiet_def xa_demo_def
      xa_open_def xa_close_def XAudio2Output_new_def xa_take_slot_def audio_pick_free_slot_def xa_piece_defs kPoolSize_def
      Let_def)

lemma xa_demo_reached: "xa_step\<^sup>*\<^sup>* (xa_quiet xa_demo) (xa_demo_threads k)"
proof -
  let ?t0 = "submit_call (Some [1, 2, 3, 4]) 2 (xa_quiet xa_demo)"
  have "xa_step\<^sup>*\<^sup>* (xa_quiet xa_demo) ?t0"
    by (intro r_into_rtranclp xa_step.submit)
      (simp_all add: max_chunk_def xa_quiet_def xa_demo_def xa_open_def Let_def)
  moreover have "xa_step\<^sup>*\<^sup>* t ((submit_step ok ^^ n) t)" for t ok n
    by (induction n) (auto intro: rtranclp.rtrancl_into_rtrancl xa_step.submits)
  moreover have "xt_callback ((submit_step True ^^ 5) ?t0) = CIdle" "0 \<in> xt_live ((submit_step True ^^ 5) ?t0)"
    unfolding xa_demo_submitted by (simp_all add: xa_quiet_def)
  moreover have callbacks: "xa_step\<^sup>*\<^sup>* t ((callback_step ^^ n) t)" for t n
    by (induction n) (auto intro: rtranclp.rtrancl_into_rtrancl xa_step.callbacks)
  ultimately have "xa_step\<^sup>*\<^sup>* (xa_quiet xa_demo) (callback_call 0 ((submit_step True ^^ 5) ?t0))"
    by (blast intro: rtranclp.rtrancl_into_rtrancl rtranclp_trans xa_step.buffer_end)
  then show ?thesis
    unfolding xa_demo_threads_def using callbacks by (rule rtranclp_trans)
qed

theorem audio_backlog_exact_witness:
  "xt_callback (xa_demo_threads 1) = CLoad 2 \<and> xa_queued_frames (xt_out (xa_demo_threads 1)) = 2 \<and>
   xt_callback (xa_demo_threads 3) = CIdle \<and> xa_queued_frames (xt_out (xa_demo_threads 3)) = 0"
proof -
  have o: "xa_open \<lparr>env_com_s_ok = True, env_create_ok = True, env_master_ok = True,
      env_source_ok = True\<rparr> XAudio2Output_new 48000 2 = (xa_demo, RP_OK)"
    by (simp add: xa_demo_def xa_open_def Let_def)
  have pc: "xt_callback (xa_demo_threads 1) = CLoad 2" "xt_submit (xa_demo_threads 1) = SIdle" "xt_live (xa_demo_threads 1) = {}"
    "xt_callback (xa_demo_threads 3) = CIdle" "xt_submit (xa_demo_threads 3) = SIdle" "xt_live (xa_demo_threads 3) = {}"
    unfolding xa_demo_threads_def xa_demo_submitted
    by (simp_all add: funpow_demo callback_step_def callback_call_def xa_quiet_def xa_demo_def xa_open_def Let_def
        xa_end_slot_def xa_piece_defs kPoolSize_def)
  have "unat (xa_queued_frames (xt_out (xa_demo_threads 1))) = unat (2 :: u32)"
    using audio_backlog_exact [OF o _ xa_demo_reached [of 1]] pc by simp
  moreover have "unat (xa_queued_frames (xt_out (xa_demo_threads 3))) = unat (0 :: u32)"
    using audio_backlog_exact [OF o _ xa_demo_reached [of 3]] pc by simp
  ultimately show ?thesis
    using pc by (simp only: word_unat_eq_iff simp_thms)
qed

text \<open>
  The feeder asks for exactly the deficit: the backlog plus the frames asked for is the target
  when the backlog is below it, and otherwise nothing is asked for.
\<close>

lemma want_frames_deficit:
  "unat (xa_queued_frames x) + snd (xa_want_frames x) =
     max (unat (xa_target_frames x)) (unat (xa_queued_frames x))"
  by (auto simp: xa_want_frames_def Let_def word_le_nat_alt unat_sub max_def)

end
