(* ===== verification/RP_Runtime.thy ===== *)
theory RP_Runtime
  imports RP_Loader RP_SurfaceRing RP_Framebuffer RP_Audio
begin

text \<open>
  The runtime, \<open>src/runtime/\<close>: the object a frontend drives through the C API. It owns a render
  backend, one core behind a \<open>CoreLoader\<close>, the surface ring, the audio output, the input of two ports
  and the rewind ring.

  \<^item> \<open>Runtime\<close> has the fields of the class. \<open>'c\<close> is the state of the core, \<open>'b\<close> that of the backend.
  \<^item> A backend is the record \<open>IRenderBackend\<close> of its operations; an output pointer that may be null is
    a flag, and what was written there comes back as the last component.
  \<^item> \<open>rt_env\<close> holds what the sources take from outside: files, the JSON parser, the dynamic linker,
    the answers of XAudio2, the window system's backends.
  \<^item> A core's callbacks during a frame are applied to the runtime in the order it made them; the only
    values a core reads back (input and the GL context) do not change during a frame. A refresh
    carries the pixels the pointer refers to.
  \<^item> Times are the 64-bit nanosecond values of the clock; \<open>fps_\<close> is exact where the source rounds to
    a double.
\<close>

section \<open>Interfaces\<close>

record 'b IRenderBackend =
  be_initialize :: "'b \<Rightarrow> nat option \<Rightarrow> u32 \<Rightarrow> u32 \<Rightarrow> 'b \<times> rp_result"
  be_allocate_surfaces :: "'b \<Rightarrow> u32 \<Rightarrow> u32 \<Rightarrow> u32 \<Rightarrow> 'b \<times> rp_result \<times> rp_surface_desc list"
  be_composite_and_present :: "'b \<Rightarrow> u32 \<Rightarrow> u64 \<Rightarrow> bool \<Rightarrow> bool \<Rightarrow> 'b \<times> rp_result \<times> bytes option"
  be_composite_driven ::
    "'b \<Rightarrow> bytes option \<Rightarrow> u32 \<Rightarrow> u32 \<Rightarrow> u32 \<Rightarrow> bool \<Rightarrow> bool \<Rightarrow> 'b \<times> rp_result \<times> bytes option"
  be_present_sync_handle :: "'b \<Rightarrow> nat option"
  be_present_consume_sync_handle :: "'b \<Rightarrow> nat option"
  be_present_device_uuid :: "'b \<Rightarrow> bytes"
  be_gl_context :: "'b \<Rightarrow> nat option"
  be_composite_external_gl ::
    "'b \<Rightarrow> u32 \<Rightarrow> u32 \<Rightarrow> u32 \<Rightarrow> bool \<Rightarrow> bool \<Rightarrow> 'b \<times> rp_result \<times> bytes option"

text \<open>The implementations the interface itself gives: no external sync, no GL.\<close>

definition default_device_uuid :: bytes where
  "default_device_uuid = replicate 16 0"

definition default_composite_external_gl ::
  "'b \<Rightarrow> u32 \<Rightarrow> u32 \<Rightarrow> u32 \<Rightarrow> bool \<Rightarrow> bool \<Rightarrow> 'b \<times> rp_result \<times> bytes option" where
  "default_composite_external_gl b tex w h bottom_left_origin out_rgba = (b, RP_ERR_UNSUPPORTED, None)"

record ('c, 'b) rt_env =
  rv_backend :: "'b IRenderBackend"
  rv_new_d3d11 :: 'b
  rv_new_vulkan :: 'b
  rv_new_gl :: 'b
  rv_read_file :: "string \<Rightarrow> string option"
  rv_json_parse :: "string \<Rightarrow> json option"
  rv_dlopen :: "string \<Rightarrow> 'c core_module option"
  rv_registry :: "'c registry"
  rv_xaudio :: xa_env
  rv_submit_ok :: bool

definition make_backend :: "('c, 'b) rt_env \<Rightarrow> rp_graphics_api \<Rightarrow> 'b option" where
  "make_backend env api =
     (case api of RP_GFX_D3D11 \<Rightarrow> Some (rv_new_d3d11 env)
      | RP_GFX_VULKAN \<Rightarrow> Some (rv_new_vulkan env)
      | RP_GFX_OPENGL \<Rightarrow> Some (rv_new_gl env)
      | _ \<Rightarrow> None)"

section \<open>State\<close>

record ('c, 'b) Runtime =
  rt_native_window :: "nat option"
  rt_api :: rp_graphics_api
  rt_backend :: "'b option"
  rt_module :: "'c core_module option"
  rt_loader :: "'c CoreLoader"
  rt_ring :: SurfaceRing
  rt_input :: "rp_input_state list"
  rt_suppress_audio :: bool
  rt_width :: u32
  rt_height :: u32
  rt_core_loaded :: bool
  rt_init_ok :: bool
  rt_core_type :: rp_core_type
  rt_dr_data :: "bytes option"
  rt_dr_w :: u32
  rt_dr_h :: u32
  rt_dr_pitch :: u32
  rt_dr_dupe :: bool
  rt_dr_have :: bool
  rt_dr_max_w :: u32
  rt_dr_max_h :: u32
  rt_dr_gl_tex :: u32
  rt_dr_gl_w :: u32
  rt_dr_gl_h :: u32
  rt_dr_gl_blo :: bool
  rt_dr_is_gl :: bool
  rt_gl_frames :: u64
  rt_requires_content :: bool
  rt_content_loaded :: bool
  rt_audio :: "XAudio2Output option"
  rt_audio_frames :: u64
  rt_audio_nonsilent :: bool
  rt_input_polls :: u64
  rt_audio_want_calls :: u64
  rt_rewind_ring :: "bytes list"
  rt_rewind_enabled :: bool
  rt_rewind_replay :: bool
  rt_rewind_max :: u32
  rt_paused :: bool
  rt_content_path :: string
  rt_core_dir :: string
  rt_core_id :: string
  rt_last_ready_idx :: u32
  rt_last_ready_sv :: u64
  rt_have_last_ready :: bool
  rt_fps :: rat
  rt_fps_count :: u64
  rt_fps_t0_ns :: u64

definition Runtime_blank :: "rp_graphics_api \<Rightarrow> nat option \<Rightarrow> ('c, 'b) Runtime" where
  "Runtime_blank api native_window =
     \<lparr>rt_native_window = native_window, rt_api = api, rt_backend = None, rt_module = None,
      rt_loader = CoreLoader_new, rt_ring = SurfaceRing_new 3,
      rt_input = [neutral_input, neutral_input], rt_suppress_audio = False, rt_width = 64,
      rt_height = 64, rt_core_loaded = False, rt_init_ok = False, rt_core_type = RP_CORE_PRESENTING,
      rt_dr_data = None, rt_dr_w = 0, rt_dr_h = 0, rt_dr_pitch = 0, rt_dr_dupe = False,
      rt_dr_have = False, rt_dr_max_w = 0, rt_dr_max_h = 0, rt_dr_gl_tex = 0, rt_dr_gl_w = 0,
      rt_dr_gl_h = 0, rt_dr_gl_blo = False, rt_dr_is_gl = False, rt_gl_frames = 0,
      rt_requires_content = False, rt_content_loaded = False, rt_audio = None, rt_audio_frames = 0,
      rt_audio_nonsilent = False, rt_input_polls = 0, rt_audio_want_calls = 0, rt_rewind_ring = [],
      rt_rewind_enabled = False, rt_rewind_replay = False, rt_rewind_max = 0, rt_paused = False,
      rt_content_path = [], rt_core_dir = [], rt_core_id = [], rt_last_ready_idx = 0,
      rt_last_ready_sv = 0, rt_have_last_ready = False, rt_fps = 0, rt_fps_count = 0,
      rt_fps_t0_ns = 0\<rparr>"

definition Runtime_new ::
  "('c, 'b) rt_env \<Rightarrow> rp_graphics_api \<Rightarrow> nat option \<Rightarrow> ('c, 'b) Runtime" where
  "Runtime_new env api native_window =
     (let rt = Runtime_blank api native_window
      in case make_backend env api of
           None \<Rightarrow> rt
         | Some b \<Rightarrow>
             (case be_initialize (rv_backend env) b native_window (rt_width rt) (rt_height rt) of
                (b, r) \<Rightarrow> rt\<lparr>rt_backend := Some b, rt_init_ok := (r = RP_OK)\<rparr>))"

section \<open>Callbacks of the core\<close>

definition on_submit :: "u32 \<Rightarrow> u64 \<Rightarrow> u64 \<Rightarrow> ('c, 'b) Runtime \<Rightarrow> ('c, 'b) Runtime" where
  "on_submit index gen sync_value rt =
     rt\<lparr>rt_ring := fst (accept_submit (rt_ring rt) index gen sync_value)\<rparr>"

definition port_index :: "u32 \<Rightarrow> nat" where
  "port_index port = unat port mod 2"

definition on_input ::
  "u32 \<Rightarrow> ('c, 'b) Runtime \<Rightarrow> ('c, 'b) Runtime \<times> rp_input_state" where
  "on_input port rt =
     (rt\<lparr>rt_input_polls := rt_input_polls rt + 1\<rparr>, rt_input rt ! port_index port)"

definition set_input ::
  "u32 \<Rightarrow> rp_input_state \<Rightarrow> ('c, 'b) Runtime \<Rightarrow> ('c, 'b) Runtime" where
  "set_input port inp rt = rt\<lparr>rt_input := (rt_input rt)[port_index port := inp]\<rparr>"

definition on_video_refresh ::
  "bytes option \<Rightarrow> u32 \<Rightarrow> u32 \<Rightarrow> u32 \<Rightarrow> ('c, 'b) Runtime \<Rightarrow> ('c, 'b) Runtime" where
  "on_video_refresh data w h pitch rt =
     (if data = None \<and> rt_dr_is_gl rt then rt\<lparr>rt_dr_have := True\<rparr>
      else rt\<lparr>rt_dr_have := True, rt_dr_dupe := (data = None), rt_dr_is_gl := False,
              rt_dr_data := data, rt_dr_w := w, rt_dr_h := h, rt_dr_pitch := pitch\<rparr>)"

definition on_gl_share_context ::
  "('c, 'b) rt_env \<Rightarrow> ('c, 'b) Runtime \<Rightarrow> nat option" where
  "on_gl_share_context env rt =
     (case rt_backend rt of None \<Rightarrow> None | Some b \<Rightarrow> be_gl_context (rv_backend env) b)"

definition on_video_refresh_gl ::
  "u32 \<Rightarrow> u32 \<Rightarrow> u32 \<Rightarrow> bool \<Rightarrow> ('c, 'b) Runtime \<Rightarrow> ('c, 'b) Runtime" where
  "on_video_refresh_gl tex w h blo rt =
     rt\<lparr>rt_dr_have := True, rt_dr_dupe := False, rt_dr_is_gl := True, rt_dr_gl_tex := tex,
        rt_dr_gl_w := w, rt_dr_gl_h := h, rt_dr_gl_blo := blo, rt_gl_frames := rt_gl_frames rt + 1\<rparr>"

definition audible :: "16 word \<Rightarrow> bool" where
  "audible s \<longleftrightarrow> 128 < sint s \<or> sint s < - 128"

definition on_audio_sample ::
  "('c, 'b) rt_env \<Rightarrow> 16 word list option \<Rightarrow> nat \<Rightarrow> ('c, 'b) Runtime \<Rightarrow> ('c, 'b) Runtime" where
  "on_audio_sample env frames n rt =
     (if rt_suppress_audio rt \<or> rt_paused rt then rt
      else case frames of None \<Rightarrow> rt
      | Some fr \<Rightarrow>
          if n = 0 then rt
          else rt\<lparr>rt_audio_frames := rt_audio_frames rt + of_nat n,
                  rt_audio_nonsilent := (rt_audio_nonsilent rt \<or> list_ex audible (take (n * 2) fr)),
                  rt_audio := (case rt_audio rt of None \<Rightarrow> None
                               | Some a \<Rightarrow> Some (xa_submit a frames n (rv_submit_ok env)))\<rparr>)"

definition on_audio_want :: "('c, 'b) Runtime \<Rightarrow> ('c, 'b) Runtime \<times> nat" where
  "on_audio_want rt =
     (let rt = rt\<lparr>rt_audio_want_calls := rt_audio_want_calls rt + 1\<rparr>
      in if rt_paused rt then (rt, 0)
         else case rt_audio rt of
                None \<Rightarrow> (rt, 480)
              | Some a \<Rightarrow> (case xa_want_frames a of (a, n) \<Rightarrow> (rt\<lparr>rt_audio := Some a\<rparr>, n)))"

fun apply_host_call ::
  "('c, 'b) rt_env \<Rightarrow> host_call \<Rightarrow> ('c, 'b) Runtime \<Rightarrow> ('c, 'b) Runtime" where
  "apply_host_call env HLog rt = rt"
| "apply_host_call env (HSubmit i g sv) rt = on_submit i g sv rt"
| "apply_host_call env (HInput port) rt = fst (on_input port rt)"
| "apply_host_call env (HVideo d w h p) rt = on_video_refresh d w h p rt"
| "apply_host_call env (HAudio f n) rt = on_audio_sample env f n rt"
| "apply_host_call env (HVideoGL tex w h blo) rt = on_video_refresh_gl tex w h blo rt"

definition rt_host_view :: "('c, 'b) rt_env \<Rightarrow> ('c, 'b) Runtime \<Rightarrow> host_view" where
  "rt_host_view env rt =
     \<lparr>hv_input = (\<lambda>port. snd (on_input port rt)), hv_gl_context = on_gl_share_context env rt\<rparr>"

section \<open>Loading and unloading\<close>

definition open_audio ::
  "('c, 'b) rt_env \<Rightarrow> rp_av_info \<Rightarrow> ('c, 'b) Runtime \<Rightarrow> ('c, 'b) Runtime" where
  "open_audio env av rt =
     (let rt = rt\<lparr>rt_audio_frames := 0, rt_audio_nonsilent := False\<rparr>
      in if av_sample_rate av \<le> 0 then rt
         else case xa_open (rv_xaudio env) XAudio2Output_new (of_int \<lfloor>av_sample_rate av\<rfloor>) 2 of
                (out, r) \<Rightarrow> if r = RP_OK then rt\<lparr>rt_audio := Some out\<rparr> else rt)"

definition rebuild_surfaces ::
  "('c, 'b) rt_env \<Rightarrow> ('c, 'b) Runtime \<Rightarrow> ('c, 'b) Runtime \<times> rp_result" where
  "rebuild_surfaces env rt =
     (let be = rv_backend env;
          rt = (if ld_state (rt_loader rt) = Started
                then rt\<lparr>rt_loader := fst (loader_stop (rt_loader rt))\<rparr> else rt)
      in case be_allocate_surfaces be (the (rt_backend rt)) (slot_count (rt_ring rt))
                (rt_width rt) (rt_height rt) of
           (b, r, descs) \<Rightarrow>
             let rt = rt\<lparr>rt_backend := Some b\<rparr>
             in if r \<noteq> RP_OK then (rt, r)
                else case reallocate (rt_ring rt) (rt_width rt) (rt_height rt) of (ring, gen) \<Rightarrow>
                  let rt = rt\<lparr>rt_ring := ring, rt_have_last_ready := False\<rparr>;
                      descs = map (\<lambda>d. d\<lparr>sd_generation := gen\<rparr>) descs
                  in if rt_core_type rt = RP_CORE_PRESENTING \<and> ld_state (rt_loader rt) = Created
                     then (case loader_set_surfaces (rt_loader rt)
                                  \<lparr>ss_count = of_nat (length descs), ss_surfaces = descs,
                                   ss_sync_handle = be_present_sync_handle be b,
                                   ss_device_uuid = be_present_device_uuid be b,
                                   ss_consume_sync_handle = be_present_consume_sync_handle be b\<rparr> of
                             (ld, r) \<Rightarrow> (rt\<lparr>rt_loader := ld\<rparr>, r))
                     else (rt, RP_OK))"

definition rt_start :: "('c, 'b) Runtime \<Rightarrow> ('c, 'b) Runtime \<times> rp_result" where
  "rt_start rt = (case loader_start (rt_loader rt) of (ld, r) \<Rightarrow> (rt\<lparr>rt_loader := ld\<rparr>, r))"

definition resize ::
  "('c, 'b) rt_env \<Rightarrow> u32 \<Rightarrow> u32 \<Rightarrow> ('c, 'b) Runtime \<Rightarrow> ('c, 'b) Runtime \<times> rp_result" where
  "resize env w h rt =
     (case rt_backend rt of None \<Rightarrow> (rt, RP_ERR_DEVICE)
      | Some b \<Rightarrow>
          let rt = rt\<lparr>rt_width := w, rt_height := h\<rparr>
          in if \<not> rt_core_loaded rt
             then (case be_initialize (rv_backend env) b (rt_native_window rt) w h of (b, r) \<Rightarrow>
                     (rt\<lparr>rt_backend := Some b, rt_init_ok := (r = RP_OK)\<rparr>, r))
             else if \<not> rt_init_ok rt then (rt, RP_ERR_DEVICE)
             else case rebuild_surfaces env rt of (rt, r) \<Rightarrow>
                    if r \<noteq> RP_OK then (rt, r)
                    else if rt_core_type rt = RP_CORE_PRESENTING \<and> ld_state (rt_loader rt) = Created
                    then rt_start rt else (rt, RP_OK))"

definition unload_core :: "('c, 'b) Runtime \<Rightarrow> ('c, 'b) Runtime" where
  "unload_core rt =
     (let rt = rt\<lparr>rt_input_polls := 0\<rparr>
      in if \<not> rt_core_loaded rt \<and> ld_state (rt_loader rt) = Unloaded then rt
         else rt\<lparr>rt_loader := loader_destroy (rt_loader rt), rt_module := None,
                 rt_core_loaded := False, rt_core_type := RP_CORE_PRESENTING, rt_dr_data := None,
                 rt_dr_w := 0, rt_dr_h := 0, rt_dr_pitch := 0, rt_dr_dupe := False,
                 rt_dr_have := False, rt_dr_is_gl := False, rt_dr_gl_tex := 0, rt_dr_max_w := 0,
                 rt_dr_max_h := 0, rt_requires_content := False, rt_content_loaded := False,
                 rt_audio := None, rt_audio_frames := 0, rt_audio_nonsilent := False,
                 rt_rewind_ring := [], rt_rewind_enabled := False, rt_rewind_replay := False,
                 rt_rewind_max := 0, rt_fps := 0, rt_fps_t0_ns := 0, rt_fps_count := 0,
                 rt_paused := False, rt_have_last_ready := False, rt_last_ready_idx := 0,
                 rt_last_ready_sv := 0, rt_content_path := []\<rparr>)"

definition av_geometry_ok :: "rp_av_info \<Rightarrow> bool" where
  "av_geometry_ok av \<longleftrightarrow>
     0 < base_width av \<and> 0 < base_height av \<and> pixel_format av = RP_FMT_R8G8B8A8_UNORM"

definition set_max_geometry :: "rp_av_info \<Rightarrow> ('c, 'b) Runtime \<Rightarrow> ('c, 'b) Runtime" where
  "set_max_geometry av rt =
     rt\<lparr>rt_dr_max_w := max (max_width av) (base_width av),
        rt_dr_max_h := max (max_height av) (base_height av)\<rparr>"

definition mark_loaded :: "rp_core_type \<Rightarrow> ('c, 'b) Runtime \<Rightarrow> ('c, 'b) Runtime" where
  "mark_loaded ty rt =
     rt\<lparr>rt_core_loaded := True, rt_core_type := ty,
        rt_requires_content := has_load_content (rt_loader rt), rt_content_loaded := False\<rparr>"

definition finish_load_core ::
  "('c, 'b) rt_env \<Rightarrow> rp_core_type \<Rightarrow> ('c, 'b) Runtime \<Rightarrow> ('c, 'b) Runtime \<times> rp_result" where
  "finish_load_core env ty rt =
     (let rt = mark_loaded ty rt
      in if ty = RP_CORE_DRIVEN
         then if \<not> rt_requires_content rt
              then (case loader_get_av_info (rt_loader rt) of
                      (ld, Inl r) \<Rightarrow> (unload_core (rt\<lparr>rt_loader := ld\<rparr>), r)
                    | (ld, Inr av) \<Rightarrow>
                        let rt = rt\<lparr>rt_loader := ld\<rparr>
                        in if \<not> av_geometry_ok av then (unload_core rt, RP_ERR_UNSUPPORTED)
                           else (open_audio env av (set_max_geometry av rt), RP_OK))
              else (rt, RP_OK)
         else case rebuild_surfaces env rt of (rt, r) \<Rightarrow>
                if r \<noteq> RP_OK then (unload_core rt, r)
                else if \<not> rt_requires_content rt
                then (case rt_start rt of (rt, r) \<Rightarrow>
                        if r \<noteq> RP_OK then (unload_core rt, r) else (rt, RP_OK))
                else (rt, RP_OK))"

text \<open>\<open>loader_.load\<close> on the runtime's module, and \<open>loader_.create\<close> on its host interface.\<close>

definition rt_load :: "('c, 'b) Runtime \<Rightarrow> ('c, 'b) Runtime \<times> rp_result" where
  "rt_load rt = (case loader_load (rt_loader rt) (rt_module rt) of (ld, r) \<Rightarrow> (rt\<lparr>rt_loader := ld\<rparr>, r))"

definition rt_create ::
  "('c, 'b) rt_env \<Rightarrow> ('c, 'b) Runtime \<Rightarrow> ('c, 'b) Runtime \<times> rp_result" where
  "rt_create env rt =
     (case loader_create (rt_loader rt) (rt_host_view env rt) of (ld, r) \<Rightarrow> (rt\<lparr>rt_loader := ld\<rparr>, r))"

definition drop_core :: "('c, 'b) Runtime \<Rightarrow> ('c, 'b) Runtime" where
  "drop_core rt = rt\<lparr>rt_loader := loader_destroy (rt_loader rt), rt_module := None\<rparr>"

definition load_core ::
  "('c, 'b) rt_env \<Rightarrow> string \<Rightarrow> ('c, 'b) Runtime \<Rightarrow> ('c, 'b) Runtime \<times> rp_result" where
  "load_core env core_dir rt =
     (if \<not> rt_init_ok rt then (rt, RP_ERR_DEVICE)
      else let rt = (if rt_core_loaded rt \<or> ld_state (rt_loader rt) \<noteq> Unloaded then unload_core rt else rt)
      in case rv_read_file env (core_dir @ ''/core.json'') of
           None \<Rightarrow> (rt, RP_ERR_NOT_FOUND)
         | Some txt \<Rightarrow>
           (case parse_manifest (rv_json_parse env) txt of
              Inl _ \<Rightarrow> (rt, RP_ERR_BAD_ARG)
            | Inr m \<Rightarrow>
              if m_type m = RP_CORE_PRESENTING \<and> m_graphics_api m \<noteq> rt_api rt
              then (rt, RP_ERR_UNSUPPORTED)
              else case Win32CoreModule_open (rv_dlopen env) (core_dir @ ''/'' @ m_entry m) of
                Inl _ \<Rightarrow> (rt, RP_ERR_NOT_FOUND)
              | Inr modul \<Rightarrow>
                (case rt_load (rt\<lparr>rt_module := Some modul\<rparr>) of (rt, r) \<Rightarrow>
                 if r \<noteq> RP_OK then (rt\<lparr>rt_module := None\<rparr>, RP_ERR_ABI_MISMATCH)
                 else case rt_create env rt of (rt, r) \<Rightarrow>
                 if r \<noteq> RP_OK then (drop_core rt, RP_ERR_INTERNAL)
                 else case finish_load_core env (m_type m) rt of (rt, r) \<Rightarrow>
                   (if r = RP_OK then rt\<lparr>rt_core_dir := core_dir, rt_core_id := []\<rparr> else rt, r))))"

definition load_static_core ::
  "('c, 'b) rt_env \<Rightarrow> string \<Rightarrow> ('c, 'b) Runtime \<Rightarrow> ('c, 'b) Runtime \<times> rp_result" where
  "load_static_core env core_id rt =
     (if \<not> rt_init_ok rt then (rt, RP_ERR_DEVICE)
      else let rt = (if rt_core_loaded rt \<or> ld_state (rt_loader rt) \<noteq> Unloaded then unload_core rt else rt)
      in case registry_get (rv_registry env) core_id of
           None \<Rightarrow> (rt, RP_ERR_NOT_FOUND)
         | Some getter \<Rightarrow>
           (case rt_load (rt\<lparr>rt_module := Some (StaticCoreModule_resolve (Some getter))\<rparr>) of (rt, r) \<Rightarrow>
            if r \<noteq> RP_OK then (rt\<lparr>rt_module := None\<rparr>, RP_ERR_ABI_MISMATCH)
            else case ca_get_info (abi_of (rt_loader rt)) of
              None \<Rightarrow> (drop_core rt, RP_ERR_INTERNAL)
            | Some info \<Rightarrow>
              if core_type_of_u32 (ci_type info) = RP_CORE_PRESENTING \<and>
                 graphics_api_of_u32 (ci_graphics_api info) \<noteq> rt_api rt
              then (drop_core rt, RP_ERR_UNSUPPORTED)
              else case rt_create env rt of (rt, r) \<Rightarrow>
                 if r \<noteq> RP_OK then (drop_core rt, RP_ERR_INTERNAL)
                 else case finish_load_core env (core_type_of_u32 (ci_type info)) rt of (rt, r) \<Rightarrow>
                   (if r = RP_OK then rt\<lparr>rt_core_id := core_id, rt_core_dir := []\<rparr> else rt, r)))"

text \<open>After the core took the content: a presenting core is started, a driven one is asked its geometry.\<close>

definition load_content_presenting ::
  "('c, 'b) rt_env \<Rightarrow> ('c, 'b) Runtime \<Rightarrow> ('c, 'b) Runtime \<times> rp_result" where
  "load_content_presenting env rt =
     (let rt = rt\<lparr>rt_content_loaded := True\<rparr>
      in case (if ld_state (rt_loader rt) \<noteq> Started then rt_start rt else (rt, RP_OK)) of (rt, r) \<Rightarrow>
           if r \<noteq> RP_OK then (rt, r)
           else case loader_get_av_info (rt_loader rt) of
                  (ld, Inl _) \<Rightarrow> (rt\<lparr>rt_loader := ld\<rparr>, RP_OK)
                | (ld, Inr av) \<Rightarrow>
                    (if 0 < av_sample_rate av then open_audio env av (rt\<lparr>rt_loader := ld\<rparr>)
                     else rt\<lparr>rt_loader := ld\<rparr>, RP_OK))"

definition load_content_driven ::
  "('c, 'b) rt_env \<Rightarrow> ('c, 'b) Runtime \<Rightarrow> ('c, 'b) Runtime \<times> rp_result" where
  "load_content_driven env rt =
     (case loader_get_av_info (rt_loader rt) of
        (ld, Inl _) \<Rightarrow> (rt\<lparr>rt_loader := ld\<rparr>, RP_ERR_INTERNAL)
      | (ld, Inr av) \<Rightarrow>
          let rt = rt\<lparr>rt_loader := ld\<rparr>
          in if \<not> av_geometry_ok av then (rt, RP_ERR_UNSUPPORTED)
             else (open_audio env av ((set_max_geometry av rt)\<lparr>rt_content_loaded := True\<rparr>), RP_OK))"

text \<open>A null \<open>path\<close> is the empty string to the runtime and to the core alike.\<close>

definition load_content ::
  "('c, 'b) rt_env \<Rightarrow> string option \<Rightarrow> ('c, 'b) Runtime \<Rightarrow> ('c, 'b) Runtime \<times> rp_result" where
  "load_content env path rt =
     (if \<not> rt_core_loaded rt then (rt, RP_ERR_INTERNAL)
      else let p = (case path of None \<Rightarrow> [] | Some p \<Rightarrow> p); rt = rt\<lparr>rt_content_path := p\<rparr>
      in if rt_core_type rt = RP_CORE_PRESENTING \<and> \<not> rt_requires_content rt then (rt, RP_ERR_INTERNAL)
         else if rt_core_type rt \<noteq> RP_CORE_PRESENTING \<and> rt_core_type rt \<noteq> RP_CORE_DRIVEN
         then (rt, RP_ERR_INTERNAL)
         else case loader_load_content (rt_loader rt) (rt_host_view env rt) p of (ld, r) \<Rightarrow>
                let rt = rt\<lparr>rt_loader := ld\<rparr>
                in if r \<noteq> RP_OK then (rt, r)
                   else if rt_core_type rt = RP_CORE_PRESENTING then load_content_presenting env rt
                   else load_content_driven env rt)"

section \<open>Frames\<close>

text \<open>The deque push and the loop that drops the oldest entries.\<close>

definition rewind_ring_push :: "bytes list \<Rightarrow> bytes \<Rightarrow> u32 \<Rightarrow> bytes list" where
  "rewind_ring_push ring snap max_n =
     (let ring = ring @ [snap] in drop (length ring - unat max_n) ring)"

definition capture_snapshot :: "('c, 'b) Runtime \<Rightarrow> ('c, 'b) Runtime" where
  "capture_snapshot rt =
     (case loader_serialize_size (rt_loader rt) of (ld, sz) \<Rightarrow>
        let rt = rt\<lparr>rt_loader := ld\<rparr>
        in if 0 < sz
           then (case loader_serialize (rt_loader rt) (replicate sz 0) of (ld, r, snap) \<Rightarrow>
                   let rt = rt\<lparr>rt_loader := ld\<rparr>
                   in if r = RP_OK
                      then rt\<lparr>rt_rewind_ring := rewind_ring_push (rt_rewind_ring rt) snap (rt_rewind_max rt)\<rparr>
                      else rt)
           else rt)"

definition advance ::
  "('c, 'b) rt_env \<Rightarrow> bool \<Rightarrow> ('c, 'b) Runtime \<Rightarrow> ('c, 'b) Runtime \<times> rp_result" where
  "advance env emit_audio rt =
     (if rt_backend rt = None then (rt, RP_ERR_DEVICE)
      else if \<not> (rt_core_loaded rt \<and> rt_core_type rt = RP_CORE_DRIVEN) then (rt, RP_ERR_UNSUPPORTED)
      else if rt_requires_content rt \<and> \<not> rt_content_loaded rt then (rt, RP_ERR_INTERNAL)
      else let rt = (if rt_rewind_replay rt then rt\<lparr>rt_rewind_replay := False\<rparr>
                     else if rt_rewind_enabled rt then capture_snapshot rt else rt);
               rt = rt\<lparr>rt_dr_have := False, rt_suppress_audio := \<not> emit_audio\<rparr>
           in case loader_run_frame (rt_loader rt) (rt_host_view env rt) of (ld, r, hcs) \<Rightarrow>
                ((fold (apply_host_call env) hcs (rt\<lparr>rt_loader := ld\<rparr>))\<lparr>rt_suppress_audio := False\<rparr>, r))"

definition tick_fps :: "u64 \<Rightarrow> ('c, 'b) Runtime \<Rightarrow> ('c, 'b) Runtime" where
  "tick_fps now rt =
     (if rt_fps_t0_ns rt = 0 then rt\<lparr>rt_fps_t0_ns := now, rt_fps_count := 0\<rparr>
      else let rt = rt\<lparr>rt_fps_count := rt_fps_count rt + 1\<rparr>; dt = now - rt_fps_t0_ns rt
           in if 500000000 \<le> dt
              then rt\<lparr>rt_fps := of_nat (unat (rt_fps_count rt)) * 1000000000 / of_nat (unat dt),
                      rt_fps_t0_ns := now, rt_fps_count := 0\<rparr>
              else rt)"

definition render ::
  "('c, 'b) rt_env \<Rightarrow> u64 \<Rightarrow> bool \<Rightarrow> ('c, 'b) Runtime \<Rightarrow> ('c, 'b) Runtime \<times> rp_result \<times> bytes option" where
  "render env now out_rgba rt =
     (let rt = tick_fps now rt; be = rv_backend env
      in case rt_backend rt of None \<Rightarrow> (rt, RP_ERR_DEVICE, None)
      | Some b \<Rightarrow>
        if rt_core_loaded rt \<and> rt_core_type rt = RP_CORE_DRIVEN
        then if rt_dr_is_gl rt \<and> rt_dr_have rt
             then (case be_composite_external_gl be b (rt_dr_gl_tex rt) (rt_dr_gl_w rt) (rt_dr_gl_h rt)
                          (rt_dr_gl_blo rt) out_rgba of (b, r, img) \<Rightarrow> (rt\<lparr>rt_backend := Some b\<rparr>, r, img))
             else let valid = rt_dr_have rt \<and> \<not> rt_dr_dupe rt \<and>
                        driven_frame_valid (rt_dr_w rt) (rt_dr_h rt) (rt_dr_pitch rt)
                          (rt_dr_max_w rt) (rt_dr_max_h rt)
                  in case be_composite_driven be b (if valid then rt_dr_data rt else None) (rt_dr_w rt)
                            (rt_dr_h rt) (rt_dr_pitch rt) (\<not> valid) out_rgba of
                       (b, r, img) \<Rightarrow> (rt\<lparr>rt_backend := Some b\<rparr>, r, img)
        else let (rt, idx, sv, has) =
                   (if rt_paused rt
                    then (rt, rt_last_ready_idx rt, rt_last_ready_sv rt, rt_have_last_ready rt)
                    else case latest_ready (rt_ring rt) of
                           None \<Rightarrow> (rt, 0, 0, False)
                         | Some (idx, sv) \<Rightarrow>
                             (rt\<lparr>rt_last_ready_idx := idx, rt_last_ready_sv := sv,
                                 rt_have_last_ready := True\<rparr>, idx, sv, True))
             in case be_composite_and_present be b idx sv has out_rgba of
                  (b, r, img) \<Rightarrow> (rt\<lparr>rt_backend := Some b\<rparr>, r, img))"

definition present ::
  "('c, 'b) rt_env \<Rightarrow> u64 \<Rightarrow> bool \<Rightarrow> ('c, 'b) Runtime \<Rightarrow> ('c, 'b) Runtime \<times> rp_result \<times> bytes option" where
  "present env now out_rgba rt =
     (if rt_core_loaded rt \<and> rt_core_type rt = RP_CORE_DRIVEN
      then if \<not> rt_paused rt
           then (case advance env True rt of (rt, r) \<Rightarrow>
                   if r \<noteq> RP_OK then (rt, r, None) else render env now out_rgba rt)
           else render env now out_rgba rt
      else render env now out_rgba rt)"

section \<open>State, rewind and control\<close>

definition serialize_size :: "('c, 'b) Runtime \<Rightarrow> ('c, 'b) Runtime \<times> nat" where
  "serialize_size rt =
     (case loader_serialize_size (rt_loader rt) of (ld, sz) \<Rightarrow> (rt\<lparr>rt_loader := ld\<rparr>, sz))"

text \<open>The core is given the first \<open>sz\<close> bytes of the buffer; the rest of it is kept.\<close>

definition save_state ::
  "bytes option \<Rightarrow> ('c, 'b) Runtime \<Rightarrow> ('c, 'b) Runtime \<times> rp_result \<times> bytes option" where
  "save_state buf rt =
     (case buf of None \<Rightarrow> (rt, RP_ERR_BAD_ARG, None)
      | Some bs \<Rightarrow>
          (case serialize_size rt of (rt, sz) \<Rightarrow>
             if sz = 0 then (rt, RP_ERR_UNSUPPORTED, Some bs)
             else if length bs < sz then (rt, RP_ERR_BAD_ARG, Some bs)
             else case loader_serialize (rt_loader rt) (take sz bs) of (ld, r, out) \<Rightarrow>
                    (rt\<lparr>rt_loader := ld\<rparr>, r, Some (out @ drop sz bs))))"

definition load_state :: "bytes option \<Rightarrow> ('c, 'b) Runtime \<Rightarrow> ('c, 'b) Runtime \<times> rp_result" where
  "load_state buf rt =
     (case buf of None \<Rightarrow> (rt, RP_ERR_BAD_ARG)
      | Some bs \<Rightarrow>
          if length bs = 0 then (rt, RP_ERR_BAD_ARG)
          else case loader_unserialize (rt_loader rt) bs of (ld, r) \<Rightarrow> (rt\<lparr>rt_loader := ld\<rparr>, r))"

definition set_rewind ::
  "bool \<Rightarrow> u32 \<Rightarrow> ('c, 'b) Runtime \<Rightarrow> ('c, 'b) Runtime \<times> rp_result" where
  "set_rewind enabled max_snapshots rt =
     (case serialize_size rt of (rt, sz) \<Rightarrow>
        if sz = 0 then (rt, RP_ERR_UNSUPPORTED)
        else (rt\<lparr>rt_rewind_enabled := enabled,
                 rt_rewind_max := (if max_snapshots \<noteq> 0 then max_snapshots else 600),
                 rt_rewind_ring := [], rt_rewind_replay := False\<rparr>, RP_OK))"

definition rewind :: "('c, 'b) Runtime \<Rightarrow> ('c, 'b) Runtime \<times> rp_result" where
  "rewind rt =
     (if \<not> rt_rewind_enabled rt then (rt, RP_ERR_INTERNAL)
      else if length (rt_rewind_ring rt) < 2 then (rt, RP_ERR_NOT_FOUND)
      else let rt = rt\<lparr>rt_rewind_ring := butlast (rt_rewind_ring rt)\<rparr>
           in case loader_unserialize (rt_loader rt) (last (rt_rewind_ring rt)) of (ld, r) \<Rightarrow>
                (rt\<lparr>rt_loader := ld, rt_rewind_replay := True\<rparr>, r))"

definition pause :: "('c, 'b) Runtime \<Rightarrow> ('c, 'b) Runtime \<times> rp_result" where
  "pause rt = (if rt_core_loaded rt then rt\<lparr>rt_paused := True\<rparr> else rt, RP_OK)"

definition resume :: "('c, 'b) Runtime \<Rightarrow> ('c, 'b) Runtime \<times> rp_result" where
  "resume rt = (rt\<lparr>rt_paused := False\<rparr>, RP_OK)"

record rp_runtime_status =
  st_core_type :: rp_core_type
  st_graphics_api :: rp_graphics_api
  st_paused :: bool
  st_content_loaded :: bool
  st_fps :: rat

definition get_status :: "bool \<Rightarrow> ('c, 'b) Runtime \<Rightarrow> rp_result + rp_runtime_status" where
  "get_status out_given rt =
     (if \<not> out_given then Inl RP_ERR_BAD_ARG
      else Inr \<lparr>st_core_type = rt_core_type rt, st_graphics_api = rt_api rt, st_paused = rt_paused rt,
                st_content_loaded = rt_content_loaded rt, st_fps = rt_fps rt\<rparr>)"

definition reset :: "('c, 'b) rt_env \<Rightarrow> ('c, 'b) Runtime \<Rightarrow> ('c, 'b) Runtime \<times> rp_result" where
  "reset env rt =
     (if \<not> rt_core_loaded rt
      then (rt\<lparr>rt_paused := False, rt_fps := 0, rt_fps_t0_ns := 0, rt_fps_count := 0\<rparr>, RP_OK)
      else let had_content = rt_content_loaded rt; path = rt_content_path rt;
               rt = rt\<lparr>rt_paused := False, rt_have_last_ready := False, rt_last_ready_idx := 0,
                       rt_last_ready_sv := 0, rt_fps := 0, rt_fps_t0_ns := 0, rt_fps_count := 0,
                       rt_dr_have := False, rt_dr_data := None, rt_dr_dupe := False,
                       rt_dr_is_gl := False, rt_dr_gl_tex := 0, rt_rewind_ring := [],
                       rt_rewind_replay := False, rt_content_loaded := False,
                       rt_loader := loader_destroy (rt_loader rt)\<rparr>
           in case rt_load rt of (rt, r) \<Rightarrow>
              if r \<noteq> RP_OK then (unload_core rt, RP_ERR_INTERNAL)
              else case rt_create env rt of (rt, r) \<Rightarrow>
              if r \<noteq> RP_OK then (unload_core rt, RP_ERR_INTERNAL)
              else case finish_load_core env (rt_core_type rt) rt of (rt, r) \<Rightarrow>
              if r \<noteq> RP_OK then (rt, r)
              else if had_content then load_content env (Some path) (rt\<lparr>rt_content_path := path\<rparr>)
              else (rt, RP_OK))"

definition core_options_json :: "('c, 'b) Runtime \<Rightarrow> ('c, 'b) Runtime \<times> string" where
  "core_options_json rt =
     (case loader_core_options_json (rt_loader rt) of (ld, s) \<Rightarrow> (rt\<lparr>rt_loader := ld\<rparr>, s))"

definition core_option_get ::
  "string option \<Rightarrow> ('c, 'b) Runtime \<Rightarrow> ('c, 'b) Runtime \<times> string option" where
  "core_option_get key rt =
     (case loader_core_option_get (rt_loader rt) key of (ld, v) \<Rightarrow> (rt\<lparr>rt_loader := ld\<rparr>, v))"

definition core_option_set ::
  "string option \<Rightarrow> string option \<Rightarrow> ('c, 'b) Runtime \<Rightarrow> ('c, 'b) Runtime \<times> rp_result" where
  "core_option_set key value rt =
     (case loader_core_option_set (rt_loader rt) key value of (ld, r) \<Rightarrow> (rt\<lparr>rt_loader := ld\<rparr>, r))"

section \<open>C API\<close>

text \<open>
  The entry points that check their handle: \<open>None\<close> is a null \<open>rp_runtime*\<close>. The others dereference
  it and are the operations above.
\<close>

definition rp_runtime_destroy :: "('c, 'b) Runtime option \<Rightarrow> ('c, 'b) Runtime option" where
  "rp_runtime_destroy h = map_option unload_core h"

definition rp_runtime_set_input ::
  "('c, 'b) Runtime \<Rightarrow> u32 \<Rightarrow> rp_input_state option \<Rightarrow> ('c, 'b) Runtime" where
  "rp_runtime_set_input rt port inp = (case inp of None \<Rightarrow> rt | Some i \<Rightarrow> set_input port i rt)"

definition rp_runtime_serialize_size ::
  "('c, 'b) Runtime option \<Rightarrow> ('c, 'b) Runtime option \<times> nat" where
  "rp_runtime_serialize_size h =
     (case h of None \<Rightarrow> (None, 0) | Some rt \<Rightarrow> map_prod Some id (serialize_size rt))"

definition rp_runtime_save_state ::
  "('c, 'b) Runtime option \<Rightarrow> bytes option \<Rightarrow> ('c, 'b) Runtime option \<times> rp_result \<times> bytes option" where
  "rp_runtime_save_state h buf =
     (case h of None \<Rightarrow> (None, RP_ERR_BAD_ARG, buf)
      | Some rt \<Rightarrow> if buf = None then (h, RP_ERR_BAD_ARG, buf)
                   else map_prod Some id (save_state buf rt))"

definition rp_runtime_load_state ::
  "('c, 'b) Runtime option \<Rightarrow> bytes option \<Rightarrow> ('c, 'b) Runtime option \<times> rp_result" where
  "rp_runtime_load_state h buf =
     (case h of None \<Rightarrow> (None, RP_ERR_BAD_ARG)
      | Some rt \<Rightarrow> if buf = None then (h, RP_ERR_BAD_ARG) else map_prod Some id (load_state buf rt))"

definition rp_runtime_set_rewind ::
  "('c, 'b) Runtime option \<Rightarrow> bool \<Rightarrow> u32 \<Rightarrow> ('c, 'b) Runtime option \<times> rp_result" where
  "rp_runtime_set_rewind h enabled n =
     (case h of None \<Rightarrow> (None, RP_ERR_BAD_ARG) | Some rt \<Rightarrow> map_prod Some id (set_rewind enabled n rt))"

definition rp_runtime_rewind :: "('c, 'b) Runtime option \<Rightarrow> ('c, 'b) Runtime option \<times> rp_result" where
  "rp_runtime_rewind h =
     (case h of None \<Rightarrow> (None, RP_ERR_BAD_ARG) | Some rt \<Rightarrow> map_prod Some id (rewind rt))"

definition rp_runtime_pause :: "('c, 'b) Runtime option \<Rightarrow> ('c, 'b) Runtime option \<times> rp_result" where
  "rp_runtime_pause h =
     (case h of None \<Rightarrow> (None, RP_ERR_BAD_ARG) | Some rt \<Rightarrow> map_prod Some id (pause rt))"

definition rp_runtime_resume :: "('c, 'b) Runtime option \<Rightarrow> ('c, 'b) Runtime option \<times> rp_result" where
  "rp_runtime_resume h =
     (case h of None \<Rightarrow> (None, RP_ERR_BAD_ARG) | Some rt \<Rightarrow> map_prod Some id (resume rt))"

definition rp_runtime_reset ::
  "('c, 'b) rt_env \<Rightarrow> ('c, 'b) Runtime option \<Rightarrow> ('c, 'b) Runtime option \<times> rp_result" where
  "rp_runtime_reset env h =
     (case h of None \<Rightarrow> (None, RP_ERR_BAD_ARG) | Some rt \<Rightarrow> map_prod Some id (reset env rt))"

definition rp_runtime_get_status ::
  "('c, 'b) Runtime option \<Rightarrow> bool \<Rightarrow> rp_result + rp_runtime_status" where
  "rp_runtime_get_status h out_given =
     (case h of None \<Rightarrow> Inl RP_ERR_BAD_ARG | Some rt \<Rightarrow> get_status out_given rt)"

definition rp_runtime_core_options_json ::
  "('c, 'b) Runtime option \<Rightarrow> ('c, 'b) Runtime option \<times> string" where
  "rp_runtime_core_options_json h =
     (case h of None \<Rightarrow> (None, ''[]'') | Some rt \<Rightarrow> map_prod Some id (core_options_json rt))"

definition rp_runtime_core_option_get ::
  "('c, 'b) Runtime option \<Rightarrow> string option \<Rightarrow> ('c, 'b) Runtime option \<times> string option" where
  "rp_runtime_core_option_get h key =
     (case h of None \<Rightarrow> (None, None)
      | Some rt \<Rightarrow> if key = None then (h, None) else map_prod Some id (core_option_get key rt))"

definition rp_runtime_core_option_set ::
  "('c, 'b) Runtime option \<Rightarrow> string option \<Rightarrow> string option \<Rightarrow> ('c, 'b) Runtime option \<times> rp_result" where
  "rp_runtime_core_option_set h key value =
     (case h of None \<Rightarrow> (None, RP_ERR_BAD_ARG)
      | Some rt \<Rightarrow> if key = None \<or> value = None then (h, RP_ERR_BAD_ARG)
                   else map_prod Some id (core_option_set key value rt))"

definition rp_runtime_gl_frame_count :: "('c, 'b) Runtime option \<Rightarrow> u64" where
  "rp_runtime_gl_frame_count h = (case h of None \<Rightarrow> 0 | Some rt \<Rightarrow> rt_gl_frames rt)"

text \<open>Each counter is written only where its output pointer is given.\<close>

definition rp_runtime_audio_stats ::
  "('c, 'b) Runtime \<Rightarrow> bool \<Rightarrow> bool \<Rightarrow> u64 option \<times> bool option" where
  "rp_runtime_audio_stats rt frames_out nonsilent_out =
     (if frames_out then Some (rt_audio_frames rt) else None,
      if nonsilent_out then Some (rt_audio_nonsilent rt) else None)"

definition rp_runtime_audio_queue_stats ::
  "('c, 'b) Runtime \<Rightarrow> bool \<Rightarrow> bool \<Rightarrow> bool \<Rightarrow> u64 option \<times> u32 option \<times> u32 option" where
  "rp_runtime_audio_queue_stats rt want_calls_out min_queued_out starvations_out =
     (if want_calls_out then Some (rt_audio_want_calls rt) else None,
      if min_queued_out
      then Some (case rt_audio rt of None \<Rightarrow> 0xFFFFFFFF | Some a \<Rightarrow> xa_min_queued a) else None,
      if starvations_out
      then Some (case rt_audio rt of None \<Rightarrow> 0 | Some a \<Rightarrow> xa_starvations a) else None)"

end
