(* ===== verification/RP_Runtime_Inv.thy ===== *)
theory RP_Runtime_Inv
  imports RP_Runtime
begin

text \<open>
  The runtime's invariant: every operation of \<open>RP_Runtime\<close> keeps it, on success and on failure, so it
  holds in every state a frontend can reach. A runtime either has a live core, a module and an
  initialised backend, or nothing of a core is left in it.
\<close>

section \<open>Invariant\<close>

text \<open>What no callback of a core changes.\<close>

definition host_frame :: "('c, 'b) Runtime \<Rightarrow> _" where
  "host_frame rt =
     ((rt_loader rt, rt_backend rt, rt_module rt, rt_core_loaded rt, rt_init_ok rt, rt_core_type rt),
      (rt_input rt, rt_suppress_audio rt, rt_requires_content rt, rt_content_loaded rt),
      (rt_rewind_ring rt, rt_rewind_enabled rt, rt_rewind_replay rt, rt_rewind_max rt),
      (rt_paused rt, rt_content_path rt, rt_api rt, rt_have_last_ready rt, rt_width rt, rt_height rt))"

lemmas callback_defs = on_submit_def on_input_def on_video_refresh_def on_audio_sample_def
  on_video_refresh_gl_def

lemma host_frame_call [simp]: "host_frame (apply_host_call env hc rt) = host_frame rt"
  by (cases hc) (simp_all add: host_frame_def callback_defs split: option.splits)

lemma host_frame_calls [simp]: "host_frame (fold (apply_host_call env) hcs rt) = host_frame rt"
  by (induction hcs arbitrary: rt) simp_all

lemmas host_frame_fields = host_frame_calls [unfolded host_frame_def prod.inject]
  host_frame_call [unfolded host_frame_def prod.inject]

definition ring_ok :: "SurfaceRing \<Rightarrow> bool" where
  "ring_ok r \<longleftrightarrow> ring_inv r \<and> slot_count r = 3"

lemma ring_ok_submit [simp]: "ring_ok r \<Longrightarrow> ring_ok (fst (accept_submit r i g sv))"
  by (auto simp: ring_ok_def ring_inv_def accept_submit_def)

lemma ring_ok_reallocate [simp]: "ring_ok r \<Longrightarrow> ring_ok (fst (reallocate r w h))"
  by (auto simp: ring_ok_def ring_inv_def reallocate_def Let_def)

lemma ring_ok_new [simp]: "ring_ok (SurfaceRing_new 3)"
  by (simp add: ring_ok_def ring_inv_def SurfaceRing_new_def)

lemma ring_ok_call [simp]: "ring_ok (rt_ring rt) \<Longrightarrow> ring_ok (rt_ring (apply_host_call env hc rt))"
  by (cases hc) (simp_all add: callback_defs split: option.splits)

lemma ring_ok_calls [simp]:
  "ring_ok (rt_ring rt) \<Longrightarrow> ring_ok (rt_ring (fold (apply_host_call env) hcs rt))"
  by (induction hcs arbitrary: rt) simp_all

text \<open>Nothing of a core survives its unloading.\<close>

definition rt_cleared :: "('c, 'b) Runtime \<Rightarrow> bool" where
  "rt_cleared rt \<longleftrightarrow>
     ld_state (rt_loader rt) = Unloaded \<and> rt_module rt = None \<and> \<not> rt_core_loaded rt \<and>
     rt_core_type rt = RP_CORE_PRESENTING \<and> rt_dr_data rt = None \<and> \<not> rt_dr_have rt \<and>
     \<not> rt_dr_is_gl rt \<and> \<not> rt_requires_content rt \<and> \<not> rt_content_loaded rt \<and> rt_audio rt = None \<and>
     rt_rewind_ring rt = [] \<and> \<not> rt_rewind_enabled rt \<and> \<not> rt_rewind_replay rt \<and> \<not> rt_paused rt \<and>
     rt_content_path rt = []"

text \<open>What holds at every moment, also inside an operation.\<close>

definition rt_base :: "('c, 'b) Runtime \<Rightarrow> bool" where
  "rt_base rt \<longleftrightarrow>
     loader_good (rt_loader rt) \<and> ring_ok (rt_ring rt) \<and> length (rt_input rt) = 2 \<and>
     (rt_init_ok rt \<longrightarrow> rt_backend rt \<noteq> None) \<and>
     length (rt_rewind_ring rt) \<le> unat (rt_rewind_max rt) \<and>
     (rt_rewind_ring rt \<noteq> [] \<longrightarrow> rt_rewind_enabled rt) \<and> \<not> rt_suppress_audio rt"

definition rt_loaded :: "('c, 'b) Runtime \<Rightarrow> bool" where
  "rt_loaded rt \<longleftrightarrow>
     rt_core_loaded rt \<and> rt_init_ok rt \<and> rt_module rt \<noteq> None \<and> live_state (ld_state (rt_loader rt)) \<and>
     (rt_core_type rt = RP_CORE_DRIVEN \<longrightarrow> ld_state (rt_loader rt) = Created)"

definition rt_inv :: "('c, 'b) Runtime \<Rightarrow> bool" where
  "rt_inv rt \<longleftrightarrow> rt_base rt \<and> (if rt_core_loaded rt then rt_loaded rt else rt_cleared rt)"

lemma loader_destroy_state [simp]: "ld_state (loader_destroy ld) = Unloaded"
  by (simp add: loader_destroy_def Let_def)

lemma rt_inv_new: "rt_inv (Runtime_new env api win)"
  by (simp add: Runtime_new_def Runtime_blank_def rt_inv_def rt_base_def rt_cleared_def
      CoreLoader_new_def loader_good_new [unfolded CoreLoader_new_def] Let_def
      split: option.splits prod.splits)

lemma unload_core_cleared:
  "rt_core_loaded rt \<or> ld_state (rt_loader rt) \<noteq> Unloaded \<or> rt_cleared rt \<Longrightarrow> rt_cleared (unload_core rt)"
  by (auto simp: unload_core_def rt_cleared_def Let_def)

lemma unload_core_base: "rt_base rt \<Longrightarrow> rt_base (unload_core rt)"
  by (simp add: unload_core_def rt_base_def loader_good_destroy Let_def)

lemma unload_core_init [simp]: "rt_init_ok (unload_core rt) = rt_init_ok rt"
  by (simp add: unload_core_def Let_def)

lemma rt_cleared_inv: "rt_base rt \<Longrightarrow> rt_cleared rt \<Longrightarrow> rt_inv rt"
  by (simp add: rt_inv_def rt_cleared_def)

lemma rt_loaded_inv: "rt_base rt \<Longrightarrow> rt_loaded rt \<Longrightarrow> rt_inv rt"
  by (simp add: rt_inv_def rt_loaded_def)

lemma unload_core_inv:
  "rt_base rt \<Longrightarrow> rt_core_loaded rt \<Longrightarrow> rt_inv (unload_core rt) \<and> rt_cleared (unload_core rt)"
  by (simp add: rt_cleared_inv unload_core_base unload_core_cleared)

text \<open>The loader operations used while a core is loaded keep it loaded.\<close>

lemma loader_stop_live:
  "ld_state ld = Started \<Longrightarrow> ld_state (fst (loader_stop ld)) = Created"
  by (rule loader_stop_Started)

lemma loader_start_live:
  "live_state (ld_state ld) \<Longrightarrow> live_state (ld_state (fst (loader_start ld)))"
  by (auto simp: loader_start_def live_state_def ld_call_def Let_def split: option.splits prod.splits)

lemma loader_use_state [simp]:
  "ld_state (fst (loader_set_surfaces ld s)) = ld_state ld"
  "ld_state (fst (loader_run_frame ld h)) = ld_state ld"
  "ld_state (fst (loader_get_av_info ld)) = ld_state ld"
  "ld_state (fst (loader_serialize_size ld)) = ld_state ld"
  "ld_state (fst (loader_serialize ld b)) = ld_state ld"
  "ld_state (fst (loader_unserialize ld b)) = ld_state ld"
  "ld_state (fst (loader_load_content ld h p)) = ld_state ld"
  "ld_state (fst (loader_core_options_json ld)) = ld_state ld"
  "ld_state (fst (loader_core_option_get ld k)) = ld_state ld"
  "ld_state (fst (loader_core_option_set ld k v)) = ld_state ld"
  by (auto simp: loader_set_surfaces_def loader_use_defs ld_call_def split: option.splits prod.splits)

lemma loader_use_good:
  "loader_good ld \<Longrightarrow> loader_good (fst (loader_run_frame ld h))"
  "loader_good ld \<Longrightarrow> loader_good (fst (loader_get_av_info ld))"
  "loader_good ld \<Longrightarrow> loader_good (fst (loader_serialize_size ld))"
  "loader_good ld \<Longrightarrow> loader_good (fst (loader_serialize ld b))"
  "loader_good ld \<Longrightarrow> loader_good (fst (loader_unserialize ld b))"
  "loader_good ld \<Longrightarrow> loader_good (fst (loader_load_content ld h p))"
  "loader_good ld \<Longrightarrow> loader_good (fst (loader_core_options_json ld))"
  "loader_good ld \<Longrightarrow> loader_good (fst (loader_core_option_get ld k))"
  "loader_good ld \<Longrightarrow> loader_good (fst (loader_core_option_set ld k v))"
  using loader_good_step [of ld "ORun_frame h"] loader_good_step [of ld OGet_av_info]
    loader_good_step [of ld OSerialize_size] loader_good_step [of ld "OSerialize b"]
    loader_good_step [of ld "OUnserialize b"] loader_good_step [of ld "OLoad_content h p"]
    loader_good_step [of ld OOptions_json] loader_good_step [of ld "OOption_get k"]
    loader_good_step [of ld "OOption_set k v"]
  by simp_all

text \<open>Replacing the loader by one in an equally live state keeps the runtime's invariant.\<close>

lemma rt_inv_loader:
  "rt_inv rt \<Longrightarrow> loader_good ld \<Longrightarrow> ld_state ld = ld_state (rt_loader rt) \<Longrightarrow> rt_inv (rt\<lparr>rt_loader := ld\<rparr>)"
  by (cases "rt_core_loaded rt") (simp_all add: rt_inv_def rt_base_def rt_loaded_def rt_cleared_def)

lemma rt_inv_loader_use:
  assumes "rt_inv rt"
  shows "rt_inv (rt\<lparr>rt_loader := fst (loader_get_av_info (rt_loader rt))\<rparr>)"
    and "rt_inv (rt\<lparr>rt_loader := fst (loader_serialize_size (rt_loader rt))\<rparr>)"
    and "rt_inv (rt\<lparr>rt_loader := fst (loader_serialize (rt_loader rt) b)\<rparr>)"
    and "rt_inv (rt\<lparr>rt_loader := fst (loader_unserialize (rt_loader rt) b)\<rparr>)"
    and "rt_inv (rt\<lparr>rt_loader := fst (loader_load_content (rt_loader rt) h p)\<rparr>)"
    and "rt_inv (rt\<lparr>rt_loader := fst (loader_core_options_json (rt_loader rt))\<rparr>)"
    and "rt_inv (rt\<lparr>rt_loader := fst (loader_core_option_get (rt_loader rt) k)\<rparr>)"
    and "rt_inv (rt\<lparr>rt_loader := fst (loader_core_option_set (rt_loader rt) k v)\<rparr>)"
    and "rt_inv (rt\<lparr>rt_loader := fst (loader_run_frame (rt_loader rt) h)\<rparr>)"
proof -
  have "loader_good (rt_loader rt)"
    using assms by (simp add: rt_inv_def rt_base_def)
  then show "rt_inv (rt\<lparr>rt_loader := fst (loader_get_av_info (rt_loader rt))\<rparr>)"
    and "rt_inv (rt\<lparr>rt_loader := fst (loader_serialize_size (rt_loader rt))\<rparr>)"
    and "rt_inv (rt\<lparr>rt_loader := fst (loader_serialize (rt_loader rt) b)\<rparr>)"
    and "rt_inv (rt\<lparr>rt_loader := fst (loader_unserialize (rt_loader rt) b)\<rparr>)"
    and "rt_inv (rt\<lparr>rt_loader := fst (loader_load_content (rt_loader rt) h p)\<rparr>)"
    and "rt_inv (rt\<lparr>rt_loader := fst (loader_core_options_json (rt_loader rt))\<rparr>)"
    and "rt_inv (rt\<lparr>rt_loader := fst (loader_core_option_get (rt_loader rt) k)\<rparr>)"
    and "rt_inv (rt\<lparr>rt_loader := fst (loader_core_option_set (rt_loader rt) k v)\<rparr>)"
    and "rt_inv (rt\<lparr>rt_loader := fst (loader_run_frame (rt_loader rt) h)\<rparr>)"
    using assms by (simp_all add: rt_inv_loader loader_use_good)
qed

lemma rt_inv_baseD: "rt_inv rt \<Longrightarrow> rt_base rt"
  by (simp add: rt_inv_def)

lemma rt_inv_loadedD: "rt_inv rt \<Longrightarrow> rt_core_loaded rt \<Longrightarrow> rt_loaded rt"
  by (simp add: rt_inv_def)

lemma rt_inv_backend: "rt_inv rt \<Longrightarrow> rt_inv (rt\<lparr>rt_backend := Some b\<rparr>)"
  by (cases "rt_core_loaded rt") (simp_all add: rt_inv_def rt_base_def rt_loaded_def rt_cleared_def)

lemma rt_inv_call: "rt_inv rt \<Longrightarrow> rt_core_loaded rt \<Longrightarrow> rt_inv (apply_host_call env hc rt)"
  by (simp add: rt_inv_def rt_base_def rt_loaded_def host_frame_fields)

lemma set_input_inv: "rt_inv rt \<Longrightarrow> rt_inv (set_input p i rt)"
  by (cases "rt_core_loaded rt")
    (simp_all add: set_input_def rt_inv_def rt_base_def rt_loaded_def rt_cleared_def)

lemma audio_want_inv: "rt_inv rt \<Longrightarrow> rt_inv (fst (on_audio_want rt))"
  by (cases "rt_core_loaded rt")
    (auto simp: on_audio_want_def Let_def rt_inv_def rt_base_def rt_loaded_def rt_cleared_def
      split: option.splits prod.splits)

text \<open>Everything of the runtime but its audio.\<close>

lemma open_audio_fields [simp]:
  "host_frame (open_audio env av rt) = host_frame rt" "rt_ring (open_audio env av rt) = rt_ring rt"
  by (simp_all add: open_audio_def host_frame_def Let_def split: prod.splits)

lemma set_max_geometry_fields [simp]:
  "host_frame (set_max_geometry av rt) = host_frame rt"
  "rt_ring (set_max_geometry av rt) = rt_ring rt"
  by (simp_all add: set_max_geometry_def host_frame_def)

lemma host_frame_base: "host_frame rt = host_frame rt' \<Longrightarrow> rt_ring rt = rt_ring rt' \<Longrightarrow> rt_base rt = rt_base rt'"
  by (simp add: host_frame_def rt_base_def)

lemma host_frame_loaded: "host_frame rt = host_frame rt' \<Longrightarrow> rt_loaded rt = rt_loaded rt'"
  by (simp add: host_frame_def rt_loaded_def)

lemma open_audio_base [simp]: "rt_base (open_audio env av rt) = rt_base rt"
  by (rule host_frame_base) simp_all

lemma open_audio_loaded [simp]: "rt_loaded (open_audio env av rt) = rt_loaded rt"
  by (rule host_frame_loaded) simp

lemma set_max_geometry_base [simp]: "rt_base (set_max_geometry av rt) = rt_base rt"
  by (rule host_frame_base) simp_all

lemma set_max_geometry_loaded [simp]: "rt_loaded (set_max_geometry av rt) = rt_loaded rt"
  by (rule host_frame_loaded) simp

lemma base_loader:
  "rt_base rt \<Longrightarrow> loader_good ld \<Longrightarrow> rt_base (rt\<lparr>rt_loader := ld\<rparr>)"
  by (simp add: rt_base_def)

lemma rt_base_loader_good: "rt_base rt \<Longrightarrow> loader_good (rt_loader rt)"
  by (simp add: rt_base_def)

text \<open>
  \<open>rebuild_surfaces\<close> on a loaded core: the core is stopped if it ran, the ring starts a new
  generation, and a presenting core gets the new set.
\<close>

definition stopped :: "('c, 'b) Runtime \<Rightarrow> ('c, 'b) Runtime" where
  "stopped rt = (if ld_state (rt_loader rt) = Started
                 then rt\<lparr>rt_loader := fst (loader_stop (rt_loader rt))\<rparr> else rt)"

lemma stopped_base: "rt_base rt \<Longrightarrow> rt_base (stopped rt)"
  by (simp add: stopped_def base_loader loader_good_stop rt_base_loader_good)

lemma stopped_loaded: "rt_loaded rt \<Longrightarrow> rt_loaded (stopped rt) \<and> ld_state (rt_loader (stopped rt)) = Created"
  by (auto simp: stopped_def rt_loaded_def live_state_def loader_stop_live)

lemma rebuild_surfaces_loaded:
  assumes "rt_base rt" "rt_loaded rt"
  shows "rt_base (fst (rebuild_surfaces env rt)) \<and> rt_loaded (fst (rebuild_surfaces env rt)) \<and>
         ld_state (rt_loader (fst (rebuild_surfaces env rt))) = Created \<and>
         rt_core_type (fst (rebuild_surfaces env rt)) = rt_core_type rt \<and>
         rt_requires_content (fst (rebuild_surfaces env rt)) = rt_requires_content rt"
proof -
  have st: "rt_base (stopped rt)" "rt_loaded (stopped rt)" "ld_state (rt_loader (stopped rt)) = Created"
    "rt_core_type (stopped rt) = rt_core_type rt" "rt_requires_content (stopped rt) = rt_requires_content rt"
    using assms by (simp_all add: stopped_base stopped_loaded) (simp_all add: stopped_def)
  have step: "rt_base (s\<lparr>rt_backend := Some b\<rparr>)" "rt_loaded (s\<lparr>rt_backend := Some b\<rparr>)"
    if "rt_base s" "rt_loaded s" for s :: "('a, 'b) Runtime" and b
    using that by (simp_all add: rt_base_def rt_loaded_def)
  have step2: "rt_base (s\<lparr>rt_backend := Some b, rt_ring := fst (reallocate (rt_ring s) w h),
                rt_have_last_ready := False, rt_loader := ld\<rparr>)"
    "rt_base (s\<lparr>rt_backend := Some b, rt_ring := fst (reallocate (rt_ring s) w h),
                rt_have_last_ready := False\<rparr>)"
    "rt_loaded (s\<lparr>rt_backend := Some b, rt_ring := ring, rt_have_last_ready := False, rt_loader := ld\<rparr>)"
    "rt_loaded (s\<lparr>rt_backend := Some b, rt_ring := ring, rt_have_last_ready := False\<rparr>)"
    if "rt_base s" "rt_loaded s" "loader_good ld" "ld_state ld = ld_state (rt_loader s)"
    for s :: "('a, 'b) Runtime" and b w h ring ld
    using that by (simp_all add: rt_base_def rt_loaded_def)
  have good: "loader_good (rt_loader (stopped rt))"
    using st(1) by (rule rt_base_loader_good)
  show ?thesis
    using st
    by (simp add: rebuild_surfaces_def stopped_def [symmetric] Let_def split_beta step step2
        [OF _ _ good] step2 [OF _ _ loader_good_set_surfaces [OF good]])
qed

lemma rt_start_loaded:
  assumes "rt_base rt" "rt_loaded rt" "rt_core_type rt \<noteq> RP_CORE_DRIVEN"
  shows "rt_base (fst (rt_start rt))" "rt_loaded (fst (rt_start rt))"
  using assms loader_good_start [OF rt_base_loader_good [OF assms(1)]]
    loader_start_live [of "rt_loader rt"]
  by (simp_all add: rt_start_def split_beta rt_base_def rt_loaded_def)

lemma resize_inv: "rt_inv rt \<Longrightarrow> rt_inv (fst (resize env w h rt))"
proof (cases "rt_backend rt")
  case None
  then show "rt_inv rt \<Longrightarrow> ?thesis" by (simp add: resize_def)
next
  case (Some b)
  assume inv: "rt_inv rt"
  define rt1 where "rt1 = rt\<lparr>rt_width := w, rt_height := h\<rparr>"
  have fields: "rt_core_loaded rt1 = rt_core_loaded rt" "rt_base rt1 = rt_base rt"
    "rt_loaded rt1 = rt_loaded rt" "rt_cleared rt1 = rt_cleared rt"
    by (simp_all add: rt1_def rt_base_def rt_loaded_def rt_cleared_def)
  show ?thesis
  proof (cases "rt_core_loaded rt")
    case False
    with inv Some show ?thesis
      by (auto simp: resize_def Let_def rt_inv_def rt_base_def rt_cleared_def split: prod.splits)
  next
    case True
    then have l: "rt_base rt1" "rt_loaded rt1"
      using inv fields by (simp_all add: rt_inv_def)
    from rebuild_surfaces_loaded [OF this, of env]
    have r: "rt_base (fst (rebuild_surfaces env rt1))" "rt_loaded (fst (rebuild_surfaces env rt1))"
      by simp_all
    have "rt_inv (fst (rebuild_surfaces env rt1))"
      using r by (rule rt_loaded_inv)
    moreover have "rt_core_type (fst (rebuild_surfaces env rt1)) = RP_CORE_PRESENTING \<Longrightarrow>
        rt_inv (fst (rt_start (fst (rebuild_surfaces env rt1))))"
      using rt_start_loaded [OF r] by (simp add: rt_loaded_inv)
    ultimately show ?thesis
      using Some True fields inv l
      by (simp add: resize_def Let_def rt1_def [symmetric] split_beta rt_loaded_inv)
  qed
qed

lemma finish_load_core_inv:
  assumes "rt_base rt" "rt_init_ok rt" "rt_module rt \<noteq> None" "ld_state (rt_loader rt) = Created"
  shows "rt_inv (fst (finish_load_core env ty rt)) \<and>
         (if snd (finish_load_core env ty rt) = RP_OK
          then rt_loaded (fst (finish_load_core env ty rt)) \<and>
               rt_core_type (fst (finish_load_core env ty rt)) = ty
          else rt_cleared (fst (finish_load_core env ty rt)))"
proof -
  define rt1 where "rt1 = mark_loaded ty rt"
  have l: "rt_base rt1" "rt_loaded rt1" "rt_core_loaded rt1" "rt_core_type rt1 = ty"
    "rt_loader rt1 = rt_loader rt"
    using assms by (simp_all add: rt1_def mark_loaded_def rt_base_def rt_loaded_def live_state_def)
  show ?thesis
  proof (cases "ty = RP_CORE_DRIVEN")
    case True
    define ld av where "ld = fst (loader_get_av_info (rt_loader rt1))"
      and "av = snd (loader_get_av_info (rt_loader rt1))"
    have u: "rt_base (rt1\<lparr>rt_loader := ld\<rparr>)" "rt_loaded (rt1\<lparr>rt_loader := ld\<rparr>)"
      using rt_inv_loader_use(1) [OF rt_loaded_inv [OF l(1,2)]] l(3)
      by (simp_all add: ld_def rt_inv_def)
    have c: "rt_core_type (open_audio env a (set_max_geometry a (rt1\<lparr>rt_loader := ld\<rparr>))) = ty" for a
      using open_audio_fields(1) [of env a "set_max_geometry a (rt1\<lparr>rt_loader := ld\<rparr>)"]
        set_max_geometry_fields(1) [of a "rt1\<lparr>rt_loader := ld\<rparr>"] l(4)
      by (simp add: host_frame_def)
    have err: "av = Inl e \<Longrightarrow> e \<noteq> RP_OK" for e
      by (auto simp: av_def loader_get_av_info_def split: if_splits option.splits)
    have "loader_get_av_info (rt_loader rt1) = (ld, av)"
      by (simp add: ld_def av_def)
    moreover have "mark_loaded RP_CORE_DRIVEN rt = rt1"
      using True by (simp add: rt1_def)
    ultimately show ?thesis
      using True u c err unload_core_inv [OF u(1)] l
      by (auto simp: finish_load_core_def Let_def rt_loaded_inv split: sum.splits)
  next
    case False
    note r = rebuild_surfaces_loaded [OF l(1,2), of env]
    define rt2 where "rt2 = fst (rebuild_surfaces env rt1)"
    have l2: "rt_base rt2" "rt_loaded rt2" "rt_core_type rt2 = ty" "rt_core_loaded rt2"
      using r l by (auto simp: rt2_def rt_loaded_def)
    have st: "rt_base (fst (rt_start rt2))" "rt_loaded (fst (rt_start rt2))"
      using rt_start_loaded [OF l2(1,2)] l2(3) False by simp_all
    have ty: "rt_core_type (fst (rt_start rt2)) = ty" "rt_core_loaded (fst (rt_start rt2))"
      using l2(3,4) by (simp_all add: rt_start_def split_beta)
    show ?thesis
      using False l2 st ty unload_core_inv [OF l2(1)] unload_core_inv [OF st(1)]
      by (simp add: finish_load_core_def Let_def rt1_def [symmetric] rt2_def [symmetric] split_beta
          rt_loaded_inv)
  qed
qed

text \<open>\<open>load\<close> and \<open>create\<close> from an empty runtime.\<close>

lemma rt_load_base: "rt_base rt \<Longrightarrow> rt_base (fst (rt_load rt))"
  by (simp add: rt_load_def split_beta base_loader loader_good_load rt_base_loader_good)

lemma rt_create_base: "rt_base rt \<Longrightarrow> rt_base (fst (rt_create env rt))"
  by (simp add: rt_create_def split_beta base_loader loader_good_create rt_base_loader_good)

lemma rt_load_fail: "snd (rt_load rt) \<noteq> RP_OK \<Longrightarrow> fst (rt_load rt) = rt"
  by (auto simp: rt_load_def loader_load_def split: option.splits if_splits)

lemma rt_load_ok:
  "snd (rt_load rt) = RP_OK \<Longrightarrow> ld_state (rt_loader (fst (rt_load rt))) = Loaded"
  by (auto simp: rt_load_def loader_load_def split: option.splits if_splits)

lemma rt_create_ok:
  "snd (rt_create env rt) = RP_OK \<Longrightarrow> ld_state (rt_loader (fst (rt_create env rt))) = Created"
  by (auto simp: rt_create_def loader_create_def ld_call_def split: option.splits if_splits)

lemma rt_load_create_fields [simp]:
  "rt_module (fst (rt_load rt)) = rt_module rt" "rt_init_ok (fst (rt_load rt)) = rt_init_ok rt"
  "rt_module (fst (rt_create env rt)) = rt_module rt"
  "rt_init_ok (fst (rt_create env rt)) = rt_init_ok rt"
  "rt_core_loaded (fst (rt_load rt)) = rt_core_loaded rt"
  "rt_core_loaded (fst (rt_create env rt)) = rt_core_loaded rt"
  by (simp_all add: rt_load_def rt_create_def split_beta)

lemma drop_core_inv:
  assumes "rt_base rt" "rt_cleared (drop_core rt)"
  shows "rt_inv (drop_core rt)"
  using assms by (simp add: rt_cleared_inv drop_core_def rt_base_def loader_good_destroy)

lemma drop_core_cleared:
  assumes "rt_cleared rt"
  shows "rt_cleared (drop_core (fst (rt_load (rt\<lparr>rt_module := m\<rparr>))))"
    and "rt_cleared (drop_core (fst (rt_create env (fst (rt_load (rt\<lparr>rt_module := m\<rparr>))))))"
  using assms by (simp_all add: drop_core_def rt_cleared_def rt_load_def rt_create_def split_beta)

lemma base_module [simp]: "rt_base (rt\<lparr>rt_module := m\<rparr>) = rt_base rt"
  by (simp add: rt_base_def)

text \<open>The three ways a boot goes on after \<open>load\<close>, from a runtime without a core.\<close>

lemma boot_load_fail:
  assumes "rt_base rt" "rt_cleared rt" "snd (rt_load (rt\<lparr>rt_module := Some m\<rparr>)) \<noteq> RP_OK"
  shows "rt_inv ((fst (rt_load (rt\<lparr>rt_module := Some m\<rparr>)))\<lparr>rt_module := None\<rparr>) \<and>
         rt_cleared ((fst (rt_load (rt\<lparr>rt_module := Some m\<rparr>)))\<lparr>rt_module := None\<rparr>)"
  using assms rt_load_fail [OF assms(3)] by (simp add: rt_inv_def rt_cleared_def)

lemma boot_drop:
  assumes "rt_base rt" "rt_cleared rt"
  shows "rt_inv (drop_core (fst (rt_load (rt\<lparr>rt_module := Some m\<rparr>)))) \<and>
         rt_cleared (drop_core (fst (rt_load (rt\<lparr>rt_module := Some m\<rparr>))))"
    and "rt_inv (drop_core (fst (rt_create env (fst (rt_load (rt\<lparr>rt_module := Some m\<rparr>)))))) \<and>
         rt_cleared (drop_core (fst (rt_create env (fst (rt_load (rt\<lparr>rt_module := Some m\<rparr>))))))"
  using assms drop_core_cleared [OF assms(2)]
  by (simp_all add: drop_core_inv rt_load_base rt_create_base)

definition load_outcome :: "('c, 'b) Runtime \<times> rp_result \<Rightarrow> bool" where
  "load_outcome x \<longleftrightarrow>
     rt_inv (fst x) \<and> (if snd x = RP_OK then rt_loaded (fst x) else rt_cleared (fst x))"

lemma boot_finish:
  assumes "rt_base rt" "rt_init_ok rt"
    and "snd (rt_create env (fst (rt_load (rt\<lparr>rt_module := Some m\<rparr>)))) = RP_OK"
  shows "load_outcome (finish_load_core env ty (fst (rt_create env (fst (rt_load (rt\<lparr>rt_module := Some m\<rparr>))))))"
proof -
  let ?rt = "fst (rt_create env (fst (rt_load (rt\<lparr>rt_module := Some m\<rparr>))))"
  have "rt_base ?rt" "rt_init_ok ?rt" "rt_module ?rt \<noteq> None" "ld_state (rt_loader ?rt) = Created"
    using assms by (simp_all add: rt_create_base rt_load_base rt_create_ok)
  from finish_load_core_inv [OF this, of env ty] show ?thesis
    by (simp add: load_outcome_def split: if_splits)
qed

lemma load_outcome_dirs [simp]:
  "load_outcome (rt\<lparr>rt_core_dir := d, rt_core_id := i\<rparr>, r) = load_outcome (rt, r)"
  "load_outcome (rt\<lparr>rt_core_id := i, rt_core_dir := d\<rparr>, r) = load_outcome (rt, r)"
  by (simp_all add: load_outcome_def rt_inv_def rt_base_def rt_loaded_def rt_cleared_def)

text \<open>Both loaders first clear the runtime.\<close>

lemma preload_cleared:
  assumes "rt_inv rt"
  shows "rt_base (if rt_core_loaded rt \<or> ld_state (rt_loader rt) \<noteq> Unloaded then unload_core rt else rt)"
    and "rt_cleared (if rt_core_loaded rt \<or> ld_state (rt_loader rt) \<noteq> Unloaded then unload_core rt else rt)"
    and "rt_init_ok (if rt_core_loaded rt \<or> ld_state (rt_loader rt) \<noteq> Unloaded then unload_core rt else rt) = rt_init_ok rt"
  using assms by (auto simp: unload_core_base unload_core_cleared rt_inv_def split: if_splits)

lemma load_outcome_fail:
  "rt_inv rt \<Longrightarrow> rt_cleared rt \<Longrightarrow> r \<noteq> RP_OK \<Longrightarrow> load_outcome (rt, r)"
  by (simp add: load_outcome_def)

lemma load_outcome_ok: "load_outcome x \<Longrightarrow> snd x = RP_OK \<Longrightarrow> load_outcome (fst x, RP_OK)"
  by (cases x) simp

lemma load_core_outcome:
  assumes "rt_inv rt" "rt_init_ok rt"
  shows "load_outcome (load_core env core_dir rt)"
proof -
  define rt0 where "rt0 = (if rt_core_loaded rt \<or> ld_state (rt_loader rt) \<noteq> Unloaded
                           then unload_core rt else rt)"
  have c: "rt_base rt0" "rt_cleared rt0" "rt_init_ok rt0" "rt_inv rt0"
    using preload_cleared [OF assms(1)] assms(2) by (simp_all add: rt0_def rt_cleared_inv)
  show ?thesis
    using assms(2) c boot_load_fail [OF c(1,2)] boot_drop [OF c(1,2)]
      boot_finish [OF c(1,3)]
    by (auto simp: load_core_def rt0_def [symmetric] Let_def split_beta load_outcome_fail
        intro: load_outcome_ok split: option.splits sum.splits)
qed

lemma load_static_core_outcome:
  assumes "rt_inv rt" "rt_init_ok rt"
  shows "load_outcome (load_static_core env core_id rt)"
proof -
  define rt0 where "rt0 = (if rt_core_loaded rt \<or> ld_state (rt_loader rt) \<noteq> Unloaded
                           then unload_core rt else rt)"
  have c: "rt_base rt0" "rt_cleared rt0" "rt_init_ok rt0" "rt_inv rt0"
    using preload_cleared [OF assms(1)] assms(2) by (simp_all add: rt0_def rt_cleared_inv)
  show ?thesis
    using assms(2) c boot_load_fail [OF c(1,2)] boot_drop [OF c(1,2)]
      boot_finish [OF c(1,3)]
    by (auto simp: load_static_core_def rt0_def [symmetric] Let_def split_beta load_outcome_fail
        intro: load_outcome_ok split: option.splits)
qed

lemma load_core_inv: "rt_inv rt \<Longrightarrow> rt_inv (fst (load_core env d rt))"
  using load_core_outcome [of rt env d]
  by (cases "rt_init_ok rt") (simp_all add: load_outcome_def load_core_def)

lemma load_static_core_inv: "rt_inv rt \<Longrightarrow> rt_inv (fst (load_static_core env i rt))"
  using load_static_core_outcome [of rt env i]
  by (cases "rt_init_ok rt") (simp_all add: load_outcome_def load_static_core_def)

lemma content_flag [simp]:
  "rt_base (rt\<lparr>rt_content_loaded := x\<rparr>) = rt_base rt" "rt_loaded (rt\<lparr>rt_content_loaded := x\<rparr>) = rt_loaded rt"
  by (simp_all add: rt_base_def rt_loaded_def)

lemma av_info_loaded:
  assumes "rt_base rt" "rt_loaded rt"
  shows "rt_base (rt\<lparr>rt_loader := fst (loader_get_av_info (rt_loader rt))\<rparr>)"
    and "rt_loaded (rt\<lparr>rt_loader := fst (loader_get_av_info (rt_loader rt))\<rparr>)"
  using assms by (simp_all add: rt_base_def rt_loaded_def loader_use_good)

lemma load_content_driven_inv:
  assumes "rt_base rt" "rt_loaded rt"
  shows "rt_inv (fst (load_content_driven env rt))"
  using av_info_loaded [OF assms]
  by (simp add: load_content_driven_def Let_def split_beta rt_loaded_inv split: sum.splits)

lemma load_content_presenting_inv:
  assumes "rt_base rt" "rt_loaded rt" "rt_core_type rt \<noteq> RP_CORE_DRIVEN"
  shows "rt_inv (fst (load_content_presenting env rt))"
proof (cases "ld_state (rt_loader rt) = Started")
  case True
  then show ?thesis
    using assms av_info_loaded [of "rt\<lparr>rt_content_loaded := True\<rparr>"]
    by (simp add: load_content_presenting_def Let_def split_beta rt_loaded_inv split: sum.splits)
next
  case False
  have "rt_base (fst (rt_start (rt\<lparr>rt_content_loaded := True\<rparr>)))"
    "rt_loaded (fst (rt_start (rt\<lparr>rt_content_loaded := True\<rparr>)))"
    using assms rt_start_loaded [of "rt\<lparr>rt_content_loaded := True\<rparr>"] by simp_all
  with False show ?thesis
    using av_info_loaded [of "fst (rt_start (rt\<lparr>rt_content_loaded := True\<rparr>))"]
    by (simp add: load_content_presenting_def Let_def split_beta rt_loaded_inv split: sum.splits)
qed

lemma load_content_inv:
  assumes inv: "rt_inv rt"
  shows "rt_inv (fst (load_content env path rt))"
proof (cases "rt_core_loaded rt")
  case False
  with inv show ?thesis by (simp add: load_content_def)
next
  case True
  define p where "p = (case path of None \<Rightarrow> [] | Some p \<Rightarrow> p)"
  define rt1 where "rt1 = rt\<lparr>rt_content_path := p\<rparr>"
  define rt2 where "rt2 = rt1\<lparr>rt_loader := fst (loader_load_content (rt_loader rt1) (rt_host_view env rt1) p)\<rparr>"
  have "rt_base rt" "rt_loaded rt"
    using inv True by (simp_all add: rt_inv_def)
  then have l1: "rt_base rt1" "rt_loaded rt1"
    by (simp_all add: rt1_def rt_base_def rt_loaded_def)
  then have l2: "rt_base rt2" "rt_loaded rt2" "rt_core_type rt2 = rt_core_type rt1"
    by (simp_all add: rt2_def rt_base_def rt_loaded_def loader_use_good)
  show ?thesis
    using True l1 l2 load_content_presenting_inv [OF l2(1,2)] load_content_driven_inv [OF l2(1,2)]
    by (simp add: load_content_def p_def [symmetric] rt1_def [symmetric] rt2_def [symmetric] Let_def
        split_beta rt_loaded_inv)
qed

lemma rewind_ring_push_length [simp]: "length (rewind_ring_push ring snap n) \<le> unat n"
  by (simp add: rewind_ring_push_def Let_def del: drop_append)

lemma capture_snapshot_base: "rt_base rt \<Longrightarrow> rt_rewind_enabled rt \<Longrightarrow> rt_base (capture_snapshot rt)"
  by (simp add: capture_snapshot_def Let_def split_beta rt_base_def loader_use_good)

lemma capture_snapshot_loaded: "rt_loaded rt \<Longrightarrow> rt_loaded (capture_snapshot rt)"
  by (simp add: capture_snapshot_def Let_def split_beta rt_loaded_def)

lemma advance_inv:
  assumes "rt_inv rt"
  shows "rt_inv (fst (advance env e rt))"
proof (cases "rt_backend rt = None \<or> \<not> (rt_core_loaded rt \<and> rt_core_type rt = RP_CORE_DRIVEN) \<or>
              rt_requires_content rt \<and> \<not> rt_content_loaded rt")
  case True
  with assms show ?thesis by (auto simp: advance_def)
next
  case False
  define rt1 where "rt1 = (if rt_rewind_replay rt then rt\<lparr>rt_rewind_replay := False\<rparr>
                           else if rt_rewind_enabled rt then capture_snapshot rt else rt)"
  have l: "rt_base rt" "rt_loaded rt"
    using assms False by (simp_all add: rt_inv_def)
  have rep: "rt_base (rt\<lparr>rt_rewind_replay := False\<rparr>)" "rt_loaded (rt\<lparr>rt_rewind_replay := False\<rparr>)"
    using l by (simp_all add: rt_base_def rt_loaded_def)
  have l1: "rt_base rt1" "rt_loaded rt1"
    using l rep capture_snapshot_base [OF l(1)] capture_snapshot_loaded [OF l(2)]
    by (auto simp: rt1_def)
  define rt2 where "rt2 = rt1\<lparr>rt_dr_have := False, rt_suppress_audio := \<not> e\<rparr>"
  define rt3 where "rt3 = rt2\<lparr>rt_loader := fst (loader_run_frame (rt_loader rt1) (rt_host_view env rt2))\<rparr>"
  have rt2: "rt_loader rt2 = rt_loader rt1"
    by (simp add: rt2_def)
  have l3: "rt_base (rt3\<lparr>rt_suppress_audio := False\<rparr>)" "rt_loaded rt3"
    using l1 by (simp_all add: rt3_def rt2_def rt_base_def rt_loaded_def loader_use_good)
  have l4: "rt_base ((fold (apply_host_call env) hcs rt3)\<lparr>rt_suppress_audio := False\<rparr>)"
    "rt_loaded ((fold (apply_host_call env) hcs rt3)\<lparr>rt_suppress_audio := False\<rparr>)" for hcs
    using l3 by (simp_all add: rt_base_def rt_loaded_def host_frame_fields)
  show ?thesis
    using False l4 rt2
    by (auto simp: advance_def rt1_def [symmetric] rt2_def [symmetric] rt3_def [symmetric] Let_def
        split_beta rt_loaded_inv)
qed

text \<open>Rendering changes the backend, the frame-rate counters and the remembered ring frame only.\<close>

definition render_frame :: "('c, 'b) Runtime \<Rightarrow> _" where
  "render_frame rt =
     ((rt_loader rt, rt_module rt, rt_core_loaded rt, rt_init_ok rt, rt_core_type rt, rt_ring rt),
      (rt_input rt, rt_suppress_audio rt, rt_requires_content rt, rt_content_loaded rt, rt_audio rt,
       rt_audio_frames rt, rt_audio_nonsilent rt),
      (rt_rewind_ring rt, rt_rewind_enabled rt, rt_rewind_replay rt, rt_rewind_max rt),
      (rt_paused rt, rt_content_path rt, rt_api rt, rt_dr_data rt, rt_dr_have rt, rt_dr_is_gl rt),
      rt_backend rt = None)"

lemma tick_fps_frame: "render_frame (tick_fps now rt) = render_frame rt" "rt_backend (tick_fps now rt) = rt_backend rt"
  by (simp_all add: tick_fps_def render_frame_def Let_def)

lemma render_render_frame: "render_frame (fst (render env now out rt)) = render_frame rt"
proof -
  have upd: "rt_backend s = Some b \<Longrightarrow> render_frame (s\<lparr>rt_backend := Some b'\<rparr>) = render_frame s"
    "rt_backend s = Some b \<Longrightarrow>
     render_frame (s\<lparr>rt_last_ready_idx := i, rt_last_ready_sv := v, rt_have_last_ready := h, rt_backend := Some b'\<rparr>)
       = render_frame s"
    "render_frame (s\<lparr>rt_last_ready_idx := i, rt_last_ready_sv := v, rt_have_last_ready := h\<rparr>) = render_frame s"
    for s :: "('a, 'b) Runtime" and b b' i v h
    by (simp_all add: render_frame_def)
  show ?thesis
    by (cases "rt_backend rt")
      (auto simp: render_def Let_def split_beta tick_fps_frame upd split: option.splits)
qed

lemma render_frame_inv: "render_frame rt = render_frame rt' \<Longrightarrow> rt_inv rt = rt_inv rt'"
  by (auto simp: render_frame_def rt_inv_def rt_base_def rt_loaded_def rt_cleared_def)

lemma render_inv: "rt_inv rt \<Longrightarrow> rt_inv (fst (render env now out rt))"
  using render_frame_inv [OF render_render_frame] by blast

lemma present_inv: "rt_inv rt \<Longrightarrow> rt_inv (fst (present env now out rt))"
  by (simp add: present_def split_beta render_inv advance_inv)

lemma serialize_size_inv: "rt_inv rt \<Longrightarrow> rt_inv (fst (serialize_size rt))"
  by (simp add: serialize_size_def split_beta rt_inv_loader_use)

lemma save_state_inv: "rt_inv rt \<Longrightarrow> rt_inv (fst (save_state buf rt))"
  using serialize_size_inv [of rt] rt_inv_loader_use(3) [of "fst (serialize_size rt)"]
  by (cases buf) (simp_all add: save_state_def split_beta)

lemma load_state_inv: "rt_inv rt \<Longrightarrow> rt_inv (fst (load_state buf rt))"
  by (cases buf) (simp_all add: load_state_def split_beta rt_inv_loader_use)

lemma serialize_size_live: "snd (serialize_size rt) \<noteq> 0 \<Longrightarrow> live_state (ld_state (rt_loader rt))"
  by (auto simp: serialize_size_def loader_serialize_size_def split: if_splits)

lemma set_rewind_inv:
  assumes "rt_inv rt"
  shows "rt_inv (fst (set_rewind e n rt))"
proof (cases "snd (serialize_size rt) = 0")
  case True
  with assms serialize_size_inv [OF assms] show ?thesis by (simp add: set_rewind_def split_beta)
next
  case False
  have "rt_core_loaded rt"
    using serialize_size_live [OF False] assms
    by (auto simp: rt_inv_def rt_cleared_def live_state_def split: if_splits)
  with False serialize_size_inv [OF assms] show ?thesis
    by (simp add: set_rewind_def split_beta rt_inv_def rt_base_def rt_loaded_def
        serialize_size_def [of rt] rt_cleared_def)
qed

lemma rewind_inv:
  assumes "rt_inv rt"
  shows "rt_inv (fst (rewind rt))"
proof (cases "rt_rewind_enabled rt \<and> \<not> length (rt_rewind_ring rt) < 2")
  case False
  with assms show ?thesis by (auto simp: rewind_def)
next
  case True
  then have "rt_core_loaded rt"
    using assms by (auto simp: rt_inv_def rt_cleared_def split: if_splits)
  with True assms show ?thesis
    by (auto simp: rewind_def Let_def split_beta rt_inv_def rt_base_def rt_loaded_def loader_use_good)
qed

lemma pause_inv: "rt_inv rt \<Longrightarrow> rt_inv (fst (pause rt))"
  by (cases "rt_core_loaded rt") (simp_all add: pause_def rt_inv_def rt_base_def rt_loaded_def)

lemma resume_inv: "rt_inv rt \<Longrightarrow> rt_inv (fst (resume rt))"
  by (cases "rt_core_loaded rt")
    (simp_all add: resume_def rt_inv_def rt_base_def rt_loaded_def rt_cleared_def)

lemma unload_inv: "rt_inv rt \<Longrightarrow> rt_inv (unload_core rt) \<and> rt_cleared (unload_core rt)"
  using unload_core_base [of rt] unload_core_cleared [of rt]
  by (auto simp: rt_inv_def rt_cleared_inv rt_cleared_def split: if_splits)

lemma options_inv:
  "rt_inv rt \<Longrightarrow> rt_inv (fst (core_options_json rt))"
  "rt_inv rt \<Longrightarrow> rt_inv (fst (core_option_get k rt))"
  "rt_inv rt \<Longrightarrow> rt_inv (fst (core_option_set k v rt))"
  by (simp_all add: core_options_json_def core_option_get_def core_option_set_def split_beta
      rt_inv_loader_use)

lemma reset_inv:
  assumes inv: "rt_inv rt"
  shows "rt_inv (fst (reset env rt))"
proof (cases "rt_core_loaded rt")
  case False
  with inv show ?thesis
    by (simp add: reset_def rt_inv_def rt_base_def rt_cleared_def)
next
  case True
  define rt1 where "rt1 = rt\<lparr>rt_paused := False, rt_have_last_ready := False, rt_last_ready_idx := 0,
       rt_last_ready_sv := 0, rt_fps := 0, rt_fps_t0_ns := 0, rt_fps_count := 0,
       rt_dr_have := False, rt_dr_data := None, rt_dr_dupe := False,
       rt_dr_is_gl := False, rt_dr_gl_tex := 0, rt_rewind_ring := [],
       rt_rewind_replay := False, rt_content_loaded := False,
       rt_loader := loader_destroy (rt_loader rt)\<rparr>"
  have l1: "rt_base rt1" "rt_core_loaded rt1" "rt_init_ok rt1" "rt_module rt1 \<noteq> None"
    using inv True by (simp_all add: rt1_def rt_inv_def rt_base_def rt_loaded_def loader_good_destroy)
  define rt2 where "rt2 = fst (rt_load rt1)"
  have l2: "rt_base rt2" "rt_core_loaded rt2" "rt_init_ok rt2" "rt_module rt2 \<noteq> None"
    using l1 by (simp_all add: rt2_def rt_load_base)
  define rt3 where "rt3 = fst (rt_create env rt2)"
  have l3: "rt_base rt3" "rt_core_loaded rt3" "rt_init_ok rt3" "rt_module rt3 \<noteq> None"
    "snd (rt_create env rt2) = RP_OK \<Longrightarrow> ld_state (rt_loader rt3) = Created"
    using l2 by (simp_all add: rt3_def rt_create_base rt_create_ok)
  have fin: "rt_inv (fst (finish_load_core env ty rt3))" if "snd (rt_create env rt2) = RP_OK" for ty
    using finish_load_core_inv [OF l3(1,3,4) l3(5) [OF that]] by simp
  have path: "rt_inv (s\<lparr>rt_content_path := p\<rparr>)"
    if "rt_inv s" "rt_core_loaded s" for s :: "('a, 'b) Runtime" and p
    using that by (simp add: rt_inv_def rt_base_def rt_loaded_def)
  have loaded: "rt_core_loaded (fst (finish_load_core env ty rt3))"
    if "snd (rt_create env rt2) = RP_OK" "snd (finish_load_core env ty rt3) = RP_OK" for ty
    using finish_load_core_inv [OF l3(1,3,4) l3(5) [OF that(1)], of env ty] that(2)
    by (simp add: rt_loaded_def)
  show ?thesis
    using True l2 l3 unload_core_inv [OF l2(1,2)] unload_core_inv [OF l3(1,2)] fin
    by (simp add: reset_def rt1_def [symmetric] rt2_def [symmetric] rt3_def [symmetric] Let_def
        split_beta load_content_inv path loaded)
qed

section \<open>All reachable states\<close>

datatype ('c, 'b) rt_op =
    RSet_input u32 rp_input_state
  | RHost_call host_call
  | RAudio_want
  | RResize u32 u32
  | RLoad_core string
  | RLoad_static_core string
  | RUnload_core
  | RLoad_content "string option"
  | RAdvance bool
  | RRender u64 bool
  | RPresent u64 bool
  | RSerialize_size
  | RSave_state "bytes option"
  | RLoad_state "bytes option"
  | RSet_rewind bool u32
  | RRewind
  | RPause
  | RResume
  | RReset
  | ROptions_json
  | ROption_get "string option"
  | ROption_set "string option" "string option"

text \<open>
  One operation under the environment of that moment. Callbacks of a presenting core's own threads
  are operations too, as long as there is a core.
\<close>

fun rt_step :: "('c, 'b) rt_env \<times> ('c, 'b) rt_op \<Rightarrow> ('c, 'b) Runtime \<Rightarrow> ('c, 'b) Runtime" where
  "rt_step (env, RSet_input p i) rt = set_input p i rt"
| "rt_step (env, RHost_call hc) rt = (if rt_core_loaded rt then apply_host_call env hc rt else rt)"
| "rt_step (env, RAudio_want) rt = fst (on_audio_want rt)"
| "rt_step (env, RResize w h) rt = fst (resize env w h rt)"
| "rt_step (env, RLoad_core d) rt = fst (load_core env d rt)"
| "rt_step (env, RLoad_static_core i) rt = fst (load_static_core env i rt)"
| "rt_step (env, RUnload_core) rt = unload_core rt"
| "rt_step (env, RLoad_content p) rt = fst (load_content env p rt)"
| "rt_step (env, RAdvance e) rt = fst (advance env e rt)"
| "rt_step (env, RRender now out) rt = fst (render env now out rt)"
| "rt_step (env, RPresent now out) rt = fst (present env now out rt)"
| "rt_step (env, RSerialize_size) rt = fst (serialize_size rt)"
| "rt_step (env, RSave_state b) rt = fst (save_state b rt)"
| "rt_step (env, RLoad_state b) rt = fst (load_state b rt)"
| "rt_step (env, RSet_rewind e n) rt = fst (set_rewind e n rt)"
| "rt_step (env, RRewind) rt = fst (rewind rt)"
| "rt_step (env, RPause) rt = fst (pause rt)"
| "rt_step (env, RResume) rt = fst (resume rt)"
| "rt_step (env, RReset) rt = fst (reset env rt)"
| "rt_step (env, ROptions_json) rt = fst (core_options_json rt)"
| "rt_step (env, ROption_get k) rt = fst (core_option_get k rt)"
| "rt_step (env, ROption_set k v) rt = fst (core_option_set k v rt)"

lemmas rt_op_invs = set_input_inv rt_inv_call audio_want_inv resize_inv load_core_inv
  load_static_core_inv unload_inv load_content_inv advance_inv render_inv present_inv
  serialize_size_inv save_state_inv load_state_inv set_rewind_inv rewind_inv pause_inv resume_inv
  reset_inv options_inv

lemma rt_step_inv: "rt_inv rt \<Longrightarrow> rt_inv (rt_step x rt)"
  by (cases "(x, rt)" rule: rt_step.cases) (simp_all add: rt_op_invs)

lemma rt_steps_inv: "rt_inv rt \<Longrightarrow> rt_inv (fold rt_step xs rt)"
  by (induction xs arbitrary: rt) (simp_all add: rt_step_inv)

text \<open>
  C9. In every state a frontend can reach (any operations in any order, any core, any backend, any
  answers of the outside) the runtime is consistent: a core is loaded exactly if the loader holds a
  live instance, then there are a module and an initialised backend and a driven core is never
  running on its own; without a core nothing of the last one is left (no frame, content, audio,
  pause, snapshot or module); the calls made into the core obey its lifecycle; at most
  \<open>rewind_max_\<close> snapshots are kept; audio is not left suppressed.
\<close>

theorem runtime_invariant: "rt_inv (fold rt_step xs (Runtime_new env api win))"
  by (rule rt_steps_inv) (rule rt_inv_new)

text \<open>
  C13. Loading a core either succeeds and leaves it loaded, or fails and leaves the runtime without
  any core, whatever was loaded before and wherever the failure happened; only a runtime whose
  backend is not initialised is left untouched.
\<close>

theorem load_core_all_or_nothing:
  assumes "rt_inv rt"
  shows "(if \<not> rt_init_ok rt then load_core env d rt = (rt, RP_ERR_DEVICE)
          else if snd (load_core env d rt) = RP_OK then rt_loaded (fst (load_core env d rt))
          else rt_cleared (fst (load_core env d rt)))
       \<and> (if \<not> rt_init_ok rt then load_static_core env i rt = (rt, RP_ERR_DEVICE)
          else if snd (load_static_core env i rt) = RP_OK then rt_loaded (fst (load_static_core env i rt))
          else rt_cleared (fst (load_static_core env i rt)))"
  using load_core_outcome [OF assms, of env d] load_static_core_outcome [OF assms, of env i]
  by (auto simp: load_outcome_def load_core_def load_static_core_def split: if_splits)

definition demo_backend :: "unit IRenderBackend" where
  "demo_backend =
     \<lparr>be_initialize = (\<lambda>b win w h. (b, RP_OK)),
      be_allocate_surfaces = (\<lambda>b n w h. (b, RP_OK, [])),
      be_composite_and_present = (\<lambda>b i sv has out. (b, RP_OK, None)),
      be_composite_driven = (\<lambda>b d w h p dupe out. (b, RP_OK, d)),
      be_present_sync_handle = (\<lambda>b. None), be_present_consume_sync_handle = (\<lambda>b. None),
      be_present_device_uuid = (\<lambda>b. default_device_uuid), be_gl_context = (\<lambda>b. None),
      be_composite_external_gl = default_composite_external_gl\<rparr>"

definition demo_env :: "'c registry \<Rightarrow> ('c, unit) rt_env" where
  "demo_env reg =
     \<lparr>rv_backend = demo_backend, rv_new_d3d11 = (), rv_new_vulkan = (), rv_new_gl = (),
      rv_read_file = (\<lambda>_. None), rv_json_parse = (\<lambda>_. None), rv_dlopen = (\<lambda>_. None),
      rv_registry = reg,
      rv_xaudio = \<lparr>env_com_s_ok = True, env_create_ok = True, env_master_ok = True, env_source_ok = True\<rparr>,
      rv_submit_ok = True\<rparr>"

definition demo_rt :: "'c registry \<Rightarrow> ('c, unit) Runtime" where
  "demo_rt reg = Runtime_new (demo_env reg) RP_GFX_D3D11 None"

lemmas demo_defs = demo_rt_def demo_env_def demo_backend_def Runtime_new_def Runtime_blank_def
  make_backend_def

theorem load_core_all_or_nothing_witness:
  "rt_inv (demo_rt [] :: (unit, unit) Runtime) \<and>
   load_core (demo_env []) ''cores/none'' (demo_rt []) = (demo_rt [] :: (unit, unit) Runtime, RP_ERR_NOT_FOUND) \<and>
   rt_cleared (demo_rt [] :: (unit, unit) Runtime)"
proof -
  have inv: "rt_inv (demo_rt [] :: (unit, unit) Runtime)"
    by (simp add: demo_rt_def rt_inv_new)
  have r: "load_core (demo_env []) ''cores/none'' (demo_rt []) = (demo_rt [] :: (unit, unit) Runtime, RP_ERR_NOT_FOUND)"
    by (simp add: load_core_def demo_defs CoreLoader_new_def)
  have "rt_init_ok (demo_rt [] :: (unit, unit) Runtime)"
    by (simp add: demo_defs)
  with load_core_all_or_nothing [OF inv, of "demo_env []" "''cores/none''" "''x''"] inv r show ?thesis
    by simp
qed

section \<open>Silence and pause\<close>

definition audio_part :: "('c, 'b) Runtime \<Rightarrow> _" where
  "audio_part rt = (rt_audio rt, rt_audio_frames rt, rt_audio_nonsilent rt)"

lemma suppressed_call:
  "rt_suppress_audio rt \<Longrightarrow> audio_part (apply_host_call env hc rt) = audio_part rt"
  by (cases hc) (simp_all add: audio_part_def callback_defs)

lemma suppressed_calls:
  "rt_suppress_audio rt \<Longrightarrow> audio_part (fold (apply_host_call env) hcs rt) = audio_part rt"
proof (induction hcs arbitrary: rt)
  case Nil
  then show ?case by simp
next
  case (Cons hc hcs)
  have "rt_suppress_audio (apply_host_call env hc rt)"
    using Cons.prems by (simp add: host_frame_fields)
  from Cons.IH [OF this] suppressed_call [OF Cons.prems] show ?case by simp
qed

lemma capture_snapshot_audio [simp]:
  "audio_part (capture_snapshot rt) = audio_part rt"
  by (simp add: capture_snapshot_def audio_part_def Let_def split_beta)

text \<open>
  Silent re-simulation is silent: advancing with \<open>emit_audio = 0\<close> leaves the audio output, its
  queue, the frame counter and the non-silence flag exactly as they were, whatever audio callbacks
  the core makes while it runs the frame.
\<close>

lemma advance_silent:
  "rt_audio (fst (advance env False rt)) = rt_audio rt \<and>
   rt_audio_frames (fst (advance env False rt)) = rt_audio_frames rt \<and>
   rt_audio_nonsilent (fst (advance env False rt)) = rt_audio_nonsilent rt"
proof -
  define rt1 where "rt1 = (if rt_rewind_replay rt then rt\<lparr>rt_rewind_replay := False\<rparr>
                           else if rt_rewind_enabled rt then capture_snapshot rt else rt)"
  have a1: "audio_part rt1 = audio_part rt"
    by (auto simp: rt1_def) (simp_all add: audio_part_def)
  have "audio_part ((fold (apply_host_call env) hcs
          (rt1\<lparr>rt_dr_have := False, rt_suppress_audio := True, rt_loader := ld\<rparr>))\<lparr>rt_suppress_audio := False\<rparr>)
        = audio_part rt" for hcs ld
    using suppressed_calls [of "rt1\<lparr>rt_dr_have := False, rt_suppress_audio := True, rt_loader := ld\<rparr>" env hcs] a1
    by (simp add: audio_part_def)
  then have "audio_part (fst (advance env False rt)) = audio_part rt"
    by (simp add: advance_def rt1_def [symmetric] Let_def split_beta)
  then show ?thesis by (simp add: audio_part_def)
qed

text \<open>
  A paused runtime is frozen: presenting neither runs the core nor touches loader, ring, input,
  content, rewind history or audio; audio the core keeps producing is dropped and a core that asks
  how much audio is wanted is told none.
\<close>

lemma paused_frozen:
  assumes "rt_paused rt"
  shows "render_frame (fst (present env now out rt)) = render_frame rt \<and>
         on_audio_sample env frames n rt = rt \<and> snd (on_audio_want rt) = 0"
  using assms render_render_frame [of env now out rt]
  by (simp add: present_def on_audio_sample_def on_audio_want_def)

theorem paused_frozen_witness:
  "rt_paused (demo_rt []\<lparr>rt_paused := True\<rparr> :: (unit, unit) Runtime) \<and>
   render_frame (fst (present (demo_env []) 7 True (demo_rt []\<lparr>rt_paused := True\<rparr>))) =
   render_frame (demo_rt []\<lparr>rt_paused := True\<rparr> :: (unit, unit) Runtime)"
  using paused_frozen [of "demo_rt []\<lparr>rt_paused := True\<rparr> :: (unit, unit) Runtime" "demo_env []" 7 True] by simp

end
