(* ===== verification/RP_Driven.thy ===== *)
theory RP_Driven
  imports RP_Runtime_Inv
begin

text \<open>
  What a deterministic driven core promises, and what the runtime makes of it: savestates that round
  trip, frames that depend only on state and input, and rewind.

  \<open>driven_core\<close> is the contract of a core: a view of its instance (what its savestate captures), a
  step on views, and an encoding. Everything else in the instance (a framebuffer) may differ between
  instances with equal views. The reference cores are interpreted in \<open>RP_RefCores\<close>.
\<close>

locale driven_core =
  fixes abi :: "'c rp_core_abi"
    and view :: "'c \<Rightarrow> 's"
    and step :: "'s \<Rightarrow> rp_input_state \<Rightarrow> rp_input_state \<Rightarrow> 's"
    and enc :: "'s \<Rightarrow> bytes"
  assumes run_law: "\<exists>f. ca_run_frame abi = Some f \<and>
      (\<forall>c hv. view (fst (f c hv)) = step (view c) (hv_input hv 0) (hv_input hv 1))"
    and size_law: "\<exists>f. ca_serialize_size abi = Some f \<and> (\<forall>c. f c = length (enc (view c)))"
    and serialize_law: "\<exists>f. ca_serialize abi = Some f \<and>
      (\<forall>c buf. length buf = length (enc (view c)) \<longrightarrow> f c buf = (RP_OK, enc (view c)))"
    and unserialize_law: "\<exists>f. ca_unserialize abi = Some f \<and>
      (\<forall>c s. snd (f c (enc s)) = RP_OK \<and> view (fst (f c (enc s))) = s)"
    and enc_nonempty: "enc s \<noteq> []"

text \<open>A runtime that drives an instance of the core \<open>abi\<close>, and the state it is in.\<close>

definition rt_driving :: "'c rp_core_abi \<Rightarrow> ('c, 'b) Runtime \<Rightarrow> bool" where
  "rt_driving abi rt \<longleftrightarrow>
     rt_inv rt \<and> rt_core_loaded rt \<and> rt_core_type rt = RP_CORE_DRIVEN \<and>
     ld_abi (rt_loader rt) = Some abi \<and> (rt_requires_content rt \<longrightarrow> rt_content_loaded rt)"

definition rt_view :: "('c \<Rightarrow> 's) \<Rightarrow> ('c, 'b) Runtime \<Rightarrow> 's" where
  "rt_view view rt = view (core_of (rt_loader rt))"

definition rewind_part :: "('c, 'b) Runtime \<Rightarrow> _" where
  "rewind_part rt = (rt_rewind_ring rt, rt_rewind_enabled rt, rt_rewind_replay rt, rt_rewind_max rt)"

lemma rt_driving_live: "rt_driving abi rt \<Longrightarrow> live_state (ld_state (rt_loader rt))"
  by (auto simp: rt_driving_def rt_inv_def rt_loaded_def)

lemma rt_driving_backend: "rt_driving abi rt \<Longrightarrow> rt_backend rt \<noteq> None"
  by (auto simp: rt_driving_def rt_inv_def rt_loaded_def rt_base_def)

lemma rt_driving_ports: "rt_driving abi rt \<Longrightarrow> length (rt_input rt) = 2"
  by (simp add: rt_driving_def rt_inv_def rt_base_def)

lemma host_view_input:
  "hv_input (rt_host_view env rt) 0 = rt_input rt ! 0" "hv_input (rt_host_view env rt) 1 = rt_input rt ! 1"
  by (simp_all add: rt_host_view_def on_input_def port_index_def)

lemma ld_call_fields [simp]:
  "ld_core (ld_call c ld) = ld_core ld" "ld_abi (ld_call c ld) = ld_abi ld"
  "ld_state (ld_call c ld) = ld_state ld"
  by (simp_all add: ld_call_def)

text \<open>The fields that say whether a runtime drives a core.\<close>

definition drive_part :: "('c, 'b) Runtime \<Rightarrow> _" where
  "drive_part rt = (rt_core_loaded rt, rt_core_type rt, ld_abi (rt_loader rt), rt_requires_content rt,
     rt_content_loaded rt)"

lemma drive_part_driving:
  "rt_driving abi rt \<Longrightarrow> rt_inv rt' \<Longrightarrow> drive_part rt' = drive_part rt \<Longrightarrow> rt_driving abi rt'"
  by (simp add: rt_driving_def drive_part_def)

context driven_core
begin

lemma size_loader:
  assumes "rt_driving abi rt"
  shows "loader_serialize_size (rt_loader rt) =
    (ld_call AC_use (rt_loader rt), length (enc (rt_view view rt)))"
  using size_law rt_driving_live [OF assms] assms
  by (auto simp: loader_serialize_size_def rt_driving_def rt_view_def)

lemma serialize_loader:
  assumes "ld_abi ld = Some abi" "live_state (ld_state ld)"
    and "length buf = length (enc (view (core_of ld)))"
  shows "loader_serialize ld buf = (ld_call AC_use ld, RP_OK, enc (view (core_of ld)))"
  using serialize_law assms by (auto simp: loader_serialize_def)

lemma unserialize_loader:
  assumes "ld_abi ld = Some abi" "live_state (ld_state ld)"
  shows "\<exists>c. loader_unserialize ld (enc s) = (ld_call AC_use (ld\<lparr>ld_core := Some c\<rparr>), RP_OK) \<and> view c = s"
proof -
  from unserialize_law obtain f where f: "ca_unserialize abi = Some f"
      "\<And>c s. snd (f c (enc s)) = RP_OK \<and> view (fst (f c (enc s))) = s"
    by blast
  have "snd (f (core_of ld) (enc s)) = RP_OK" "view (fst (f (core_of ld) (enc s))) = s"
    using f(2) by blast+
  then show ?thesis
    using assms f(1)
    by (intro exI [of _ "fst (f (core_of ld) (enc s))"])
      (simp add: loader_unserialize_def split_beta)
qed

lemma run_loader:
  assumes "ld_abi ld = Some abi" "live_state (ld_state ld)"
  shows "\<exists>c hcs. loader_run_frame ld hv = (ld_call AC_use (ld\<lparr>ld_core := Some c\<rparr>), RP_OK, hcs) \<and>
     view c = step (view (core_of ld)) (hv_input hv 0) (hv_input hv 1)"
proof -
  from run_law obtain f where f: "ca_run_frame abi = Some f"
      "\<And>c hv. view (fst (f c hv)) = step (view c) (hv_input hv 0) (hv_input hv 1)"
    by blast
  have "view (fst (f (core_of ld) hv)) = step (view (core_of ld)) (hv_input hv 0) (hv_input hv 1)"
    using f(2) by blast
  then show ?thesis
    using assms f(1)
    by (intro exI [of _ "fst (f (core_of ld) hv)"] exI [of _ "snd (f (core_of ld) hv)"])
      (simp add: loader_run_frame_def split_beta)
qed

text \<open>The size query of the C API and a save into a buffer of that size.\<close>

lemma serialize_size_driving:
  assumes "rt_driving abi rt"
  shows "serialize_size rt =
    (rt\<lparr>rt_loader := ld_call AC_use (rt_loader rt)\<rparr>, length (enc (rt_view view rt)))"
  by (simp add: serialize_size_def size_loader [OF assms])

lemma serialize_size_keeps:
  assumes "rt_driving abi rt"
  shows "rt_driving abi (fst (serialize_size rt))" "rt_view view (fst (serialize_size rt)) = rt_view view rt"
    "rt_input (fst (serialize_size rt)) = rt_input rt" "rewind_part (fst (serialize_size rt)) = rewind_part rt"
    "rt_paused (fst (serialize_size rt)) = rt_paused rt"
proof -
  show "rt_driving abi (fst (serialize_size rt))"
    using assms serialize_size_inv [of rt]
    by (intro drive_part_driving [OF assms])
      (simp_all add: rt_driving_def serialize_size_driving [OF assms] drive_part_def)
qed (simp_all add: serialize_size_driving [OF assms] rt_view_def rewind_part_def)

lemma save_state_driving:
  assumes "rt_driving abi rt" "length buf = length (enc (rt_view view rt))"
  shows "\<exists>rt'. save_state (Some buf) rt = (rt', RP_OK, Some (enc (rt_view view rt))) \<and>
     rt_driving abi rt' \<and> rt_view view rt' = rt_view view rt \<and> rt_input rt' = rt_input rt \<and>
     rewind_part rt' = rewind_part rt \<and> rt_paused rt' = rt_paused rt"
proof -
  let ?ld = "ld_call AC_use (rt_loader rt)"
  have ser: "loader_serialize ?ld buf = (ld_call AC_use ?ld, RP_OK, enc (rt_view view rt))"
    using assms rt_driving_live [OF assms(1)]
    by (subst serialize_loader) (simp_all add: rt_driving_def rt_view_def)
  have "save_state (Some buf) rt =
      (rt\<lparr>rt_loader := ld_call AC_use ?ld\<rparr>, RP_OK, Some (enc (rt_view view rt)))"
    using assms(2) enc_nonempty
    by (simp add: save_state_def serialize_size_driving [OF assms(1)] ser)
  moreover from this have "rt_inv (rt\<lparr>rt_loader := ld_call AC_use ?ld\<rparr>)"
    using save_state_inv [of rt "Some buf"] assms(1) by (simp add: rt_driving_def)
  then have "rt_driving abi (rt\<lparr>rt_loader := ld_call AC_use ?ld\<rparr>)"
    by (intro drive_part_driving [OF assms(1)]) (simp_all add: drive_part_def)
  ultimately show ?thesis by (simp add: rt_view_def rewind_part_def)
qed

lemma load_state_driving:
  assumes "rt_driving abi rt"
  shows "\<exists>rt'. load_state (Some (enc s)) rt = (rt', RP_OK) \<and> rt_driving abi rt' \<and>
     rt_view view rt' = s \<and> rt_input rt' = rt_input rt \<and> rewind_part rt' = rewind_part rt \<and>
     rt_paused rt' = rt_paused rt"
proof -
  from unserialize_loader [of "rt_loader rt" s] assms rt_driving_live [OF assms] obtain c where
    c: "loader_unserialize (rt_loader rt) (enc s) =
        (ld_call AC_use (rt_loader rt\<lparr>ld_core := Some c\<rparr>), RP_OK)" "view c = s"
    by (auto simp: rt_driving_def)
  let ?rt = "rt\<lparr>rt_loader := ld_call AC_use (rt_loader rt\<lparr>ld_core := Some c\<rparr>)\<rparr>"
  have eq: "load_state (Some (enc s)) rt = (?rt, RP_OK)"
    using enc_nonempty by (simp add: load_state_def c(1))
  then have "rt_inv ?rt"
    using load_state_inv [of rt "Some (enc s)"] assms by (simp add: rt_driving_def)
  then have "rt_driving abi ?rt"
    by (intro drive_part_driving [OF assms]) (simp_all add: drive_part_def)
  with eq c(2) show ?thesis by (simp add: rt_view_def rewind_part_def)
qed

text \<open>What one frame does: the capture for rewind, then the step of the core.\<close>

definition rewind_after :: "('c, 'b) Runtime \<Rightarrow> bytes list" where
  "rewind_after rt =
     (if rt_rewind_replay rt \<or> \<not> rt_rewind_enabled rt then rt_rewind_ring rt
      else rewind_ring_push (rt_rewind_ring rt) (enc (rt_view view rt)) (rt_rewind_max rt))"

lemma capture_driving:
  assumes "rt_driving abi rt"
  shows "capture_snapshot rt =
    rt\<lparr>rt_loader := ld_call AC_use (ld_call AC_use (rt_loader rt)),
       rt_rewind_ring := rewind_ring_push (rt_rewind_ring rt) (enc (rt_view view rt)) (rt_rewind_max rt)\<rparr>"
proof -
  have "loader_serialize (ld_call AC_use (rt_loader rt)) (replicate (length (enc (rt_view view rt))) 0) =
      (ld_call AC_use (ld_call AC_use (rt_loader rt)), RP_OK, enc (rt_view view rt))"
    using assms rt_driving_live [OF assms]
    by (subst serialize_loader) (simp_all add: rt_driving_def rt_view_def)
  then show ?thesis
    using enc_nonempty by (simp add: capture_snapshot_def size_loader [OF assms])
qed

lemma advance_driving:
  assumes dr: "rt_driving abi rt"
  shows "\<exists>rt'. advance env e rt = (rt', RP_OK) \<and> rt_driving abi rt' \<and>
     rt_view view rt' = step (rt_view view rt) (rt_input rt ! 0) (rt_input rt ! 1) \<and>
     rt_input rt' = rt_input rt \<and>
     rewind_part rt' = (rewind_after rt, rt_rewind_enabled rt, False, rt_rewind_max rt) \<and>
     rt_paused rt' = rt_paused rt"
proof -
  define rt1 where "rt1 = (if rt_rewind_replay rt then rt\<lparr>rt_rewind_replay := False\<rparr>
                           else if rt_rewind_enabled rt then capture_snapshot rt else rt)"
  have r1: "ld_abi (rt_loader rt1) = Some abi" "live_state (ld_state (rt_loader rt1))"
    "ld_core (rt_loader rt1) = ld_core (rt_loader rt)" "rt_input rt1 = rt_input rt"
    "rewind_part rt1 = (rewind_after rt, rt_rewind_enabled rt, False, rt_rewind_max rt)"
    "drive_part rt1 = drive_part rt" "rt_paused rt1 = rt_paused rt"
    using dr rt_driving_live [OF dr]
    by (simp_all add: rt1_def capture_driving [OF dr] rt_driving_def rewind_part_def rewind_after_def
        drive_part_def)
  define rt2 where "rt2 = rt1\<lparr>rt_dr_have := False, rt_suppress_audio := \<not> e\<rparr>"
  have r2: "rt_loader rt2 = rt_loader rt1" "rt_input rt2 = rt_input rt1"
    by (simp_all add: rt2_def)
  from run_loader [OF r1(1,2), of "rt_host_view env rt2"] obtain c hcs where
    c: "loader_run_frame (rt_loader rt1) (rt_host_view env rt2) =
        (ld_call AC_use (rt_loader rt1\<lparr>ld_core := Some c\<rparr>), RP_OK, hcs)"
       "view c = step (rt_view view rt) (rt_input rt ! 0) (rt_input rt ! 1)"
    using r1(3,4) r2(2) by (auto simp: host_view_input rt_view_def)
  define rt3 where "rt3 = (fold (apply_host_call env) hcs
      (rt2\<lparr>rt_loader := ld_call AC_use (rt_loader rt1\<lparr>ld_core := Some c\<rparr>)\<rparr>))\<lparr>rt_suppress_audio := False\<rparr>"
  have "\<not> (rt_requires_content rt \<and> \<not> rt_content_loaded rt)"
    using dr by (auto simp: rt_driving_def)
  then have eq: "advance env e rt = (rt3, RP_OK)"
    using dr rt_driving_backend [OF dr] r2
    by (simp add: advance_def rt_driving_def rt1_def [symmetric] rt2_def [symmetric] c(1) rt3_def Let_def)
  have "rt_inv rt3"
    using advance_inv [of rt env e] dr eq by (simp add: rt_driving_def)
  moreover have "drive_part rt3 = drive_part rt"
    using r1 by (simp add: rt3_def rt2_def drive_part_def host_frame_fields)
  ultimately have "rt_driving abi rt3"
    by (rule drive_part_driving [OF dr])
  moreover have "rewind_part rt3 = rewind_part rt1" "rt_input rt3 = rt_input rt" "rt_view view rt3 = view c"
    "rt_paused rt3 = rt_paused rt"
    using r1 by (simp_all add: rt3_def rt2_def rewind_part_def rt_view_def host_frame_fields)
  ultimately show ?thesis using eq c(2) r1(5) by simp
qed

lemma render_driving:
  assumes "rt_driving abi rt"
  shows "rt_driving abi (fst (render env now out rt))" "rt_view view (fst (render env now out rt)) = rt_view view rt"
    "rt_input (fst (render env now out rt)) = rt_input rt"
    "rewind_part (fst (render env now out rt)) = rewind_part rt"
    "rt_paused (fst (render env now out rt)) = rt_paused rt"
proof -
  note rf = render_render_frame [of env now out rt, unfolded render_frame_def]
  show "rt_driving abi (fst (render env now out rt))"
    using assms rf render_inv [of rt env now out]
    by (intro drive_part_driving [OF assms]) (simp_all add: rt_driving_def drive_part_def)
  show "rt_view view (fst (render env now out rt)) = rt_view view rt"
    "rt_input (fst (render env now out rt)) = rt_input rt"
    "rewind_part (fst (render env now out rt)) = rewind_part rt"
    "rt_paused (fst (render env now out rt)) = rt_paused rt"
    using rf by (simp_all add: rt_view_def rewind_part_def)
qed

lemma present_driving:
  assumes dr: "rt_driving abi rt" and "\<not> rt_paused rt"
  shows "rt_driving abi (fst (present env now out rt))"
    "rt_view view (fst (present env now out rt)) = step (rt_view view rt) (rt_input rt ! 0) (rt_input rt ! 1)"
    "rt_input (fst (present env now out rt)) = rt_input rt"
    "rewind_part (fst (present env now out rt)) = (rewind_after rt, rt_rewind_enabled rt, False, rt_rewind_max rt)"
    "\<not> rt_paused (fst (present env now out rt))"
proof -
  from advance_driving [OF dr, of env True] obtain rt' where
    rt': "advance env True rt = (rt', RP_OK)" "rt_driving abi rt'"
      "rt_view view rt' = step (rt_view view rt) (rt_input rt ! 0) (rt_input rt ! 1)"
      "rt_input rt' = rt_input rt"
      "rewind_part rt' = (rewind_after rt, rt_rewind_enabled rt, False, rt_rewind_max rt)"
      "rt_paused rt' = rt_paused rt"
    by blast
  have "present env now out rt = render env now out rt'"
    using dr assms(2) rt'(1) by (simp add: present_def rt_driving_def)
  with render_driving [OF rt'(2), of env now out] rt' assms(2)
  show "rt_driving abi (fst (present env now out rt))"
    "rt_view view (fst (present env now out rt)) = step (rt_view view rt) (rt_input rt ! 0) (rt_input rt ! 1)"
    "rt_input (fst (present env now out rt)) = rt_input rt"
    "rewind_part (fst (present env now out rt)) = (rewind_after rt, rt_rewind_enabled rt, False, rt_rewind_max rt)"
    "\<not> rt_paused (fst (present env now out rt))"
    by simp_all
qed

lemma set_input_driving:
  assumes "rt_driving abi rt"
  shows "rt_driving abi (set_input p i rt)" "rt_view view (set_input p i rt) = rt_view view rt"
    "rt_input (set_input p i rt) = (rt_input rt)[port_index p := i]"
    "rewind_part (set_input p i rt) = rewind_part rt" "rt_paused (set_input p i rt) = rt_paused rt"
  using assms set_input_inv [of rt p i]
  by (simp_all add: rt_driving_def set_input_def rt_view_def rewind_part_def)

end

section \<open>Rewind\<close>

text \<open>Feed the two ports and present one frame; run the core's step over a list of inputs.\<close>

definition play_frame ::
  "('c, 'b) rt_env \<Rightarrow> u64 \<Rightarrow> rp_input_state \<times> rp_input_state \<Rightarrow> ('c, 'b) Runtime \<Rightarrow> ('c, 'b) Runtime" where
  "play_frame env now i rt = fst (present env now True (set_input 1 (snd i) (set_input 0 (fst i) rt)))"

definition run_steps :: "('s \<Rightarrow> 'i \<Rightarrow> 'i \<Rightarrow> 's) \<Rightarrow> ('i \<times> 'i) list \<Rightarrow> 's \<Rightarrow> 's" where
  "run_steps step ins s = fold (\<lambda>i s. step s (fst i) (snd i)) ins s"

lemma run_steps_snoc [simp]: "run_steps step (ins @ [i]) s = step (run_steps step ins s) (fst i) (snd i)"
  by (simp add: run_steps_def)

lemma run_steps_Nil [simp]: "run_steps step [] s = s"
  by (simp add: run_steps_def)

definition rewinds :: "nat \<Rightarrow> ('c, 'b) Runtime \<Rightarrow> ('c, 'b) Runtime" where
  "rewinds k rt = ((\<lambda>rt. fst (rewind rt)) ^^ k) rt"

text \<open>The ring holds the newest \<open>m\<close> of everything pushed.\<close>

lemma rewind_ring_push_drop:
  "rewind_ring_push (drop (length xs - unat m) xs) x m = drop (length (xs @ [x]) - unat m) (xs @ [x])"
proof -
  have "drop (length xs - unat m) xs @ [x] = drop (length xs - unat m) (xs @ [x])"
    by simp
  moreover have "Suc (length xs) - (length xs - unat m + unat m) + (length xs - unat m)
      = Suc (length xs) - unat m"
    by arith
  ultimately show ?thesis
    by (simp add: rewind_ring_push_def Let_def del: drop_append)
qed

context driven_core
begin

lemma play_frame_driving:
  assumes "rt_driving abi rt" "\<not> rt_paused rt"
  shows "rt_driving abi (play_frame env now i rt)" "\<not> rt_paused (play_frame env now i rt)"
    "rt_view view (play_frame env now i rt) = step (rt_view view rt) (fst i) (snd i)"
    "rewind_part (play_frame env now i rt) = (rewind_after rt, rt_rewind_enabled rt, False, rt_rewind_max rt)"
proof -
  define rt1 where "rt1 = set_input 1 (snd i) (set_input 0 (fst i) rt)"
  note s0 = set_input_driving [OF assms(1), of 0 "fst i"]
  note s1 = set_input_driving [OF s0(1), of 1 "snd i"]
  have r1: "rt_driving abi rt1" "\<not> rt_paused rt1" "rt_view view rt1 = rt_view view rt"
    "rewind_part rt1 = rewind_part rt" "rt_input rt1 ! 0 = fst i" "rt_input rt1 ! 1 = snd i"
    using s0 s1 assms rt_driving_ports [OF assms(1)]
    by (simp_all add: rt1_def port_index_def numeral_2_eq_2)
  have "rewind_after rt1 = rewind_after rt" "rt_rewind_enabled rt1 = rt_rewind_enabled rt"
    "rt_rewind_max rt1 = rt_rewind_max rt"
    using r1(3,4) by (simp_all add: rewind_after_def rewind_part_def)
  with present_driving [OF r1(1,2), of env now True] r1
  show "rt_driving abi (play_frame env now i rt)" "\<not> rt_paused (play_frame env now i rt)"
    "rt_view view (play_frame env now i rt) = step (rt_view view rt) (fst i) (snd i)"
    "rewind_part (play_frame env now i rt) = (rewind_after rt, rt_rewind_enabled rt, False, rt_rewind_max rt)"
    by (simp_all add: play_frame_def rt1_def)
qed

text \<open>The states the core was in before each frame, oldest first.\<close>

definition pre_states :: "(rp_input_state \<times> rp_input_state) list \<Rightarrow> 's \<Rightarrow> 's list" where
  "pre_states ins s = map (\<lambda>j. run_steps step (take j ins) s) [0..<length ins]"

lemma pre_states_snoc: "pre_states (ins @ [i]) s = pre_states ins s @ [run_steps step ins s]"
  by (simp add: pre_states_def)

lemma play_history:
  assumes "rt_driving abi rt" "\<not> rt_paused rt" "rewind_part rt = ([], True, False, m)"
  shows "rt_driving abi (fold (play_frame env now) ins rt) \<and> \<not> rt_paused (fold (play_frame env now) ins rt) \<and>
     rt_view view (fold (play_frame env now) ins rt) = run_steps step ins (rt_view view rt) \<and>
     rewind_part (fold (play_frame env now) ins rt) =
       (drop (length ins - unat m) (map enc (pre_states ins (rt_view view rt))), True, False, m)"
proof (induction ins rule: rev_induct)
  case Nil
  with assms show ?case by (simp add: pre_states_def)
next
  case (snoc i ins)
  define rt1 where "rt1 = fold (play_frame env now) ins rt"
  have r1: "rt_driving abi rt1" "\<not> rt_paused rt1" "rt_view view rt1 = run_steps step ins (rt_view view rt)"
    "rewind_part rt1 = (drop (length ins - unat m) (map enc (pre_states ins (rt_view view rt))), True, False, m)"
    using snoc.IH by (simp_all add: rt1_def)
  have "rewind_after rt1 =
      drop (length (ins @ [i]) - unat m) (map enc (pre_states (ins @ [i]) (rt_view view rt)))"
    using rewind_ring_push_drop [of "map enc (pre_states ins (rt_view view rt))" m
        "enc (run_steps step ins (rt_view view rt))"] r1(3,4)
    by (simp add: rewind_after_def rewind_part_def pre_states_snoc pre_states_def [of ins])
  then show ?case
    using play_frame_driving [OF r1(1,2), of env now i] r1
    by (simp add: rt1_def [symmetric] rewind_part_def)
qed

lemma rewind_driving:
  assumes "rt_driving abi rt" "rt_rewind_enabled rt" "rt_rewind_ring rt = xs @ [enc s, x]"
  shows "snd (rewind rt) = RP_OK" "rt_driving abi (fst (rewind rt))" "rt_view view (fst (rewind rt)) = s"
    "rewind_part (fst (rewind rt)) = (xs @ [enc s], True, True, rt_rewind_max rt)"
    "rt_paused (fst (rewind rt)) = rt_paused rt"
proof -
  from unserialize_loader [of "rt_loader rt" s] assms rt_driving_live [OF assms(1)] obtain c where
    c: "loader_unserialize (rt_loader rt) (enc s) =
        (ld_call AC_use (rt_loader rt\<lparr>ld_core := Some c\<rparr>), RP_OK)" "view c = s"
    by (auto simp: rt_driving_def)
  have eq: "rewind rt = (rt\<lparr>rt_rewind_ring := xs @ [enc s],
      rt_loader := ld_call AC_use (rt_loader rt\<lparr>ld_core := Some c\<rparr>), rt_rewind_replay := True\<rparr>, RP_OK)"
    using assms(2,3) by (simp add: rewind_def c(1) butlast_append)
  show "rt_driving abi (fst (rewind rt))"
    using assms(1) rewind_inv [of rt] eq
    by (intro drive_part_driving [OF assms(1)]) (simp_all add: rt_driving_def drive_part_def)
  show "snd (rewind rt) = RP_OK" "rt_view view (fst (rewind rt)) = s"
    "rewind_part (fst (rewind rt)) = (xs @ [enc s], True, True, rt_rewind_max rt)"
    "rt_paused (fst (rewind rt)) = rt_paused rt"
    using eq c(2) assms(2) by (simp_all add: rt_view_def rewind_part_def)
qed

lemma rewinds_driving:
  assumes "rt_driving abi rt" "rt_rewind_enabled rt" "rt_rewind_ring rt = map enc ss"
    and "k < length ss"
  shows "rt_driving abi (rewinds k rt) \<and> rt_rewind_enabled (rewinds k rt) \<and>
     rt_rewind_ring (rewinds k rt) = map enc (take (length ss - k) ss) \<and>
     rt_paused (rewinds k rt) = rt_paused rt \<and>
     rt_view view (rewinds k rt) = (if k = 0 then rt_view view rt else ss ! (length ss - 1 - k)) \<and>
     rt_rewind_replay (rewinds k rt) = (if k = 0 then rt_rewind_replay rt else True)"
  using assms(4)
proof (induction k)
  case 0
  with assms show ?case by (simp add: rewinds_def)
next
  case (Suc k)
  let ?rt = "rewinds k rt" and ?n = "length ss - Suc (Suc k)"
  have IH: "rt_driving abi ?rt" "rt_rewind_enabled ?rt"
    "rt_rewind_ring ?rt = map enc (take (length ss - k) ss)" "rt_paused ?rt = rt_paused rt"
    using Suc by auto
  have len: "length ss - k = Suc (Suc ?n)" "Suc ?n < length ss"
    using Suc.prems by simp_all
  have "take (length ss - k) ss = take ?n ss @ [ss ! ?n, ss ! Suc ?n]"
    using len by (simp add: take_Suc_conv_app_nth)
  then have ring: "rt_rewind_ring ?rt = map enc (take ?n ss) @ [enc (ss ! ?n), enc (ss ! Suc ?n)]"
    using IH(3) by simp
  have next': "rewinds (Suc k) rt = fst (rewind ?rt)"
    by (simp add: rewinds_def)
  have "take (length ss - Suc k) ss = take ?n ss @ [ss ! ?n]"
    using len Suc.prems by (metis Suc_diff_Suc Suc_lessD diff_Suc_Suc take_Suc_conv_app_nth)
  with rewind_driving [OF IH(1,2) ring] IH(4) show ?case
    by (simp add: next' rewind_part_def)
qed

end

text \<open>Switching rewind on starts an empty history.\<close>

lemma set_rewind_part:
  "set_rewind True m rt = (rt0, RP_OK) \<Longrightarrow>
   rewind_part rt0 = ([], True, False, if m \<noteq> 0 then m else 600) \<and> rt_paused rt0 = rt_paused rt \<and>
   rt_loader rt0 = fst (loader_serialize_size (rt_loader rt)) \<and> drive_part rt0 = drive_part rt"
  by (auto simp: set_rewind_def serialize_size_def rewind_part_def drive_part_def split_beta
      loader_serialize_size_def split: if_splits option.splits)

context driven_core
begin

lemma set_rewind_driving:
  assumes "rt_driving abi rt" "set_rewind True m rt = (rt0, RP_OK)"
  shows "rt_driving abi rt0" "rt_view view rt0 = rt_view view rt"
proof -
  note p = set_rewind_part [OF assms(2)]
  have "rt_inv rt0"
    using assms set_rewind_inv [of rt True m] by (simp add: rt_driving_def)
  then show "rt_driving abi rt0"
    using p by (intro drive_part_driving [OF assms(1)]) simp_all
  show "rt_view view rt0 = rt_view view rt"
    using p size_loader [OF assms(1)] by (simp add: rt_view_def)
qed

text \<open>
  After \<open>n\<close> frames with history, stepping back \<open>k\<close> times restores the state before frame
  \<open>n - 1 - k\<close>, and playing that frame again shows it without growing the history.
\<close>

lemma rewind_history:
  assumes dr: "rt_driving abi rt" "\<not> rt_paused rt" and on: "set_rewind True m rt = (rt0, RP_OK)"
    and k: "0 < k" "k < min (length ins) (if m \<noteq> 0 then unat m else 600)"
  shows "rt_view view (rewinds k (fold (play_frame env now) ins rt0)) =
       run_steps step (take (length ins - 1 - k) ins) (rt_view view rt)"
    and "rt_view view (play_frame env now (ins ! (length ins - 1 - k))
           (rewinds k (fold (play_frame env now) ins rt0))) =
       run_steps step (take (length ins - k) ins) (rt_view view rt)"
    and "rt_rewind_ring (play_frame env now i (rewinds k (fold (play_frame env now) ins rt0))) =
       rt_rewind_ring (rewinds k (fold (play_frame env now) ins rt0))"
    and "snd (rewind (rewinds (k - 1) (fold (play_frame env now) ins rt0))) = RP_OK"
proof -
  define M where "M = (if m \<noteq> 0 then unat m else 600)"
  define n where "n = length ins"
  define rt1 where "rt1 = fold (play_frame env now) ins rt0"
  define ss where "ss = drop (n - M) (pre_states ins (rt_view view rt))"
  have M: "unat (if m \<noteq> 0 then m else 600) = M"
    by (simp add: M_def)
  note p0 = set_rewind_part [OF on] and d0 = set_rewind_driving [OF dr(1) on]
  from play_history [OF d0(1), of "if m \<noteq> 0 then m else 600" env now ins] p0 dr(2) d0(2)
  have r1: "rt_driving abi rt1" "\<not> rt_paused rt1" "rt_rewind_enabled rt1" "rt_rewind_ring rt1 = map enc ss"
    by (simp_all add: rt1_def rewind_part_def ss_def drop_map n_def M)
  have len: "length ss = min n M"
    by (auto simp: ss_def pre_states_def n_def)
  have k': "k < length ss" "k - 1 < length ss" "k < n"
    using k len by (auto simp: n_def M_def split: if_splits)
  have nth: "ss ! (length ss - 1 - k) = run_steps step (take (n - 1 - k) ins) (rt_view view rt)"
    using k' len by (auto simp: ss_def pre_states_def n_def min_def)
  note R = rewinds_driving [OF r1(1,3,4) k'(1)]
  show v: "rt_view view (rewinds k (fold (play_frame env now) ins rt0)) =
       run_steps step (take (length ins - 1 - k) ins) (rt_view view rt)"
    using R k(1) nth by (simp add: rt1_def n_def)
  have P: "rt_driving abi (rewinds k rt1)" "\<not> rt_paused (rewinds k rt1)" "rt_rewind_replay (rewinds k rt1)"
    using R r1(2) k(1) by simp_all
  note pf = play_frame_driving [OF P(1,2), of env now]
  have "take (length ins - k) ins = take (length ins - 1 - k) ins @ [ins ! (length ins - 1 - k)]"
    using k'(3) by (metis Suc_diff_Suc diff_Suc_eq_diff_pred diff_less n_def take_Suc_conv_app_nth
        zero_less_Suc less_nat_zero_code linorder_neqE_nat)
  then show "rt_view view (play_frame env now (ins ! (length ins - 1 - k))
           (rewinds k (fold (play_frame env now) ins rt0))) =
       run_steps step (take (length ins - k) ins) (rt_view view rt)"
    using pf(3) v by (simp add: rt1_def)
  show "rt_rewind_ring (play_frame env now i (rewinds k (fold (play_frame env now) ins rt0))) =
       rt_rewind_ring (rewinds k (fold (play_frame env now) ins rt0))"
    using pf(4) P(3) by (simp add: rewind_part_def rewind_after_def rt1_def)
  show "snd (rewind (rewinds (k - 1) (fold (play_frame env now) ins rt0))) = RP_OK"
  proof -
    let ?rt = "rewinds (k - 1) rt1" and ?j = "length ss - (k - 1)"
    have A: "rt_driving abi ?rt" "rt_rewind_enabled ?rt" "rt_rewind_ring ?rt = map enc (take ?j ss)"
      using rewinds_driving [OF r1(1,3,4) k'(2)] by simp_all
    have "?j = Suc (Suc (?j - 2))" "Suc (?j - 2) < length ss"
      using k(1) k'(1) by auto
    then have "take ?j ss = take (?j - 2) ss @ [ss ! (?j - 2), ss ! Suc (?j - 2)]"
      by (metis Suc_lessD append.assoc append_Cons append_Nil take_Suc_conv_app_nth)
    then have "rt_rewind_ring ?rt = map enc (take (?j - 2) ss) @ [enc (ss ! (?j - 2)), enc (ss ! Suc (?j - 2))]"
      using A(3) by simp
    from rewind_driving(1) [OF A(1,2) this] show ?thesis by (simp add: rt1_def)
  qed
qed

end

end
