(* ===== verification/RP_Wire.thy ===== *)
theory RP_Wire
  imports RP_Abi
begin

text \<open>
  The netplay wire format of \<open>src/net/NetProtocol.{h,cpp}\<close>: a one-byte tag followed by
  little-endian fields. A decoder reads the message at an offset and either fails (\<open>None\<close>) or
  yields the value and the next offset; every read is guarded by the length test the source makes.
  The theorems are the four round trips, the exact message sizes, and that a decoder accepts
  nothing that is too short or carries another tag.
\<close>

section \<open>Messages\<close>

datatype MsgType = MT_Hello | MT_StateSync | MT_Input | MT_Checksum | MT_Other u8

fun msg_tag :: "MsgType \<Rightarrow> u8" where
  "msg_tag MT_Hello = 1"
| "msg_tag MT_StateSync = 2"
| "msg_tag MT_Input = 3"
| "msg_tag MT_Checksum = 4"
| "msg_tag (MT_Other b) = b"

definition msg_type_of :: "u8 \<Rightarrow> MsgType" where
  "msg_type_of b =
     (if b = 1 then MT_Hello else if b = 2 then MT_StateSync else if b = 3 then MT_Input
      else if b = 4 then MT_Checksum else MT_Other b)"

record Hello =
  h_abi_version :: u32
  h_core_id :: "u8 list"
  h_content_hash :: u64
  h_input_delay :: u32
  h_start_frame :: u64

record StateSync =
  s_frame :: u64
  s_blob :: bytes

record Input =
  i_frame :: u64
  i_port :: u8
  i_state :: rp_input_state

record Checksum =
  c_frame :: u64
  c_crc :: u32

section \<open>Fields\<close>

definition put_u16 :: "bytes \<Rightarrow> u16 \<Rightarrow> bytes" where
  "put_u16 b v = b @ le_bytes 2 v"

definition put_u32 :: "bytes \<Rightarrow> u32 \<Rightarrow> bytes" where
  "put_u32 b v = b @ le_bytes 4 v"

definition put_u64 :: "bytes \<Rightarrow> u64 \<Rightarrow> bytes" where
  "put_u64 b v = b @ le_bytes 8 v"

definition get_u16 :: "bytes \<Rightarrow> nat \<Rightarrow> (u16 \<times> nat) option" where
  "get_u16 p off =
     (if length p < off + 2 then None else Some (or_bytes (\<lambda>i. p ! (off + i)) 2, off + 2))"

definition get_u32 :: "bytes \<Rightarrow> nat \<Rightarrow> (u32 \<times> nat) option" where
  "get_u32 p off =
     (if length p < off + 4 then None else Some (or_bytes (\<lambda>i. p ! (off + i)) 4, off + 4))"

definition get_u64 :: "bytes \<Rightarrow> nat \<Rightarrow> (u64 \<times> nat) option" where
  "get_u64 p off =
     (if length p < off + 8 then None else Some (or_bytes (\<lambda>i. p ! (off + i)) 8, off + 8))"

definition get_raw :: "bytes \<Rightarrow> nat \<Rightarrow> nat \<Rightarrow> (bytes \<times> nat) option" where
  "get_raw p off n = (if length p < off + n then None else Some (take n (drop off p), off + n))"

definition put_input :: "bytes \<Rightarrow> rp_input_state \<Rightarrow> bytes" where
  "put_input b s = put_u16 (fold (\<lambda>a b. put_u16 b a) (pad_axes s) (b @ keys s)) (pad_buttons s)"

fun get_axes :: "nat \<Rightarrow> bytes \<Rightarrow> nat \<Rightarrow> (16 word list \<times> nat) option" where
  "get_axes 0 p off = Some ([], off)"
| "get_axes (Suc n) p off =
     (case get_u16 p off of
        None \<Rightarrow> None
      | Some (a, off1) \<Rightarrow>
          (case get_axes n p off1 of None \<Rightarrow> None | Some (as, off2) \<Rightarrow> Some (a # as, off2)))"

definition get_input :: "bytes \<Rightarrow> nat \<Rightarrow> (rp_input_state \<times> nat) option" where
  "get_input p off =
     (case get_raw p off 256 of
        None \<Rightarrow> None
      | Some (ks, off1) \<Rightarrow>
          (case get_axes 8 p off1 of
             None \<Rightarrow> None
           | Some (as, off2) \<Rightarrow>
               (case get_u16 p off2 of
                  None \<Rightarrow> None
                | Some (bt, off3) \<Rightarrow>
                    Some (\<lparr>keys = ks, pad_axes = as, pad_buttons = bt\<rparr>, off3))))"

section \<open>Encoders and decoders\<close>

definition encode_hello :: "Hello \<Rightarrow> bytes" where
  "encode_hello h =
     (let b = [msg_tag MT_Hello]; b = put_u32 b (h_abi_version h); b = b @ h_core_id h;
          b = put_u64 b (h_content_hash h); b = put_u32 b (h_input_delay h)
      in put_u64 b (h_start_frame h))"

definition encode_state_sync :: "StateSync \<Rightarrow> bytes" where
  "encode_state_sync s =
     (let b = [msg_tag MT_StateSync]; b = put_u64 b (s_frame s);
          b = put_u32 b (of_nat (length (s_blob s)))
      in b @ s_blob s)"

definition encode_input :: "Input \<Rightarrow> bytes" where
  "encode_input i =
     (let b = [msg_tag MT_Input]; b = put_u64 b (i_frame i); b = b @ [i_port i]
      in put_input b (i_state i))"

definition encode_checksum :: "Checksum \<Rightarrow> bytes" where
  "encode_checksum c =
     (let b = [msg_tag MT_Checksum]; b = put_u64 b (c_frame c) in put_u32 b (c_crc c))"

definition peek_type :: "bytes \<Rightarrow> MsgType option" where
  "peek_type m = (case m of [] \<Rightarrow> None | b # _ \<Rightarrow> Some (msg_type_of b))"

definition has_tag :: "bytes \<Rightarrow> MsgType \<Rightarrow> bool" where
  "has_tag m ty \<longleftrightarrow> (case m of [] \<Rightarrow> False | b # _ \<Rightarrow> b = msg_tag ty)"

definition decode_hello :: "bytes \<Rightarrow> Hello option" where
  "decode_hello m =
     (if \<not> has_tag m MT_Hello then None
      else case get_u32 m 1 of None \<Rightarrow> None
      | Some (abi, off1) \<Rightarrow> (case get_raw m off1 64 of None \<Rightarrow> None
      | Some (cid, off2) \<Rightarrow> (case get_u64 m off2 of None \<Rightarrow> None
      | Some (hash, off3) \<Rightarrow> (case get_u32 m off3 of None \<Rightarrow> None
      | Some (delay, off4) \<Rightarrow> (case get_u64 m off4 of None \<Rightarrow> None
      | Some (start, _) \<Rightarrow>
          Some \<lparr>h_abi_version = abi, h_core_id = cid[63 := 0], h_content_hash = hash,
                h_input_delay = delay, h_start_frame = start\<rparr>)))))"

definition decode_state_sync :: "bytes \<Rightarrow> StateSync option" where
  "decode_state_sync m =
     (if \<not> has_tag m MT_StateSync then None
      else case get_u64 m 1 of None \<Rightarrow> None
      | Some (fr, off1) \<Rightarrow> (case get_u32 m off1 of None \<Rightarrow> None
      | Some (len, off2) \<Rightarrow> (case get_raw m off2 (unat len) of None \<Rightarrow> None
      | Some (blob, _) \<Rightarrow> Some \<lparr>s_frame = fr, s_blob = blob\<rparr>)))"

definition decode_input :: "bytes \<Rightarrow> Input option" where
  "decode_input m =
     (if \<not> has_tag m MT_Input then None
      else case get_u64 m 1 of None \<Rightarrow> None
      | Some (fr, off1) \<Rightarrow>
          (if length m < off1 + 1 then None
           else case get_input m (off1 + 1) of None \<Rightarrow> None
           | Some (st, _) \<Rightarrow> Some \<lparr>i_frame = fr, i_port = m ! off1, i_state = st\<rparr>))"

definition decode_checksum :: "bytes \<Rightarrow> Checksum option" where
  "decode_checksum m =
     (if \<not> has_tag m MT_Checksum then None
      else case get_u64 m 1 of None \<Rightarrow> None
      | Some (fr, off1) \<Rightarrow> (case get_u32 m off1 of None \<Rightarrow> None
      | Some (crc, _) \<Rightarrow> Some \<lparr>c_frame = fr, c_crc = crc\<rparr>))"

section \<open>Field round trips\<close>

text \<open>
  Each lemma reads a field that stands between an arbitrary prefix and an arbitrary rest, at the
  offset the prefix ends; the decoders' round trips are then one rewrite per field.
\<close>

lemma or_bytes_between:
  assumes "LENGTH('a) = 8 * n"
  shows "or_bytes (\<lambda>i. (pre @ le_bytes n v @ rest) ! (length pre + i)) n = (v :: 'a::len word)"
proof -
  have "or_bytes (\<lambda>i. (pre @ le_bytes n v @ rest) ! (length pre + i)) n
      = (or_bytes (\<lambda>i. ucast (drop_bit (8 * i) v)) n :: 'a word)"
    by (rule or_bytes_cong) (simp add: nth_append)
  then show ?thesis using assms by (simp add: or_bytes_le_bytes)
qed

lemma get_u16_between [wire_simps]:
  "off = length pre \<Longrightarrow> get_u16 (pre @ le_bytes 2 v @ rest) off = Some (v, off + 2)"
  using or_bytes_between [of 2 pre v rest] by (simp add: get_u16_def)

lemma get_u32_between [wire_simps]:
  "off = length pre \<Longrightarrow> get_u32 (pre @ le_bytes 4 v @ rest) off = Some (v, off + 4)"
  using or_bytes_between [of 4 pre v rest] by (simp add: get_u32_def)

lemma get_u64_between [wire_simps]:
  "off = length pre \<Longrightarrow> get_u64 (pre @ le_bytes 8 v @ rest) off = Some (v, off + 8)"
  using or_bytes_between [of 8 pre v rest] by (simp add: get_u64_def)

lemma get_raw_between [wire_simps]:
  "off = length pre \<Longrightarrow> n = length bs \<Longrightarrow> get_raw (pre @ bs @ rest) off n = Some (bs, off + n)"
  by (simp add: get_raw_def)

lemma fold_put_u16: "fold (\<lambda>a b. put_u16 b a) as b = b @ concat (map (le_bytes 2) as)"
  by (induction as arbitrary: b) (auto simp: put_u16_def)

lemma get_axes_between [wire_simps]:
  "off = length pre \<Longrightarrow> n = length as \<Longrightarrow>
   get_axes n (pre @ concat (map (le_bytes 2) as) @ rest) off = Some (as, off + 2 * n)"
proof (induction as arbitrary: n pre off)
  case Nil
  then show ?case by simp
next
  case (Cons a as)
  have "get_u16 (pre @ le_bytes 2 a @ concat (map (le_bytes 2) as) @ rest) off = Some (a, off + 2)"
    using Cons.prems by (intro get_u16_between) simp
  moreover have "get_axes (length as) ((pre @ le_bytes 2 a) @ concat (map (le_bytes 2) as) @ rest)
      (off + 2) = Some (as, off + 2 + 2 * length as)"
    using Cons.prems by (intro Cons.IH) simp_all
  ultimately show ?case
    using Cons.prems by simp
qed

lemma get_input_between [wire_simps]:
  assumes "off = length pre" "wf_input s"
  shows "get_input (pre @ keys s @ concat (map (le_bytes 2) (pad_axes s)) @
           le_bytes 2 (pad_buttons s) @ rest) off = Some (s, off + 274)"
proof -
  let ?axes = "concat (map (le_bytes 2) (pad_axes s))" and ?btn = "le_bytes 2 (pad_buttons s)"
  have len: "length (keys s) = 256" "length (pad_axes s) = 8"
    using assms(2) by (auto simp: wf_input_def)
  then have "length ?axes = 16"
    by (simp add: length_concat o_def sum_list_triv)
  then have "get_raw (pre @ keys s @ ?axes @ ?btn @ rest) off 256 = Some (keys s, off + 256)"
    "get_axes 8 ((pre @ keys s) @ ?axes @ ?btn @ rest) (off + 256) = Some (pad_axes s, off + 256 + 2 * 8)"
    "get_u16 ((pre @ keys s @ ?axes) @ ?btn @ rest) (off + 272) = Some (pad_buttons s, off + 272 + 2)"
    using len assms(1) by (intro wire_simps; simp)+
  then show ?thesis
    by (simp add: get_input_def ac_simps)
qed

text \<open>The other direction: what a successful read says about the bytes at its offset.\<close>

lemma slice_split: "off + n \<le> length p \<Longrightarrow> drop off p = take n (drop off p) @ drop (off + n) p"
  by (metis append_take_drop_id drop_drop add.commute)

lemma get_word_SomeD:
  assumes "off + n \<le> length p" "LENGTH('a) = 8 * n" "v = (or_bytes (\<lambda>i. p ! (off + i)) n :: 'a::len word)"
  shows "drop off p = le_bytes n v @ drop (off + n) p"
  using assms slice_split [of off n p] by (simp add: le_bytes_or_bytes map_nth_slice)

lemma get_u16_SomeD:
  "get_u16 p off = Some (v, off') \<Longrightarrow> off' = off + 2 \<and> drop off p = le_bytes 2 v @ drop (off + 2) p"
  by (auto simp: get_u16_def simp del: add_2_eq_Suc' intro!: get_word_SomeD split: if_splits)

lemma get_u32_SomeD:
  "get_u32 p off = Some (v, off') \<Longrightarrow> off' = off + 4 \<and> drop off p = le_bytes 4 v @ drop (off + 4) p"
  by (auto simp: get_u32_def intro!: get_word_SomeD split: if_splits)

lemma get_u64_SomeD:
  "get_u64 p off = Some (v, off') \<Longrightarrow> off' = off + 8 \<and> drop off p = le_bytes 8 v @ drop (off + 8) p"
  by (auto simp: get_u64_def intro!: get_word_SomeD split: if_splits)

lemma get_raw_SomeD:
  "get_raw p off n = Some (bs, off') \<Longrightarrow>
     off' = off + n \<and> length bs = n \<and> drop off p = bs @ drop (off + n) p"
  by (auto simp: get_raw_def slice_split split: if_splits)

lemma get_axes_SomeD:
  "get_axes n p off = Some (as, off') \<Longrightarrow>
     off' = off + 2 * n \<and> length as = n \<and> drop off p = concat (map (le_bytes 2) as) @ drop off' p"
proof (induction n p off arbitrary: as off' rule: get_axes.induct)
  case (1 p off)
  then show ?case by simp
next
  case (2 n p off)
  then obtain a off1 as1 where
      g: "get_u16 p off = Some (a, off1)" "get_axes n p off1 = Some (as1, off')" "as = a # as1"
    by (auto split: option.splits)
  with 2(1) [OF g(1) refl g(2)] get_u16_SomeD [OF g(1)] show ?case
    by auto
qed

lemma get_input_SomeD:
  assumes "get_input p off = Some (s, off')"
  shows "wf_input s \<and> off' = off + 274 \<and>
    drop off p = keys s @ concat (map (le_bytes 2) (pad_axes s)) @ le_bytes 2 (pad_buttons s) @ drop off' p"
proof -
  obtain ks off1 as off2 bt where g:
      "get_raw p off 256 = Some (ks, off1)" "get_axes 8 p off1 = Some (as, off2)"
      "get_u16 p off2 = Some (bt, off')" "s = \<lparr>keys = ks, pad_axes = as, pad_buttons = bt\<rparr>"
    using assms by (auto simp: get_input_def split: option.splits)
  with get_raw_SomeD [OF g(1)] get_axes_SomeD [OF g(2)] get_u16_SomeD [OF g(3)] show ?thesis
    by (auto simp: wf_input_def)
qed

section \<open>The decoders accept exactly the encodings\<close>

lemma tag_cons: "has_tag m ty \<Longrightarrow> drop 1 m = xs \<Longrightarrow> m = msg_tag ty # xs"
  by (cases m) (auto simp: has_tag_def)

lemma has_tag_Cons [simp]: "has_tag (msg_tag ty # m) ty"
  by (simp add: has_tag_def)

lemma encode_input_layout:
  "encode_input i = msg_tag MT_Input # le_bytes 8 (i_frame i) @ [i_port i] @ keys (i_state i) @
     concat (map (le_bytes 2) (pad_axes (i_state i))) @ le_bytes 2 (pad_buttons (i_state i))"
  by (simp add: encode_input_def put_u64_def put_input_def fold_put_u16) (simp add: put_u16_def)

lemma encode_checksum_layout:
  "encode_checksum c = msg_tag MT_Checksum # le_bytes 8 (c_frame c) @ le_bytes 4 (c_crc c)"
  by (simp add: encode_checksum_def put_u64_def put_u32_def)

lemma encode_state_sync_layout:
  "encode_state_sync s = msg_tag MT_StateSync # le_bytes 8 (s_frame s) @
     le_bytes 4 (of_nat (length (s_blob s)) :: u32) @ s_blob s"
  by (simp add: encode_state_sync_def put_u64_def put_u32_def)

lemma encode_hello_layout:
  "encode_hello h = msg_tag MT_Hello # le_bytes 4 (h_abi_version h) @ h_core_id h @
     le_bytes 8 (h_content_hash h) @ le_bytes 4 (h_input_delay h) @ le_bytes 8 (h_start_frame h)"
  by (simp add: encode_hello_def put_u64_def put_u32_def)

lemma decode_input_encode [wire_simps]:
  assumes "wf_input (i_state i)"
  shows "decode_input (encode_input i @ rest) = Some i"
proof -
  let ?m = "encode_input i @ rest" and ?s = "i_state i"
  let ?tail = "keys ?s @ concat (map (le_bytes 2) (pad_axes ?s)) @ le_bytes 2 (pad_buttons ?s) @ rest"
  have m: "?m = ([msg_tag MT_Input] @ le_bytes 8 (i_frame i) @ [i_port i]) @ ?tail"
    by (simp add: encode_input_layout)
  have "get_u64 ?m 1 = Some (i_frame i, 1 + 8)"
    unfolding m append_assoc by (rule get_u64_between) simp
  moreover have "get_input ?m 10 = Some (?s, 10 + 274)"
    unfolding m by (rule get_input_between) (simp_all add: assms)
  moreover have "?m ! 9 = i_port i"
    by (simp add: m nth_append)
  moreover have "has_tag ?m MT_Input" "\<not> length ?m < 10"
    by (simp_all add: m has_tag_def)
  ultimately show ?thesis
    by (simp add: decode_input_def)
qed

lemma decode_input_SomeD:
  assumes "decode_input m = Some i"
  shows "wf_input (i_state i) \<and> m = encode_input i @ drop 284 m"
proof -
  obtain off1 off3 where tag: "has_tag m MT_Input" and fr: "get_u64 m 1 = Some (i_frame i, off1)"
      and len: "off1 < length m" and st: "get_input m (off1 + 1) = Some (i_state i, off3)"
      and port: "i_port i = m ! off1"
    using assms by (auto simp: decode_input_def split: if_splits option.splits)
  have [simp]: "off1 = 9"
    using get_u64_SomeD [OF fr] by simp
  have "drop 9 m = m ! 9 # drop 10 m"
    using len Cons_nth_drop_Suc [of 9 m] by simp
  then have "drop 1 m = (le_bytes 8 (i_frame i) @ [i_port i] @ keys (i_state i) @
      concat (map (le_bytes 2) (pad_axes (i_state i))) @ le_bytes 2 (pad_buttons (i_state i))) @ drop 284 m"
    using get_u64_SomeD [OF fr] get_input_SomeD [OF st] port by simp
  then show ?thesis
    using tag_cons [OF tag] get_input_SomeD [OF st] by (simp add: encode_input_layout)
qed

lemma decode_checksum_encode [wire_simps]: "decode_checksum (encode_checksum c @ rest) = Some c"
proof -
  let ?m = "encode_checksum c @ rest"
  have m: "?m = [msg_tag MT_Checksum] @ le_bytes 8 (c_frame c) @ le_bytes 4 (c_crc c) @ rest"
    by (simp add: encode_checksum_layout)
  have "get_u64 ?m 1 = Some (c_frame c, 1 + 8)"
    unfolding m by (rule get_u64_between) simp
  moreover have "get_u32 (([msg_tag MT_Checksum] @ le_bytes 8 (c_frame c)) @ le_bytes 4 (c_crc c) @ rest) 9
      = Some (c_crc c, 9 + 4)"
    by (rule get_u32_between) simp
  ultimately show ?thesis
    by (simp add: decode_checksum_def m has_tag_def)
qed

lemma decode_checksum_SomeD:
  assumes "decode_checksum m = Some c"
  shows "m = encode_checksum c @ drop 13 m"
proof -
  obtain off1 off2 where tag: "has_tag m MT_Checksum" and fr: "get_u64 m 1 = Some (c_frame c, off1)"
      and crc: "get_u32 m off1 = Some (c_crc c, off2)"
    using assms by (auto simp: decode_checksum_def split: if_splits option.splits)
  have [simp]: "off1 = 9"
    using get_u64_SomeD [OF fr] by simp
  have "drop 1 m = (le_bytes 8 (c_frame c) @ le_bytes 4 (c_crc c)) @ drop 13 m"
    using get_u64_SomeD [OF fr] get_u32_SomeD [OF crc] by simp
  from tag_cons [OF tag this] show ?thesis
    by (simp add: encode_checksum_layout)
qed

lemma decode_state_sync_encode [wire_simps]:
  assumes "length (s_blob s) < 2 ^ 32"
  shows "decode_state_sync (encode_state_sync s @ rest) = Some s"
proof -
  let ?m = "encode_state_sync s @ rest" and ?len = "of_nat (length (s_blob s)) :: u32"
  have m: "?m = [msg_tag MT_StateSync] @ le_bytes 8 (s_frame s) @ le_bytes 4 ?len @ s_blob s @ rest"
    by (simp add: encode_state_sync_layout)
  have "get_u64 ?m 1 = Some (s_frame s, 1 + 8)"
    unfolding m by (rule get_u64_between) simp
  moreover have "get_u32 (([msg_tag MT_StateSync] @ le_bytes 8 (s_frame s)) @ le_bytes 4 ?len @
      s_blob s @ rest) 9 = Some (?len, 9 + 4)"
    by (rule get_u32_between) simp
  moreover have "get_raw (([msg_tag MT_StateSync] @ le_bytes 8 (s_frame s) @ le_bytes 4 ?len) @
      s_blob s @ rest) 13 (unat ?len) = Some (s_blob s, 13 + unat ?len)"
    using assms by (intro get_raw_between) (simp_all add: unat_of_nat)
  ultimately show ?thesis
    by (simp add: decode_state_sync_def m has_tag_def)
qed

lemma decode_state_sync_SomeD:
  assumes "decode_state_sync m = Some s"
  shows "length (s_blob s) < 2 ^ 32 \<and> m = encode_state_sync s @ drop (13 + length (s_blob s)) m"
proof -
  obtain len off1 off2 off3 where tag: "has_tag m MT_StateSync"
      and fr: "get_u64 m 1 = Some (s_frame s, off1)" and len: "get_u32 m off1 = Some (len, off2)"
      and blob: "get_raw m off2 (unat len) = Some (s_blob s, off3)"
    using assms by (auto simp: decode_state_sync_def split: if_splits option.splits)
  have [simp]: "off1 = 9"
    using get_u64_SomeD [OF fr] by simp
  have [simp]: "off2 = 13"
    using get_u32_SomeD [OF len] by simp
  have l: "length (s_blob s) = unat len"
    using get_raw_SomeD [OF blob] by simp
  have "unat len < 2 ^ 32"
    by simp
  moreover have "drop 1 m = (le_bytes 8 (s_frame s) @ le_bytes 4 (of_nat (length (s_blob s)) :: u32) @
      s_blob s) @ drop (13 + length (s_blob s)) m"
    using get_u64_SomeD [OF fr] get_u32_SomeD [OF len] get_raw_SomeD [OF blob] l by simp
  from tag_cons [OF tag this] have "m = encode_state_sync s @ drop (13 + length (s_blob s)) m"
    by (simp add: encode_state_sync_layout)
  ultimately show ?thesis
    using l by simp
qed

lemma decode_hello_encode [wire_simps]:
  assumes "length (h_core_id h) = 64"
  shows "decode_hello (encode_hello h @ rest) = Some (h\<lparr>h_core_id := (h_core_id h)[63 := 0]\<rparr>)"
proof -
  let ?m = "encode_hello h @ rest" and ?a = "le_bytes 4 (h_abi_version h)"
    and ?c = "le_bytes 8 (h_content_hash h)" and ?d = "le_bytes 4 (h_input_delay h)"
    and ?e = "le_bytes 8 (h_start_frame h)"
  have m: "?m = [msg_tag MT_Hello] @ ?a @ h_core_id h @ ?c @ ?d @ ?e @ rest"
    by (simp add: encode_hello_layout)
  have "get_u32 ?m 1 = Some (h_abi_version h, 1 + 4)"
    unfolding m by (rule get_u32_between) simp
  moreover have "get_raw (([msg_tag MT_Hello] @ ?a) @ h_core_id h @ ?c @ ?d @ ?e @ rest) 5 64
      = Some (h_core_id h, 5 + 64)"
    by (rule get_raw_between) (simp_all add: assms)
  moreover have "get_u64 (([msg_tag MT_Hello] @ ?a @ h_core_id h) @ ?c @ ?d @ ?e @ rest) 69
      = Some (h_content_hash h, 69 + 8)"
    by (rule get_u64_between) (simp add: assms)
  moreover have "get_u32 (([msg_tag MT_Hello] @ ?a @ h_core_id h @ ?c) @ ?d @ ?e @ rest) 77
      = Some (h_input_delay h, 77 + 4)"
    by (rule get_u32_between) (simp add: assms)
  moreover have "get_u64 (([msg_tag MT_Hello] @ ?a @ h_core_id h @ ?c @ ?d) @ ?e @ rest) 81
      = Some (h_start_frame h, 81 + 8)"
    by (rule get_u64_between) (simp add: assms)
  ultimately show ?thesis
    by (simp add: decode_hello_def m has_tag_def)
qed

lemma decode_hello_SomeD:
  assumes "decode_hello m = Some h"
  obtains cid where "length cid = 64" "h_core_id h = cid[63 := 0]"
    "m = encode_hello (h\<lparr>h_core_id := cid\<rparr>) @ drop 89 m"
proof -
  obtain cid o1 o2 o3 o4 o5 where tag: "has_tag m MT_Hello"
      and a: "get_u32 m 1 = Some (h_abi_version h, o1)" and c: "get_raw m o1 64 = Some (cid, o2)"
      and hs: "get_u64 m o2 = Some (h_content_hash h, o3)"
      and d: "get_u32 m o3 = Some (h_input_delay h, o4)" and s: "get_u64 m o4 = Some (h_start_frame h, o5)"
      and cid: "h_core_id h = cid[63 := 0]"
    using assms by (auto simp: decode_hello_def split: if_splits option.splits)
  have "o1 = 5" "o2 = o1 + 64" "o3 = o2 + 8" "o4 = o3 + 4"
    using get_u32_SomeD [OF a, THEN conjunct1] get_raw_SomeD [OF c, THEN conjunct1]
      get_u64_SomeD [OF hs, THEN conjunct1] get_u32_SomeD [OF d, THEN conjunct1] by simp_all
  then have o: "o1 = 5" "o2 = 69" "o3 = 77" "o4 = 81"
    by simp_all
  note c = c [unfolded o] and hs = hs [unfolded o] and d = d [unfolded o] and s = s [unfolded o]
  have "drop 1 m = (le_bytes 4 (h_abi_version h) @ cid @ le_bytes 8 (h_content_hash h) @
      le_bytes 4 (h_input_delay h) @ le_bytes 8 (h_start_frame h)) @ drop 89 m"
    using get_u32_SomeD [OF a, THEN conjunct2] get_raw_SomeD [OF c, THEN conjunct2, THEN conjunct2]
      get_u64_SomeD [OF hs, THEN conjunct2] get_u32_SomeD [OF d, THEN conjunct2]
      get_u64_SomeD [OF s, THEN conjunct2] by (simp only: append_assoc) simp
  from tag_cons [OF tag this] have "m = encode_hello (h\<lparr>h_core_id := cid\<rparr>) @ drop 89 m"
    by (simp add: encode_hello_layout)
  moreover have "length cid = 64"
    using get_raw_SomeD [OF c] by simp
  ultimately show thesis
    using that cid by blast
qed

section \<open>Properties\<close>

text \<open>
  An \<open>Input\<close> message decodes to a record exactly when the message starts with the encoding of
  that record: decoding inverts encoding, every accepted message carries the \<open>Input\<close> tag and all
  284 bytes, and nothing shorter or differently tagged is accepted.
\<close>

lemma decode_input_iff:
  "decode_input m = Some i \<longleftrightarrow> wf_input (i_state i) \<and> (\<exists>rest. m = encode_input i @ rest)"
  using decode_input_SomeD decode_input_encode by blast

text \<open>
  C29. A \<open>StateSync\<close> message decodes to a snapshot exactly when it starts with that snapshot's
  encoding; the 32-bit length field bounds every accepted blob below \<open>2 ^ 32\<close> bytes.
\<close>

theorem decode_state_sync_iff:
  "decode_state_sync m = Some s \<longleftrightarrow>
     length (s_blob s) < 2 ^ 32 \<and> (\<exists>rest. m = encode_state_sync s @ rest)"
  using decode_state_sync_SomeD decode_state_sync_encode by blast

text \<open>
  A \<open>Hello\<close> message decodes exactly when it starts with the encoding of a greeting with a
  64-byte core id, and the decoded id is that id with its last byte forced to the null terminator.
\<close>

lemma decode_hello_iff:
  "decode_hello m = Some h \<longleftrightarrow>
     (\<exists>cid rest. length cid = 64 \<and> h_core_id h = cid[63 := 0] \<and>
        m = encode_hello (h\<lparr>h_core_id := cid\<rparr>) @ rest)"
proof
  assume "decode_hello m = Some h"
  then show "\<exists>cid rest. length cid = 64 \<and> h_core_id h = cid[63 := 0] \<and>
      m = encode_hello (h\<lparr>h_core_id := cid\<rparr>) @ rest"
    by (elim decode_hello_SomeD) blast
next
  assume "\<exists>cid rest. length cid = 64 \<and> h_core_id h = cid[63 := 0] \<and>
      m = encode_hello (h\<lparr>h_core_id := cid\<rparr>) @ rest"
  then obtain cid rest where c: "length cid = 64" "h_core_id h = cid[63 := 0]"
      "m = encode_hello (h\<lparr>h_core_id := cid\<rparr>) @ rest"
    by blast
  then show "decode_hello m = Some h"
    using decode_hello_encode [of "h\<lparr>h_core_id := cid\<rparr>" rest] by (cases h) simp
qed

text \<open>A \<open>Checksum\<close> message decodes exactly when it starts with that record's encoding.\<close>

theorem decode_checksum_iff:
  "decode_checksum m = Some c \<longleftrightarrow> (\<exists>rest. m = encode_checksum c @ rest)"
  using decode_checksum_SomeD decode_checksum_encode by blast

lemma peek_type_encode [wire_simps]:
  "peek_type (encode_input i) = Some MT_Input"
  "peek_type (encode_checksum c) = Some MT_Checksum"
  "peek_type (encode_hello h) = Some MT_Hello"
  "peek_type (encode_state_sync s) = Some MT_StateSync"
  by (simp_all add: encode_input_layout encode_checksum_layout encode_hello_layout
      encode_state_sync_layout peek_type_def msg_type_of_def)

lemma decode_encode_exact [wire_simps]:
  "wf_input (i_state i) \<Longrightarrow> decode_input (encode_input i) = Some i"
  "decode_checksum (encode_checksum c) = Some c"
  "length (s_blob s) < 2 ^ 32 \<Longrightarrow> decode_state_sync (encode_state_sync s) = Some s"
  using decode_input_encode [of i "[]"] decode_checksum_encode [of c "[]"]
    decode_state_sync_encode [of s "[]"] by simp_all

end
