(* ===== verification/RP_RefCores.thy ===== *)
theory RP_RefCores
  imports RP_Driven RP_Wire
begin

text \<open>
  The two driven reference cores, \<open>cores/refcore_driven\<close> and \<open>cores/refcore_rollback\<close>, as tables of
  the core ABI, and that they keep the contract \<open>driven_core\<close>: their savestate is the 32-bit counter
  in little-endian order (the memory order of the supported hosts), the framebuffer is not part of it.

  With an actual core at hand the runtime's promises about savestates and rewind are stated.
\<close>

section \<open>Shared parts\<close>

definition core_W :: u32 where "core_W = 64"

definition core_H :: u32 where "core_H = 64"

definition solid_fb :: "u8 \<Rightarrow> u8 \<Rightarrow> u8 \<Rightarrow> u8 \<Rightarrow> bytes" where
  "solid_fb r g b a = concat (replicate (unat core_W * unat core_H) [r, g, b, a])"

definition refcore_av_info :: rp_av_info where
  "refcore_av_info = \<lparr>av_fps = 60, av_sample_rate = 0, base_width = core_W, base_height = core_H,
     max_width = core_W, max_height = core_H, pixel_format = RP_FMT_R8G8B8A8_UNORM\<rparr>"

text \<open>Four bytes of memory copied from and to a \<open>uint32_t\<close>.\<close>

definition memcpy_from_u32 :: "u32 \<Rightarrow> bytes \<Rightarrow> bytes" where
  "memcpy_from_u32 v buf = le_bytes 4 v @ drop 4 buf"

definition memcpy_to_u32 :: "bytes \<Rightarrow> u32" where
  "memcpy_to_u32 buf = or_bytes (\<lambda>i. buf ! i) 4"

lemma memcpy_to_u32_le [simp]: "memcpy_to_u32 (le_bytes 4 v @ rest) = v"
proof -
  have "memcpy_to_u32 (le_bytes 4 v @ rest) = or_bytes (\<lambda>i. ucast (drop_bit (8 * i) v)) 4"
    unfolding memcpy_to_u32_def by (intro or_bytes_cong) (simp add: nth_append)
  also have "\<dots> = v"
    by (rule or_bytes_le_bytes) simp
  finally show ?thesis .
qed

section \<open>refcore_driven\<close>

record DrivenCore =
  dc_fb :: bytes
  dc_frame :: u32

definition dc_info :: rp_core_info where
  "dc_info = \<lparr>ci_abi_version = RETROPARK_ABI_VERSION, ci_type = 1, ci_graphics_api = 2,
              ci_id = ''refcore_driven''\<rparr>"

definition dc_create :: "host_view \<Rightarrow> DrivenCore option" where
  "dc_create host = Some \<lparr>dc_fb = replicate (unat core_W * unat core_H * 4) 0, dc_frame = 0\<rparr>"

definition dc_run_frame :: "DrivenCore \<Rightarrow> host_view \<Rightarrow> DrivenCore \<times> host_call list" where
  "dc_run_frame c host =
     (let t = ucast ((dc_frame c mod 120) * 255 div 120) :: u8;
          c = c\<lparr>dc_frame := dc_frame c + 1, dc_fb := solid_fb 0 255 t 255\<rparr>
      in (c, [HVideo (Some (dc_fb c)) core_W core_H (core_W * 4)]))"

definition dc_serialize :: "DrivenCore \<Rightarrow> bytes \<Rightarrow> rp_result \<times> bytes" where
  "dc_serialize c buf =
     (if length buf < 4 then (RP_ERR_BAD_ARG, buf) else (RP_OK, memcpy_from_u32 (dc_frame c) buf))"

definition dc_unserialize :: "DrivenCore \<Rightarrow> bytes \<Rightarrow> DrivenCore \<times> rp_result" where
  "dc_unserialize c buf =
     (if length buf < 4 then (c, RP_ERR_BAD_ARG) else (c\<lparr>dc_frame := memcpy_to_u32 buf\<rparr>, RP_OK))"

definition dc_abi :: "DrivenCore rp_core_abi" where
  "dc_abi = \<lparr>ca_abi_version = RETROPARK_ABI_VERSION, ca_get_info = Some dc_info,
     ca_create = Some dc_create, ca_has_destroy = True, ca_set_surfaces = None, ca_start = None,
     ca_stop = None, ca_get_av_info = Some (\<lambda>c. refcore_av_info), ca_run_frame = Some dc_run_frame,
     ca_serialize_size = Some (\<lambda>c. 4), ca_serialize = Some dc_serialize,
     ca_unserialize = Some dc_unserialize, ca_load_content = None, ca_core_options_json = None,
     ca_core_option_get = None, ca_core_option_set = None\<rparr>"

interpretation dc: driven_core dc_abi dc_frame "\<lambda>f i0 i1. f + 1" "le_bytes 4"
  by unfold_locales
    (auto simp: dc_abi_def dc_run_frame_def dc_serialize_def dc_unserialize_def memcpy_from_u32_def
      memcpy_to_u32_le [of _ "[]", simplified] Let_def dest: arg_cong [where f = length])

section \<open>refcore_rollback\<close>

record RollbackCore =
  rc_fb :: bytes
  rc_acc :: u32

definition rc_info :: rp_core_info where
  "rc_info = \<lparr>ci_abi_version = RETROPARK_ABI_VERSION, ci_type = 1, ci_graphics_api = 2,
              ci_id = ''refcore_rollback''\<rparr>"

definition rc_create :: "host_view \<Rightarrow> RollbackCore option" where
  "rc_create host = Some \<lparr>rc_fb = replicate (unat core_W * unat core_H * 4) 0, rc_acc = 0\<rparr>"

text \<open>\<open>keys['X']\<close> is the key at index 88.\<close>

definition rc_step :: "u32 \<Rightarrow> rp_input_state \<Rightarrow> rp_input_state \<Rightarrow> u32" where
  "rc_step acc i0 i1 = acc + (if keys i0 ! 88 \<noteq> 0 then 2 else 1)"

definition rc_run_frame :: "RollbackCore \<Rightarrow> host_view \<Rightarrow> RollbackCore \<times> host_call list" where
  "rc_run_frame c host =
     (let inp = hv_input host 0;
          acc = rc_acc c + (if keys inp ! 88 \<noteq> 0 then 2 else 1);
          v = ucast (take_bit 8 acc) :: u8;
          c = c\<lparr>rc_acc := acc, rc_fb := solid_fb v 0 0 255\<rparr>
      in (c, [HInput 0, HVideo (Some (rc_fb c)) core_W core_H (core_W * 4)]))"

definition rc_serialize :: "RollbackCore \<Rightarrow> bytes \<Rightarrow> rp_result \<times> bytes" where
  "rc_serialize c buf =
     (if length buf < 4 then (RP_ERR_BAD_ARG, buf) else (RP_OK, memcpy_from_u32 (rc_acc c) buf))"

definition rc_unserialize :: "RollbackCore \<Rightarrow> bytes \<Rightarrow> RollbackCore \<times> rp_result" where
  "rc_unserialize c buf =
     (if length buf < 4 then (c, RP_ERR_BAD_ARG) else (c\<lparr>rc_acc := memcpy_to_u32 buf\<rparr>, RP_OK))"

definition rc_abi :: "RollbackCore rp_core_abi" where
  "rc_abi = \<lparr>ca_abi_version = RETROPARK_ABI_VERSION, ca_get_info = Some rc_info,
     ca_create = Some rc_create, ca_has_destroy = True, ca_set_surfaces = None, ca_start = None,
     ca_stop = None, ca_get_av_info = Some (\<lambda>c. refcore_av_info), ca_run_frame = Some rc_run_frame,
     ca_serialize_size = Some (\<lambda>c. 4), ca_serialize = Some rc_serialize,
     ca_unserialize = Some rc_unserialize, ca_load_content = None, ca_core_options_json = None,
     ca_core_option_get = None, ca_core_option_set = None\<rparr>"

interpretation rc: driven_core rc_abi rc_acc rc_step "le_bytes 4"
  by unfold_locales
    (auto simp: rc_abi_def rc_run_frame_def rc_serialize_def rc_unserialize_def memcpy_from_u32_def
      memcpy_to_u32_le [of _ "[]", simplified] rc_step_def Let_def dest: arg_cong [where f = length])

section \<open>A runtime driving a reference core\<close>

definition rc_registry :: "RollbackCore registry" where
  "rc_registry = register_core [] ''refcore_rollback'' (Some (Some rc_abi))"

definition rc_rt :: "(RollbackCore, unit) Runtime" where
  "rc_rt = fst (load_static_core (demo_env rc_registry) ''refcore_rollback'' (demo_rt rc_registry))"

lemma registry_get_rc: "registry_get rc_registry ''refcore_rollback'' = Some (Some rc_abi)"
  by (simp add: rc_registry_def registry_get_register)

lemma rc_rt_loaded:
  "rt_core_loaded rc_rt \<and> rt_core_type rc_rt = RP_CORE_DRIVEN \<and> ld_abi (rt_loader rc_rt) = Some rc_abi \<and>
   \<not> rt_requires_content rc_rt \<and> \<not> rt_paused rc_rt \<and>
   ld_core (rt_loader rc_rt) = Some \<lparr>rc_fb = replicate (unat core_W * unat core_H * 4) 0, rc_acc = 0\<rparr> \<and>
   ld_state (rt_loader rc_rt) = Created"
proof -
  have abi: "ca_abi_version rc_abi = RETROPARK_ABI_VERSION" "ca_get_info rc_abi = Some rc_info"
    "ca_create rc_abi = Some rc_create" "ca_load_content rc_abi = None"
    "ca_get_av_info rc_abi = Some (\<lambda>c. refcore_av_info)"
    by (simp_all add: rc_abi_def)
  have ty: "core_type_of_u32 (ci_type rc_info) = RP_CORE_DRIVEN"
    by (simp add: rc_info_def core_type_of_u32_def)
  have av: "av_geometry_ok refcore_av_info" "av_sample_rate refcore_av_info = 0"
    by (simp_all add: av_geometry_ok_def refcore_av_info_def core_W_def core_H_def)
  show ?thesis
    by (simp add: rc_rt_def load_static_core_def registry_get_rc demo_defs CoreLoader_new_def
        rt_load_def loader_load_def StaticCoreModule_resolve_def rt_create_def loader_create_def
        finish_load_core_def mark_loaded_def has_load_content_def loader_get_av_info_def ld_call_def
        live_state_def set_max_geometry_def open_audio_def Let_def abi ty av rc_create_def)
qed

lemma rc_rt_driving: "rt_driving rc_abi rc_rt"
  using rc_rt_loaded load_static_core_inv [OF rt_inv_new]
  by (simp add: rt_driving_def rc_rt_def demo_rt_def)

lemma rc_rt_view: "rt_view rc_acc rc_rt = 0"
  using rc_rt_loaded by (simp add: rt_view_def)

text \<open>
  C11. Savestates restore: on a runtime that drives any core keeping the driven-core contract, saving
  into a buffer of the reported size succeeds and changes nothing; after any further frames, loading
  what was saved succeeds and brings the core back to the state it was saved in, so that replaying the
  same inputs from there reaches the same states again.
\<close>

theorem save_load_restores:
  assumes "driven_core abi view step enc" and "rt_driving abi rt" and "\<not> rt_paused rt"
    and "length buf = snd (serialize_size rt)"
  shows "\<exists>rt' blob rt''. save_state (Some buf) rt = (rt', RP_OK, Some blob) \<and>
     rt_view view rt' = rt_view view rt \<and>
     load_state (Some blob) (fold (play_frame env now) ins rt') = (rt'', RP_OK) \<and>
     rt_view view rt'' = rt_view view rt \<and>
     rt_view view (fold (play_frame env now) ins rt'') = rt_view view (fold (play_frame env now) ins rt')"
proof -
  have play: "rt_driving abi (fold (play_frame env now) ins r) \<and> \<not> rt_paused (fold (play_frame env now) ins r) \<and>
      rt_view view (fold (play_frame env now) ins r) = run_steps step ins (rt_view view r)"
    if "rt_driving abi r" "\<not> rt_paused r" for r ins
    using that
  proof (induction ins arbitrary: r)
    case (Cons i ins)
    from driven_core.play_frame_driving [OF assms(1) Cons.prems, of env now i] Cons.IH [of "play_frame env now i r"]
    show ?case by (simp add: run_steps_def)
  qed (simp add: run_steps_def)
  have "length buf = length (enc (rt_view view rt))"
    using assms(4) driven_core.serialize_size_driving [OF assms(1,2)] by simp
  from driven_core.save_state_driving [OF assms(1,2) this] obtain rt' where
    rt': "save_state (Some buf) rt = (rt', RP_OK, Some (enc (rt_view view rt)))" "rt_driving abi rt'"
      "rt_view view rt' = rt_view view rt" "rt_paused rt' = rt_paused rt"
    by blast
  note p = play [OF rt'(2), of ins]
  have p': "rt_driving abi (fold (play_frame env now) ins rt')"
    using p rt'(4) assms(3) by simp
  from driven_core.load_state_driving [OF assms(1) this, of "rt_view view rt"] obtain rt'' where
    rt'': "load_state (Some (enc (rt_view view rt))) (fold (play_frame env now) ins rt') = (rt'', RP_OK)"
      "rt_driving abi rt''" "rt_view view rt'' = rt_view view rt"
      "rt_paused rt'' = rt_paused (fold (play_frame env now) ins rt')"
    by blast
  with rt' p play [OF rt''(2), of ins] assms(3) show ?thesis by simp
qed

theorem save_load_restores_witness:
  "\<exists>rt' blob rt''. save_state (Some [0, 0, 0, 0]) rc_rt = (rt', RP_OK, Some blob) \<and>
     rt_view rc_acc rt' = 0 \<and>
     load_state (Some blob) (play_frame (demo_env []) 1 (neutral_input, neutral_input) rt') = (rt'', RP_OK) \<and>
     rt_view rc_acc rt'' = 0"
proof -
  have "length [0, 0, 0, 0 :: u8] = snd (serialize_size rc_rt)"
    using rc.serialize_size_driving [OF rc_rt_driving] by simp
  from save_load_restores [OF rc.driven_core_axioms rc_rt_driving _ this,
      of "demo_env []" 1 "[(neutral_input, neutral_input)]"] rc_rt_loaded rc_rt_view
  show ?thesis by auto
qed

text \<open>
  C10. Rewind steps back through history: with rewind switched on for \<open>m\<close> snapshots (600 if \<open>m\<close> is 0),
  after any frames, stepping back \<open>k\<close> times (fewer than both the frames played and \<open>m\<close>) succeeds each
  time and restores exactly the state before the frame \<open>k\<close> frames before the last; presenting then
  shows that frame again with the same input and does not grow the history.
\<close>

theorem rewind_steps_back:
  assumes "driven_core abi view step enc" and "rt_driving abi rt" and "\<not> rt_paused rt"
    and "set_rewind True m rt = (rt0, RP_OK)"
    and "0 < k" and "k < min (length ins) (if m \<noteq> 0 then unat m else 600)"
    and "rt1 = fold (play_frame env now) ins rt0"
  shows "snd (rewind (rewinds (k - 1) rt1)) = RP_OK \<and>
     rt_view view (rewinds k rt1) = run_steps step (take (length ins - 1 - k) ins) (rt_view view rt) \<and>
     rt_view view (play_frame env now (ins ! (length ins - 1 - k)) (rewinds k rt1)) =
       run_steps step (take (length ins - k) ins) (rt_view view rt) \<and>
     rt_rewind_ring (play_frame env now i (rewinds k rt1)) = rt_rewind_ring (rewinds k rt1)"
  using driven_core.rewind_history [OF assms(1-6)] unfolding assms(7) by blast

theorem rewind_steps_back_witness:
  "\<exists>rt0. set_rewind True 2 rc_rt = (rt0, RP_OK) \<and>
     rt_view rc_acc (rewinds 1 (fold (play_frame (demo_env []) 1)
        [(neutral_input, neutral_input), (neutral_input, neutral_input), (neutral_input, neutral_input)] rt0)) = 1"
proof -
  let ?n = "(neutral_input, neutral_input)"
  obtain rt0 where rt0: "set_rewind True 2 rc_rt = (rt0, RP_OK)"
    using rc.serialize_size_driving [OF rc_rt_driving] by (simp add: set_rewind_def)
  have "run_steps rc_step (take 1 [?n, ?n, ?n]) (rt_view rc_acc rc_rt) = 1"
    by (simp add: run_steps_def rc_rt_view rc_step_def neutral_input_def)
  with rewind_steps_back [OF rc.driven_core_axioms rc_rt_driving _ rt0, of 1 "[?n, ?n, ?n]" _ "demo_env []" 1]
    rc_rt_loaded rt0 show ?thesis by simp
qed

end
