(* ===== verification/RP_Transport.thy ===== *)
theory RP_Transport
  imports RP_Abi
begin

text \<open>
  Message transports: the interface \<open>src/net/ITransport.h\<close> and the in-process queue pair
  \<open>src/net/LoopbackTransport.cpp\<close>.

  \<^item> \<open>'t transport\<close> is the interface a session is written against. A receive yields the message or
    an error code other than \<open>RP_OK\<close>.
  \<^item> \<open>message_channel\<close> is the contract of one direction of it; the loopback channel is interpreted
    here and TCP framing is shown to meet it in \<open>RP_Tcp\<close>.
  \<^item> The endpoints of a loopback pair share two channels. A critical section is one step; what the
    peer does while a blocking receive waits is a list of events.
\<close>

section \<open>The interface\<close>

record 't transport =
  tr_send :: "'t \<Rightarrow> bytes \<Rightarrow> 't \<times> rp_result"
  tr_recv :: "'t \<Rightarrow> bool \<Rightarrow> u32 \<Rightarrow> 't \<times> (rp_result + bytes)"
  tr_connected :: "'t \<Rightarrow> bool"
  tr_close :: "'t \<Rightarrow> 't"

text \<open>Sending a list of messages, and a number of receives, through any channel operations.\<close>

fun push_all :: "('q \<Rightarrow> bytes \<Rightarrow> 'q \<times> rp_result) \<Rightarrow> 'q \<Rightarrow> bytes list \<Rightarrow> 'q" where
  "push_all push q [] = q"
| "push_all push q (m # ms) = push_all push (fst (push q m)) ms"

fun pop_n :: "('q \<Rightarrow> 'q \<times> (rp_result + bytes)) \<Rightarrow> nat \<Rightarrow> 'q \<Rightarrow> (rp_result + bytes) list" where
  "pop_n pop 0 q = []"
| "pop_n pop (Suc k) q = snd (pop q) # pop_n pop k (fst (pop q))"

text \<open>
  What a message channel promises its user: messages come out whole, once, in the order they went
  in, and an empty channel says so without blocking.
\<close>

locale message_channel =
  fixes push :: "'q \<Rightarrow> bytes \<Rightarrow> 'q \<times> rp_result"
    and pop :: "'q \<Rightarrow> 'q \<times> (rp_result + bytes)"
    and msgs :: "'q \<Rightarrow> bytes list"
    and live :: "'q \<Rightarrow> bool"
    and fits :: "bytes \<Rightarrow> bool"
  assumes push_live: "live q \<Longrightarrow> fits m \<Longrightarrow>
      \<exists>q'. push q m = (q', RP_OK) \<and> live q' \<and> msgs q' = msgs q @ [m]"
    and pop_msg: "live q \<Longrightarrow> msgs q = m # ms \<Longrightarrow>
      \<exists>q'. pop q = (q', Inr m) \<and> live q' \<and> msgs q' = ms"
    and pop_empty: "live q \<Longrightarrow> msgs q = [] \<Longrightarrow> pop q = (q, Inl RP_ERR_NOT_FOUND)"
begin

lemma push_all_msgs:
  "live q \<Longrightarrow> \<forall>m \<in> set ms. fits m \<Longrightarrow> live (push_all push q ms) \<and> msgs (push_all push q ms) = msgs q @ ms"
proof (induction ms arbitrary: q)
  case Nil
  then show ?case by simp
next
  case (Cons m ms)
  from push_live [OF Cons.prems(1), of m] Cons.prems(2)
  obtain q' where q': "push q m = (q', RP_OK)" "live q'" "msgs q' = msgs q @ [m]"
    by auto
  with Cons.IH [OF q'(2)] Cons.prems(2) show ?case by simp
qed

lemma pop_all_empty:
  "live q \<Longrightarrow> msgs q = ms \<Longrightarrow> pop_n pop (length ms + 1) q = map Inr ms @ [Inl RP_ERR_NOT_FOUND]"
proof (induction ms arbitrary: q)
  case Nil
  then show ?case using pop_empty [of q] by simp
next
  case (Cons m ms)
  from pop_msg [OF Cons.prems] obtain q' where "pop q = (q', Inr m)" "live q'" "msgs q' = ms"
    by auto
  with Cons.IH [of q'] show ?case by simp
qed

lemma fifo_then_empty:
  "live q \<Longrightarrow> msgs q = [] \<Longrightarrow> \<forall>m \<in> set ms. fits m \<Longrightarrow>
   pop_n pop (length ms + 1) (push_all push q ms) = map Inr ms @ [Inl RP_ERR_NOT_FOUND]"
  using push_all_msgs [of q ms] pop_all_empty [of "push_all push q ms" ms] by simp

end

section \<open>Loopback\<close>

record Channel =
  ch_q :: "bytes list"
  ch_open :: bool

definition Channel_new :: Channel where
  "Channel_new = \<lparr>ch_q = [], ch_open = True\<rparr>"

definition lb_send :: "Channel \<Rightarrow> bytes \<Rightarrow> Channel \<times> rp_result" where
  "lb_send ch data =
     (if \<not> ch_open ch then (ch, RP_ERR_DEVICE) else (ch\<lparr>ch_q := ch_q ch @ [data]\<rparr>, RP_OK))"

definition lb_shut :: "Channel \<Rightarrow> Channel" where
  "lb_shut ch = ch\<lparr>ch_open := False\<rparr>"

text \<open>What the other endpoint does to a channel it writes to, as its reader sees it.\<close>

datatype chan_event = Peer_push bytes | Peer_close

fun chan_apply :: "Channel \<Rightarrow> chan_event \<Rightarrow> Channel" where
  "chan_apply ch (Peer_push m) = fst (lb_send ch m)"
| "chan_apply ch Peer_close = lb_shut ch"

definition chan_events :: "chan_event list \<Rightarrow> Channel \<Rightarrow> Channel" where
  "chan_events evs ch = fold (\<lambda>e ch. chan_apply ch e) evs ch"

definition lb_pop :: "Channel \<Rightarrow> Channel \<times> (rp_result + bytes)" where
  "lb_pop ch = (ch\<lparr>ch_q := tl (ch_q ch)\<rparr>, Inr (hd (ch_q ch)))"

text \<open>\<open>evs\<close> is what the peer does between the start of \<open>wait_for\<close> and its return.\<close>

definition lb_recv :: "Channel \<Rightarrow> bool \<Rightarrow> chan_event list \<Rightarrow> Channel \<times> (rp_result + bytes)" where
  "lb_recv ch block evs =
     (if ch_q ch = []
      then if \<not> block then (ch, Inl RP_ERR_NOT_FOUND)
           else let ch = chan_events evs ch
                in if ch_q ch = [] then (ch, Inl (if ch_open ch then RP_ERR_TIMEOUT else RP_ERR_DEVICE))
                   else lb_pop ch
      else lb_pop ch)"

text \<open>
  The two channels \<open>make_loopback_pair\<close> allocates are shared: endpoint \<open>a\<close> reads \<open>b2a\<close> and writes
  \<open>a2b\<close>, endpoint \<open>b\<close> the other way round. The pair is the store both endpoints act on, and an
  endpoint is a side of it.
\<close>

datatype side = SideA | SideB

record loopback_pair =
  a2b :: Channel
  b2a :: Channel

definition make_loopback_pair :: loopback_pair where
  "make_loopback_pair = \<lparr>a2b = Channel_new, b2a = Channel_new\<rparr>"

fun other_side :: "side \<Rightarrow> side" where
  "other_side SideA = SideB"
| "other_side SideB = SideA"

fun out_ch :: "side \<Rightarrow> loopback_pair \<Rightarrow> Channel" where
  "out_ch SideA p = a2b p"
| "out_ch SideB p = b2a p"

fun set_out_ch :: "side \<Rightarrow> Channel \<Rightarrow> loopback_pair \<Rightarrow> loopback_pair" where
  "set_out_ch SideA ch p = p\<lparr>a2b := ch\<rparr>"
| "set_out_ch SideB ch p = p\<lparr>b2a := ch\<rparr>"

definition in_ch :: "side \<Rightarrow> loopback_pair \<Rightarrow> Channel" where
  "in_ch s p = out_ch (other_side s) p"

definition set_in_ch :: "side \<Rightarrow> Channel \<Rightarrow> loopback_pair \<Rightarrow> loopback_pair" where
  "set_in_ch s ch p = set_out_ch (other_side s) ch p"

definition loopback_send :: "side \<Rightarrow> loopback_pair \<Rightarrow> bytes \<Rightarrow> loopback_pair \<times> rp_result" where
  "loopback_send s p data = (case lb_send (out_ch s p) data of (ch, r) \<Rightarrow> (set_out_ch s ch p, r))"

text \<open>A receive whose wait, if it waits, sees the events \<open>evs\<close> on the channel it reads.\<close>

definition loopback_recv ::
  "side \<Rightarrow> loopback_pair \<Rightarrow> bool \<Rightarrow> chan_event list \<Rightarrow> loopback_pair \<times> (rp_result + bytes)" where
  "loopback_recv s p block evs =
     (case lb_recv (in_ch s p) block evs of (ch, r) \<Rightarrow> (set_in_ch s ch p, r))"

definition loopback_connected :: "side \<Rightarrow> loopback_pair \<Rightarrow> bool" where
  "loopback_connected s p = ch_open (out_ch s p)"

definition loopback_close :: "side \<Rightarrow> loopback_pair \<Rightarrow> loopback_pair" where
  "loopback_close s p =
     (let p = set_out_ch s (lb_shut (out_ch s p)) p in set_in_ch s (lb_shut (in_ch s p)) p)"

text \<open>
  An endpoint as its own thread sees it: the calls it makes poll the pair (no call of the sessions
  on a loopback waits except through \<open>loopback_recv\<close> with the events of the wait).
\<close>

definition loopback_endpoint :: "side \<Rightarrow> loopback_pair transport" where
  "loopback_endpoint s =
     \<lparr>tr_send = loopback_send s,
      tr_recv = (\<lambda>p block timeout. loopback_recv s p block []),
      tr_connected = loopback_connected s,
      tr_close = loopback_close s\<rparr>"

interpretation lb: message_channel
  lb_send "\<lambda>ch. lb_recv ch False []" "ch_q :: Channel \<Rightarrow> bytes list" "ch_open :: Channel \<Rightarrow> bool"
  "\<lambda>_. True"
proof
  fix ch :: Channel and m
  assume "ch_open ch"
  then show "\<exists>q'. lb_send ch m = (q', RP_OK) \<and> ch_open q' \<and> ch_q q' = ch_q ch @ [m]"
    by (simp add: lb_send_def)
next
  fix ch :: Channel and m ms
  assume "ch_open ch" "ch_q ch = m # ms"
  then show "\<exists>q'. lb_recv ch False [] = (q', Inr m) \<and> ch_open q' \<and> ch_q q' = ms"
    by (simp add: lb_recv_def lb_pop_def)
next
  fix ch :: Channel
  assume "ch_open ch" "ch_q ch = []"
  then show "lb_recv ch False [] = (ch, Inl RP_ERR_NOT_FOUND)"
    by (simp add: lb_recv_def)
qed

lemma chan_events_Cons [simp]: "chan_events (e # evs) ch = chan_events evs (chan_apply ch e)"
  by (simp add: chan_events_def)

lemma chan_events_Nil [simp]: "chan_events [] ch = ch"
  by (simp add: chan_events_def)

lemma chan_events_closed: "\<not> ch_open ch \<Longrightarrow> chan_events evs ch = ch"
proof (induction evs arbitrary: ch)
  case Nil
  then show ?case by simp
next
  case (Cons e evs)
  then have "chan_apply ch e = ch"
    by (cases e) (simp_all add: lb_send_def lb_shut_def)
  with Cons show ?case by simp
qed

lemma chan_events_head:
  "ch_q ch = m # ms \<Longrightarrow> \<exists>ms'. ch_q (chan_events evs ch) = m # ms'"
proof (induction evs arbitrary: ch ms)
  case Nil
  then show ?case by simp
next
  case (Cons e evs)
  have "\<exists>ms'. ch_q (chan_apply ch e) = m # ms'"
    using Cons.prems by (cases e) (simp_all add: lb_send_def lb_shut_def)
  then show ?case using Cons.IH by auto
qed

text \<open>
  A blocking receive on an empty open channel returns exactly what the peer made of the wait:
  the first message pushed before the peer closed, \<open>RP_ERR_DEVICE\<close> if the peer closed with nothing
  pushed, and \<open>RP_ERR_TIMEOUT\<close> only if the peer neither pushed nor closed.
\<close>

lemma lb_recv_blocking:
  "snd (lb_recv \<lparr>ch_q = [], ch_open = True\<rparr> True evs) =
     (case evs of [] \<Rightarrow> Inl RP_ERR_TIMEOUT
      | Peer_push m # _ \<Rightarrow> Inr m
      | Peer_close # _ \<Rightarrow> Inl RP_ERR_DEVICE)"
proof (cases evs)
  case Nil
  then show ?thesis by (simp add: lb_recv_def)
next
  case (Cons e es)
  show ?thesis
  proof (cases e)
    case (Peer_push m)
    then have "\<exists>ms'. ch_q (chan_events es \<lparr>ch_q = [m], ch_open = True\<rparr>) = m # ms'"
      by (intro chan_events_head) simp
    with Cons Peer_push show ?thesis
      by (auto simp: lb_recv_def lb_send_def lb_pop_def)
  next
    case Peer_close
    with Cons show ?thesis
      by (simp add: lb_recv_def lb_shut_def chan_events_closed)
  qed
qed

subsection \<open>Both endpoints interleaved\<close>

datatype lb_op = OpSend side bytes | OpPoll side | OpClose side

text \<open>
  A run of the pair: the operations in the order their critical sections take the locks. The
  observation records, per side, the messages its sends accepted and the messages its polls returned.
\<close>

record lb_obs =
  accepted :: "side \<Rightarrow> bytes list"
  delivered :: "side \<Rightarrow> bytes list"

definition lb_obs0 :: lb_obs where
  "lb_obs0 = \<lparr>accepted = (\<lambda>_. []), delivered = (\<lambda>_. [])\<rparr>"

fun lb_step :: "lb_op \<Rightarrow> loopback_pair \<times> lb_obs \<Rightarrow> loopback_pair \<times> lb_obs" where
  "lb_step (OpSend s m) (p, ob) =
     (case loopback_send s p m of (p', r) \<Rightarrow>
        (p', if r = RP_OK then ob\<lparr>accepted := (accepted ob)(s := accepted ob s @ [m])\<rparr> else ob))"
| "lb_step (OpPoll s) (p, ob) =
     (case loopback_recv s p False [] of (p', r) \<Rightarrow>
        (p', case r of Inr m \<Rightarrow> ob\<lparr>delivered := (delivered ob)(s := delivered ob s @ [m])\<rparr>
                     | Inl _ \<Rightarrow> ob))"
| "lb_step (OpClose s) (p, ob) = (loopback_close s p, ob)"

definition lb_run :: "lb_op list \<Rightarrow> loopback_pair \<times> lb_obs" where
  "lb_run ops = fold lb_step ops (make_loopback_pair, lb_obs0)"

definition lb_fifo_inv :: "side \<Rightarrow> loopback_pair \<times> lb_obs \<Rightarrow> bool" where
  "lb_fifo_inv s = (\<lambda>(p, ob). accepted ob s = delivered ob (other_side s) @ ch_q (out_ch s p))"

lemmas lb_op_defs = lb_send_def lb_recv_def lb_pop_def lb_shut_def loopback_send_def
  loopback_recv_def loopback_close_def in_ch_def set_in_ch_def

lemma lb_step_fifo: "lb_fifo_inv s st \<Longrightarrow> lb_fifo_inv s (lb_step op st)"
proof -
  assume inv: "lb_fifo_inv s st"
  obtain p ob where st: "st = (p, ob)"
    by (cases st)
  show ?thesis
  proof (cases op)
    case (OpSend s' m)
    with inv st show ?thesis
      by (cases s; cases s') (auto simp: lb_fifo_inv_def lb_op_defs)
  next
    case (OpPoll s')
    with inv st show ?thesis
      by (cases s; cases s') (auto simp: lb_fifo_inv_def lb_op_defs)
  next
    case (OpClose s')
    with inv st show ?thesis
      by (cases s; cases s') (auto simp: lb_fifo_inv_def lb_op_defs)
  qed
qed

lemma lb_fold_fifo: "lb_fifo_inv s st \<Longrightarrow> lb_fifo_inv s (fold lb_step ops st)"
  by (induction ops arbitrary: st) (simp_all add: lb_step_fifo)

text \<open>
  C27. Whatever the two endpoints of a loopback pair do and in whatever order their calls interleave
  (sends, polls and closes of either side), the messages whose send returned \<open>RP_OK\<close> on one side are
  exactly, in order and each once, those already received on the other followed by those queued.
\<close>

theorem loopback_fifo:
  "accepted (snd (lb_run ops)) s =
     delivered (snd (lb_run ops)) (other_side s) @ ch_q (out_ch s (fst (lb_run ops)))"
proof -
  have "lb_fifo_inv s (make_loopback_pair, lb_obs0)"
    by (cases s) (simp_all add: lb_fifo_inv_def lb_obs0_def make_loopback_pair_def Channel_new_def)
  from lb_fold_fifo [OF this, of ops] show ?thesis
    by (simp add: lb_run_def lb_fifo_inv_def split: prod.splits)
qed

end
