(* ===== verification/RP_Tcp.thy ===== *)
theory RP_Tcp
  imports RP_Transport RP_Wire "HOL-Library.Multiset"
begin

text \<open>
  The TCP channel \<open>src/net/TcpTransport.cpp\<close>: connection set-up and tear-down with the process-wide
  Winsock reference count, and the length-framed send and receive loops.

  Winsock is outside the sources. For the set-up it is the record of what each call answers and a
  state that counts the sockets handed out and not closed; for the data path a connection is a state
  \<open>'k\<close> with the functions \<open>::send\<close>, \<open>::recv\<close> and \<open>select\<close>. \<open>reliable_stream\<close> states what the framing
  relies on: bytes arrive in order, none is lost, and a call moves at least one byte.
\<close>

section \<open>Set-up and tear-down\<close>

type_synonym SOCKET = nat

record winsock =
  g_wsa_refs :: int
  wsa_ready :: bool
  open_sockets :: "SOCKET multiset"

text \<open>What the calls answer: \<open>None\<close> is \<open>INVALID_SOCKET\<close>.\<close>

record wsa_answers =
  an_startup :: bool
  an_socket :: "SOCKET option"
  an_bind :: bool
  an_listen :: bool
  an_select :: int
  an_accept :: "SOCKET option"
  an_inet_pton :: bool
  an_connect :: bool

definition wsa_startup :: "wsa_answers \<Rightarrow> winsock \<Rightarrow> winsock \<times> bool" where
  "wsa_startup an w =
     (if g_wsa_refs w = 0
      then if \<not> an_startup an then (w, False)
           else (w\<lparr>wsa_ready := True, g_wsa_refs := g_wsa_refs w + 1\<rparr>, True)
      else (w\<lparr>g_wsa_refs := g_wsa_refs w + 1\<rparr>, True))"

definition wsa_cleanup :: "winsock \<Rightarrow> winsock" where
  "wsa_cleanup w =
     (let w = w\<lparr>g_wsa_refs := g_wsa_refs w - 1\<rparr>
      in if g_wsa_refs w = 0 then w\<lparr>wsa_ready := False\<rparr> else w)"

definition os_open :: "SOCKET \<Rightarrow> winsock \<Rightarrow> winsock" where
  "os_open s w = w\<lparr>open_sockets := add_mset s (open_sockets w)\<rparr>"

definition closesocket :: "SOCKET \<Rightarrow> winsock \<Rightarrow> winsock" where
  "closesocket s w = w\<lparr>open_sockets := open_sockets w - {#s#}\<rparr>"

definition tcp_host :: "wsa_answers \<Rightarrow> winsock \<Rightarrow> winsock \<times> (rp_result + SOCKET)" where
  "tcp_host an w =
     (case wsa_startup an w of (w, ok) \<Rightarrow>
      if \<not> ok then (w, Inl RP_ERR_DEVICE)
      else case an_socket an of
        None \<Rightarrow> (wsa_cleanup w, Inl RP_ERR_DEVICE)
      | Some listener \<Rightarrow>
          let w = os_open listener w
          in if \<not> an_bind an then (wsa_cleanup (closesocket listener w), Inl RP_ERR_DEVICE)
             else if \<not> an_listen an then (wsa_cleanup (closesocket listener w), Inl RP_ERR_DEVICE)
             else if an_select an \<le> 0
                  then (wsa_cleanup (closesocket listener w), Inl RP_ERR_TIMEOUT)
             else case an_accept an of
                    None \<Rightarrow> (wsa_cleanup (closesocket listener w), Inl RP_ERR_DEVICE)
                  | Some peer \<Rightarrow> (closesocket listener (os_open peer w), Inr peer))"

definition tcp_join :: "wsa_answers \<Rightarrow> winsock \<Rightarrow> winsock \<times> (rp_result + SOCKET)" where
  "tcp_join an w =
     (case wsa_startup an w of (w, ok) \<Rightarrow>
      if \<not> ok then (w, Inl RP_ERR_DEVICE)
      else case an_socket an of
        None \<Rightarrow> (wsa_cleanup w, Inl RP_ERR_DEVICE)
      | Some s \<Rightarrow>
          let w = os_open s w
          in if \<not> an_inet_pton an then (wsa_cleanup (closesocket s w), Inl RP_ERR_BAD_ARG)
             else if \<not> an_connect an then (wsa_cleanup (closesocket s w), Inl RP_ERR_DEVICE)
             else (w, Inr s))"

text \<open>\<open>close\<close> and the destructor, on the \<open>sock_\<close> field (\<open>None\<close> is \<open>INVALID_SOCKET\<close>).\<close>

definition tcp_close :: "SOCKET option \<Rightarrow> winsock \<Rightarrow> winsock \<times> SOCKET option" where
  "tcp_close sock w =
     (case sock of None \<Rightarrow> (w, None) | Some s \<Rightarrow> (wsa_cleanup (closesocket s w), None))"

definition tcp_connected :: "SOCKET option \<Rightarrow> bool" where
  "tcp_connected sock = (sock \<noteq> None)"

text \<open>Winsock is initialised exactly while somebody holds a reference.\<close>

definition winsock_ok :: "winsock \<Rightarrow> bool" where
  "winsock_ok w \<longleftrightarrow> 0 \<le> g_wsa_refs w \<and> (wsa_ready w \<longleftrightarrow> 0 < g_wsa_refs w)"

lemmas wsa_defs = wsa_startup_def wsa_cleanup_def os_open_def closesocket_def tcp_close_def

text \<open>A connection attempt: \<open>tcp_host\<close> or \<open>tcp_join\<close> followed, if it gave a transport, by two closes.\<close>

definition tcp_attempt ::
  "(winsock \<Rightarrow> winsock \<times> (rp_result + SOCKET)) \<Rightarrow> winsock \<Rightarrow> winsock" where
  "tcp_attempt setup w =
     (case setup w of (w, Inl _) \<Rightarrow> w
      | (w, Inr s) \<Rightarrow> case tcp_close (Some s) w of (w, sock) \<Rightarrow> fst (tcp_close sock w))"

text \<open>
  C39. Connection set-up leaks nothing: from a consistent Winsock state, hosting or joining either
  fails and leaves reference count, initialisation and the open sockets exactly as they were, or
  succeeds and a later close (the second close of the destructor included) restores them exactly;
  while the connection is open one more reference and one more socket are held.
\<close>

theorem tcp_setup_balanced:
  assumes "winsock_ok w" and "setup = tcp_host an \<or> setup = tcp_join an"
  shows "tcp_attempt setup w = w \<and>
    (case setup w of (w', Inl _) \<Rightarrow> w' = w
     | (w', Inr s) \<Rightarrow> winsock_ok w' \<and> g_wsa_refs w' = g_wsa_refs w + 1 \<and>
                      open_sockets w' = add_mset s (open_sockets w))"
  using assms
  by (auto simp: tcp_attempt_def tcp_host_def tcp_join_def wsa_defs winsock_ok_def Let_def
      split: option.splits if_splits)

definition demo_answers :: wsa_answers where
  "demo_answers = \<lparr>an_startup = True, an_socket = Some 5, an_bind = True, an_listen = True,
     an_select = 1, an_accept = Some 6, an_inet_pton = True, an_connect = True\<rparr>"

definition winsock0 :: winsock where
  "winsock0 = \<lparr>g_wsa_refs = 0, wsa_ready = False, open_sockets = {#}\<rparr>"

theorem tcp_setup_balanced_witness:
  "winsock_ok winsock0 \<and> tcp_attempt (tcp_host demo_answers) winsock0 = winsock0 \<and>
   snd (tcp_host demo_answers winsock0) = Inr 6"
proof -
  have ok: "winsock_ok winsock0"
    by (simp add: winsock_ok_def winsock0_def)
  have "snd (tcp_host demo_answers winsock0) = Inr 6"
    by (simp add: tcp_host_def wsa_defs winsock0_def demo_answers_def)
  with ok tcp_setup_balanced [OF ok, of "tcp_host demo_answers" demo_answers] show ?thesis
    by simp
qed

section \<open>Framing\<close>

datatype recv_answer = Recv_bytes bytes | Recv_timed_out | Recv_failed

record 'k os_socket =
  os_send :: "'k \<Rightarrow> bytes \<Rightarrow> int \<Rightarrow> 'k \<times> int"
  os_recv :: "'k \<Rightarrow> u32 \<Rightarrow> int \<Rightarrow> 'k \<times> recv_answer"
  os_readable :: "'k \<Rightarrow> bool"

text \<open>The length argument \<open>int(n - sent)\<close> of the socket calls.\<close>

definition int_len :: "nat \<Rightarrow> int" where
  "int_len n = sint (of_nat n :: 32 word)"

text \<open>
  The loop of \<open>send_all\<close>: \<open>n\<close> is the size of the buffer, \<open>sent\<close> the bytes already taken. A call that
  succeeds moves at least one byte, so the loop ends whatever the socket answers.
\<close>

function send_all_loop :: "'k os_socket \<Rightarrow> 'k \<Rightarrow> bytes \<Rightarrow> nat \<Rightarrow> 'k \<times> bool" where
  "send_all_loop os k p sent =
     (if sent < length p
      then case os_send os k (drop sent p) (int_len (length p - sent)) of (k', r) \<Rightarrow>
             if r \<le> 0 then (k', False) else send_all_loop os k' p (sent + nat r)
      else (k, True))"
  by pat_completeness auto
termination
  by (relation "measure (\<lambda>(os, k, p, sent). length p - sent)") auto

declare send_all_loop.simps [simp del]

definition tcp_send :: "'k os_socket \<Rightarrow> 'k \<Rightarrow> bool \<Rightarrow> bytes \<Rightarrow> 'k \<times> rp_result" where
  "tcp_send os k sock_valid data =
     (if \<not> sock_valid then (k, RP_ERR_DEVICE)
      else let len = of_nat (length data) :: u32; hdr = le_bytes 4 len
           in case send_all_loop os k hdr 0 of (k, ok) \<Rightarrow>
                if \<not> ok then (k, RP_ERR_DEVICE)
                else if length data \<noteq> 0
                     then case send_all_loop os k data 0 of (k, ok) \<Rightarrow>
                            if \<not> ok then (k, RP_ERR_DEVICE) else (k, RP_OK)
                     else (k, RP_OK))"

function recv_exact ::
  "'k os_socket \<Rightarrow> 'k \<Rightarrow> nat \<Rightarrow> u32 \<Rightarrow> bytes \<Rightarrow> 'k \<times> (rp_result + bytes)" where
  "recv_exact os k n timeout_ms buf =
     (if length buf < n
      then case os_recv os k timeout_ms (int_len (n - length buf)) of (k', r) \<Rightarrow>
             (case r of
                Recv_bytes d \<Rightarrow> if d = [] then (k', Inl RP_ERR_DEVICE)
                                else recv_exact os k' n timeout_ms (buf @ d)
              | Recv_timed_out \<Rightarrow> (k', Inl RP_ERR_TIMEOUT)
              | Recv_failed \<Rightarrow> (k', Inl RP_ERR_DEVICE))
      else (k, Inr buf))"
  by pat_completeness auto
termination
  by (relation "measure (\<lambda>(os, k, n, timeout_ms, buf). n - length buf)")
    (auto intro!: diff_less_mono2)

declare recv_exact.simps [simp del]

definition tcp_recv ::
  "'k os_socket \<Rightarrow> 'k \<Rightarrow> bool \<Rightarrow> bool \<Rightarrow> u32 \<Rightarrow> 'k \<times> (rp_result + bytes)" where
  "tcp_recv os k sock_valid block timeout_ms =
     (if \<not> sock_valid then (k, Inl RP_ERR_DEVICE)
      else if \<not> block \<and> \<not> os_readable os k then (k, Inl RP_ERR_NOT_FOUND)
      else let timeout_ms = (if block then timeout_ms else 2000)
           in case recv_exact os k 4 timeout_ms [] of
                (k, Inl err) \<Rightarrow> (k, Inl err)
              | (k, Inr hdr) \<Rightarrow>
                  let len = or_bytes (\<lambda>i. hdr ! i) 4 :: u32
                  in if len \<noteq> 0 then recv_exact os k (unat len) timeout_ms [] else (k, Inr []))"

text \<open>What the framing relies on of a connected socket pair: \<open>pending\<close> is what is in flight.\<close>

locale reliable_stream =
  fixes os :: "'k os_socket"
    and pending :: "'k \<Rightarrow> bytes"
    and alive :: "'k \<Rightarrow> bool"
  assumes send_moves: "alive k \<Longrightarrow> 0 < len \<Longrightarrow> len \<le> int (length buf) \<Longrightarrow>
      \<exists>k' r. os_send os k buf len = (k', r) \<and> 0 < r \<and> r \<le> len \<and> alive k' \<and>
             pending k' = pending k @ take (nat r) buf"
    and recv_moves: "alive k \<Longrightarrow> 0 < len \<Longrightarrow> pending k \<noteq> [] \<Longrightarrow>
      \<exists>k' d. os_recv os k t len = (k', Recv_bytes d) \<and> d \<noteq> [] \<and> int (length d) \<le> len \<and> alive k' \<and>
             pending k = d @ pending k'"
    and readable: "alive k \<Longrightarrow> os_readable os k \<longleftrightarrow> pending k \<noteq> []"

definition frame :: "bytes \<Rightarrow> bytes" where
  "frame m = le_bytes 4 (of_nat (length m) :: u32) @ m"

definition frame_fits :: "bytes \<Rightarrow> bool" where
  "frame_fits m \<longleftrightarrow> length m < 2 ^ 31"

lemma int_len_small [simp]: "n < 2 ^ 31 \<Longrightarrow> int_len n = int n"
  by (simp add: int_len_def signed_of_nat signed_take_bit_int_eq_self)

lemma frame_header: "frame_fits m \<Longrightarrow> unat (or_bytes (\<lambda>i. le_bytes 4 (of_nat (length m) :: u32) ! i) 4 :: u32) = length m"
proof -
  assume fits: "frame_fits m"
  have "(or_bytes (\<lambda>i. le_bytes 4 (of_nat (length m) :: u32) ! i) 4 :: u32)
      = or_bytes (\<lambda>i. ucast (drop_bit (8 * i) (of_nat (length m) :: u32))) 4"
    by (intro or_bytes_cong) simp
  also have "\<dots> = of_nat (length m)"
    by (rule or_bytes_le_bytes) simp
  finally show ?thesis
    using fits by (simp add: frame_fits_def unat_of_nat)
qed

context reliable_stream
begin

lemma send_all_pending:
  "alive k \<Longrightarrow> length p < 2 ^ 31 \<Longrightarrow> sent \<le> length p \<Longrightarrow>
   \<exists>k'. send_all_loop os k p sent = (k', True) \<and> alive k' \<and> pending k' = pending k @ drop sent p"
proof (induction "length p - sent" arbitrary: k sent rule: less_induct)
  case less
  show ?case
  proof (cases "sent < length p")
    case False
    with less.prems show ?thesis by (subst send_all_loop.simps) simp
  next
    case True
    then have len: "int_len (length p - sent) = int (length p - sent)"
      using less.prems(2) by simp
    from send_moves [OF less.prems(1), of "int (length p - sent)" "drop sent p"] True
    obtain k' r where step: "os_send os k (drop sent p) (int (length p - sent)) = (k', r)"
        "0 < r" "r \<le> int (length p - sent)" "alive k'"
        "pending k' = pending k @ take (nat r) (drop sent p)"
      by auto
    have "sent + nat r \<le> length p" "length p - (sent + nat r) < length p - sent"
      using step(2,3) True by auto
    from less.hyps [OF this(2) step(4) less.prems(2) this(1)]
    obtain k'' where rest: "send_all_loop os k' p (sent + nat r) = (k'', True)" "alive k''"
        "pending k'' = pending k' @ drop (sent + nat r) p"
      by auto
    have "send_all_loop os k p sent = (k'', True)"
      using True step rest len by (subst send_all_loop.simps) simp
    moreover have "pending k'' = pending k @ drop sent p"
      using step(5) rest(3) append_take_drop_id [of "nat r" "drop sent p"]
      by (simp add: drop_drop add.commute)
    ultimately show ?thesis using rest(2) by simp
  qed
qed

lemma recv_exact_pending:
  "alive k \<Longrightarrow> n < 2 ^ 31 \<Longrightarrow> length buf + length d = n \<Longrightarrow> pending k = d @ rest \<Longrightarrow>
   \<exists>k'. recv_exact os k n t buf = (k', Inr (buf @ d)) \<and> alive k' \<and> pending k' = rest"
proof (induction "length d" arbitrary: k d buf rule: less_induct)
  case less
  show ?case
  proof (cases "d = []")
    case True
    with less.prems show ?thesis by (subst recv_exact.simps) simp
  next
    case False
    have len: "int_len (n - length buf) = int (length d)"
      using less.prems(2,3) by auto
    from recv_moves [OF less.prems(1), of "int (length d)" t] False less.prems(4)
    obtain k' d1 where step: "os_recv os k t (int (length d)) = (k', Recv_bytes d1)" "d1 \<noteq> []"
        "length d1 \<le> length d" "alive k'" "d @ rest = d1 @ pending k'"
      by auto
    then obtain d2 where d: "d = d1 @ d2" "pending k' = d2 @ rest"
      by (auto simp: append_eq_append_conv2)
    have "length d2 < length d" "length (buf @ d1) + length d2 = n"
      using d(1) step(2) less.prems(3) by auto
    from less.hyps [OF this(1) step(4) less.prems(2) this(2) d(2)]
    obtain k'' where "recv_exact os k' n t (buf @ d1) = (k'', Inr (buf @ d))" "alive k''"
        "pending k'' = rest"
      using d(1) by auto
    moreover have "length buf < n"
      using False less.prems(3) by auto
    ultimately show ?thesis
      using step(1,2) len by (subst recv_exact.simps) simp
  qed
qed

lemma tcp_send_frame:
  assumes "alive k" "frame_fits m"
  shows "\<exists>k'. tcp_send os k True m = (k', RP_OK) \<and> alive k' \<and> pending k' = pending k @ frame m"
proof -
  from send_all_pending [OF assms(1), of "le_bytes 4 (of_nat (length m) :: u32)" 0]
  obtain k1 where k1: "send_all_loop os k (le_bytes 4 (of_nat (length m) :: u32)) 0 = (k1, True)"
      "alive k1" "pending k1 = pending k @ le_bytes 4 (of_nat (length m) :: u32)"
    by auto
  from send_all_pending [OF k1(2), of m 0] assms(2)
  obtain k2 where k2: "send_all_loop os k1 m 0 = (k2, True)" "alive k2" "pending k2 = pending k1 @ m"
    by (auto simp: frame_fits_def)
  show ?thesis
    using k1 k2 by (cases "m = []") (auto simp: tcp_send_def frame_def Let_def)
qed

lemma tcp_recv_frame:
  assumes "alive k" "frame_fits m" "pending k = frame m @ rest"
  shows "\<exists>k'. tcp_recv os k True block t = (k', Inr m) \<and> alive k' \<and> pending k' = rest"
proof -
  define t' where "t' = (if block then t else 2000)"
  let ?h = "le_bytes 4 (of_nat (length m) :: u32)"
  have "pending k \<noteq> []"
    using assms(3) by (auto simp: frame_def dest: arg_cong [where f = length])
  then have ready: "os_readable os k"
    using readable [OF assms(1)] by simp
  from recv_exact_pending [OF assms(1), of 4 "[]" ?h "m @ rest" t'] assms(3)
  obtain k1 where k1: "recv_exact os k 4 t' [] = (k1, Inr ?h)" "alive k1" "pending k1 = m @ rest"
    by (auto simp: frame_def)
  from recv_exact_pending [OF k1(2), of "length m" "[]" m rest t'] assms(2) k1(3)
  obtain k2 where k2: "recv_exact os k1 (length m) t' [] = (k2, Inr m)" "alive k2" "pending k2 = rest"
    by (auto simp: frame_fits_def)
  define l :: u32 where "l = or_bytes (\<lambda>i. ?h ! i) 4"
  have l: "unat l = length m"
    using frame_header [OF assms(2)] by (simp only: l_def)
  then have "l = 0 \<longleftrightarrow> m = []"
    by (metis length_0_conv unat_eq_zero)
  moreover have "tcp_recv os k True block t =
      (if l \<noteq> 0 then recv_exact os k1 (unat l) t' [] else (k1, Inr []))"
    using ready k1(1) by (simp add: tcp_recv_def l_def Let_def flip: t'_def)
  ultimately show ?thesis
    using k1 k2 l by (cases "m = []") auto
qed


text \<open>
  The messages in flight are the frames of the pending bytes. A connection on which only whole
  messages were sent is a message channel.
\<close>

definition carrying :: "'k \<Rightarrow> bytes list \<Rightarrow> bool" where
  "carrying k ms \<longleftrightarrow> alive k \<and> (\<forall>m \<in> set ms. frame_fits m) \<and> pending k = concat (map frame ms)"

end

function frames :: "bytes \<Rightarrow> bytes list" where
  "frames bs =
     (if length bs < 4 then []
      else let n = unat (or_bytes (\<lambda>i. bs ! i) 4 :: u32)
           in take n (drop 4 bs) # frames (drop (4 + n) bs))"
  by pat_completeness auto
termination
  by (relation "measure length") auto

declare frames.simps [simp del]

lemma frames_Nil [simp]: "frames [] = []"
  by (simp add: frames.simps)

lemma frames_frame [simp]:
  assumes "frame_fits m"
  shows "frames (frame m @ rest) = m # frames rest"
proof -
  let ?h = "le_bytes 4 (of_nat (length m) :: u32)"
  have "(or_bytes (\<lambda>i. (frame m @ rest) ! i) 4 :: u32) = or_bytes (\<lambda>i. ?h ! i) 4"
    by (intro or_bytes_cong) (simp add: frame_def nth_append)
  then have "unat (or_bytes (\<lambda>i. (frame m @ rest) ! i) 4 :: u32) = length m"
    using frame_header [OF assms] by simp
  then show ?thesis
    by (subst frames.simps) (simp add: frame_def)
qed

lemma frames_concat: "\<forall>m \<in> set ms. frame_fits m \<Longrightarrow> frames (concat (map frame ms)) = ms"
  by (induction ms) simp_all

sublocale reliable_stream \<subseteq> ch: message_channel
  "\<lambda>k m. tcp_send os k True m" "\<lambda>k. tcp_recv os k True False 0" "\<lambda>k. frames (pending k)"
  "\<lambda>k. \<exists>ms. carrying k ms" frame_fits
proof
  fix k m
  assume "\<exists>ms. carrying k ms" and fits: "frame_fits m"
  then obtain ms where ms: "carrying k ms" by blast
  then have "alive k" "frames (pending k) = ms"
    by (auto simp: carrying_def frames_concat)
  moreover from tcp_send_frame [OF this(1) fits] obtain k' where
    k': "tcp_send os k True m = (k', RP_OK)" "alive k'" "pending k' = pending k @ frame m"
    by blast
  moreover have "carrying k' (ms @ [m])"
    using ms k' fits by (auto simp: carrying_def)
  ultimately show "\<exists>q'. tcp_send os k True m = (q', RP_OK) \<and> (\<exists>ms. carrying q' ms) \<and>
      frames (pending q') = frames (pending k) @ [m]"
    by (metis carrying_def frames_concat)
next
  fix k m ms
  assume "\<exists>ms. carrying k ms" and fr: "frames (pending k) = m # ms"
  then have fl: "carrying k (m # ms)"
    by (metis carrying_def frames_concat)
  then have "alive k" "frame_fits m" "pending k = frame m @ concat (map frame ms)"
    by (auto simp: carrying_def)
  from tcp_recv_frame [OF this] obtain k' where
    k': "tcp_recv os k True False 0 = (k', Inr m)" "alive k'" "pending k' = concat (map frame ms)"
    by blast
  moreover have "carrying k' ms"
    using fl k' by (auto simp: carrying_def)
  ultimately show "\<exists>q'. tcp_recv os k True False 0 = (q', Inr m) \<and> (\<exists>ms. carrying q' ms) \<and>
      frames (pending q') = ms"
    by (metis carrying_def frames_concat)
next
  fix k
  assume "\<exists>ms. carrying k ms" and "frames (pending k) = []"
  then have "alive k" "pending k = []"
    by (auto simp: carrying_def frames_concat)
  then show "tcp_recv os k True False 0 = (k, Inl RP_ERR_NOT_FOUND)"
    using readable [of k] by (simp add: tcp_recv_def)
qed

context reliable_stream
begin

lemma stream_fifo:
  assumes "alive k" "pending k = []" "\<forall>m \<in> set ms. frame_fits m"
  shows "pop_n (\<lambda>k. tcp_recv os k True False 0) (length ms + 1)
           (push_all (\<lambda>k m. tcp_send os k True m) k ms) = map Inr ms @ [Inl RP_ERR_NOT_FOUND]"
proof (rule ch.fifo_then_empty)
  have "carrying k []"
    using assms(1,2) by (simp add: carrying_def)
  then show "\<exists>ms. carrying k ms" ..
qed (use assms in simp_all)

end

text \<open>
  A stream that moves at most \<open>c + 1\<close> bytes per call: a socket buffer whose calls
  are as partial as TCP allows.
\<close>

definition chunk_stream :: "nat \<Rightarrow> bytes os_socket" where
  "chunk_stream c =
     \<lparr>os_send = (\<lambda>k buf len. let r = min (int (Suc c)) len in (k @ take (nat r) buf, r)),
      os_recv = (\<lambda>k t len. if k = [] then (k, Recv_timed_out)
                           else let r = nat (min (int (Suc c)) len) in (drop r k, Recv_bytes (take r k))),
      os_readable = (\<lambda>k. k \<noteq> [])\<rparr>"

interpretation chunked: reliable_stream "chunk_stream c" "\<lambda>k. k" "\<lambda>_. True"
  by unfold_locales (auto simp: chunk_stream_def Let_def)

text \<open>
  C16. TCP framing keeps message boundaries under any splitting of the stream: on a reliable ordered
  byte stream that may accept and return as few bytes per call as it likes, sending any messages
  shorter than 2 GiB and then receiving as many returns exactly those messages in order, and the next
  poll answers \<open>RP_ERR_NOT_FOUND\<close>.
\<close>

theorem tcp_framing_fifo:
  assumes "reliable_stream os pending alive" and "alive k" and "pending k = []"
    and "\<forall>m \<in> set ms. frame_fits m"
  shows "pop_n (\<lambda>k. tcp_recv os k True False 0) (length ms + 1)
           (push_all (\<lambda>k m. tcp_send os k True m) k ms) = map Inr ms @ [Inl RP_ERR_NOT_FOUND]"
  using reliable_stream.stream_fifo [OF assms] .

theorem tcp_framing_witness:
  "pop_n (\<lambda>k. tcp_recv (chunk_stream 2) k True False 0) 3
     (push_all (\<lambda>k m. tcp_send (chunk_stream 2) k True m) [] [[1, 2, 3, 4, 5, 6, 7], []])
   = [Inr [1, 2, 3, 4, 5, 6, 7], Inr [], Inl RP_ERR_NOT_FOUND]"
  using tcp_framing_fifo [OF chunked.reliable_stream_axioms, of "[]" "[[1, 2, 3, 4, 5, 6, 7], []]" 2]
  by (simp add: frame_fits_def numeral_3_eq_3 del: push_all.simps pop_n.simps)

end
