(* ===== verification/RP_Crc.thy ===== *)
theory RP_Crc
  imports RP_Prelude
begin

unbundle bit_operations_syntax

text \<open>
  The CRC-32 of \<open>src/net/Crc32.h\<close>: a 256-entry table built once by eight shift-and-xor steps per
  entry, then one table lookup per byte. The reference definition is the bit-serial form of the
  reflected polynomial; the optimised routine computes the same value.
\<close>

definition crc_step :: "u32 \<Rightarrow> u32" where
  "crc_step c = (if c AND 1 \<noteq> 0 then 0xEDB88320 XOR drop_bit 1 c else drop_bit 1 c)"

definition crc_entry :: "u32 \<Rightarrow> u32" where
  "crc_entry i = (crc_step ^^ 8) i"

definition crc_table :: "u32 list" where
  "crc_table = map (\<lambda>i. crc_entry (of_nat i)) [0..<256]"

definition crc32_byte :: "u32 \<Rightarrow> u8 \<Rightarrow> u32" where
  "crc32_byte crc b =
     crc_table ! unat ((crc XOR ucast b) AND 0xFF) XOR drop_bit 8 crc"

definition crc32 :: "bytes \<Rightarrow> u32" where
  "crc32 data = fold (\<lambda>b crc. crc32_byte crc b) data 0xFFFFFFFF XOR 0xFFFFFFFF"

text \<open>The reference: feed each byte into the low bits and shift eight times.\<close>

definition crc32_spec :: "bytes \<Rightarrow> u32" where
  "crc32_spec data =
     fold (\<lambda>b crc. (crc_step ^^ 8) (crc XOR ucast b)) data 0xFFFFFFFF XOR 0xFFFFFFFF"

section \<open>The table is the bit-serial update\<close>

text \<open>One step is linear over exclusive or, so eight steps split into low byte and high bytes.\<close>

lemma and_one_bit: "((a :: u32) AND 1 \<noteq> 0) = bit a 0"
  using and_exp_eq_0_iff_not_bit [of a 0] by simp

lemma crc_step_bit: "crc_step c = (if bit c 0 then 0xEDB88320 XOR drop_bit 1 c else drop_bit 1 c)"
  by (simp only: crc_step_def and_one_bit)

lemma crc_step_xor: "crc_step (a XOR b) = crc_step a XOR crc_step b"
  by (rule bit_eqI) (auto simp: crc_step_bit bit_xor_iff drop_bit_xor simp del: bit_0)

lemma crc_step_pow_xor: "(crc_step ^^ n) (a XOR b) = (crc_step ^^ n) a XOR (crc_step ^^ n) b"
  by (induction n) (simp_all add: crc_step_xor)

lemma crc_step_even: "\<not> bit a 0 \<Longrightarrow> crc_step a = drop_bit 1 a"
  by (simp add: crc_step_bit)

lemma crc_step_pow_shift:
  "(\<And>k. k < n \<Longrightarrow> \<not> bit a k) \<Longrightarrow> (crc_step ^^ n) a = drop_bit n a"
proof (induction n)
  case 0
  then show ?case by simp
next
  case (Suc n)
  then have "(crc_step ^^ n) a = drop_bit n a"
    by simp
  moreover have "\<not> bit (drop_bit n a) 0"
    using Suc.prems by (simp add: bit_drop_bit_eq)
  ultimately show ?case
    by (simp add: crc_step_even)
qed

lemma low_byte_split: "(c :: u32) = (c AND 0xFF) XOR push_bit 8 (drop_bit 8 c)"
proof (rule bit_word_eqI)
  fix k assume k: "k < LENGTH(32)"
  have m: "(0xFF :: u32) = mask 8" by (simp add: mask_eq_exp_minus_1)
  show "bit c k = bit ((c AND 0xFF) XOR push_bit 8 (drop_bit 8 c)) k"
    unfolding m using k by (auto simp: bit_xor_iff bit_and_iff bit_mask_iff bit_push_bit_iff bit_drop_bit_eq)
qed

lemma crc32_byte_spec: "crc32_byte crc b = (crc_step ^^ 8) (crc XOR ucast b)"
proof -
  let ?c = "crc XOR ucast b"
  have m: "(0xFF :: u32) = mask 8" by (simp add: mask_eq_exp_minus_1)
  have lt: "unat (?c AND 0xFF) < 256"
  proof -
    have "unat (take_bit 8 w) < 256" for w :: u32
      by (simp add: take_bit_eq_mod unat_mod_distrib)
    then show ?thesis unfolding m by (simp only: take_bit_eq_mask)
  qed
  have b: "drop_bit 8 (ucast b :: u32) = 0"
    by (rule bit_word_eqI) (auto simp: bit_drop_bit_eq bit_ucast_iff dest: bit_imp_le_length)
  have "(crc_step ^^ 8) ?c =
      (crc_step ^^ 8) (?c AND 0xFF) XOR (crc_step ^^ 8) (push_bit 8 (drop_bit 8 ?c))"
    by (subst low_byte_split) (rule crc_step_pow_xor)
  also have "(crc_step ^^ 8) (push_bit 8 (drop_bit 8 ?c)) = drop_bit 8 (push_bit 8 (drop_bit 8 ?c))"
    by (rule crc_step_pow_shift) (simp add: bit_push_bit_iff bit_xor_iff)
  also have "\<dots> = drop_bit 8 crc"
    by (rule bit_word_eqI)
       (auto simp: bit_drop_bit_eq bit_push_bit_iff drop_bit_xor b bit_xor_iff dest: bit_imp_le_length)
  also have "(crc_step ^^ 8) (?c AND 0xFF) = crc_table ! unat (?c AND 0xFF)"
    using lt by (simp add: crc_table_def crc_entry_def)
  finally show ?thesis
    by (simp add: crc32_byte_def)
qed

text \<open>C30. The table-driven CRC-32 equals the bit-serial CRC-32 on every byte sequence.\<close>

theorem crc32_table_correct: "crc32 data = crc32_spec data"
  by (simp add: crc32_def crc32_spec_def crc32_byte_spec)

end
