(* ===== verification/RP_NetBase.thy ===== *)
theory RP_NetBase
  imports RP_RefCores RP_Tcp RP_Crc
begin

text \<open>
  What the two netplay sessions are written against: the calls of the runtime they make (\<open>rt_api\<close>)
  and a message transport.

  \<open>sim_runtime\<close> is the contract of the runtime as a simulator: it has a state that frames advance by
  the two ports' inputs and that savestates capture. The runtime of \<open>RP_Runtime\<close> driving a core that
  keeps \<open>driven_core\<close> meets it, with every backend and every environment.

  \<open>message_stream\<close> is the contract of the transport: what it will deliver is a list of messages, a
  receive takes the first or reports an error, a send that succeeds appends to what the peer will get
  and one that fails does not.
  The loopback endpoint with a scripted peer meets it.
\<close>

section \<open>The runtime as the sessions use it\<close>

record 'r rt_api =
  ra_serialize_size :: "'r \<Rightarrow> 'r \<times> nat"
  ra_save_state :: "'r \<Rightarrow> bytes \<Rightarrow> 'r \<times> rp_result \<times> bytes"
  ra_load_state :: "'r \<Rightarrow> bytes \<Rightarrow> 'r \<times> rp_result"
  ra_set_input :: "'r \<Rightarrow> u32 \<Rightarrow> rp_input_state \<Rightarrow> 'r"
  ra_advance :: "'r \<Rightarrow> bool \<Rightarrow> 'r \<times> rp_result"
  ra_render :: "'r \<Rightarrow> bool \<Rightarrow> 'r \<times> rp_result"
  ra_present :: "'r \<Rightarrow> bool \<Rightarrow> 'r \<times> rp_result"

locale sim_runtime =
  fixes ra :: "'r rt_api"
    and good :: "'r \<Rightarrow> bool"
    and st :: "'r \<Rightarrow> 's"
    and inp :: "'r \<Rightarrow> u32 \<Rightarrow> rp_input_state"
    and step :: "'s \<Rightarrow> rp_input_state \<Rightarrow> rp_input_state \<Rightarrow> 's"
    and enc :: "'s \<Rightarrow> bytes"
  assumes set_input_law: "good r \<Longrightarrow> p = 0 \<or> p = 1 \<Longrightarrow>
      good (ra_set_input ra r p i) \<and> st (ra_set_input ra r p i) = st r \<and>
      inp (ra_set_input ra r p i) p = i \<and>
      inp (ra_set_input ra r p i) (1 - p) = inp r (1 - p)"
    and advance_law: "good r \<Longrightarrow> \<exists>r'. ra_advance ra r e = (r', RP_OK) \<and> good r' \<and>
      st r' = step (st r) (inp r 0) (inp r 1)"
    and present_law: "good r \<Longrightarrow> good (fst (ra_present ra r e)) \<and>
      st (fst (ra_present ra r e)) = step (st r) (inp r 0) (inp r 1)"
    and render_law: "good r \<Longrightarrow> good (fst (ra_render ra r e)) \<and> st (fst (ra_render ra r e)) = st r"
    and size_law: "good r \<Longrightarrow> \<exists>r'. ra_serialize_size ra r = (r', length (enc (st r))) \<and> good r' \<and> st r' = st r"
    and save_law: "good r \<Longrightarrow> length buf = length (enc (st r)) \<Longrightarrow>
      \<exists>r'. ra_save_state ra r buf = (r', RP_OK, enc (st r)) \<and> good r' \<and> st r' = st r"
    and load_law: "good r \<Longrightarrow> \<exists>r'. ra_load_state ra r (enc s) = (r', RP_OK) \<and> good r' \<and> st r' = s"
    and enc_nonempty: "enc s \<noteq> []"

text \<open>The C API on a runtime object, with the clock reading of the frame.\<close>

definition runtime_api :: "('c, 'b) rt_env \<Rightarrow> u64 \<Rightarrow> ('c, 'b) Runtime rt_api" where
  "runtime_api env now =
     \<lparr>ra_serialize_size = serialize_size,
      ra_save_state = (\<lambda>rt buf. case save_state (Some buf) rt of (rt', r, out) \<Rightarrow>
                         (rt', r, case out of None \<Rightarrow> buf | Some b \<Rightarrow> b)),
      ra_load_state = (\<lambda>rt buf. load_state (Some buf) rt),
      ra_set_input = (\<lambda>rt port inp. set_input port inp rt),
      ra_advance = (\<lambda>rt emit. advance env emit rt),
      ra_render = (\<lambda>rt out. case render env now out rt of (rt', r, img) \<Rightarrow> (rt', r)),
      ra_present = (\<lambda>rt out. case present env now out rt of (rt', r, img) \<Rightarrow> (rt', r))\<rparr>"

definition rt_port :: "('c, 'b) Runtime \<Rightarrow> u32 \<Rightarrow> rp_input_state" where
  "rt_port rt p = rt_input rt ! port_index p"

definition rt_simulating :: "'c rp_core_abi \<Rightarrow> ('c, 'b) Runtime \<Rightarrow> bool" where
  "rt_simulating abi rt \<longleftrightarrow> rt_driving abi rt \<and> \<not> rt_paused rt"

lemma port_index_01 [simp]: "port_index 0 = 0" "port_index 1 = Suc 0"
  by (simp_all add: port_index_def)

text \<open>
  Every unpaused runtime that drives a core keeping its contract is a simulator, whatever its backend
  and its surroundings do.
\<close>

lemma driven_core_simulates:
  assumes dc: "driven_core abi view step enc"
  shows "sim_runtime (runtime_api env now) (rt_simulating abi) (rt_view view) rt_port step enc"
proof
  fix r :: "('a, 'c) Runtime" and p :: u32 and i
  assume g: "rt_simulating abi r" and p: "p = 0 \<or> p = 1"
  then have dr: "rt_driving abi r" by (simp add: rt_simulating_def)
  show "rt_simulating abi (ra_set_input (runtime_api env now) r p i) \<and>
      rt_view view (ra_set_input (runtime_api env now) r p i) = rt_view view r \<and>
      rt_port (ra_set_input (runtime_api env now) r p i) p = i \<and>
      rt_port (ra_set_input (runtime_api env now) r p i) (1 - p) = rt_port r (1 - p)"
    using driven_core.set_input_driving [OF dc dr, of p i] rt_driving_ports [OF dr] p g
    by (auto simp: runtime_api_def rt_simulating_def rt_port_def)
next
  fix r :: "('a, 'c) Runtime" and e
  assume g: "rt_simulating abi r"
  then have dr: "rt_driving abi r" and np: "\<not> rt_paused r" by (simp_all add: rt_simulating_def)
  show "\<exists>r'. ra_advance (runtime_api env now) r e = (r', RP_OK) \<and> rt_simulating abi r' \<and>
      rt_view view r' = step (rt_view view r) (rt_port r 0) (rt_port r 1)"
    using driven_core.advance_driving [OF dc dr, of env e] np
    by (auto simp: runtime_api_def rt_simulating_def rt_port_def)
  show "rt_simulating abi (fst (ra_present (runtime_api env now) r e)) \<and>
      rt_view view (fst (ra_present (runtime_api env now) r e)) =
      step (rt_view view r) (rt_port r 0) (rt_port r 1)"
    using driven_core.present_driving [OF dc dr np, of env now e]
    by (simp add: runtime_api_def rt_simulating_def rt_port_def split_beta)
  show "rt_simulating abi (fst (ra_render (runtime_api env now) r e)) \<and>
      rt_view view (fst (ra_render (runtime_api env now) r e)) = rt_view view r"
    using driven_core.render_driving [OF dc dr, of env now e] np
    by (simp add: runtime_api_def rt_simulating_def split_beta)
next
  fix r :: "('a, 'c) Runtime" and buf :: bytes
  assume g: "rt_simulating abi r" and len: "length buf = length (enc (rt_view view r))"
  then have dr: "rt_driving abi r" and np: "\<not> rt_paused r" by (simp_all add: rt_simulating_def)
  show "\<exists>r'. ra_save_state (runtime_api env now) r buf = (r', RP_OK, enc (rt_view view r)) \<and>
      rt_simulating abi r' \<and> rt_view view r' = rt_view view r"
    using driven_core.save_state_driving [OF dc dr len] np
    by (auto simp: runtime_api_def rt_simulating_def)
next
  fix r :: "('a, 'c) Runtime" and s
  assume g: "rt_simulating abi r"
  then have dr: "rt_driving abi r" and np: "\<not> rt_paused r" by (simp_all add: rt_simulating_def)
  show "\<exists>r'. ra_serialize_size (runtime_api env now) r = (r', length (enc (rt_view view r))) \<and>
      rt_simulating abi r' \<and> rt_view view r' = rt_view view r"
    using driven_core.serialize_size_keeps [OF dc dr] driven_core.serialize_size_driving [OF dc dr] np
    by (auto simp: runtime_api_def rt_simulating_def)
  show "\<exists>r'. ra_load_state (runtime_api env now) r (enc s) = (r', RP_OK) \<and> rt_simulating abi r' \<and>
      rt_view view r' = s"
    using driven_core.load_state_driving [OF dc dr, of s] np
    by (auto simp: runtime_api_def rt_simulating_def)
next
  fix s
  show "enc s \<noteq> []" by (rule driven_core.enc_nonempty [OF dc])
qed

interpretation rcsim: sim_runtime
  "runtime_api env now" "rt_simulating rc_abi" "rt_view rc_acc" rt_port rc_step "le_bytes 4"
  by (rule driven_core_simulates) (rule rc.driven_core_axioms)

interpretation dcsim: sim_runtime
  "runtime_api env now" "rt_simulating dc_abi" "rt_view dc_frame" rt_port "\<lambda>f i0 i1. f + 1" "le_bytes 4"
  by (rule driven_core_simulates) (rule dc.driven_core_axioms)

section \<open>The transport as the sessions use it\<close>

locale message_stream =
  fixes tr :: "'t transport"
    and inbox :: "'t \<Rightarrow> bytes list"
    and outbox :: "'t \<Rightarrow> bytes list"
  assumes recv_msg: "tr_recv tr t b ms = (t', Inr m) \<Longrightarrow> inbox t = m # inbox t'"
    and recv_err: "tr_recv tr t b ms = (t', Inl e) \<Longrightarrow> inbox t' = inbox t \<and> e \<noteq> RP_OK"
    and send_inbox: "inbox (fst (tr_send tr t d)) = inbox t"
    and recv_outbox: "outbox (fst (tr_recv tr t b ms)) = outbox t"
    and send_outbox: "tr_send tr t d = (t', RP_OK) \<Longrightarrow> outbox t' = outbox t @ [d]"
    and send_failed: "tr_send tr t d = (t', r) \<Longrightarrow> r \<noteq> RP_OK \<Longrightarrow> outbox t' = outbox t"

text \<open>
  A loopback endpoint whose peer follows a script: one batch of the peer's actions happens before
  each receive takes the lock, and one more during the wait if the receive waits.
\<close>

record scripted_endpoint =
  se_side :: side
  se_pair :: loopback_pair
  se_script :: "chan_event list list"

definition peer_batch :: "chan_event list \<Rightarrow> scripted_endpoint \<Rightarrow> scripted_endpoint" where
  "peer_batch evs e =
     e\<lparr>se_pair := set_in_ch (se_side e) (chan_events evs (in_ch (se_side e) (se_pair e))) (se_pair e)\<rparr>"

definition scripted_send :: "scripted_endpoint \<Rightarrow> bytes \<Rightarrow> scripted_endpoint \<times> rp_result" where
  "scripted_send e data =
     (case loopback_send (se_side e) (se_pair e) data of (p, r) \<Rightarrow> (e\<lparr>se_pair := p\<rparr>, r))"

definition scripted_recv ::
  "scripted_endpoint \<Rightarrow> bool \<Rightarrow> u32 \<Rightarrow> scripted_endpoint \<times> (rp_result + bytes)" where
  "scripted_recv e block timeout =
     (let e = peer_batch (concat (take 1 (se_script e))) (e\<lparr>se_script := drop 1 (se_script e)\<rparr>);
          waits = block \<and> ch_q (in_ch (se_side e) (se_pair e)) = [];
          evs = (if waits then concat (take 1 (se_script e)) else [])
      in case loopback_recv (se_side e) (se_pair e) block evs of (p, r) \<Rightarrow>
           (e\<lparr>se_pair := p, se_script := (if waits then drop 1 (se_script e) else se_script e)\<rparr>, r))"

definition scripted_loopback :: "scripted_endpoint transport" where
  "scripted_loopback =
     \<lparr>tr_send = scripted_send, tr_recv = scripted_recv,
      tr_connected = (\<lambda>e. loopback_connected (se_side e) (se_pair e)),
      tr_close = (\<lambda>e. e\<lparr>se_pair := loopback_close (se_side e) (se_pair e)\<rparr>)\<rparr>"

text \<open>What such an endpoint will ever receive: the queue, then what the script still delivers.\<close>

definition scripted_inbox :: "scripted_endpoint \<Rightarrow> bytes list" where
  "scripted_inbox e = ch_q (chan_events (concat (se_script e)) (in_ch (se_side e) (se_pair e)))"

lemma chan_events_append: "chan_events (xs @ ys) ch = chan_events ys (chan_events xs ch)"
  by (simp add: chan_events_def)

lemma in_set_in_ch [simp]: "in_ch s (set_in_ch s ch p) = ch"
  by (cases s) (simp_all add: in_ch_def set_in_ch_def)

lemma in_set_out_ch [simp]: "in_ch s (set_out_ch s ch p) = in_ch s p"
  by (cases s) (simp_all add: in_ch_def)

lemma lb_shut_open [simp]: "ch_open (lb_shut ch) = False" "ch_q (lb_shut ch) = ch_q ch"
  by (simp_all add: lb_shut_def)

text \<open>Events only append, and what they append does not depend on the queue.\<close>

lemma chan_events_tl:
  "ch_q ch \<noteq> [] \<Longrightarrow> chan_events evs (ch\<lparr>ch_q := tl (ch_q ch)\<rparr>) =
     (chan_events evs ch)\<lparr>ch_q := tl (ch_q (chan_events evs ch))\<rparr> \<and>
     ch_q (chan_events evs ch) \<noteq> [] \<and> hd (ch_q (chan_events evs ch)) = hd (ch_q ch)"
proof (induction evs arbitrary: ch)
  case Nil
  then show ?case by simp
next
  case (Cons e evs)
  have "chan_apply (ch\<lparr>ch_q := tl (ch_q ch)\<rparr>) e = (chan_apply ch e)\<lparr>ch_q := tl (ch_q (chan_apply ch e))\<rparr>"
    "ch_q (chan_apply ch e) \<noteq> []" "hd (ch_q (chan_apply ch e)) = hd (ch_q ch)"
    using Cons.prems by (cases e; simp add: lb_send_def lb_shut_def)+
  with Cons.IH [of "chan_apply ch e"] show ?case by simp
qed

lemma lb_recv_stream:
  assumes "lb_recv ch block evs = (ch', r)" "ch_q ch \<noteq> [] \<Longrightarrow> evs = []" "\<not> block \<Longrightarrow> evs = []"
  shows "case r of Inr m \<Rightarrow> ch_q (chan_events (evs @ rest) ch) = m # ch_q (chan_events rest ch')
                 | Inl e \<Rightarrow> ch_q (chan_events rest ch') = ch_q (chan_events (evs @ rest) ch) \<and> e \<noteq> RP_OK"
proof -
  have pop: "ch_q (chan_events rest c) = hd (ch_q c) # ch_q (chan_events rest (c\<lparr>ch_q := tl (ch_q c)\<rparr>))"
    if "ch_q c \<noteq> []" for c :: Channel
    using chan_events_tl [OF that, of rest] by (metis list.collapse Channel.select_convs(1)
        Channel.surjective Channel.update_convs(1))
  show ?thesis
    using assms
    by (auto simp: lb_recv_def lb_pop_def chan_events_append Let_def pop split: if_splits)
qed

lemma concat_take_drop: "concat (take n xs) @ concat (drop n xs) = concat xs"
  by (metis append_take_drop_id concat_append)

lemma scripted_recv_stream:
  assumes "scripted_recv e block timeout = (e', r)"
  shows "case r of Inr m \<Rightarrow> scripted_inbox e = m # scripted_inbox e'
                 | Inl x \<Rightarrow> scripted_inbox e' = scripted_inbox e \<and> x \<noteq> RP_OK"
proof -
  define s where "s = se_side e"
  define ch1 where "ch1 = chan_events (concat (take 1 (se_script e))) (in_ch s (se_pair e))"
  define sc where "sc = drop 1 (se_script e)"
  define waits where "waits \<longleftrightarrow> block \<and> ch_q ch1 = []"
  define evs where "evs = (if waits then concat (take 1 sc) else [])"
  define sc' where "sc' = (if waits then drop 1 sc else sc)"
  have side: "se_side (peer_batch xs x) = se_side x" "se_script (peer_batch xs x) = se_script x"
    "in_ch (se_side x) (se_pair (peer_batch xs x)) = chan_events xs (in_ch (se_side x) (se_pair x))" for xs x
    by (simp_all add: peer_batch_def)
  define e1 where "e1 = peer_batch (concat (take 1 (se_script e))) (e\<lparr>se_script := sc\<rparr>)"
  have e1: "se_side e1 = s" "se_script e1 = sc" "in_ch s (se_pair e1) = ch1"
    using side(3) [of "e\<lparr>se_script := sc\<rparr>"] by (simp_all add: e1_def side s_def ch1_def)
  have "scripted_recv e block timeout =
      (case loopback_recv s (se_pair e1) block evs of (p, r) \<Rightarrow> (e1\<lparr>se_pair := p, se_script := sc'\<rparr>, r))"
    by (simp only: scripted_recv_def Let_def e1_def [unfolded sc_def, symmetric] e1 [unfolded sc_def]
        waits_def [symmetric] evs_def [unfolded sc_def, symmetric] sc'_def [unfolded sc_def, symmetric])
  then obtain ch' where lb: "lb_recv ch1 block evs = (ch', r)" and e': "se_side e' = s"
      "in_ch s (se_pair e') = ch'" "se_script e' = sc'"
    using assms e1 by (auto simp: loopback_recv_def split: prod.splits)
  have all: "concat (se_script e) = concat (take 1 (se_script e)) @ concat sc"
    by (simp only: sc_def concat_take_drop)
  have "evs @ concat sc' = concat sc"
    using concat_take_drop [of 1 sc] by (simp add: evs_def sc'_def)
  then have inbox: "scripted_inbox e = ch_q (chan_events (evs @ concat sc') ch1)"
    "scripted_inbox e' = ch_q (chan_events (concat sc') ch')"
    by (simp_all add: scripted_inbox_def e' ch1_def all chan_events_append [of "concat (take (Suc 0) (se_script e))"]
        flip: s_def)
  have "ch_q ch1 \<noteq> [] \<Longrightarrow> evs = []" "\<not> block \<Longrightarrow> evs = []"
    by (simp_all add: evs_def waits_def)
  from lb_recv_stream [OF lb this, of "concat sc'"] inbox show ?thesis
    by (auto split: sum.splits)
qed

definition scripted_outbox :: "scripted_endpoint \<Rightarrow> bytes list" where
  "scripted_outbox e = ch_q (out_ch (se_side e) (se_pair e))"

lemma out_set_in_ch [simp]: "out_ch s (set_in_ch s ch p) = out_ch s p"
  by (cases s) (simp_all add: set_in_ch_def)

lemma out_set_out_ch [simp]: "out_ch s (set_out_ch s ch p) = ch"
  by (cases s) simp_all

interpretation sl: message_stream scripted_loopback scripted_inbox scripted_outbox
proof
  fix t b ms t' m
  assume "tr_recv scripted_loopback t b ms = (t', Inr m)"
  then show "scripted_inbox t = m # scripted_inbox t'"
    using scripted_recv_stream [of t b ms t' "Inr m"] by (simp add: scripted_loopback_def)
next
  fix t b ms t' e
  assume "tr_recv scripted_loopback t b ms = (t', Inl e)"
  then show "scripted_inbox t' = scripted_inbox t \<and> e \<noteq> RP_OK"
    using scripted_recv_stream [of t b ms t' "Inl e"] by (simp add: scripted_loopback_def)
next
  fix t d
  show "scripted_inbox (fst (tr_send scripted_loopback t d)) = scripted_inbox t"
    by (simp add: scripted_loopback_def scripted_send_def scripted_inbox_def loopback_send_def split_beta)
next
  fix t b ms
  show "scripted_outbox (fst (tr_recv scripted_loopback t b ms)) = scripted_outbox t"
    by (simp add: scripted_loopback_def scripted_recv_def scripted_outbox_def loopback_recv_def
        peer_batch_def Let_def split_beta)
next
  fix t d t'
  assume "tr_send scripted_loopback t d = (t', RP_OK)"
  then show "scripted_outbox t' = scripted_outbox t @ [d]"
    by (auto simp: scripted_loopback_def scripted_send_def scripted_outbox_def loopback_send_def
        lb_send_def split: prod.splits if_splits)
next
  fix t d t' r
  assume "tr_send scripted_loopback t d = (t', r)" "r \<noteq> RP_OK"
  then show "scripted_outbox t' = scripted_outbox t"
    by (auto simp: scripted_loopback_def scripted_send_def scripted_outbox_def loopback_send_def
        lb_send_def split: prod.splits if_splits)
qed

end
