(* ===== verification/RP_Lockstep.thy ===== *)
theory RP_Lockstep
  imports RP_NetBase
begin

text \<open>
  Delay-based lockstep netplay, \<open>src/net/NetSession.cpp\<close>: both peers exchange the inputs of frame
  \<open>frame_ + delay_\<close>, wait for the remote input of the current frame and advance with the same pair.

  The session is generic in the runtime's and the transport's operations. Frame numbers are natural
  numbers; the 64-bit wrap-around is written where the source adds. Loops that wait for the peer are
  \<open>partial_function (option)\<close>, \<open>None\<close> meaning that they do not return; on a finite incoming stream
  they are shown to return.
\<close>

section \<open>State\<close>

datatype NetStatus = NetOk | NetWaiting | NetDesync | NetDisconnected

record ('r, 't) NetSession =
  ns_rt :: 'r
  ns_t :: 't
  ns_local_port :: u32
  ns_remote_port :: u32
  ns_delay :: u32
  ns_frame :: nat
  ns_status :: NetStatus
  ns_local_pending :: "rp_input_state omap"
  ns_remote_pending :: "rp_input_state omap"
  ns_own_crc :: "u32 omap"
  ns_peer_crc :: "u32 omap"

definition NetSession_new :: "'r \<Rightarrow> 't \<Rightarrow> ('r, 't) NetSession" where
  "NetSession_new rt t =
     \<lparr>ns_rt = rt, ns_t = t, ns_local_port = 0, ns_remote_port = 1, ns_delay = 0, ns_frame = 0,
      ns_status = NetOk, ns_local_pending = [], ns_remote_pending = [], ns_own_crc = [],
      ns_peer_crc = []\<rparr>"

definition kChecksumEvery :: nat where "kChecksumEvery = 60"

definition kRecvTimeoutMs :: u32 where "kRecvTimeoutMs = 2000"

definition wrap64 :: "nat \<Rightarrow> nat" where
  "wrap64 n = n mod 2 ^ 64"

text \<open>The bytes of a C string, up to its terminator, in a null-padded array of 64.\<close>

definition c_string :: "string \<Rightarrow> bytes" where
  "c_string s = takeWhile (\<lambda>b. b \<noteq> 0) (map of_char s)"

definition set_core_id :: "string option \<Rightarrow> bytes" where
  "set_core_id src =
     (case src of None \<Rightarrow> replicate 64 0
      | Some s \<Rightarrow> let b = take 63 (c_string s) in b @ replicate (64 - length b) 0)"

section \<open>Handshake\<close>

definition ns_send :: "'t transport \<Rightarrow> ('r, 't) NetSession \<Rightarrow> bytes \<Rightarrow> ('r, 't) NetSession \<times> rp_result" where
  "ns_send tr s m = (case tr_send tr (ns_t s) m of (t, r) \<Rightarrow> (s\<lparr>ns_t := t\<rparr>, r))"

definition ns_recv ::
  "'t transport \<Rightarrow> ('r, 't) NetSession \<Rightarrow> ('r, 't) NetSession \<times> (rp_result + bytes)" where
  "ns_recv tr s = (case tr_recv tr (ns_t s) True kRecvTimeoutMs of (t, r) \<Rightarrow> (s\<lparr>ns_t := t\<rparr>, r))"

definition ns_handshake ::
  "'t transport \<Rightarrow> bool \<Rightarrow> u32 \<Rightarrow> u64 \<Rightarrow> string option \<Rightarrow> ('r, 't) NetSession \<Rightarrow>
   ('r, 't) NetSession \<times> rp_result" where
  "ns_handshake tr is_host input_delay content_hash core_id s =
     (let mine = \<lparr>h_abi_version = RETROPARK_ABI_VERSION, h_core_id = set_core_id core_id,
                  h_content_hash = content_hash, h_input_delay = input_delay, h_start_frame = 0\<rparr>
      in case ns_send tr s (encode_hello mine) of (s, r) \<Rightarrow>
         if r \<noteq> RP_OK then (s, RP_ERR_DEVICE)
         else case ns_recv tr s of
           (s, Inl _) \<Rightarrow> (s, RP_ERR_DEVICE)
         | (s, Inr m) \<Rightarrow>
           (case decode_hello m of
              None \<Rightarrow> (s, RP_ERR_INTERNAL)
            | Some peer \<Rightarrow>
                if h_abi_version peer \<noteq> RETROPARK_ABI_VERSION then (s, RP_ERR_ABI_MISMATCH)
                else if h_content_hash peer \<noteq> content_hash \<or> h_core_id peer \<noteq> h_core_id mine
                then (s, RP_ERR_BAD_ARG)
                else (s\<lparr>ns_delay := (if is_host then input_delay else h_input_delay peer)\<rparr>, RP_OK)))"

text \<open>\<open>serialize_size\<close> and \<open>save_state\<close> into a fresh zeroed buffer of that size.\<close>

definition ra_snapshot :: "'r rt_api \<Rightarrow> 'r \<Rightarrow> 'r \<times> (rp_result + bytes)" where
  "ra_snapshot ra rt =
     (case ra_serialize_size ra rt of (rt, sz) \<Rightarrow>
        if sz = 0 then (rt, Inr [])
        else case ra_save_state ra rt (replicate sz 0) of (rt, r, buf) \<Rightarrow>
               (rt, if r = RP_OK then Inr buf else Inl r))"

definition ns_start_host ::
  "'r rt_api \<Rightarrow> 't transport \<Rightarrow> u32 \<Rightarrow> u64 \<Rightarrow> string option \<Rightarrow> ('r, 't) NetSession \<Rightarrow>
   ('r, 't) NetSession \<times> rp_result" where
  "ns_start_host ra tr input_delay content_hash core_id s =
     (let s = s\<lparr>ns_local_port := 0, ns_remote_port := 1, ns_frame := 0, ns_status := NetOk\<rparr>
      in case ns_handshake tr True input_delay content_hash core_id s of (s, r) \<Rightarrow>
         if r \<noteq> RP_OK then (s, r)
         else case ra_snapshot ra (ns_rt s) of
           (rt, Inl _) \<Rightarrow> (s\<lparr>ns_rt := rt\<rparr>, RP_ERR_INTERNAL)
         | (rt, Inr blob) \<Rightarrow>
             (case ns_send tr (s\<lparr>ns_rt := rt\<rparr>) (encode_state_sync \<lparr>s_frame = 0, s_blob = blob\<rparr>) of (s, r) \<Rightarrow>
                if r \<noteq> RP_OK then (s, RP_ERR_DEVICE) else (s, RP_OK)))"

definition ns_start_join ::
  "'r rt_api \<Rightarrow> 't transport \<Rightarrow> u64 \<Rightarrow> string option \<Rightarrow> ('r, 't) NetSession \<Rightarrow>
   ('r, 't) NetSession \<times> rp_result" where
  "ns_start_join ra tr content_hash core_id s =
     (let s = s\<lparr>ns_local_port := 1, ns_remote_port := 0, ns_frame := 0, ns_status := NetOk\<rparr>
      in case ns_handshake tr False 0 content_hash core_id s of (s, r) \<Rightarrow>
         if r \<noteq> RP_OK then (s, r)
         else case ns_recv tr s of
           (s, Inl _) \<Rightarrow> (s, RP_ERR_DEVICE)
         | (s, Inr m) \<Rightarrow>
           (case decode_state_sync m of
              None \<Rightarrow> (s, RP_ERR_INTERNAL)
            | Some ss \<Rightarrow>
                if s_blob ss = [] then (s, RP_OK)
                else case ra_load_state ra (ns_rt s) (s_blob ss) of (rt, r) \<Rightarrow>
                       (s\<lparr>ns_rt := rt\<rparr>, if r \<noteq> RP_OK then RP_ERR_UNSUPPORTED else RP_OK)))"

section \<open>Ticks\<close>

definition ns_tick_send ::
  "'t transport \<Rightarrow> rp_input_state \<Rightarrow> ('r, 't) NetSession \<Rightarrow> ('r, 't) NetSession" where
  "ns_tick_send tr local_now s =
     (if ns_status s = NetDisconnected then s
      else let apply_at = wrap64 (ns_frame s + unat (ns_delay s));
               s = s\<lparr>ns_local_pending := om_put apply_at local_now (ns_local_pending s)\<rparr>
           in case ns_send tr s (encode_input \<lparr>i_frame = of_nat apply_at, i_port = ucast (ns_local_port s),
                                              i_state = local_now\<rparr>) of (s, r) \<Rightarrow>
              if r \<noteq> RP_OK then s\<lparr>ns_status := NetDisconnected\<rparr> else s)"

text \<open>One received message: inputs and checksums are filed by frame, anything else is dropped.\<close>

definition ingest_input :: "bytes \<Rightarrow> (nat \<times> rp_input_state) option" where
  "ingest_input m =
     (if peek_type m = Some MT_Input
      then case decode_input m of None \<Rightarrow> None | Some i \<Rightarrow> Some (unat (i_frame i), i_state i) else None)"

definition ingest_checksum :: "bytes \<Rightarrow> (nat \<times> u32) option" where
  "ingest_checksum m =
     (if peek_type m = Some MT_Checksum
      then case decode_checksum m of None \<Rightarrow> None | Some c \<Rightarrow> Some (unat (c_frame c), c_crc c) else None)"

definition om_ingest :: "(nat \<times> 'v) option \<Rightarrow> 'v omap \<Rightarrow> 'v omap" where
  "om_ingest x m = (case x of None \<Rightarrow> m | Some (k, v) \<Rightarrow> om_put k v m)"

definition ns_ingest :: "bytes \<Rightarrow> ('r, 't) NetSession \<Rightarrow> ('r, 't) NetSession" where
  "ns_ingest m s = s\<lparr>ns_remote_pending := om_ingest (ingest_input m) (ns_remote_pending s),
                      ns_peer_crc := om_ingest (ingest_checksum m) (ns_peer_crc s)\<rparr>"

text \<open>The wait for the remote input of the current frame. \<open>True\<close>: it is there.\<close>

partial_function (option) ns_wait ::
  "'t transport \<Rightarrow> ('r, 't) NetSession \<Rightarrow> (('r, 't) NetSession \<times> bool) option" where
  "ns_wait tr s =
     (case om_find (ns_remote_pending s) (ns_frame s) of
        Some _ \<Rightarrow> Some (s, True)
      | None \<Rightarrow>
          (case ns_recv tr s of
             (s', Inl e) \<Rightarrow>
               Some (s'\<lparr>ns_status := (if e = RP_ERR_TIMEOUT then NetWaiting else NetDisconnected)\<rparr>, False)
           | (s', Inr m) \<Rightarrow> ns_wait tr (ns_ingest m s')))"

definition ns_apply :: "'r rt_api \<Rightarrow> ('r, 't) NetSession \<Rightarrow> ('r, 't) NetSession" where
  "ns_apply ra s =
     (let lin = (case om_find (ns_local_pending s) (ns_frame s) of Some i \<Rightarrow> i | None \<Rightarrow> neutral_input);
          rin = (case om_find (ns_remote_pending s) (ns_frame s) of Some i \<Rightarrow> i | None \<Rightarrow> neutral_input);
          rt = ra_set_input ra (ns_rt s) (ns_local_port s) lin;
          rt = ra_set_input ra rt (ns_remote_port s) rin
      in s\<lparr>ns_rt := fst (ra_present ra rt False)\<rparr>)"

text \<open>The periodic checksum; \<open>False\<close>: the send failed.\<close>

definition ns_checksum ::
  "'r rt_api \<Rightarrow> 't transport \<Rightarrow> ('r, 't) NetSession \<Rightarrow> ('r, 't) NetSession \<times> bool" where
  "ns_checksum ra tr s =
     (if ns_frame s mod kChecksumEvery \<noteq> 0 then (s, True)
      else case ra_snapshot ra (ns_rt s) of
        (rt, Inl _) \<Rightarrow> (s\<lparr>ns_rt := rt\<rparr>, True)
      | (rt, Inr buf) \<Rightarrow>
          (let own = crc32 buf;
               s = s\<lparr>ns_rt := rt, ns_own_crc := om_put (ns_frame s) own (ns_own_crc s)\<rparr>
           in case ns_send tr s (encode_checksum \<lparr>c_frame = of_nat (ns_frame s), c_crc = own\<rparr>) of (s, r) \<Rightarrow>
                if r \<noteq> RP_OK then (s\<lparr>ns_status := NetDisconnected\<rparr>, False) else (s, True)))"

definition crc_mismatch :: "u32 omap \<Rightarrow> u32 omap \<Rightarrow> bool" where
  "crc_mismatch own peer =
     list_ex (\<lambda>(f, c). case om_find peer f of None \<Rightarrow> False | Some c' \<Rightarrow> c' \<noteq> c) own"

definition ns_prune :: "('r, 't) NetSession \<Rightarrow> ('r, 't) NetSession" where
  "ns_prune s =
     (let lo = (if 3 \<le> ns_frame s then ns_frame s - 3 else 0);
          clo = (if 2 * kChecksumEvery \<le> ns_frame s then ns_frame s - 2 * kChecksumEvery else 0)
      in s\<lparr>ns_remote_pending := om_drop_below lo (ns_remote_pending s),
           ns_local_pending := om_drop_below lo (ns_local_pending s),
           ns_own_crc := om_drop_below clo (ns_own_crc s),
           ns_peer_crc := om_drop_below clo (ns_peer_crc s)\<rparr>)"

text \<open>Everything after the wait.\<close>

definition ns_advance ::
  "'r rt_api \<Rightarrow> 't transport \<Rightarrow> ('r, 't) NetSession \<Rightarrow> ('r, 't) NetSession" where
  "ns_advance ra tr s =
     (case ns_checksum ra tr (ns_apply ra s) of (s, sent) \<Rightarrow>
        if \<not> sent then s
        else if crc_mismatch (ns_own_crc s) (ns_peer_crc s) then s\<lparr>ns_status := NetDesync\<rparr>
        else let s = ns_prune s
             in s\<lparr>ns_frame := wrap64 (ns_frame s + 1), ns_status := NetOk\<rparr>)"

definition ns_tick_recv_and_advance ::
  "'r rt_api \<Rightarrow> 't transport \<Rightarrow> ('r, 't) NetSession \<Rightarrow> ('r, 't) NetSession option" where
  "ns_tick_recv_and_advance ra tr s =
     (if ns_status s = NetDisconnected then Some s
      else if unat (ns_delay s) \<le> ns_frame s
      then (case ns_wait tr s of None \<Rightarrow> None
            | Some (s, there) \<Rightarrow> Some (if there then ns_advance ra tr s else s))
      else Some (ns_advance ra tr s))"

definition ns_tick ::
  "'r rt_api \<Rightarrow> 't transport \<Rightarrow> rp_input_state \<Rightarrow> ('r, 't) NetSession \<Rightarrow> ('r, 't) NetSession option" where
  "ns_tick ra tr local_now s = ns_tick_recv_and_advance ra tr (ns_tick_send tr local_now s)"

text \<open>
  The caller ticks with the input held at the time, again after a \<open>Waiting\<close> tick, until the session
  reports \<open>Desync\<close> or \<open>Disconnected\<close>.
\<close>

definition ns_live :: "('r, 't) NetSession \<Rightarrow> bool" where
  "ns_live s \<longleftrightarrow> ns_status s = NetOk \<or> ns_status s = NetWaiting"

fun ns_run ::
  "'r rt_api \<Rightarrow> 't transport \<Rightarrow> rp_input_state list \<Rightarrow> ('r, 't) NetSession \<Rightarrow> ('r, 't) NetSession option" where
  "ns_run ra tr [] s = Some s"
| "ns_run ra tr (x # xs) s =
     (case ns_tick ra tr x s of None \<Rightarrow> None | Some s' \<Rightarrow> if ns_live s' then ns_run ra tr xs s' else Some s')"

text \<open>The local inputs of a run by the frame they apply to: what the last tick for it was given.\<close>

fun ns_log ::
  "'r rt_api \<Rightarrow> 't transport \<Rightarrow> rp_input_state list \<Rightarrow> ('r, 't) NetSession \<Rightarrow> (nat \<Rightarrow> rp_input_state) \<Rightarrow>
   nat \<Rightarrow> rp_input_state" where
  "ns_log ra tr [] s L = L"
| "ns_log ra tr (x # xs) s L =
     (let L' = L(ns_frame s + unat (ns_delay s) := x)
      in case ns_tick ra tr x s of None \<Rightarrow> L' | Some s' \<Rightarrow> if ns_live s' then ns_log ra tr xs s' L' else L')"

text \<open>A run whose player holds \<open>L f\<close> at every tick for frame \<open>f\<close>: a waiting frame is retried with the same input.\<close>

fun ns_steady ::
  "'r rt_api \<Rightarrow> 't transport \<Rightarrow> (nat \<Rightarrow> rp_input_state) \<Rightarrow> rp_input_state list \<Rightarrow> ('r, 't) NetSession \<Rightarrow> bool" where
  "ns_steady ra tr L [] s = True"
| "ns_steady ra tr L (x # xs) s =
     (x = L (ns_frame s + unat (ns_delay s)) \<and>
      (case ns_tick ra tr x s of None \<Rightarrow> True | Some s' \<Rightarrow> ns_live s' \<longrightarrow> ns_steady ra tr L xs s'))"

lemma ns_log_steady: "ns_steady ra tr L xs s \<Longrightarrow> ns_log ra tr xs s L = L"
  by (induction ra tr xs s L rule: ns_log.induct) (auto simp: Let_def split: option.splits if_splits)

section \<open>The replay a session performs\<close>

text \<open>Before frame \<open>d\<close> both ports see the neutral input; \<open>X f\<close> is what a peer supplies for frame \<open>f\<close>.\<close>

definition delayed :: "nat \<Rightarrow> (nat \<Rightarrow> rp_input_state) \<Rightarrow> nat \<Rightarrow> rp_input_state" where
  "delayed d X f = (if f < d then neutral_input else X f)"

definition input_pair ::
  "u32 \<Rightarrow> nat \<Rightarrow> (nat \<Rightarrow> rp_input_state) \<Rightarrow> (nat \<Rightarrow> rp_input_state) \<Rightarrow> nat \<Rightarrow> rp_input_state \<times> rp_input_state" where
  "input_pair lp d L R f =
     (if lp = 0 then (delayed d L f, delayed d R f) else (delayed d R f, delayed d L f))"

definition replay ::
  "('s \<Rightarrow> rp_input_state \<Rightarrow> rp_input_state \<Rightarrow> 's) \<Rightarrow> u32 \<Rightarrow> nat \<Rightarrow> (nat \<Rightarrow> rp_input_state) \<Rightarrow>
   (nat \<Rightarrow> rp_input_state) \<Rightarrow> nat \<Rightarrow> 's \<Rightarrow> 's" where
  "replay step lp d L R n s = run_steps step (map (input_pair lp d L R) [0..<n]) s"

lemma replay_0 [simp]: "replay step lp d L R 0 s = s"
  by (simp add: replay_def)

lemma replay_Suc: "replay step lp d L R (Suc n) s =
    step (replay step lp d L R n s) (fst (input_pair lp d L R n)) (snd (input_pair lp d L R n))"
  by (simp add: replay_def)

definition honest_inputs :: "nat \<Rightarrow> (nat \<Rightarrow> rp_input_state) \<Rightarrow> bytes list \<Rightarrow> bool" where
  "honest_inputs d R ms \<longleftrightarrow>
     (\<forall>m \<in> set ms. \<forall>f i. ingest_input m = Some (f, i) \<longrightarrow> d \<le> f \<and> i = R f)"

definition honest_checksums :: "(nat \<Rightarrow> u32 \<Rightarrow> bool) \<Rightarrow> bytes list \<Rightarrow> bool" where
  "honest_checksums C ms \<longleftrightarrow> (\<forall>m \<in> set ms. \<forall>f c. ingest_checksum m = Some (f, c) \<longrightarrow> C f c)"

definition om_agrees :: "'v omap \<Rightarrow> (nat \<Rightarrow> 'v \<Rightarrow> bool) \<Rightarrow> bool" where
  "om_agrees m P \<longleftrightarrow> om_ok m \<and> (\<forall>f v. om_find m f = Some v \<longrightarrow> P f v)"

lemma om_agrees_ingest:
  "om_agrees m P \<Longrightarrow> (\<And>k v. x = Some (k, v) \<Longrightarrow> P k v) \<Longrightarrow> om_agrees (om_ingest x m) P"
  by (auto simp: om_agrees_def om_ingest_def split: option.splits prod.splits if_splits)

lemma om_agrees_put: "om_agrees m P \<Longrightarrow> P k v \<Longrightarrow> om_agrees (om_put k v m) P"
  by (auto simp: om_agrees_def split: if_splits)

lemma om_agrees_drop: "om_agrees m P \<Longrightarrow> om_agrees (om_drop_below lo m) P"
  by (auto simp: om_agrees_def split: if_splits)

lemma om_agrees_Nil [simp]: "om_agrees [] P"
  by (simp add: om_agrees_def)

lemma crc_mismatch_iff:
  "om_ok own \<Longrightarrow> crc_mismatch own peer \<longleftrightarrow>
     (\<exists>f c c'. om_find own f = Some c \<and> om_find peer f = Some c' \<and> c \<noteq> c')"
proof -
  assume "om_ok own"
  have "crc_mismatch own peer \<longleftrightarrow> (\<exists>f c. (f, c) \<in> set own \<and> (\<exists>c'. om_find peer f = Some c' \<and> c \<noteq> c'))"
    unfolding crc_mismatch_def list_ex_iff by (force split: option.splits)
  with \<open>om_ok own\<close> show ?thesis
    by (simp add: om_find_iff)
qed

lemma crc_agree:
  assumes "om_agrees own P" "om_agrees peer Q" "\<And>f c c'. P f c \<Longrightarrow> Q f c' \<Longrightarrow> c = c'"
  shows "\<not> crc_mismatch own peer"
proof
  assume "crc_mismatch own peer"
  then obtain f c c' where "om_find own f = Some c" "om_find peer f = Some c'" "c \<noteq> c'"
    using assms(1) by (auto simp: crc_mismatch_iff om_agrees_def)
  moreover from this assms(1,2) have "P f c" "Q f c'"
    unfolding om_agrees_def by blast+
  ultimately show False using assms(3) by simp
qed

text \<open>The remote side of a session: what has been filed agrees with what the peer supplies.\<close>

definition remote_inv ::
  "nat \<Rightarrow> (nat \<Rightarrow> rp_input_state) \<Rightarrow> (nat \<Rightarrow> u32 \<Rightarrow> bool) \<Rightarrow> ('r, 't) NetSession \<Rightarrow> bool" where
  "remote_inv d R C s \<longleftrightarrow>
     om_agrees (ns_remote_pending s) (\<lambda>f i. d \<le> f \<and> i = R f) \<and>
     om_agrees (ns_peer_crc s) C"

text \<open>
  The local inputs on file: those for the frames from the current one up to (below) \<open>hi\<close>, none for a
  frame before \<open>d\<close>. A tick that waited has left one for \<open>hi\<close> too, which its retry replaces.
\<close>

definition local_inv :: "nat \<Rightarrow> (nat \<Rightarrow> rp_input_state) \<Rightarrow> nat \<Rightarrow> ('r, 't) NetSession \<Rightarrow> bool" where
  "local_inv d L hi s \<longleftrightarrow> om_ok (ns_local_pending s) \<and>
     (\<forall>f \<ge> ns_frame s. (f < d \<longrightarrow> om_find (ns_local_pending s) f = None) \<and>
        (d \<le> f \<and> f < hi \<longrightarrow> om_find (ns_local_pending s) f = Some (L f)))"

text \<open>What the wait for the peer does not touch.\<close>

definition ns_core :: "('r, 't) NetSession \<Rightarrow> _" where
  "ns_core s = (ns_rt s, ns_local_port s, ns_remote_port s, ns_delay s, ns_frame s,
     ns_local_pending s, ns_own_crc s)"

context message_stream
begin

definition honest_remote ::
  "nat \<Rightarrow> (nat \<Rightarrow> rp_input_state) \<Rightarrow> (nat \<Rightarrow> u32 \<Rightarrow> bool) \<Rightarrow> ('r, 't) NetSession \<Rightarrow> bool" where
  "honest_remote d R C s \<longleftrightarrow> remote_inv d R C s \<and> honest_inputs d R (inbox (ns_t s)) \<and>
     honest_checksums C (inbox (ns_t s))"

text \<open>The wait always returns, and files only what the peer sent.\<close>

lemma ns_wait_returns:
  "\<exists>s' b. ns_wait tr s = Some (s', b) \<and> ns_core s' = ns_core s \<and>
     (honest_remote d R C s \<longrightarrow> honest_remote d R C s') \<and> outbox (ns_t s') = outbox (ns_t s) \<and>
     (if b then ns_status s' = ns_status s \<and> om_find (ns_remote_pending s') (ns_frame s) \<noteq> None
      else ns_status s' = NetWaiting \<or> ns_status s' = NetDisconnected)"
proof (induction "length (inbox (ns_t s))" arbitrary: s rule: less_induct)
  case less
  show ?case
  proof (cases "om_find (ns_remote_pending s) (ns_frame s)")
    case (Some i)
    then show ?thesis
      by (subst ns_wait.simps) auto
  next
    case None
    obtain t r where tr: "tr_recv tr (ns_t s) True kRecvTimeoutMs = (t, r)"
      by fastforce
    have out: "outbox t = outbox (ns_t s)"
      using recv_outbox [of "ns_t s" True kRecvTimeoutMs] tr by simp
    show ?thesis
    proof (cases r)
      case (Inl e)
      then show ?thesis
        using None tr recv_err [of "ns_t s" True kRecvTimeoutMs t e] out
        by (subst ns_wait.simps) (auto simp: ns_recv_def ns_core_def honest_remote_def remote_inv_def)
    next
      case (Inr m)
      have inb: "inbox (ns_t s) = m # inbox t"
        using recv_msg tr Inr by blast
      define s1 where "s1 = ns_ingest m (s\<lparr>ns_t := t\<rparr>)"
      have s1: "ns_t s1 = t" "ns_core s1 = ns_core s" "ns_status s1 = ns_status s" "ns_frame s1 = ns_frame s"
        by (simp_all add: s1_def ns_ingest_def ns_core_def)
      have hon: "honest_remote d R C s \<longrightarrow> honest_remote d R C s1"
        using inb s1(1)
        by (auto simp: s1_def honest_remote_def remote_inv_def ns_ingest_def honest_inputs_def
            honest_checksums_def intro!: om_agrees_ingest)
      have len: "length (inbox (ns_t s1)) < length (inbox (ns_t s))"
        using inb s1(1) by simp
      have "ns_wait tr s = ns_wait tr s1"
        using None tr Inr by (subst ns_wait.simps) (simp add: ns_recv_def s1_def)
      with less.hyps [OF len] hon s1 out show ?thesis by (auto simp only:)
    qed
  qed
qed

end

context sim_runtime
begin

lemma ra_snapshot_good:
  assumes "good rt"
  shows "\<exists>rt'. ra_snapshot ra rt = (rt', Inr (enc (st rt))) \<and> good rt' \<and> st rt' = st rt"
proof -
  from size_law [OF assms] obtain rt1 where
    r1: "ra_serialize_size ra rt = (rt1, length (enc (st rt)))" "good rt1" "st rt1 = st rt"
    by blast
  from save_law [OF r1(2), of "replicate (length (enc (st rt))) 0"] r1(3) obtain rt2 where
    "ra_save_state ra rt1 (replicate (length (enc (st rt))) 0) = (rt2, RP_OK, enc (st rt))" "good rt2" "st rt2 = st rt"
    by auto
  with r1 enc_nonempty show ?thesis by (simp add: ra_snapshot_def)
qed

text \<open>Setting both ports and stepping, whichever port is the local one.\<close>

lemma set_both_ports:
  assumes "good rt" "lp = 0 \<and> rp = 1 \<or> lp = 1 \<and> rp = 0"
  shows "good (ra_set_input ra (ra_set_input ra rt lp a) rp b)"
    and "st (ra_set_input ra (ra_set_input ra rt lp a) rp b) = st rt"
    and "inp (ra_set_input ra (ra_set_input ra rt lp a) rp b) 0 = (if lp = 0 then a else b)"
    and "inp (ra_set_input ra (ra_set_input ra rt lp a) rp b) 1 = (if lp = 0 then b else a)"
proof -
  have s1: "good (ra_set_input ra rt lp a)" "st (ra_set_input ra rt lp a) = st rt"
      "inp (ra_set_input ra rt lp a) lp = a"
    using set_input_law [OF assms(1), of lp a] assms(2) by blast+
  note s2 = set_input_law [OF s1(1), of rp b]
  show "good (ra_set_input ra (ra_set_input ra rt lp a) rp b)"
    "st (ra_set_input ra (ra_set_input ra rt lp a) rp b) = st rt"
    using s1 s2 assms(2) by auto
  show "inp (ra_set_input ra (ra_set_input ra rt lp a) rp b) 0 = (if lp = 0 then a else b)"
    "inp (ra_set_input ra (ra_set_input ra rt lp a) rp b) 1 = (if lp = 0 then b else a)"
    using s1 s2 assms(2) by auto
qed

end

text \<open>A session between two peers: a simulating runtime and a message stream.\<close>

locale lockstep_net =
  sim_runtime ra good st inp step enc + message_stream tr inbox outbox
  for ra :: "'r rt_api" and good st inp step and enc :: "'s \<Rightarrow> bytes"
    and tr :: "'t transport" and inbox outbox
begin

definition ports_ok :: "('r, 't) NetSession \<Rightarrow> bool" where
  "ports_ok s \<longleftrightarrow> ns_local_port s = 0 \<and> ns_remote_port s = 1 \<or> ns_local_port s = 1 \<and> ns_remote_port s = 0"

definition crc_at :: "u32 \<Rightarrow> nat \<Rightarrow> (nat \<Rightarrow> rp_input_state) \<Rightarrow> (nat \<Rightarrow> rp_input_state) \<Rightarrow> 's \<Rightarrow> nat \<Rightarrow> u32" where
  "crc_at lp d L R s0 f = crc32 (enc (replay step lp d L R (Suc f) s0))"

text \<open>The session before a tick at frame \<open>f\<close>: the runtime has replayed exactly the frames before it.\<close>

definition ns_inv ::
  "nat \<Rightarrow> (nat \<Rightarrow> rp_input_state) \<Rightarrow> (nat \<Rightarrow> rp_input_state) \<Rightarrow> (nat \<Rightarrow> u32 \<Rightarrow> bool) \<Rightarrow> 's \<Rightarrow> nat \<Rightarrow>
   ('r, 't) NetSession \<Rightarrow> bool" where
  "ns_inv d L R C s0 hi s \<longleftrightarrow>
     good (ns_rt s) \<and> ports_ok s \<and> unat (ns_delay s) = d \<and> ns_status s \<noteq> NetDisconnected \<and>
     st (ns_rt s) = replay step (ns_local_port s) d L R (ns_frame s) s0 \<and>
     local_inv d L hi s \<and> remote_inv d R C s \<and>
     om_agrees (ns_own_crc s) (\<lambda>f c. f < ns_frame s \<and> c = crc_at (ns_local_port s) d L R s0 f) \<and>
     honest_inputs d R (inbox (ns_t s)) \<and> honest_checksums C (inbox (ns_t s))"

text \<open>Only the local inputs below \<open>hi\<close> are in it, and \<open>hi\<close> may be lowered.\<close>

lemma ns_inv_local_cong:
  assumes inv: "ns_inv d L R C s0 hi s" and eq: "\<And>f. f < hi' \<Longrightarrow> L f = L' f"
    and "hi' \<le> hi" "ns_frame s \<le> hi'"
  shows "ns_inv d L' R C s0 hi' s"
proof -
  have rp: "replay step (ns_local_port s) d L R n s0 = replay step (ns_local_port s) d L' R n s0"
    if "n \<le> ns_frame s" for n
    using that eq assms(4) by (induction n) (simp_all add: replay_Suc input_pair_def delayed_def)
  have "om_agrees (ns_own_crc s) (\<lambda>f c. f < ns_frame s \<and> c = crc_at (ns_local_port s) d L' R s0 f)"
    using inv rp unfolding ns_inv_def om_agrees_def crc_at_def by (metis Suc_leI)
  moreover have "local_inv d L' hi' s"
    using inv eq assms(3) by (simp add: ns_inv_def local_inv_def)
  ultimately show ?thesis
    using inv rp [of "ns_frame s"] by (simp add: ns_inv_def)
qed

lemma tick_send_inv:
  assumes inv: "ns_inv d L R C s0 (ns_frame s + d) s" and small: "ns_frame s + d + 1 < 2 ^ 64"
    and L: "L (ns_frame s + d) = x"
  defines "s' \<equiv> ns_tick_send tr x s"
  shows "ns_status s' = NetDisconnected \<or>
     ns_inv d L R C s0 (ns_frame s + d + 1) s' \<and> ns_frame s' = ns_frame s \<and>
     ns_local_port s' = ns_local_port s \<and>
     outbox (ns_t s') = outbox (ns_t s) @
       [encode_input \<lparr>i_frame = of_nat (ns_frame s + d), i_port = ucast (ns_local_port s), i_state = x\<rparr>]"
proof -
  let ?m = "encode_input \<lparr>i_frame = of_nat (ns_frame s + d), i_port = ucast (ns_local_port s), i_state = x\<rparr>"
  have w: "wrap64 (ns_frame s + unat (ns_delay s)) = ns_frame s + d"
    using inv small by (simp add: wrap64_def ns_inv_def)
  obtain t r where tr: "tr_send tr (ns_t s) ?m = (t, r)"
    by fastforce
  have inb: "inbox t = inbox (ns_t s)"
    using send_inbox [of "ns_t s" ?m] tr by simp
  define s1 where "s1 = s\<lparr>ns_local_pending := om_put (ns_frame s + d) x (ns_local_pending s), ns_t := t\<rparr>"
  have s': "s' = (if r \<noteq> RP_OK then s1\<lparr>ns_status := NetDisconnected\<rparr> else s1)"
    using inv w tr by (simp add: s'_def s1_def ns_tick_send_def ns_send_def ns_inv_def Let_def)
  have "local_inv d L (ns_frame s + d + 1) s1"
    using inv L by (auto simp: local_inv_def s1_def ns_inv_def)
  then have "ns_inv d L R C s0 (ns_frame s + d + 1) s1"
    using inv inb by (simp add: ns_inv_def s1_def ports_ok_def remote_inv_def)
  then show ?thesis
    using s' send_outbox [of "ns_t s" ?m t] tr by (auto simp: s1_def)
qed

lemma ns_apply_step:
  assumes inv: "ns_inv d L R C s0 hi s" and hi: "ns_frame s < hi"
    and there: "d \<le> ns_frame s \<Longrightarrow> om_find (ns_remote_pending s) (ns_frame s) \<noteq> None"
  shows "good (ns_rt (ns_apply ra s))"
    "st (ns_rt (ns_apply ra s)) = replay step (ns_local_port s) d L R (Suc (ns_frame s)) s0"
proof -
  define lin where "lin = (case om_find (ns_local_pending s) (ns_frame s) of Some i \<Rightarrow> i | None \<Rightarrow> neutral_input)"
  define rin where "rin = (case om_find (ns_remote_pending s) (ns_frame s) of Some i \<Rightarrow> i | None \<Rightarrow> neutral_input)"
  have lin: "lin = delayed d L (ns_frame s)"
    using inv hi by (auto simp: lin_def delayed_def ns_inv_def local_inv_def)
  have "d \<le> ns_frame s \<and> i = R (ns_frame s)" if "om_find (ns_remote_pending s) (ns_frame s) = Some i" for i
    using inv that by (auto simp: ns_inv_def remote_inv_def om_agrees_def)
  then have rin: "rin = delayed d R (ns_frame s)"
    using there by (cases "om_find (ns_remote_pending s) (ns_frame s)") (auto simp: rin_def delayed_def)
  define rt where "rt = ra_set_input ra (ra_set_input ra (ns_rt s) (ns_local_port s) lin) (ns_remote_port s) rin"
  have ap: "ns_rt (ns_apply ra s) = fst (ra_present ra rt False)"
    by (simp add: ns_apply_def rt_def lin_def rin_def Let_def)
  have g: "good (ns_rt s)" and p: "ns_local_port s = 0 \<and> ns_remote_port s = 1 \<or>
      ns_local_port s = 1 \<and> ns_remote_port s = 0"
    using inv by (simp_all add: ns_inv_def ports_ok_def)
  note set = set_both_ports [OF g p, of lin rin, folded rt_def]
  from present_law [OF set(1), of False] show "good (ns_rt (ns_apply ra s))"
    by (simp add: ap)
  from present_law [OF set(1), of False]
  show "st (ns_rt (ns_apply ra s)) = replay step (ns_local_port s) d L R (Suc (ns_frame s)) s0"
    using set inv by (simp add: ap replay_Suc input_pair_def lin rin ns_inv_def)
qed

lemma ns_checksum_step:
  assumes g: "good (ns_rt s)" and crc: "crc32 (enc (st (ns_rt s))) = C0 (ns_frame s)"
    and own: "om_agrees (ns_own_crc s) (\<lambda>f c. f \<le> ns_frame s \<and> c = C0 f)"
  shows "\<exists>s' sent. ns_checksum ra tr s = (s', sent) \<and> good (ns_rt s') \<and> st (ns_rt s') = st (ns_rt s) \<and>
     om_agrees (ns_own_crc s') (\<lambda>f c. f \<le> ns_frame s \<and> c = C0 f) \<and> inbox (ns_t s') = inbox (ns_t s) \<and>
     (ns_local_port s', ns_remote_port s', ns_delay s', ns_frame s', ns_local_pending s', ns_remote_pending s',
      ns_peer_crc s') =
     (ns_local_port s, ns_remote_port s, ns_delay s, ns_frame s, ns_local_pending s, ns_remote_pending s,
      ns_peer_crc s) \<and>
     (if sent then ns_status s' = ns_status s else ns_status s' = NetDisconnected)"
proof (cases "ns_frame s mod kChecksumEvery = 0")
  case False
  with g own show ?thesis by (auto simp: ns_checksum_def)
next
  case True
  from ra_snapshot_good [OF g] obtain rt where
    rt: "ra_snapshot ra (ns_rt s) = (rt, Inr (enc (st (ns_rt s))))" "good rt" "st rt = st (ns_rt s)"
    by blast
  let ?m = "encode_checksum \<lparr>c_frame = of_nat (ns_frame s), c_crc = C0 (ns_frame s)\<rparr>"
  obtain t r where tr: "tr_send tr (ns_t s) ?m = (t, r)"
    by fastforce
  have "inbox t = inbox (ns_t s)"
    using send_inbox [of "ns_t s" ?m] tr by simp
  then show ?thesis
    using True rt crc own tr
    by (cases "r = RP_OK") (auto simp: ns_checksum_def ns_send_def Let_def om_agrees_put)
qed

lemma ns_advance_inv:
  assumes inv: "ns_inv d L R C s0 hi s" and hi: "hi = ns_frame s + d + 1" and small: "hi < 2 ^ 64"
    and there: "d \<le> ns_frame s \<Longrightarrow> om_find (ns_remote_pending s) (ns_frame s) \<noteq> None"
  defines "s' \<equiv> ns_advance ra tr s" and "C0 \<equiv> crc_at (ns_local_port s) d L R s0"
  shows "(ns_status s' = NetOk \<longrightarrow> ns_inv d L R C s0 hi s' \<and> ns_frame s' = ns_frame s + 1 \<and>
      ns_local_port s' = ns_local_port s) \<and> ns_status s' \<noteq> NetWaiting \<and>
    ((\<forall>f c. f \<le> ns_frame s \<and> C f c \<longrightarrow> c = C0 f) \<longrightarrow> ns_status s' \<noteq> NetDesync)"
proof -
  define s1 where "s1 = ns_apply ra s"
  have s1: "good (ns_rt s1)" "st (ns_rt s1) = replay step (ns_local_port s) d L R (Suc (ns_frame s)) s0"
    using ns_apply_step [OF inv _ there] hi by (simp_all add: s1_def)
  have f1: "ns_own_crc s1 = ns_own_crc s" "ns_t s1 = ns_t s" "ns_local_port s1 = ns_local_port s"
    "ns_remote_port s1 = ns_remote_port s" "ns_delay s1 = ns_delay s" "ns_frame s1 = ns_frame s"
    "ns_local_pending s1 = ns_local_pending s" "ns_remote_pending s1 = ns_remote_pending s"
    "ns_peer_crc s1 = ns_peer_crc s" "ns_status s1 = ns_status s"
    by (simp_all add: s1_def ns_apply_def Let_def)
  have c1: "crc32 (enc (st (ns_rt s1))) = C0 (ns_frame s1)"
    by (simp add: s1(2) C0_def crc_at_def f1)
  have o1: "om_agrees (ns_own_crc s1) (\<lambda>f c. f \<le> ns_frame s1 \<and> c = C0 f)"
    using inv by (auto simp: f1 ns_inv_def C0_def om_agrees_def intro: less_imp_le)
  from ns_checksum_step [OF s1(1) c1 o1] obtain s2 sent where
    s2: "ns_checksum ra tr s1 = (s2, sent)" "good (ns_rt s2)" "st (ns_rt s2) = st (ns_rt s1)"
      "om_agrees (ns_own_crc s2) (\<lambda>f c. f \<le> ns_frame s \<and> c = C0 f)" "inbox (ns_t s2) = inbox (ns_t s)"
      "ns_local_port s2 = ns_local_port s" "ns_remote_port s2 = ns_remote_port s" "ns_delay s2 = ns_delay s"
      "ns_frame s2 = ns_frame s" "ns_local_pending s2 = ns_local_pending s"
      "ns_remote_pending s2 = ns_remote_pending s" "ns_peer_crc s2 = ns_peer_crc s"
      and sent: "if sent then ns_status s2 = ns_status s else ns_status s2 = NetDisconnected"
    using f1 by auto
  define s3 where "s3 = (ns_prune s2)\<lparr>ns_frame := wrap64 (ns_frame s2 + 1), ns_status := NetOk\<rparr>"
  have s': "s' = (if \<not> sent then s2
      else if crc_mismatch (ns_own_crc s2) (ns_peer_crc s2) then s2\<lparr>ns_status := NetDesync\<rparr> else s3)"
    by (simp add: s'_def ns_advance_def s1_def [symmetric] s2(1) s3_def ns_prune_def Let_def)
  have wr: "wrap64 (ns_frame s2 + 1) = Suc (ns_frame s)"
    using small hi s2(9) by (simp add: wrap64_def)
  have loc: "local_inv d L hi s3"
    using inv wr s2(9,10)
    by (auto simp: ns_inv_def local_inv_def s3_def ns_prune_def Let_def)
  have rem: "remote_inv d R C s3"
    using inv s2(11,12) by (simp add: ns_inv_def remote_inv_def s3_def ns_prune_def om_agrees_drop Let_def)
  have own: "om_agrees (ns_own_crc s3) (\<lambda>f c. f < Suc (ns_frame s) \<and> c = C0 f)"
    using s2(4) by (simp add: s3_def ns_prune_def om_agrees_drop Let_def less_Suc_eq_le)
  have "ns_inv d L R C s0 hi s3"
    using inv loc rem own s1(2) s2 wr
    by (simp add: ns_inv_def ports_ok_def s3_def ns_prune_def C0_def Let_def)
  moreover have "\<not> crc_mismatch (ns_own_crc s2) (ns_peer_crc s2)"
    if "\<forall>f c. f \<le> ns_frame s \<and> C f c \<longrightarrow> c = C0 f"
  proof (rule crc_agree [OF s2(4)])
    show "om_agrees (ns_peer_crc s2) C"
      using s2(12) inv by (simp add: ns_inv_def remote_inv_def)
  qed (use that in auto)
  ultimately show ?thesis
    using s' sent wr s2 inv
    by (auto simp: s3_def ns_prune_def ns_inv_def Let_def split: if_splits)
qed

lemma ns_core_inv:
  assumes "ns_inv d L R C s0 hi s" "ns_core s' = ns_core s" "remote_inv d R C s'"
    "ns_status s' \<noteq> NetDisconnected" "honest_inputs d R (inbox (ns_t s'))" "honest_checksums C (inbox (ns_t s'))"
  shows "ns_inv d L R C s0 hi s'"
  using assms by (simp add: ns_inv_def ns_core_def ports_ok_def local_inv_def)

lemma ns_tick_inv:
  assumes inv: "ns_inv d L R C s0 (ns_frame s + d) s" and small: "ns_frame s + d + 1 < 2 ^ 64"
    and L: "L (ns_frame s + d) = x"
  defines "C0 \<equiv> crc_at (ns_local_port s) d L R s0"
  shows "\<exists>s'. ns_tick ra tr x s = Some s' \<and>
     (ns_live s' \<longrightarrow> ns_inv d L R C s0 (ns_frame s' + d) s' \<and> ns_local_port s' = ns_local_port s \<and>
        ns_frame s' = ns_frame s + (if ns_status s' = NetOk then 1 else 0)) \<and>
     ((\<forall>f c. f \<le> ns_frame s \<and> C f c \<longrightarrow> c = C0 f) \<longrightarrow> ns_status s' \<noteq> NetDesync)"
proof -
  define s1 where "s1 = ns_tick_send tr x s"
  from tick_send_inv [OF inv small L] consider (dis) "ns_status s1 = NetDisconnected"
    | (ok) "ns_inv d L R C s0 (ns_frame s + d + 1) s1" "ns_frame s1 = ns_frame s"
      "ns_local_port s1 = ns_local_port s"
    by (auto simp: s1_def)
  then show ?thesis
  proof cases
    case dis
    then show ?thesis by (simp add: ns_tick_def s1_def [symmetric] ns_tick_recv_and_advance_def ns_live_def)
  next
    case ok
    have d1: "unat (ns_delay s1) = d" "ns_status s1 \<noteq> NetDisconnected"
      using ok(1) by (simp_all add: ns_inv_def)
    have adv: "(ns_live (ns_advance ra tr s2) \<longrightarrow>
          ns_inv d L R C s0 (ns_frame (ns_advance ra tr s2) + d) (ns_advance ra tr s2) \<and>
          ns_local_port (ns_advance ra tr s2) = ns_local_port s \<and>
          ns_frame (ns_advance ra tr s2) = ns_frame s + (if ns_status (ns_advance ra tr s2) = NetOk then 1 else 0)) \<and>
        ((\<forall>f c. f \<le> ns_frame s \<and> C f c \<longrightarrow> c = C0 f) \<longrightarrow> ns_status (ns_advance ra tr s2) \<noteq> NetDesync)"
      if "ns_core s2 = ns_core s1" "ns_inv d L R C s0 (ns_frame s + d + 1) s2"
        "d \<le> ns_frame s2 \<Longrightarrow> om_find (ns_remote_pending s2) (ns_frame s2) \<noteq> None" for s2
    proof -
      have "ns_frame s2 = ns_frame s" "ns_local_port s2 = ns_local_port s"
        using that(1) ok by (simp_all add: ns_core_def)
      with ns_advance_inv [OF that(2) _ _ that(3)] small show ?thesis
        by (auto simp: C0_def ns_live_def)
    qed
    show ?thesis
    proof (cases "d \<le> ns_frame s1")
      case False
      with adv [of s1] ok d1 show ?thesis
        by (auto simp: ns_tick_def s1_def [symmetric] ns_tick_recv_and_advance_def)
    next
      case True
      have "honest_remote d R C s1"
        using ok(1) by (simp add: ns_inv_def honest_remote_def)
      with ns_wait_returns [of s1 d R C] obtain s2 b where
        w: "ns_wait tr s1 = Some (s2, b)" "ns_core s2 = ns_core s1" "remote_inv d R C s2"
          "honest_inputs d R (inbox (ns_t s2))" "honest_checksums C (inbox (ns_t s2))"
        and b: "if b then ns_status s2 = ns_status s1 \<and> om_find (ns_remote_pending s2) (ns_frame s1) \<noteq> None
                else ns_status s2 = NetWaiting \<or> ns_status s2 = NetDisconnected"
        unfolding honest_remote_def by blast
      have fs: "ns_frame s2 = ns_frame s" "ns_local_port s2 = ns_local_port s"
        using w(2) ok by (simp_all add: ns_core_def)
      have tick: "ns_tick ra tr x s = Some (if b then ns_advance ra tr s2 else s2)"
        using True d1 w(1)
        by (simp add: ns_tick_def s1_def [symmetric] ns_tick_recv_and_advance_def)
      note inv2 = ns_core_inv [OF ok(1) w(2,3) _ w(4,5)]
      show ?thesis
      proof (cases b)
        case False
        have "ns_inv d L R C s0 (ns_frame s + d) s2" if "ns_status s2 = NetWaiting"
          by (rule ns_inv_local_cong [OF inv2]) (use that fs in simp_all)
        with False tick b fs show ?thesis by (auto simp: ns_live_def)
      next
        case True
        with b d1 have "ns_status s2 \<noteq> NetDisconnected" by simp
        from inv2 [OF this] adv [OF w(2)] b True ok(2) fs tick show ?thesis by auto
      qed
    qed
  qed
qed

text \<open>Whatever input a tick is given, from then on it is the one of the frame it applies to.\<close>

lemma ns_run_inv:
  assumes "ns_inv d L R C s0 (ns_frame s + d) s" "ns_frame s + length xs + d < 2 ^ 64" "ns_live s"
  defines "Lt \<equiv> ns_log ra tr xs s L"
  shows "\<exists>s'. ns_run ra tr xs s = Some s' \<and>
     (ns_live s' \<longrightarrow> ns_inv d Lt R C s0 (ns_frame s' + d) s' \<and> ns_local_port s' = ns_local_port s \<and>
        ns_frame s' \<le> ns_frame s + length xs \<and>
        (ns_frame s' = ns_frame s + length xs \<longrightarrow> (\<forall>k < length xs. Lt (ns_frame s + k + d) = xs ! k))) \<and>
     (\<forall>f < ns_frame s + d. Lt f = L f) \<and>
     ((\<forall>f c. C f c \<longrightarrow> c = crc_at (ns_local_port s) d Lt R s0 f) \<longrightarrow> ns_status s' \<noteq> NetDesync)"
  unfolding Lt_def using assms(1-3)
proof (induction xs arbitrary: s L)
  case Nil
  then show ?case by (auto simp: ns_live_def)
next
  case (Cons x xs)
  define L' where "L' = L(ns_frame s + d := x)"
  have d: "unat (ns_delay s) = d"
    using Cons.prems(1) by (simp add: ns_inv_def)
  have inv': "ns_inv d L' R C s0 (ns_frame s + d) s"
    by (rule ns_inv_local_cong [OF Cons.prems(1)]) (simp_all add: L'_def)
  have Lx: "L' (ns_frame s + d) = x" and small: "ns_frame s + d + 1 < 2 ^ 64"
    using Cons.prems(2) by (simp_all add: L'_def)
  from ns_tick_inv [OF inv' small Lx] obtain s1 where
    t: "ns_tick ra tr x s = Some s1" and
    okI: "ns_live s1 \<longrightarrow> ns_inv d L' R C s0 (ns_frame s1 + d) s1 \<and> ns_local_port s1 = ns_local_port s \<and>
        ns_frame s1 = ns_frame s + (if ns_status s1 = NetOk then 1 else 0)" and
    nod: "(\<forall>f c. f \<le> ns_frame s \<and> C f c \<longrightarrow> c = crc_at (ns_local_port s) d L' R s0 f) \<longrightarrow> ns_status s1 \<noteq> NetDesync"
    by blast
  have log: "ns_log ra tr (x # xs) s L = (if ns_live s1 then ns_log ra tr xs s1 L' else L')"
    and run: "ns_run ra tr (x # xs) s = (if ns_live s1 then ns_run ra tr xs s1 else Some s1)"
    using t d by (simp_all add: L'_def)
  show ?case
  proof (cases "ns_live s1")
    case False
    have "\<forall>f < ns_frame s + d. L' f = L f"
      by (simp add: L'_def)
    with False nod show ?thesis
      unfolding log run by auto
  next
    case True
    with okI have s1: "ns_inv d L' R C s0 (ns_frame s1 + d) s1" "ns_local_port s1 = ns_local_port s"
        "ns_frame s1 = ns_frame s + (if ns_status s1 = NetOk then 1 else 0)"
      by blast+
    define Lf where "Lf = ns_log ra tr xs s1 L'"
    have "ns_frame s1 + length xs + d < 2 ^ 64"
      using s1(3) Cons.prems(2) by (simp split: if_splits)
    from Cons.IH [OF s1(1) this True, folded Lf_def] obtain s' where
      IH: "ns_run ra tr xs s1 = Some s'"
        "ns_live s' \<longrightarrow> ns_inv d Lf R C s0 (ns_frame s' + d) s' \<and> ns_local_port s' = ns_local_port s1 \<and>
          ns_frame s' \<le> ns_frame s1 + length xs \<and>
          (ns_frame s' = ns_frame s1 + length xs \<longrightarrow> (\<forall>k < length xs. Lf (ns_frame s1 + k + d) = xs ! k))"
        "\<forall>f < ns_frame s1 + d. Lf f = L' f"
        "(\<forall>f c. C f c \<longrightarrow> c = crc_at (ns_local_port s1) d Lf R s0 f) \<longrightarrow> ns_status s' \<noteq> NetDesync"
      by blast
    have le1: "ns_frame s \<le> ns_frame s1" "ns_frame s1 \<le> Suc (ns_frame s)"
      using s1(3) by simp_all
    have old: "\<forall>f < ns_frame s + d. Lf f = L f"
    proof (intro allI impI)
      fix f
      assume "f < ns_frame s + d"
      with le1(1) show "Lf f = L f"
        using IH(3) [rule_format, of f] by (simp add: L'_def)
    qed
    have all: "Lf (ns_frame s + k + d) = (x # xs) ! k"
      if "ns_live s'" "ns_frame s' = ns_frame s + length (x # xs)" "k < length (x # xs)" for k
    proof -
      have f1: "ns_frame s1 = Suc (ns_frame s)" "ns_frame s' = ns_frame s1 + length xs"
        using that(1,2) IH(2) le1 by auto
      show ?thesis
      proof (cases k)
        case 0
        with IH(3) [rule_format, of "ns_frame s + d"] f1(1) Lx show ?thesis by simp
      next
        case (Suc j)
        with IH(2) that f1 have "Lf (ns_frame s1 + j + d) = xs ! j" by auto
        with Suc f1(1) show ?thesis by simp
      qed
    qed
    have live: "ns_live s' \<longrightarrow> ns_inv d Lf R C s0 (ns_frame s' + d) s' \<and> ns_local_port s' = ns_local_port s \<and>
        ns_frame s' \<le> ns_frame s + length (x # xs) \<and>
        (ns_frame s' = ns_frame s + length (x # xs) \<longrightarrow> (\<forall>k < length (x # xs). Lf (ns_frame s + k + d) = (x # xs) ! k))"
    proof -
      have "ns_live s' \<Longrightarrow> ns_frame s' \<le> ns_frame s + length (x # xs)"
        using IH(2) le1(2) by auto
      then show ?thesis
        using IH(2) [unfolded s1(2)] all by blast
    qed
    have eqs: "ns_log ra tr (x # xs) s L = Lf" "ns_run ra tr (x # xs) s = Some s'"
      using True IH(1) log run by (simp_all only: Lf_def if_True)
    show ?thesis
      unfolding eqs using live old IH(4) [unfolded s1(2)] by blast
  qed
qed

end

section \<open>What a session sends\<close>

text \<open>Independently of what it receives, a session sends its own inputs and checksums.\<close>

definition own_input_msg :: "('r, 't) NetSession \<Rightarrow> rp_input_state \<Rightarrow> bytes" where
  "own_input_msg s x =
     encode_input \<lparr>i_frame = of_nat (wrap64 (ns_frame s + unat (ns_delay s))),
                   i_port = ucast (ns_local_port s), i_state = x\<rparr>"

definition ns_ids :: "('r, 't) NetSession \<Rightarrow> _" where
  "ns_ids s = (ns_local_port s, ns_remote_port s, ns_delay s)"

context message_stream
begin

lemma ns_advance_trace:
  assumes "ns_live (ns_advance ra tr s)"
  shows "ns_frame (ns_advance ra tr s) = wrap64 (ns_frame s + 1) \<and> ns_ids (ns_advance ra tr s) = ns_ids s \<and>
    (\<exists>c. outbox (ns_t (ns_advance ra tr s)) = outbox (ns_t s) @ c \<and> set c \<subseteq> range encode_checksum)"
proof -
  define s1 where "s1 = ns_apply ra s"
  have s1: "ns_frame s1 = ns_frame s" "ns_ids s1 = ns_ids s" "ns_t s1 = ns_t s" "ns_status s1 = ns_status s"
    by (simp_all add: s1_def ns_apply_def ns_ids_def Let_def)
  obtain s2 sent where s2: "ns_checksum ra tr s1 = (s2, sent)"
    by fastforce
  have c: "ns_frame s2 = ns_frame s \<and> ns_ids s2 = ns_ids s \<and>
      (sent \<longrightarrow> (\<exists>c. outbox (ns_t s2) = outbox (ns_t s) @ c \<and> set c \<subseteq> range encode_checksum)) \<and>
      (\<not> sent \<longrightarrow> ns_status s2 = NetDisconnected)"
    using s2 s1 send_outbox
    by (auto simp: ns_checksum_def ns_send_def ns_ids_def Let_def split: if_splits prod.splits sum.splits)
  have "ns_advance ra tr s = (if \<not> sent then s2
      else if crc_mismatch (ns_own_crc s2) (ns_peer_crc s2) then s2\<lparr>ns_status := NetDesync\<rparr>
      else (ns_prune s2)\<lparr>ns_frame := wrap64 (ns_frame s2 + 1), ns_status := NetOk\<rparr>)"
    by (simp add: ns_advance_def s1_def [symmetric] s2 ns_prune_def Let_def)
  with assms(1) c show ?thesis
    by (auto simp: ns_prune_def ns_ids_def ns_live_def Let_def split: if_splits)
qed

lemma ns_tick_trace:
  assumes "ns_tick ra tr x s = Some s'" "ns_live s'"
  shows "(ns_frame s' = ns_frame s \<or> ns_frame s' = wrap64 (ns_frame s + 1)) \<and> ns_ids s' = ns_ids s \<and>
    (\<exists>c. outbox (ns_t s') = outbox (ns_t s) @ own_input_msg s x # c \<and> set c \<subseteq> range encode_checksum)"
proof -
  define s1 where "s1 = ns_tick_send tr x s"
  have run: "ns_tick_recv_and_advance ra tr s1 = Some s'"
    using assms(1) by (simp add: ns_tick_def s1_def)
  have st1: "ns_status s1 \<noteq> NetDisconnected"
    using run assms(2) by (auto simp: ns_tick_recv_and_advance_def ns_live_def)
  have s1: "ns_frame s1 = ns_frame s" "ns_ids s1 = ns_ids s"
      "outbox (ns_t s1) = outbox (ns_t s) @ [own_input_msg s x]"
    using st1 send_outbox
    by (auto simp: s1_def ns_tick_send_def ns_send_def own_input_msg_def ns_ids_def Let_def
        split: if_splits prod.splits)
  obtain s2 b where w: "ns_wait tr s1 = Some (s2, b)" "ns_core s2 = ns_core s1"
      "outbox (ns_t s2) = outbox (ns_t s1)"
      "if b then ns_status s2 = ns_status s1 else ns_status s2 = NetWaiting \<or> ns_status s2 = NetDisconnected"
    using ns_wait_returns [of s1] by (metis (full_types))
  have "s' = ns_advance ra tr s1 \<or> s' = ns_advance ra tr s2 \<or> s' = s2"
    using run st1 w by (auto simp: ns_tick_recv_and_advance_def split: if_splits)
  moreover have "ns_frame s2 = ns_frame s" "ns_ids s2 = ns_ids s"
    using w(2) s1 by (simp_all add: ns_core_def ns_ids_def)
  ultimately show ?thesis
    using ns_advance_trace [of ra s1] ns_advance_trace [of ra s2] s1 w(3) assms(2) by auto
qed

lemma ns_run_trace:
  assumes "ns_run ra tr xs s = Some s'" "ns_live s'" "ns_steady ra tr L xs s"
    and "ns_frame s + length xs + unat (ns_delay s) < 2 ^ 64"
  shows "\<exists>ms. outbox (ns_t s') = outbox (ns_t s) @ ms \<and>
    set ms \<subseteq> {encode_input \<lparr>i_frame = of_nat f, i_port = ucast (ns_local_port s), i_state = L f\<rparr> | f.
                  unat (ns_delay s) \<le> f \<and> f < 2 ^ 64} \<union> range encode_checksum"
  using assms
proof (induction xs arbitrary: s)
  case Nil
  then show ?case by simp
next
  case (Cons x xs)
  then obtain s1 where s1: "ns_tick ra tr x s = Some s1" "ns_live s1" "ns_run ra tr xs s1 = Some s'"
      "ns_steady ra tr L xs s1" "x = L (ns_frame s + unat (ns_delay s))"
    by (auto split: option.splits if_splits)
  from ns_tick_trace [OF s1(1,2)] Cons.prems(4) obtain c where
    c: "ns_frame s1 = ns_frame s \<or> ns_frame s1 = Suc (ns_frame s)" "ns_ids s1 = ns_ids s"
       "set c \<subseteq> range encode_checksum" "outbox (ns_t s1) = outbox (ns_t s) @ own_input_msg s x # c"
    by (auto simp: wrap64_def)
  have ids: "ns_delay s1 = ns_delay s" "ns_local_port s1 = ns_local_port s"
    using c(2) by (simp_all add: ns_ids_def)
  from Cons.IH [OF s1(3) Cons.prems(2) s1(4)] Cons.prems(4) c(1) ids obtain ms where
    ms: "outbox (ns_t s') = outbox (ns_t s1) @ ms"
      "set ms \<subseteq> {encode_input \<lparr>i_frame = of_nat f, i_port = ucast (ns_local_port s), i_state = L f\<rparr> | f.
          unat (ns_delay s) \<le> f \<and> f < 2 ^ 64} \<union> range encode_checksum"
    by auto
  have "own_input_msg s x \<in> {encode_input \<lparr>i_frame = of_nat f, i_port = ucast (ns_local_port s), i_state = L f\<rparr> | f.
      unat (ns_delay s) \<le> f \<and> f < 2 ^ 64}"
    using Cons.prems(4) s1(5)
    by (intro CollectI exI [of _ "ns_frame s + unat (ns_delay s)"]) (simp add: own_input_msg_def wrap64_def)
  with ms c(3,4) show ?case
    by (intro exI [of _ "own_input_msg s x # c @ ms"]) auto
qed

lemma ns_run_sends_first:
  assumes "ns_run ra tr (x # xs) s = Some s'" "ns_live s'"
  shows "\<exists>c. outbox (ns_t s') = outbox (ns_t s) @ own_input_msg s x # c"
proof -
  have more: "\<exists>c. outbox (ns_t s') = outbox (ns_t s) @ c" if "ns_run ra tr xs s = Some s'" for s
    using that assms(2)
  proof (induction xs arbitrary: s)
    case (Cons y ys)
    then obtain s1 where "ns_tick ra tr y s = Some s1" "ns_live s1" "ns_run ra tr ys s1 = Some s'"
      by (auto split: option.splits if_splits)
    with ns_tick_trace Cons.IH [of s1] Cons.prems(2) show ?case by fastforce
  qed simp
  from assms obtain s1 where "ns_tick ra tr x s = Some s1" "ns_live s1" "ns_run ra tr xs s1 = Some s'"
    by (auto split: option.splits if_splits)
  with ns_tick_trace [of ra x s s1] more [of s1] show ?thesis by fastforce
qed

end

section \<open>Correctness of lockstep\<close>

text \<open>A session as \<open>start_host\<close> and \<open>start_join\<close> leave it.\<close>

definition ns_fresh :: "u32 \<Rightarrow> u32 \<Rightarrow> ('r, 't) NetSession \<Rightarrow> bool" where
  "ns_fresh lp d s \<longleftrightarrow>
     (lp = 0 \<or> lp = 1) \<and> ns_local_port s = lp \<and> ns_remote_port s = 1 - lp \<and> ns_delay s = d \<and>
     ns_frame s = 0 \<and> ns_status s = NetOk \<and> ns_local_pending s = [] \<and> ns_remote_pending s = [] \<and>
     ns_own_crc s = [] \<and> ns_peer_crc s = []"

text \<open>The inputs of a peer by the frame they apply to.\<close>

definition from_frame :: "nat \<Rightarrow> rp_input_state list \<Rightarrow> nat \<Rightarrow> rp_input_state" where
  "from_frame d xs f = xs ! (f - d)"

context lockstep_net
begin

lemma ns_fresh_inv:
  assumes "ns_fresh lp d s" "good (ns_rt s)" "honest_inputs (unat d) R (inbox (ns_t s))"
    "honest_checksums C (inbox (ns_t s))"
  shows "ns_inv (unat d) L R C (st (ns_rt s)) (ns_frame s + unat d) s"
  using assms
  by (auto simp: ns_inv_def ns_fresh_def ports_ok_def local_inv_def remote_inv_def)

lemma fresh_run:
  fixes L :: "nat \<Rightarrow> rp_input_state"
  assumes "ns_fresh lp d s" "good (ns_rt s)" "honest_inputs (unat d) R (inbox (ns_t s))"
    "honest_checksums C (inbox (ns_t s))" "length xs + unat d < 2 ^ 64"
  defines "Lt \<equiv> ns_log ra tr xs s L"
  shows "\<exists>s'. ns_run ra tr xs s = Some s' \<and>
     (ns_live s' \<longrightarrow> ns_frame s' \<le> length xs \<and>
        st (ns_rt s') = replay step lp (unat d) Lt R (ns_frame s') (st (ns_rt s)) \<and>
        (ns_frame s' = length xs \<longrightarrow> (\<forall>k < length xs. Lt (k + unat d) = xs ! k))) \<and>
     ((\<forall>f c. C f c \<longrightarrow> c = crc32 (enc (replay step lp (unat d) Lt R (Suc f) (st (ns_rt s))))) \<longrightarrow>
        ns_status s' \<noteq> NetDesync)"
proof -
  have f: "ns_frame s = 0" "ns_local_port s = lp" "ns_live s"
    using assms(1) by (simp_all add: ns_fresh_def ns_live_def)
  from ns_run_inv [OF ns_fresh_inv [OF assms(1-4), of L] _ f(3), of xs] assms(5) f(1,2)
  show ?thesis
    unfolding Lt_def [symmetric] by (auto simp: ns_inv_def crc_at_def)
qed

lemma replay_from_frame:
  assumes "\<forall>k < n. L (k + d) = xs ! k"
  shows "replay step lp d L R n s = replay step lp d (from_frame d xs) R n s"
proof -
  have "input_pair lp d L R f = input_pair lp d (from_frame d xs) R f" if "f < n" for f
    using assms [rule_format, of "f - d"] that
    by (cases "f < d") (simp_all add: input_pair_def delayed_def from_frame_def)
  then have "map (input_pair lp d L R) [0..<n] = map (input_pair lp d (from_frame d xs) R) [0..<n]"
    by simp
  then show ?thesis by (simp only: replay_def)
qed

end

interpretation rcnet: lockstep_net
  "runtime_api env now" "rt_simulating rc_abi" "rt_view rc_acc" rt_port rc_step "le_bytes 4"
  scripted_loopback scripted_inbox scripted_outbox
  by (rule lockstep_net.intro) (rule rcsim.sim_runtime_axioms sl.message_stream_axioms)+

lemma ingest_own:
  "wf_input (i_state i) \<Longrightarrow> ingest_input (encode_input i) = Some (unat (i_frame i), i_state i)"
  "ingest_input (encode_checksum c) = None"
  "ingest_checksum (encode_checksum c) = Some (unat (c_frame c), c_crc c)"
  "ingest_checksum (encode_input i) = None"
  by (simp_all add: ingest_input_def ingest_checksum_def wire_simps)

lemma trace_honest:
  assumes "set ms \<subseteq> {encode_input \<lparr>i_frame = of_nat f, i_port = p, i_state = L f\<rparr> | f. d \<le> f \<and> f < 2 ^ 64}
      \<union> range encode_checksum" and "\<And>f. wf_input (L f)"
  shows "honest_inputs d L ms"
  unfolding honest_inputs_def
proof (intro ballI allI impI)
  fix m f i
  assume m: "m \<in> set ms" and ing: "ingest_input m = Some (f, i)"
  with assms(1) obtain k where k: "d \<le> k" "k < 2 ^ 64"
      "m = encode_input \<lparr>i_frame = of_nat k, i_port = p, i_state = L k\<rparr>"
    by (auto simp: ingest_own)
  then show "d \<le> f \<and> i = L f"
    using ing assms(2) by (auto simp: ingest_own unat_of_nat_u64)
qed

text \<open>
  C3. Lockstep runs deterministically: a fresh session over any simulating runtime and any message
  stream, whose peer's inputs agree with some schedule \<open>R\<close>, returns from every tick. It is ticked with
  local inputs \<open>xs\<close>, whatever they are, on after a \<open>Waiting\<close> tick and until \<open>Desync\<close> or \<open>Disconnected\<close>;
  while neither is reported the core is in exactly the state that replaying the completed frames
  gives, each with the delayed local input (the one the last tick for that frame was given) on the
  local port and the peer's input for the frame on the other, and neutral inputs before frame
  \<open>delay_\<close>. When every tick completed a frame the local inputs are \<open>xs\<close> in order. If moreover every
  checksum received is that of this replay, no desync is ever reported.
\<close>

theorem lockstep_replay:
  assumes "sim_runtime ra good st inp step enc" and "message_stream tr inbox outbox"
    and "ns_fresh lp d s" and "good (ns_rt s)" and "honest_inputs (unat d) R (inbox (ns_t s))"
    and "length xs + unat d < 2 ^ 64"
  shows "\<exists>s'. ns_run ra tr xs s = Some s' \<and>
     (ns_live s' \<longrightarrow> ns_frame s' \<le> length xs \<and>
        st (ns_rt s') = replay step lp (unat d) (ns_log ra tr xs s L) R (ns_frame s') (st (ns_rt s)) \<and>
        (ns_frame s' = length xs \<longrightarrow>
           st (ns_rt s') = replay step lp (unat d) (from_frame (unat d) xs) R (length xs) (st (ns_rt s)))) \<and>
     (honest_checksums (\<lambda>f c. c = crc32 (enc (replay step lp (unat d) (ns_log ra tr xs s L) R (Suc f)
          (st (ns_rt s))))) (inbox (ns_t s)) \<longrightarrow> ns_status s' \<noteq> NetDesync)"
proof -
  note net = lockstep_net.intro [OF assms(1,2)]
  have "honest_checksums (\<lambda>_ _. True) (inbox (ns_t s))"
    by (simp add: honest_checksums_def)
  from lockstep_net.fresh_run [OF net assms(3-5) this assms(6), of L]
  obtain s' where s': "ns_run ra tr xs s = Some s'"
    "ns_live s' \<longrightarrow> ns_frame s' \<le> length xs \<and>
        st (ns_rt s') = replay step lp (unat d) (ns_log ra tr xs s L) R (ns_frame s') (st (ns_rt s)) \<and>
        (ns_frame s' = length xs \<longrightarrow> (\<forall>k < length xs. ns_log ra tr xs s L (k + unat d) = xs ! k))"
    by blast
  have "st (ns_rt s') = replay step lp (unat d) (from_frame (unat d) xs) R (length xs) (st (ns_rt s))"
    if "ns_live s'" "ns_frame s' = length xs"
    using s'(2) that lockstep_net.replay_from_frame [OF net, of "length xs" "ns_log ra tr xs s L" "unat d" xs] by simp
  moreover have "ns_status s' \<noteq> NetDesync"
    if "honest_checksums (\<lambda>f c. c = crc32 (enc (replay step lp (unat d) (ns_log ra tr xs s L) R (Suc f)
          (st (ns_rt s))))) (inbox (ns_t s))"
    using lockstep_net.fresh_run [OF net assms(3-5) that assms(6), of L] s'(1) by auto
  ultimately show ?thesis
    using s' by (intro exI [of _ s'] conjI) blast+
qed

text \<open>
  C4. Two lockstep peers agree: if a host and a joiner with the same delay start from equal core
  states, each receives only what the other sent, in order (a reliable transport), and each player
  still holds the same input whenever a frame that waited for the peer is retried, then once both
  have completed the same number of frames, however many ticks waited in between, and neither has
  reported \<open>Desync\<close> or \<open>Disconnected\<close>, their cores are in the same state. The retry condition is the
  caller's: the session itself takes what each tick gives it.
\<close>

theorem lockstep_peers_agree:
  assumes "sim_runtime ra good st inp step enc" and "message_stream tr inbox outbox"
    and "sim_runtime ra' good' st' inp' step enc'" and "message_stream tr' inbox' outbox'"
    and "ns_fresh 0 d a" and "good (ns_rt a)" and "ns_fresh 1 d b" and "good' (ns_rt b)"
    and "st (ns_rt a) = st' (ns_rt b)"
    and "\<And>f. wf_input (La f)" and "\<And>f. wf_input (Lb f)"
    and "length xs + unat d < 2 ^ 64" and "length ys + unat d < 2 ^ 64"
    and "ns_run ra tr xs a = Some a'" and "ns_run ra' tr' ys b = Some b'"
    and "ns_steady ra tr La xs a" and "ns_steady ra' tr' Lb ys b"
    and "outbox' (ns_t b') = outbox' (ns_t b) @ inbox (ns_t a) @ rest"
    and "outbox (ns_t a') = outbox (ns_t a) @ inbox' (ns_t b) @ rest'"
    and "ns_live a'" and "ns_live b'" and "ns_frame a' = ns_frame b'"
  shows "st (ns_rt a') = st' (ns_rt b')"
proof -
  have fa: "ns_frame a = 0" "ns_delay a = d" "ns_frame b = 0" "ns_delay b = d"
    using assms(5,7) by (simp_all add: ns_fresh_def)
  from message_stream.ns_run_trace [OF assms(4,15,21,17)] fa assms(13) obtain mb where
    mb: "outbox' (ns_t b') = outbox' (ns_t b) @ mb"
      "set mb \<subseteq> {encode_input \<lparr>i_frame = of_nat f, i_port = ucast (ns_local_port b), i_state = Lb f\<rparr> | f.
          unat d \<le> f \<and> f < 2 ^ 64} \<union> range encode_checksum"
    by auto
  from message_stream.ns_run_trace [OF assms(2,14,20,16)] fa assms(12) obtain ma where
    ma: "outbox (ns_t a') = outbox (ns_t a) @ ma"
      "set ma \<subseteq> {encode_input \<lparr>i_frame = of_nat f, i_port = ucast (ns_local_port a), i_state = La f\<rparr> | f.
          unat d \<le> f \<and> f < 2 ^ 64} \<union> range encode_checksum"
    by auto
  have "set (inbox (ns_t a)) \<subseteq> set mb" "set (inbox' (ns_t b)) \<subseteq> set ma"
    using mb(1) ma(1) assms(18,19) by auto
  then have ha: "honest_inputs (unat d) Lb (inbox (ns_t a))" and hb: "honest_inputs (unat d) La (inbox' (ns_t b))"
    using trace_honest [OF mb(2) assms(11)] trace_honest [OF ma(2) assms(10)] by (auto simp: honest_inputs_def)
  have c: "honest_checksums (\<lambda>_ _. True) ms" for ms
    by (simp add: honest_checksums_def)
  have "st (ns_rt a') = replay step 0 (unat d) La Lb (ns_frame a') (st (ns_rt a))"
    using lockstep_net.fresh_run [OF lockstep_net.intro [OF assms(1,2)] assms(5,6) ha c assms(12), of La]
      ns_log_steady [OF assms(16)] assms(14,20) by auto
  moreover have "st' (ns_rt b') = replay step 1 (unat d) Lb La (ns_frame b') (st' (ns_rt b))"
    using lockstep_net.fresh_run [OF lockstep_net.intro [OF assms(3,4)] assms(7,8) hb c assms(13), of Lb]
      ns_log_steady [OF assms(17)] assms(15,21) by auto
  moreover have "input_pair 1 (unat d) L R = input_pair 0 (unat d) R L" for L R
    by (rule ext) (simp add: input_pair_def)
  ultimately show ?thesis
    using assms(9,22) by (simp add: replay_def)
qed

context lockstep_net
begin

text \<open>With the remote input on file and no checksum received, the rest of a tick needs only its sends.\<close>

lemma ns_advance_ok:
  assumes "good (ns_rt s)" "ports_ok s" "ns_peer_crc s = []" "\<And>m. snd (tr_send tr (ns_t s) m) = RP_OK"
  shows "ns_status (ns_advance ra tr s) = NetOk"
proof -
  have p: "ns_local_port s = 0 \<and> ns_remote_port s = 1 \<or> ns_local_port s = 1 \<and> ns_remote_port s = 0"
    using assms(2) by (simp add: ports_ok_def)
  have "good (ns_rt (ns_apply ra s))"
    using present_law [OF set_both_ports(1) [OF assms(1) p]] by (simp add: ns_apply_def Let_def)
  from ra_snapshot_good [OF this] obtain rt where
    rt: "ra_snapshot ra (ns_rt (ns_apply ra s)) = (rt, Inr (enc (st (ns_rt (ns_apply ra s)))))"
    by blast
  have fs: "ns_t (ns_apply ra s) = ns_t s" "ns_peer_crc (ns_apply ra s) = []"
    using assms(3) by (simp_all add: ns_apply_def Let_def)
  have none: "crc_mismatch own [] = False" for own
    by (auto simp: crc_mismatch_def list_ex_iff)
  show ?thesis
    using rt fs assms(4)
    by (simp add: ns_advance_def ns_checksum_def ns_send_def none split_beta Let_def)
qed

end

section \<open>Concrete sessions\<close>

text \<open>A session without input delay whose transport delivers the given batches of messages.\<close>

definition demo_session ::
  "side \<Rightarrow> u32 \<Rightarrow> bytes list list \<Rightarrow> ((RollbackCore, unit) Runtime, scripted_endpoint) NetSession" where
  "demo_session side lp ms =
     (NetSession_new rc_rt \<lparr>se_side = side, se_pair = make_loopback_pair, se_script = map (map Peer_push) ms\<rparr>)
       \<lparr>ns_local_port := lp, ns_remote_port := 1 - lp, ns_delay := 0\<rparr>"

definition press_x :: rp_input_state where
  "press_x = neutral_input\<lparr>keys := (replicate 256 0)[88 := 1]\<rparr>"

lemma wf_press_x [simp]: "wf_input press_x"
  by (simp add: press_x_def wf_input_def neutral_input_def)

lemma rc_rt_simulating: "rt_simulating rc_abi rc_rt"
  using rc_rt_driving rc_rt_loaded by (simp add: rt_simulating_def)

lemmas demo_link_defs = NetSession_new_def make_loopback_pair_def Channel_new_def in_ch_def set_in_ch_def
  scripted_send_def scripted_recv_def loopback_send_def loopback_recv_def lb_send_def lb_recv_def
  lb_pop_def peer_batch_def chan_events_def scripted_loopback_def

lemma demo_session_facts:
  assumes "lp = 0 \<or> lp = 1"
  shows "ns_fresh lp 0 (demo_session side lp ms)" "ns_rt (demo_session side lp ms) = rc_rt"
  using assms by (simp_all add: demo_session_def NetSession_new_def ns_fresh_def)

lemma demo_session_boxes:
  "scripted_inbox (ns_t (demo_session side lp [[m]])) = [m]"
  "scripted_inbox (ns_t (demo_session side lp [[], [], [m]])) = [m]"
  "scripted_outbox (ns_t (demo_session side lp ms)) = []"
  by (cases side; simp add: demo_session_def scripted_inbox_def scripted_outbox_def demo_link_defs)+

definition demo_link :: "side \<Rightarrow> bytes list list \<Rightarrow> scripted_endpoint \<Rightarrow> bool" where
  "demo_link side ms t \<longleftrightarrow> se_side t = side \<and> se_script t = map (map Peer_push) ms \<and>
     ch_open (out_ch side (se_pair t)) \<and> ch_open (in_ch side (se_pair t)) \<and> ch_q (in_ch side (se_pair t)) = []"

lemma demo_link_new: "demo_link side ms (ns_t (demo_session side lp ms))"
  by (cases side) (simp_all add: demo_session_def demo_link_def demo_link_defs)

lemma demo_link_send:
  "demo_link side ms t \<Longrightarrow> \<exists>t'. tr_send scripted_loopback t m = (t', RP_OK) \<and> demo_link side ms t'"
  by (cases side) (auto simp: demo_link_def demo_link_defs)

lemma demo_link_timeout:
  "demo_link side ([] # [] # ms) t \<Longrightarrow>
     \<exists>t'. tr_recv scripted_loopback t True w = (t', Inl RP_ERR_TIMEOUT) \<and> demo_link side ms t'"
  by (cases side) (auto simp: demo_link_def demo_link_defs)

lemma demo_link_recv:
  "demo_link side ([m] # ms) t \<Longrightarrow>
     \<exists>t'. tr_recv scripted_loopback t True w = (t', Inr m) \<and> demo_link side ms t'"
  by (cases side) (auto simp: demo_link_def demo_link_defs)

text \<open>Such a session before it has completed its first frame.\<close>

definition demo_waiting ::
  "side \<Rightarrow> u32 \<Rightarrow> bytes list list \<Rightarrow> ((RollbackCore, unit) Runtime, scripted_endpoint) NetSession \<Rightarrow> bool" where
  "demo_waiting side lp ms s \<longleftrightarrow> ns_rt s = rc_rt \<and> ns_local_port s = lp \<and> ns_remote_port s = 1 - lp \<and>
     ns_delay s = 0 \<and> ns_frame s = 0 \<and> ns_live s \<and> ns_remote_pending s = [] \<and> ns_peer_crc s = [] \<and>
     demo_link side ms (ns_t s)"

lemma demo_tick_send:
  assumes "demo_waiting side lp ms s"
  shows "demo_waiting side lp ms (ns_tick_send scripted_loopback x s)"
proof -
  obtain t where "tr_send scripted_loopback (ns_t s)
      (encode_input \<lparr>i_frame = 0, i_port = ucast lp, i_state = x\<rparr>) = (t, RP_OK)" "demo_link side ms t"
    using demo_link_send assms by (fastforce simp: demo_waiting_def)
  with assms show ?thesis
    by (auto simp: demo_waiting_def ns_tick_send_def ns_send_def wrap64_def ns_live_def Let_def)
qed

lemma demo_tick_waits:
  assumes "demo_waiting side lp ([] # [] # ms) s"
  shows "\<exists>s'. ns_tick ra scripted_loopback x s = Some s' \<and> demo_waiting side lp ms s'"
proof -
  define s1 where "s1 = ns_tick_send scripted_loopback x s"
  have s1: "demo_waiting side lp ([] # [] # ms) s1"
    unfolding s1_def by (rule demo_tick_send [OF assms])
  then obtain t where "tr_recv scripted_loopback (ns_t s1) True kRecvTimeoutMs = (t, Inl RP_ERR_TIMEOUT)"
      "demo_link side ms t"
    using demo_link_timeout by (fastforce simp: demo_waiting_def)
  with s1 show ?thesis
    by (auto simp: ns_tick_def s1_def [symmetric] ns_tick_recv_and_advance_def demo_waiting_def ns_live_def
        ns_wait.simps [of _ s1] ns_recv_def)
qed

lemma demo_tick_ok:
  fixes p :: u8
  assumes "demo_waiting side lp ([encode_input \<lparr>i_frame = 0, i_port = p, i_state = i\<rparr>] # ms) s"
    and "lp = 0 \<or> lp = 1" "wf_input i"
  shows "\<exists>s'. ns_tick (runtime_api (demo_env []) 1) scripted_loopback x s = Some s' \<and> ns_status s' = NetOk \<and> ns_frame s' = 1"
proof -
  define s1 where "s1 = ns_tick_send scripted_loopback x s"
  have s1: "demo_waiting side lp ([encode_input \<lparr>i_frame = 0, i_port = p, i_state = i\<rparr>] # ms) s1"
    unfolding s1_def by (rule demo_tick_send [OF assms(1)])
  then obtain t where
    t: "tr_recv scripted_loopback (ns_t s1) True kRecvTimeoutMs = (t, Inr (encode_input \<lparr>i_frame = 0, i_port = p, i_state = i\<rparr>))"
      "demo_link side ms t"
    using demo_link_recv by (fastforce simp: demo_waiting_def)
  define s2 where "s2 = ns_ingest (encode_input \<lparr>i_frame = 0, i_port = p, i_state = i\<rparr>) (s1\<lparr>ns_t := t\<rparr>)"
  have s2: "om_find (ns_remote_pending s2) (ns_frame s2) = Some i" "ns_t s2 = t" "ns_rt s2 = rc_rt" "ns_frame s2 = 0"
      "ns_peer_crc s2 = []" "ns_local_port s2 = lp" "ns_remote_port s2 = 1 - lp"
    using s1 assms(3) by (simp_all add: s2_def ns_ingest_def ingest_own om_ingest_def demo_waiting_def om_find_def)
  have "ns_wait scripted_loopback s1 = ns_wait scripted_loopback s2"
    using s1 t(1) by (subst ns_wait.simps) (simp add: demo_waiting_def ns_recv_def s2_def)
  also have "ns_wait scripted_loopback s2 = Some (s2, True)"
    using s2(1) by (subst ns_wait.simps) simp
  finally have tick: "ns_tick (runtime_api (demo_env []) 1) scripted_loopback x s =
      Some (ns_advance (runtime_api (demo_env []) 1) scripted_loopback s2)"
    using s1 by (auto simp: ns_tick_def s1_def [symmetric] ns_tick_recv_and_advance_def demo_waiting_def ns_live_def)
  have "snd (tr_send scripted_loopback (ns_t s2) m) = RP_OK" for m
    using demo_link_send [OF t(2), of m] s2(2) by auto
  then have st: "ns_status (ns_advance (runtime_api (demo_env []) 1) scripted_loopback s2) = NetOk"
    using s2 rc_rt_simulating assms(2) by (intro rcnet.ns_advance_ok) (auto simp: rcnet.ports_ok_def)
  moreover have "ns_frame (ns_advance (runtime_api (demo_env []) 1) scripted_loopback s2) = 1"
    using sl.ns_advance_trace [of "runtime_api (demo_env []) 1" s2] st s2(4) by (simp add: ns_live_def wrap64_def)
  ultimately show ?thesis
    using tick by auto
qed

lemma demo_waiting_new: "demo_waiting side lp ms (demo_session side lp ms)"
  using demo_link_new [of side ms lp]
  by (simp add: demo_waiting_def demo_session_def NetSession_new_def ns_live_def)

text \<open>One session hears from its peer at the first tick, the other only at the second, a retry.\<close>

lemma demo_run_ok:
  fixes p :: u8
  assumes "lp = 0 \<or> lp = 1" "wf_input i"
  defines "ra \<equiv> runtime_api (demo_env []) 1" and "m \<equiv> encode_input \<lparr>i_frame = 0, i_port = p, i_state = i\<rparr>"
  shows "\<exists>s'. ns_run ra scripted_loopback [x] (demo_session side lp [[m]]) = Some s' \<and>
      ns_steady ra scripted_loopback (\<lambda>f. x) [x] (demo_session side lp [[m]]) \<and> ns_live s' \<and> ns_frame s' = 1"
    and "\<exists>s'. ns_run ra scripted_loopback [x, x] (demo_session side lp [[], [], [m]]) = Some s' \<and>
      ns_steady ra scripted_loopback (\<lambda>f. x) [x, x] (demo_session side lp [[], [], [m]]) \<and> ns_live s' \<and> ns_frame s' = 1"
proof -
  from demo_tick_ok [OF demo_waiting_new [of side lp "[[m]]", unfolded m_def] assms(1,2), of x]
  show "\<exists>s'. ns_run ra scripted_loopback [x] (demo_session side lp [[m]]) = Some s' \<and>
      ns_steady ra scripted_loopback (\<lambda>f. x) [x] (demo_session side lp [[m]]) \<and> ns_live s' \<and> ns_frame s' = 1"
    by (auto simp: ra_def m_def ns_live_def)
  obtain s1 where s1: "ns_tick ra scripted_loopback x (demo_session side lp [[], [], [m]]) = Some s1"
      "demo_waiting side lp [[m]] s1"
    using demo_tick_waits [OF demo_waiting_new] by blast
  from demo_tick_ok [OF s1(2) [unfolded m_def] assms(1,2), of x] s1
  show "\<exists>s'. ns_run ra scripted_loopback [x, x] (demo_session side lp [[], [], [m]]) = Some s' \<and>
      ns_steady ra scripted_loopback (\<lambda>f. x) [x, x] (demo_session side lp [[], [], [m]]) \<and> ns_live s' \<and> ns_frame s' = 1"
    by (auto simp: ra_def ns_live_def demo_waiting_def)
qed

theorem lockstep_replay_witness:
  "\<exists>s'. ns_run (runtime_api (demo_env []) 1) scripted_loopback [press_x]
       (demo_session SideA 0 [[encode_input \<lparr>i_frame = 0, i_port = 1, i_state = neutral_input\<rparr>]]) = Some s' \<and>
     ns_frame s' = 1 \<and>
     rt_view rc_acc (ns_rt s') = replay rc_step 0 0 (from_frame 0 [press_x]) (\<lambda>_. neutral_input) 1 0 \<and>
     ns_status s' \<noteq> NetDesync"
proof -
  let ?m = "encode_input \<lparr>i_frame = 0, i_port = 1, i_state = neutral_input\<rparr>"
  let ?s = "demo_session SideA 0 [[?m]]" and ?ra = "runtime_api (demo_env []) 1"
  have f: "ns_fresh 0 0 ?s" "rt_simulating rc_abi (ns_rt ?s)" "rt_view rc_acc (ns_rt ?s) = 0"
      "scripted_inbox (ns_t ?s) = [?m]"
    using demo_session_facts [of 0 SideA] rc_rt_simulating rc_rt_view demo_session_boxes by simp_all
  have h: "honest_inputs (unat (0 :: u32)) (\<lambda>_. neutral_input) (scripted_inbox (ns_t ?s))"
    "honest_checksums C (scripted_inbox (ns_t ?s))" for C
    using f(4) by (simp_all add: honest_inputs_def honest_checksums_def ingest_own)
  obtain s' where s': "ns_run ?ra scripted_loopback [press_x] ?s = Some s'" "ns_live s'" "ns_frame s' = 1"
    using demo_run_ok(1) [of 0 neutral_input press_x SideA 1] by auto
  from lockstep_replay [OF rcsim.sim_runtime_axioms [of "demo_env []" 1] sl.message_stream_axioms f(1,2) h(1),
      of "[press_x]"] s' h(2) f(3)
  show ?thesis by (auto simp del: ns_run.simps)
qed

theorem lockstep_peers_agree_witness:
  "\<exists>a b. ns_run (runtime_api (demo_env []) 1) scripted_loopback [press_x, press_x]
       (demo_session SideA 0 [[], [], [encode_input \<lparr>i_frame = 0, i_port = 1, i_state = neutral_input\<rparr>]]) = Some a \<and>
     ns_run (runtime_api (demo_env []) 1) scripted_loopback [neutral_input]
       (demo_session SideB 1 [[encode_input \<lparr>i_frame = 0, i_port = 0, i_state = press_x\<rparr>]]) = Some b \<and>
     ns_frame a = 1 \<and> ns_frame b = 1 \<and> rt_view rc_acc (ns_rt a) = rt_view rc_acc (ns_rt b)"
proof -
  let ?ra = "runtime_api (demo_env []) 1"
  let ?a = "demo_session SideA 0 [[], [], [encode_input \<lparr>i_frame = 0, i_port = 1, i_state = neutral_input\<rparr>]]"
  let ?b = "demo_session SideB 1 [[encode_input \<lparr>i_frame = 0, i_port = 0, i_state = press_x\<rparr>]]"
  have fa: "ns_fresh 0 0 ?a" "rt_simulating rc_abi (ns_rt ?a)" and fb: "ns_fresh 1 0 ?b" "rt_simulating rc_abi (ns_rt ?b)"
    and eq: "rt_view rc_acc (ns_rt ?a) = rt_view rc_acc (ns_rt ?b)"
    using demo_session_facts [of 0 SideA] demo_session_facts [of 1 SideB] rc_rt_simulating by simp_all
  obtain a where a: "ns_run ?ra scripted_loopback [press_x, press_x] ?a = Some a"
      "ns_steady ?ra scripted_loopback (\<lambda>f. press_x) [press_x, press_x] ?a" "ns_live a" "ns_frame a = 1"
    using demo_run_ok(2) [of 0 neutral_input press_x SideA 1] by auto
  obtain b where b: "ns_run ?ra scripted_loopback [neutral_input] ?b = Some b"
      "ns_steady ?ra scripted_loopback (\<lambda>f. neutral_input) [neutral_input] ?b" "ns_live b" "ns_frame b = 1"
    using demo_run_ok(1) [of 1 press_x neutral_input SideB 0] by auto
  obtain c where c: "scripted_outbox (ns_t a) = scripted_outbox (ns_t ?a) @
      [encode_input \<lparr>i_frame = 0, i_port = 0, i_state = press_x\<rparr>] @ c"
    using sl.ns_run_sends_first [OF a(1,3)] fa(1) by (auto simp: ns_fresh_def own_input_msg_def wrap64_def)
  obtain c' where c': "scripted_outbox (ns_t b) = scripted_outbox (ns_t ?b) @
      [encode_input \<lparr>i_frame = 0, i_port = 1, i_state = neutral_input\<rparr>] @ c'"
    using sl.ns_run_sends_first [OF b(1,3)] fb(1) by (auto simp: ns_fresh_def own_input_msg_def wrap64_def)
  have "rt_view rc_acc (ns_rt a) = rt_view rc_acc (ns_rt b)"
    by (rule lockstep_peers_agree [OF rcsim.sim_runtime_axioms sl.message_stream_axioms
          rcsim.sim_runtime_axioms sl.message_stream_axioms fa fb eq _ _ _ _ a(1) b(1) a(2) b(2),
          where rest = c' and rest' = c])
      (simp_all add: c c' demo_session_boxes a b)
  with a b show ?thesis by auto
qed

end
