(* ===== verification/RP_Rollback.thy ===== *)
theory RP_Rollback
  imports RP_Lockstep
begin

text \<open>
  Rollback netplay, \<open>src/net/RollbackPredict.{h,cpp}\<close> and \<open>src/net/RollbackSession.cpp\<close>: a peer never
  waits; it predicts the remote input, keeps the savestate of every recent frame, and when a real
  input differs from the prediction it reloads the state before that frame and re-simulates.

  The session has the fields of the class; frame numbers are natural numbers with the 64-bit
  wrap-around written where the source adds, and \<open>operator[]\<close> on a map inserts a default as in C++.
\<close>

section \<open>Prediction\<close>

definition UINT64_MAX :: nat where "UINT64_MAX = 2 ^ 64 - 1"

definition rb_input_equal :: "rp_input_state \<Rightarrow> rp_input_state \<Rightarrow> bool" where
  "rb_input_equal a b \<longleftrightarrow>
     keys a = keys b \<and> pad_axes a = pad_axes b \<and> pad_buttons a = pad_buttons b"

definition rb_predict :: "rp_input_state omap \<Rightarrow> nat \<Rightarrow> rp_input_state" where
  "rb_predict remote confirmed =
     (case om_find remote confirmed of Some i \<Rightarrow> i | None \<Rightarrow> neutral_input)"

definition rb_mispredicted :: "rp_input_state omap \<Rightarrow> rp_input_state omap \<Rightarrow> nat \<Rightarrow> bool" where
  "rb_mispredicted rl used f =
     (case om_find rl f of None \<Rightarrow> False
      | Some r \<Rightarrow> \<not> rb_input_equal r (case om_find used f of Some u \<Rightarrow> u | None \<Rightarrow> neutral_input))"

function rb_scan :: "rp_input_state omap \<Rightarrow> rp_input_state omap \<Rightarrow> nat \<Rightarrow> nat \<Rightarrow> nat" where
  "rb_scan rl used f to =
     (if rb_mispredicted rl used f then f
      else if to \<le> f then UINT64_MAX
      else rb_scan rl used (f + 1) to)"
  by pat_completeness auto
termination
  by (relation "measure (\<lambda>(rl, used, f, to). to - f)") auto

declare rb_scan.simps [simp del]

definition rb_first_mispredicted ::
  "rp_input_state omap \<Rightarrow> rp_input_state omap \<Rightarrow> nat \<Rightarrow> nat \<Rightarrow> nat" where
  "rb_first_mispredicted rl used from to =
     (if to < from then UINT64_MAX else rb_scan rl used from to)"

definition rb_prune_below :: "'v omap \<Rightarrow> nat \<Rightarrow> 'v omap" where
  "rb_prune_below m fl = om_drop_below fl m"

section \<open>State\<close>

datatype RbStatus = RbOk | RbStalled | RbDesync | RbDisconnected

record ('r, 't) RollbackSession =
  rb_rt :: 'r
  rb_t :: 't
  rb_local_port :: u32
  rb_remote_port :: u32
  rb_max_prediction :: u32
  rb_frame :: nat
  rb_confirmed :: nat
  rb_have_confirmed :: bool
  rb_verified :: nat
  rb_rollback_count :: nat
  rb_status :: RbStatus
  rb_ring :: "bytes omap"
  rb_local :: "rp_input_state omap"
  rb_remote :: "rp_input_state omap"
  rb_used :: "rp_input_state omap"
  rb_own_crc :: "u32 omap"
  rb_peer_crc :: "u32 omap"

definition RollbackSession_new :: "'r \<Rightarrow> 't \<Rightarrow> ('r, 't) RollbackSession" where
  "RollbackSession_new rt t =
     \<lparr>rb_rt = rt, rb_t = t, rb_local_port = 0, rb_remote_port = 1, rb_max_prediction = 8, rb_frame = 0,
      rb_confirmed = 0, rb_have_confirmed = False, rb_verified = 0, rb_rollback_count = 0,
      rb_status = RbOk, rb_ring = [], rb_local = [], rb_remote = [], rb_used = [], rb_own_crc = [],
      rb_peer_crc = []\<rparr>"

section \<open>Handshake\<close>

definition rb_send ::
  "'t transport \<Rightarrow> ('r, 't) RollbackSession \<Rightarrow> bytes \<Rightarrow> ('r, 't) RollbackSession \<times> rp_result" where
  "rb_send tr s m = (case tr_send tr (rb_t s) m of (t, r) \<Rightarrow> (s\<lparr>rb_t := t\<rparr>, r))"

definition rb_recv ::
  "'t transport \<Rightarrow> bool \<Rightarrow> u32 \<Rightarrow> ('r, 't) RollbackSession \<Rightarrow> ('r, 't) RollbackSession \<times> (rp_result + bytes)" where
  "rb_recv tr block ms s = (case tr_recv tr (rb_t s) block ms of (t, r) \<Rightarrow> (s\<lparr>rb_t := t\<rparr>, r))"

text \<open>\<open>strncmp(a, b, 64) == 0\<close>\<close>

definition strncmp64_eq :: "bytes \<Rightarrow> bytes \<Rightarrow> bool" where
  "strncmp64_eq a b \<longleftrightarrow> takeWhile (\<lambda>c. c \<noteq> 0) (take 64 a) = takeWhile (\<lambda>c. c \<noteq> 0) (take 64 b)"

definition rb_handshake ::
  "'t transport \<Rightarrow> bool \<Rightarrow> u32 \<Rightarrow> u64 \<Rightarrow> string option \<Rightarrow> ('r, 't) RollbackSession \<Rightarrow>
   ('r, 't) RollbackSession \<times> rp_result" where
  "rb_handshake tr is_host max_prediction content_hash core_id s =
     (let mine = \<lparr>h_abi_version = RETROPARK_ABI_VERSION, h_core_id = set_core_id core_id,
                  h_content_hash = content_hash, h_input_delay = max_prediction, h_start_frame = 0\<rparr>
      in case rb_send tr s (encode_hello mine) of (s, r) \<Rightarrow>
         if r \<noteq> RP_OK then (s, RP_ERR_DEVICE)
         else case rb_recv tr True kRecvTimeoutMs s of
           (s, Inl _) \<Rightarrow> (s, RP_ERR_DEVICE)
         | (s, Inr m) \<Rightarrow>
           (case decode_hello m of
              None \<Rightarrow> (s, RP_ERR_INTERNAL)
            | Some peer \<Rightarrow>
                if h_abi_version peer \<noteq> RETROPARK_ABI_VERSION then (s, RP_ERR_ABI_MISMATCH)
                else if h_content_hash peer \<noteq> content_hash \<or>
                        \<not> strncmp64_eq (h_core_id peer) (h_core_id mine)
                then (s, RP_ERR_BAD_ARG)
                else let p = (if is_host then max_prediction else h_input_delay peer)
                     in (s\<lparr>rb_max_prediction := (if p = 0 then 8 else p)\<rparr>, RP_OK)))"

definition rb_restart :: "u32 \<Rightarrow> u32 \<Rightarrow> ('r, 't) RollbackSession \<Rightarrow> ('r, 't) RollbackSession" where
  "rb_restart lp rp s =
     s\<lparr>rb_local_port := lp, rb_remote_port := rp, rb_frame := 0, rb_confirmed := 0,
       rb_have_confirmed := False, rb_verified := 0, rb_rollback_count := 0, rb_status := RbOk\<rparr>"

definition rb_start_host ::
  "'r rt_api \<Rightarrow> 't transport \<Rightarrow> u32 \<Rightarrow> u64 \<Rightarrow> string option \<Rightarrow> ('r, 't) RollbackSession \<Rightarrow>
   ('r, 't) RollbackSession \<times> rp_result" where
  "rb_start_host ra tr max_prediction content_hash core_id s =
     (case rb_handshake tr True max_prediction content_hash core_id (rb_restart 0 1 s) of (s, r) \<Rightarrow>
        if r \<noteq> RP_OK then (s, r)
        else case ra_snapshot ra (rb_rt s) of
          (rt, Inl _) \<Rightarrow> (s\<lparr>rb_rt := rt\<rparr>, RP_ERR_INTERNAL)
        | (rt, Inr blob) \<Rightarrow>
            (case rb_send tr (s\<lparr>rb_rt := rt\<rparr>) (encode_state_sync \<lparr>s_frame = 0, s_blob = blob\<rparr>) of (s, r) \<Rightarrow>
               if r \<noteq> RP_OK then (s, RP_ERR_DEVICE) else (s, RP_OK)))"

definition rb_start_join ::
  "'r rt_api \<Rightarrow> 't transport \<Rightarrow> u64 \<Rightarrow> string option \<Rightarrow> ('r, 't) RollbackSession \<Rightarrow>
   ('r, 't) RollbackSession \<times> rp_result" where
  "rb_start_join ra tr content_hash core_id s =
     (case rb_handshake tr False 0 content_hash core_id (rb_restart 1 0 s) of (s, r) \<Rightarrow>
        if r \<noteq> RP_OK then (s, r)
        else case rb_recv tr True kRecvTimeoutMs s of
          (s, Inl _) \<Rightarrow> (s, RP_ERR_DEVICE)
        | (s, Inr m) \<Rightarrow>
          (case decode_state_sync m of
             None \<Rightarrow> (s, RP_ERR_INTERNAL)
           | Some ss \<Rightarrow>
               if s_blob ss = [] then (s, RP_OK)
               else case ra_load_state ra (rb_rt s) (s_blob ss) of (rt, r) \<Rightarrow>
                      (s\<lparr>rb_rt := rt\<rparr>, if r \<noteq> RP_OK then RP_ERR_UNSUPPORTED else RP_OK)))"

section \<open>The parts of a tick\<close>

definition rb_save_ring :: "'r rt_api \<Rightarrow> nat \<Rightarrow> ('r, 't) RollbackSession \<Rightarrow> ('r, 't) RollbackSession" where
  "rb_save_ring ra f s =
     (case ra_snapshot ra (rb_rt s) of
        (rt, Inl _) \<Rightarrow> s\<lparr>rb_rt := rt\<rparr>
      | (rt, Inr buf) \<Rightarrow> s\<lparr>rb_rt := rt, rb_ring := om_put f buf (rb_ring s)\<rparr>)"

text \<open>\<open>operator[]\<close>: the value at a key and the map, with the default inserted if the key was missing.\<close>

definition om_at :: "'v \<Rightarrow> 'v omap \<Rightarrow> nat \<Rightarrow> 'v \<times> 'v omap" where
  "om_at dflt m k = (case om_find m k of Some v \<Rightarrow> (v, m) | None \<Rightarrow> (dflt, om_put k dflt m))"

definition rb_ingest :: "bytes \<Rightarrow> ('r, 't) RollbackSession \<Rightarrow> ('r, 't) RollbackSession" where
  "rb_ingest m s =
     (let s = (case ingest_input m of None \<Rightarrow> s
               | Some (f, i) \<Rightarrow>
                   let s = s\<lparr>rb_remote := om_put f i (rb_remote s)\<rparr>
                   in if \<not> rb_have_confirmed s \<or> rb_confirmed s < f
                      then s\<lparr>rb_confirmed := f, rb_have_confirmed := True\<rparr> else s)
      in s\<lparr>rb_peer_crc := om_ingest (ingest_checksum m) (rb_peer_crc s)\<rparr>)"

text \<open>The drain: \<open>True\<close> when the queue is empty, \<open>False\<close> when the peer is gone.\<close>

partial_function (option) rb_drain ::
  "'t transport \<Rightarrow> ('r, 't) RollbackSession \<Rightarrow> (('r, 't) RollbackSession \<times> bool) option" where
  "rb_drain tr s =
     (case rb_recv tr False 0 s of
        (s', Inl e) \<Rightarrow> if e = RP_ERR_NOT_FOUND then Some (s', True)
                       else Some (s'\<lparr>rb_status := RbDisconnected\<rparr>, False)
      | (s', Inr m) \<Rightarrow> rb_drain tr (rb_ingest m s'))"

definition rb_remote_input :: "('r, 't) RollbackSession \<Rightarrow> nat \<Rightarrow> rp_input_state" where
  "rb_remote_input s f =
     (case om_find (rb_remote s) f of Some i \<Rightarrow> i | None \<Rightarrow> rb_predict (rb_remote s) (rb_confirmed s))"

text \<open>Re-simulation of \<open>n\<close> frames from \<open>f\<close>; \<open>False\<close>: the core refused to advance.\<close>

fun rb_resim ::
  "'r rt_api \<Rightarrow> nat \<Rightarrow> nat \<Rightarrow> ('r, 't) RollbackSession \<Rightarrow> ('r, 't) RollbackSession \<times> bool" where
  "rb_resim ra f 0 s = (s, True)"
| "rb_resim ra f (Suc n) s =
     (let rin = rb_remote_input s f;
          (lin, loc) = om_at neutral_input (rb_local s) f;
          s = s\<lparr>rb_used := om_put f rin (rb_used s), rb_local := loc\<rparr>;
          rt = ra_set_input ra (rb_rt s) (rb_local_port s) lin;
          rt = ra_set_input ra rt (rb_remote_port s) rin
      in case ra_advance ra rt False of (rt, r) \<Rightarrow>
           let s = s\<lparr>rb_rt := rt\<rparr>
           in if r \<noteq> RP_OK then (s\<lparr>rb_status := RbDesync\<rparr>, False)
              else rb_resim ra (f + 1) n (rb_save_ring ra (f + 1) s))"

definition rb_rollback ::
  "'r rt_api \<Rightarrow> nat \<Rightarrow> nat \<Rightarrow> ('r, 't) RollbackSession \<Rightarrow> ('r, 't) RollbackSession \<times> bool" where
  "rb_rollback ra g F s =
     (let (blob, ring) = om_at [] (rb_ring s) g; s = s\<lparr>rb_ring := ring\<rparr>
      in case ra_load_state ra (rb_rt s) blob of (rt, r) \<Rightarrow>
           let s = s\<lparr>rb_rt := rt\<rparr>
           in if r \<noteq> RP_OK then (s\<lparr>rb_status := RbDesync\<rparr>, False)
              else case rb_resim ra g (F - g) s of (s, ok) \<Rightarrow>
                     if \<not> ok then (s, False)
                     else (s\<lparr>rb_rollback_count := wrap64 (rb_rollback_count s + 1)\<rparr>, True))"

definition rb_reconcile ::
  "'r rt_api \<Rightarrow> ('r, 't) RollbackSession \<Rightarrow> ('r, 't) RollbackSession \<times> bool" where
  "rb_reconcile ra s =
     (let F = rb_frame s
      in if rb_have_confirmed s \<and> 0 < F
         then let hi = (if rb_confirmed s < F - 1 then rb_confirmed s else F - 1)
              in if rb_verified s \<le> hi
                 then let g = rb_first_mispredicted (rb_remote s) (rb_used s) (rb_verified s) hi
                      in case (if g \<noteq> UINT64_MAX then rb_rollback ra g F s else (s, True)) of (s, ok) \<Rightarrow>
                           if \<not> ok then (s, False) else (s\<lparr>rb_verified := wrap64 (hi + 1)\<rparr>, True)
                 else (s, True)
         else (s, True))"

definition rb_ahead :: "('r, 't) RollbackSession \<Rightarrow> nat" where
  "rb_ahead s =
     (if 0 < rb_frame s \<and> rb_have_confirmed s \<and> rb_confirmed s < rb_frame s - 1
      then rb_frame s - 1 - rb_confirmed s else 0)"

definition rb_maybe_send_checksum ::
  "'t transport \<Rightarrow> ('r, 't) RollbackSession \<Rightarrow> ('r, 't) RollbackSession" where
  "rb_maybe_send_checksum tr s =
     (if rb_verified s = 0 \<or> rb_verified s mod kChecksumEvery \<noteq> 0 then s
      else case om_find (rb_ring s) (rb_verified s) of
        None \<Rightarrow> s
      | Some blob \<Rightarrow>
          let crc = crc32 blob; s = s\<lparr>rb_own_crc := om_put (rb_verified s) crc (rb_own_crc s)\<rparr>
          in fst (rb_send tr s (encode_checksum \<lparr>c_frame = of_nat (rb_verified s), c_crc = crc\<rparr>)))"

definition rb_check_desync :: "('r, 't) RollbackSession \<Rightarrow> ('r, 't) RollbackSession" where
  "rb_check_desync s =
     (if crc_mismatch (rb_own_crc s) (rb_peer_crc s) then s\<lparr>rb_status := RbDesync\<rparr> else s)"

text \<open>\<open>max_prediction_ + 2\<close> is computed in 32 bits before it is widened.\<close>

definition rb_floor :: "('r, 't) RollbackSession \<Rightarrow> nat" where
  "rb_floor s =
     (let slack = unat (rb_max_prediction s + 2)
      in if slack < rb_verified s then rb_verified s - slack else 0)"

definition rb_prune :: "('r, 't) RollbackSession \<Rightarrow> ('r, 't) RollbackSession" where
  "rb_prune s =
     s\<lparr>rb_ring := rb_prune_below (rb_ring s) (rb_floor s),
       rb_local := rb_prune_below (rb_local s) (rb_floor s),
       rb_remote := rb_prune_below (rb_remote s) (rb_floor s),
       rb_used := rb_prune_below (rb_used s) (rb_floor s)\<rparr>"

definition rb_finish :: "'t transport \<Rightarrow> ('r, 't) RollbackSession \<Rightarrow> ('r, 't) RollbackSession" where
  "rb_finish tr s = rb_prune (rb_check_desync (rb_maybe_send_checksum tr s))"

text \<open>Step 5: simulate and show the frame.\<close>

definition rb_simulate ::
  "'r rt_api \<Rightarrow> rp_input_state \<Rightarrow> bool \<Rightarrow> ('r, 't) RollbackSession \<Rightarrow> ('r, 't) RollbackSession \<times> bool" where
  "rb_simulate ra local_now out_rgba s =
     (let F = rb_frame s;
          s = rb_save_ring ra F s;
          rin = rb_remote_input s F;
          s = s\<lparr>rb_used := om_put F rin (rb_used s)\<rparr>;
          rt = ra_set_input ra (rb_rt s) (rb_local_port s) local_now;
          rt = ra_set_input ra rt (rb_remote_port s) rin
      in case ra_advance ra rt True of (rt, r) \<Rightarrow>
           if r \<noteq> RP_OK then (s\<lparr>rb_rt := rt, rb_status := RbDesync\<rparr>, False)
           else (s\<lparr>rb_rt := fst (ra_render ra rt out_rgba), rb_frame := wrap64 (F + 1)\<rparr>, True))"

definition rb_after_drain ::
  "'r rt_api \<Rightarrow> 't transport \<Rightarrow> rp_input_state \<Rightarrow> bool \<Rightarrow> ('r, 't) RollbackSession \<Rightarrow> ('r, 't) RollbackSession" where
  "rb_after_drain ra tr local_now out_rgba s =
     (case rb_reconcile ra s of (s, ok) \<Rightarrow>
        if \<not> ok then s
        else if unat (rb_max_prediction s) \<le> rb_ahead s
        then (rb_finish tr (s\<lparr>rb_rt := fst (ra_render ra (rb_rt s) out_rgba)\<rparr>))\<lparr>rb_status := RbStalled\<rparr>
        else case rb_simulate ra local_now out_rgba s of (s, ok) \<Rightarrow>
               if \<not> ok then s else (rb_finish tr s)\<lparr>rb_status := RbOk\<rparr>)"

definition rb_tick ::
  "'r rt_api \<Rightarrow> 't transport \<Rightarrow> rp_input_state \<Rightarrow> bool \<Rightarrow> ('r, 't) RollbackSession \<Rightarrow>
   ('r, 't) RollbackSession option" where
  "rb_tick ra tr local_now out_rgba s =
     (if rb_status s = RbDisconnected then Some s
      else let F = rb_frame s; s = s\<lparr>rb_local := om_put F local_now (rb_local s)\<rparr>
      in case rb_send tr s (encode_input \<lparr>i_frame = of_nat F, i_port = ucast (rb_local_port s),
                                         i_state = local_now\<rparr>) of (s, r) \<Rightarrow>
         if r \<noteq> RP_OK then Some (s\<lparr>rb_status := RbDisconnected\<rparr>)
         else case rb_drain tr s of None \<Rightarrow> None
              | Some (s, ok) \<Rightarrow> Some (if ok then rb_after_drain ra tr local_now out_rgba s else s))"

text \<open>
  The caller ticks with an input read anew each time, advancing or not; a stalled frame is retried
  with whatever is held by then.
\<close>

fun rb_run ::
  "'r rt_api \<Rightarrow> 't transport \<Rightarrow> (rp_input_state \<times> bool) list \<Rightarrow> ('r, 't) RollbackSession \<Rightarrow>
   ('r, 't) RollbackSession option" where
  "rb_run ra tr [] s = Some s"
| "rb_run ra tr ((x, out) # ticks) s =
     (case rb_tick ra tr x out s of None \<Rightarrow> None | Some s' \<Rightarrow> rb_run ra tr ticks s')"

text \<open>The inputs of a run by frame: what the last tick of each frame was given.\<close>

fun rb_log ::
  "'r rt_api \<Rightarrow> 't transport \<Rightarrow> (rp_input_state \<times> bool) list \<Rightarrow> ('r, 't) RollbackSession \<Rightarrow>
   (nat \<Rightarrow> rp_input_state) \<Rightarrow> nat \<Rightarrow> rp_input_state" where
  "rb_log ra tr [] s L = L"
| "rb_log ra tr ((x, out) # ticks) s L =
     (case rb_tick ra tr x out s of None \<Rightarrow> L | Some s' \<Rightarrow> rb_log ra tr ticks s' (L(rb_frame s := x)))"

text \<open>A run whose player holds \<open>L f\<close> at every tick of frame \<open>f\<close>: a stalled frame is retried with the same input.\<close>

fun rb_steady ::
  "'r rt_api \<Rightarrow> 't transport \<Rightarrow> (nat \<Rightarrow> rp_input_state) \<Rightarrow> (rp_input_state \<times> bool) list \<Rightarrow>
   ('r, 't) RollbackSession \<Rightarrow> bool" where
  "rb_steady ra tr L [] s = True"
| "rb_steady ra tr L ((x, out) # ticks) s =
     (x = L (rb_frame s) \<and>
      (case rb_tick ra tr x out s of None \<Rightarrow> True | Some s' \<Rightarrow> rb_steady ra tr L ticks s'))"

lemma rb_log_steady: "rb_steady ra tr L ticks s \<Longrightarrow> rb_log ra tr ticks s L = L"
  by (induction ra tr ticks s L rule: rb_log.induct) (auto split: option.splits)

section \<open>Finding the first misprediction\<close>

lemma rb_input_equal_iff [simp]: "rb_input_equal a b \<longleftrightarrow> a = b"
  by (cases a, cases b) (auto simp: rb_input_equal_def)

lemma rb_scan_spec:
  assumes "f \<le> to" "to < UINT64_MAX"
  shows "(rb_scan rl used f to = UINT64_MAX \<and> (\<forall>k. f \<le> k \<and> k \<le> to \<longrightarrow> \<not> rb_mispredicted rl used k)) \<or>
     (f \<le> rb_scan rl used f to \<and> rb_scan rl used f to \<le> to \<and>
      rb_mispredicted rl used (rb_scan rl used f to) \<and>
      (\<forall>k. f \<le> k \<and> k < rb_scan rl used f to \<longrightarrow> \<not> rb_mispredicted rl used k))"
  using assms
proof (induction rl used f to rule: rb_scan.induct)
  case (1 rl used f to)
  consider "rb_mispredicted rl used f" | "\<not> rb_mispredicted rl used f" "f = to"
    | "\<not> rb_mispredicted rl used f" "f < to"
    using 1(2) by linarith
  then show ?case
  proof cases
    case 1
    then have "rb_scan rl used f to = f"
      by (subst rb_scan.simps) simp
    with 1 \<open>f \<le> to\<close> show ?thesis by auto
  next
    case 2
    then have "rb_scan rl used f to = UINT64_MAX"
      by (subst rb_scan.simps) simp
    with 2 show ?thesis by (metis order_antisym)
  next
    case 3
    then have "rb_scan rl used f to = rb_scan rl used (f + 1) to"
      by (subst rb_scan.simps) simp
    moreover have "k = f \<or> f + 1 \<le> k" if "f \<le> k" for k
      using that by linarith
    ultimately show ?thesis
      using 1(1) [OF 3(1)] 3 1(3) by (metis Suc_eq_plus1 Suc_leD Suc_leI linorder_not_less)
  qed
qed

text \<open>The contract of the search, as the reconciliation uses it.\<close>

lemma rb_first_mispredicted_spec:
  fixes rl used :: "rp_input_state omap"
  assumes "from \<le> to" "to < UINT64_MAX"
  defines "g \<equiv> rb_first_mispredicted rl used from to"
  shows "g = UINT64_MAX \<Longrightarrow> from \<le> k \<Longrightarrow> k \<le> to \<Longrightarrow> \<not> rb_mispredicted rl used k"
    and "g \<noteq> UINT64_MAX \<Longrightarrow> from \<le> g \<and> g \<le> to \<and> rb_mispredicted rl used g"
    and "g \<noteq> UINT64_MAX \<Longrightarrow> from \<le> k \<Longrightarrow> k < g \<Longrightarrow> \<not> rb_mispredicted rl used k"
  using rb_scan_spec [OF assms(1,2), of rl used] assms(1,2)
  by (auto simp: g_def rb_first_mispredicted_def)

end
