(* ===== verification/RP_Rollback_Correct.thy ===== *)
theory RP_Rollback_Correct
  imports RP_Rollback
begin

text \<open>
  Correctness of the rollback session over the interfaces \<open>sim_runtime\<close> and \<open>message_stream\<close>: an
  invariant that ties the runtime, the savestate ring and the input maps to a timeline of the game,
  its preservation by every part of a tick, what a session sends, and the theorems that follow: the
  session computes the game of the known inputs (C1), two peers agree (C2), the stall policy (C20).
\<close>

section \<open>What a session computes\<close>

text \<open>The number of frames whose remote input is known.\<close>

definition rb_known :: "('r, 't) RollbackSession \<Rightarrow> nat" where
  "rb_known s = (if rb_have_confirmed s then rb_confirmed s + 1 else 0)"

lemma rb_known_updates [simp]:
  "rb_known (s\<lparr>rb_status := x\<rparr>) = rb_known s" "rb_known (s\<lparr>rb_rt := rt\<rparr>) = rb_known s"
  by (simp_all add: rb_known_def)

text \<open>
  The remote player's inputs as seen when those of the first \<open>n\<close> frames are known: the real ones, then
  the last real one for ever.
\<close>

definition predicted :: "(nat \<Rightarrow> rp_input_state) \<Rightarrow> nat \<Rightarrow> nat \<Rightarrow> rp_input_state" where
  "predicted R n f = (if f < n then R f else if n = 0 then neutral_input else R (n - 1))"

text \<open>
  A peer's stream: its inputs come in frame order without a gap (an input may come again), with the
  values of its schedule \<open>R\<close>; \<open>n\<close> frames are known already. Other messages are arbitrary.
\<close>

fun ordered_inputs :: "(nat \<Rightarrow> rp_input_state) \<Rightarrow> nat \<Rightarrow> bytes list \<Rightarrow> bool" where
  "ordered_inputs R n [] = True"
| "ordered_inputs R n (m # ms) =
     (case ingest_input m of
        None \<Rightarrow> ordered_inputs R n ms
      | Some (f, i) \<Rightarrow> f \<le> n \<and> i = R f \<and> ordered_inputs R (max n (f + 1)) ms)"

lemma ordered_inputs_append:
  "ordered_inputs R n (xs @ ys) \<Longrightarrow> ordered_inputs R n xs"
  by (induction R n xs rule: ordered_inputs.induct) (auto split: option.splits)

lemma replay_cong:
  "(\<And>f. f < n \<Longrightarrow> U f = V f) \<Longrightarrow> replay step lp d L U n s = replay step lp d L V n s"
  by (induction n) (simp_all add: replay_Suc input_pair_def delayed_def)

lemma replay_cong_local:
  "(\<And>f. f < n \<Longrightarrow> U f = V f) \<Longrightarrow> replay step lp d U R n s = replay step lp d V R n s"
  by (induction n) (simp_all add: replay_Suc input_pair_def delayed_def)

text \<open>What the remote side of a session holds: the known inputs from the last verified frame on.\<close>

definition rb_remote_ok :: "(nat \<Rightarrow> rp_input_state) \<Rightarrow> ('r, 't) RollbackSession \<Rightarrow> bool" where
  "rb_remote_ok R s \<longleftrightarrow> om_ok (rb_remote s) \<and>
     (\<forall>f. rb_verified s - 1 \<le> f \<and> f < rb_known s \<longrightarrow> om_find (rb_remote s) f = Some (R f)) \<and>
     (\<forall>f \<ge> rb_known s. om_find (rb_remote s) f = None)"

lemma rb_remote_input_predicted:
  assumes "rb_remote_ok R s" "rb_verified s \<le> rb_known s" "rb_verified s - 1 \<le> f"
  shows "rb_remote_input s f = predicted R (rb_known s) f"
proof (cases "f < rb_known s")
  case True
  with assms show ?thesis by (simp add: rb_remote_ok_def rb_remote_input_def predicted_def)
next
  case False
  then have none: "om_find (rb_remote s) f = None"
    using assms(1) by (simp add: rb_remote_ok_def)
  show ?thesis
  proof (cases "rb_have_confirmed s")
    case True
    then have "om_find (rb_remote s) (rb_confirmed s) = Some (R (rb_confirmed s))"
      using assms by (simp add: rb_remote_ok_def rb_known_def)
    with True False none show ?thesis
      by (simp add: rb_remote_input_def rb_predict_def predicted_def rb_known_def)
  next
    case False
    then have "om_find (rb_remote s) (rb_confirmed s) = None"
      using assms(1) by (simp add: rb_remote_ok_def rb_known_def)
    with False none show ?thesis
      by (simp add: rb_remote_input_def rb_predict_def predicted_def rb_known_def)
  qed
qed

lemma rb_mispredicted_iff:
  assumes "rb_remote_ok R s" "rb_verified s \<le> f" "f < rb_known s" "om_find (rb_used s) f = Some u"
  shows "rb_mispredicted (rb_remote s) (rb_used s) f \<longleftrightarrow> u \<noteq> R f"
  using assms by (auto simp: rb_remote_ok_def rb_mispredicted_def)

text \<open>The parts of a session that reconciliation leaves alone.\<close>

definition rb_fixed :: "('r, 't) RollbackSession \<Rightarrow> _" where
  "rb_fixed s = (rb_t s, rb_local_port s, rb_remote_port s, rb_max_prediction s, rb_frame s,
     rb_confirmed s, rb_have_confirmed s, rb_remote s, rb_own_crc s, rb_peer_crc s)"

lemma rb_fixed_eqs:
  "rb_fixed s' = rb_fixed s \<Longrightarrow> rb_remote_input s' = rb_remote_input s \<and> rb_known s' = rb_known s \<and>
     rb_ahead s' = rb_ahead s"
  by (simp add: rb_fixed_def rb_remote_input_def rb_known_def rb_ahead_def fun_eq_iff cong: option.case_cong)

context lockstep_net
begin

definition rb_ports_ok :: "('r, 't) RollbackSession \<Rightarrow> bool" where
  "rb_ports_ok s \<longleftrightarrow> rb_local_port s = 0 \<and> rb_remote_port s = 1 \<or> rb_local_port s = 1 \<and> rb_remote_port s = 0"

lemma rb_save_ring_good:
  assumes "good (rb_rt s)"
  shows "\<exists>rt. rb_save_ring ra f s = s\<lparr>rb_rt := rt, rb_ring := om_put f (enc (st (rb_rt s))) (rb_ring s)\<rparr> \<and>
     good rt \<and> st rt = st (rb_rt s)"
  using ra_snapshot_good [OF assms] by (auto simp: rb_save_ring_def)

lemma rb_resim_replays:
  assumes "good (rb_rt s)" "rb_ports_ok s" "st (rb_rt s) = replay step (rb_local_port s) 0 L U f s0"
    and "om_ok (rb_used s)" "om_ok (rb_ring s)"
    and "\<And>k. f \<le> k \<Longrightarrow> k < f + n \<Longrightarrow> om_find (rb_local s) k = Some (L k) \<and> rb_remote_input s k = U k"
  shows "\<exists>s'. rb_resim ra f n s = (s', True) \<and> good (rb_rt s') \<and>
     st (rb_rt s') = replay step (rb_local_port s) 0 L U (f + n) s0 \<and>
     rb_fixed s' = rb_fixed s \<and> rb_verified s' = rb_verified s \<and> rb_status s' = rb_status s \<and>
     rb_local s' = rb_local s \<and> om_ok (rb_used s') \<and> om_ok (rb_ring s') \<and>
     (\<forall>k. om_find (rb_used s') k = (if f \<le> k \<and> k < f + n then Some (U k) else om_find (rb_used s) k)) \<and>
     (\<forall>k. om_find (rb_ring s') k = (if f < k \<and> k \<le> f + n
        then Some (enc (replay step (rb_local_port s) 0 L U k s0)) else om_find (rb_ring s) k))"
  using assms
proof (induction n arbitrary: f s)
  case 0
  then show ?case by auto
next
  case (Suc n)
  have here: "om_find (rb_local s) f = Some (L f)" "rb_remote_input s f = U f"
    using Suc.prems(6) [of f] by simp_all
  define rt1 where "rt1 = ra_set_input ra (ra_set_input ra (rb_rt s) (rb_local_port s) (L f)) (rb_remote_port s) (U f)"
  note set = set_both_ports [OF Suc.prems(1) Suc.prems(2) [unfolded rb_ports_ok_def], of "L f" "U f", folded rt1_def]
  from advance_law [OF set(1), of False] obtain rt2 where
    rt2: "ra_advance ra rt1 False = (rt2, RP_OK)" "good rt2" "st rt2 = step (st rt1) (inp rt1 0) (inp rt1 1)"
    by blast
  have st2: "st rt2 = replay step (rb_local_port s) 0 L U (Suc f) s0"
    using rt2(3) set Suc.prems(3) by (simp add: replay_Suc input_pair_def delayed_def)
  define s1 where "s1 = s\<lparr>rb_used := om_put f (U f) (rb_used s), rb_rt := rt2\<rparr>"
  have "good (rb_rt s1)" using rt2(2) by (simp add: s1_def)
  from rb_save_ring_good [OF this, of "f + 1"] obtain rt3 where
    rt3: "rb_save_ring ra (f + 1) s1 = s1\<lparr>rb_rt := rt3, rb_ring := om_put (f + 1) (enc (st rt2)) (rb_ring s1)\<rparr>"
      "good rt3" "st rt3 = st rt2"
    by (auto simp: s1_def)
  define s2 where "s2 = s\<lparr>rb_used := om_put f (U f) (rb_used s), rb_rt := rt3,
      rb_ring := om_put (f + 1) (enc (st rt2)) (rb_ring s)\<rparr>"
  have run: "rb_resim ra f (Suc n) s = rb_resim ra (f + 1) n s2"
    using here rt2(1) rt3(1) by (simp add: om_at_def rt1_def [symmetric] s1_def s2_def)
  have "rb_fixed s2 = rb_fixed s" by (simp add: s2_def rb_fixed_def)
  then have ri: "rb_remote_input s2 = rb_remote_input s" using rb_fixed_eqs by blast
  have p2: "good (rb_rt s2)" "rb_ports_ok s2" "st (rb_rt s2) = replay step (rb_local_port s2) 0 L U (f + 1) s0"
    "om_ok (rb_used s2)" "om_ok (rb_ring s2)" "rb_local_port s2 = rb_local_port s"
    using rt3 st2 Suc.prems by (simp_all add: s2_def rb_ports_ok_def)
  have "om_find (rb_local s2) k = Some (L k) \<and> rb_remote_input s2 k = U k" if "f + 1 \<le> k" "k < f + 1 + n" for k
    using Suc.prems(6) [of k] that ri by (simp add: s2_def)
  from Suc.IH [OF p2(1-5) this] obtain s' where
    s': "rb_resim ra (f + 1) n s2 = (s', True)" "good (rb_rt s')"
      "st (rb_rt s') = replay step (rb_local_port s) 0 L U (f + Suc n) s0"
      "rb_fixed s' = rb_fixed s2" "rb_verified s' = rb_verified s2" "rb_status s' = rb_status s2"
      "rb_local s' = rb_local s2" "om_ok (rb_used s')" "om_ok (rb_ring s')"
      and used: "\<And>k. om_find (rb_used s') k =
          (if f + 1 \<le> k \<and> k < f + 1 + n then Some (U k) else om_find (rb_used s2) k)"
      and ring: "\<And>k. om_find (rb_ring s') k = (if f + 1 < k \<and> k \<le> f + 1 + n
          then Some (enc (replay step (rb_local_port s) 0 L U k s0)) else om_find (rb_ring s2) k)"
    unfolding p2(6) by auto
  have u2: "om_find (rb_used s2) k = (if k = f then Some (U f) else om_find (rb_used s) k)"
    and r2: "om_find (rb_ring s2) k = (if k = f + 1 then Some (enc (replay step (rb_local_port s) 0 L U (f + 1) s0))
        else om_find (rb_ring s) k)" for k
    using Suc.prems(4,5) st2 by (simp_all add: s2_def)
  have "om_find (rb_used s') k = (if f \<le> k \<and> k < f + Suc n then Some (U k) else om_find (rb_used s) k)" for k
    using used [of k] u2 [of k] by auto
  moreover have "om_find (rb_ring s') k = (if f < k \<and> k \<le> f + Suc n
        then Some (enc (replay step (rb_local_port s) 0 L U k s0)) else om_find (rb_ring s) k)" for k
    using ring [of k] r2 [of k] by auto
  ultimately show ?case
    using run s' \<open>rb_fixed s2 = rb_fixed s\<close> by (simp add: s2_def)
qed

end

lemma predicted_settled:
  assumes "v \<le> n" "n \<le> n'" "\<And>k. v \<le> k \<Longrightarrow> k < min n' F \<Longrightarrow> predicted R n k = R k" "f < F"
  shows "predicted R n f = predicted R n' f"
proof (cases "f < n'")
  case True
  with assms show ?thesis by (cases "f < v") (auto simp: predicted_def)
next
  case False
  show ?thesis
  proof (cases "n = n'")
    case False
    then have "n \<le> n' - 1" "n' - 1 < min n' F" "v \<le> n' - 1"
      using assms \<open>\<not> f < n'\<close> by auto
    with assms(3) [of "n' - 1"] \<open>\<not> f < n'\<close> assms(2) False show ?thesis
      by (auto simp: predicted_def)
  qed simp
qed

lemma predicted_known: "f < n \<Longrightarrow> predicted R n f = R f"
  by (simp add: predicted_def)

context lockstep_net
begin

text \<open>
  The invariant of a session whose runtime has seen the remote inputs of the first \<open>n\<close> frames: the
  frames not yet verified can be replayed from what the session keeps.
\<close>

definition rb_timeline ::
  "(nat \<Rightarrow> rp_input_state) \<Rightarrow> (nat \<Rightarrow> rp_input_state) \<Rightarrow> 's \<Rightarrow> nat \<Rightarrow> ('r, 't) RollbackSession \<Rightarrow> nat \<Rightarrow> 's" where
  "rb_timeline L R s0 n s f = replay step (rb_local_port s) 0 L (predicted R n) f s0"

definition rb_kept ::
  "(nat \<Rightarrow> rp_input_state) \<Rightarrow> (nat \<Rightarrow> rp_input_state) \<Rightarrow> 's \<Rightarrow> nat \<Rightarrow> ('r, 't) RollbackSession \<Rightarrow> bool" where
  "rb_kept L R s0 n s \<longleftrightarrow> om_ok (rb_local s) \<and> om_ok (rb_used s) \<and> om_ok (rb_ring s) \<and>
     (\<forall>f. rb_verified s \<le> f \<and> f < rb_frame s \<longrightarrow> om_find (rb_local s) f = Some (L f) \<and>
        om_find (rb_used s) f = Some (predicted R n f) \<and>
        om_find (rb_ring s) f = Some (enc (rb_timeline L R s0 n s f))) \<and>
     (\<forall>f. rb_verified s \<le> f \<and> f \<le> rb_frame s \<longrightarrow>
        om_find (rb_ring s) f \<in> {None, Some (enc (rb_timeline L R s0 n s f))}) \<and>
     (\<forall>f > rb_frame s. om_find (rb_ring s) f = None)"

definition rb_inv ::
  "(nat \<Rightarrow> rp_input_state) \<Rightarrow> (nat \<Rightarrow> rp_input_state) \<Rightarrow> 's \<Rightarrow> nat \<Rightarrow> ('r, 't) RollbackSession \<Rightarrow> bool" where
  "rb_inv L R s0 n s \<longleftrightarrow>
     good (rb_rt s) \<and> rb_ports_ok s \<and> rb_max_prediction s + 2 \<noteq> 0 \<and>
     rb_verified s \<le> n \<and> n \<le> rb_known s \<and> rb_verified s \<le> rb_frame s \<and>
     st (rb_rt s) = rb_timeline L R s0 n s (rb_frame s) \<and>
     rb_kept L R s0 n s \<and> rb_remote_ok R s \<and> ordered_inputs R (rb_known s) (inbox (rb_t s)) \<and>
     om_agrees (rb_own_crc s) (\<lambda>f c. f \<le> rb_frame s \<and> c = crc32 (enc (replay step (rb_local_port s) 0 L R f s0)))"

text \<open>What the invariant reads besides the runtime and the incoming messages.\<close>

definition rb_vars :: "('r, 't) RollbackSession \<Rightarrow> _" where
  "rb_vars s = (rb_local_port s, rb_remote_port s, rb_max_prediction s, rb_frame s, rb_confirmed s,
     rb_have_confirmed s, rb_verified s, rb_ring s, rb_local s, rb_remote s, rb_used s, rb_own_crc s)"

lemma rb_inv_same:
  assumes "rb_inv L R s0 n s" "rb_vars s' = rb_vars s" "inbox (rb_t s') = inbox (rb_t s)"
    "good (rb_rt s')" "st (rb_rt s') = st (rb_rt s)"
  shows "rb_inv L R s0 n s'"
proof -
  have "rb_known s' = rb_known s" "rb_ports_ok s' = rb_ports_ok s"
      "rb_timeline L R s0 n s' = rb_timeline L R s0 n s"
    using assms(2) by (simp_all add: rb_vars_def rb_known_def rb_ports_ok_def rb_timeline_def fun_eq_iff)
  moreover from this have "rb_kept L R s0 n s' = rb_kept L R s0 n s" "rb_remote_ok R s' = rb_remote_ok R s"
    using assms(2) by (simp_all add: rb_vars_def rb_kept_def rb_remote_ok_def)
  ultimately show ?thesis
    using assms by (simp add: rb_inv_def rb_vars_def)
qed

lemma rb_inv_good: "rb_inv L R s0 n s \<Longrightarrow> good (rb_rt s)"
  by (simp add: rb_inv_def)

text \<open>Only the local inputs of the frames before the current one are in it.\<close>

lemma rb_inv_local_cong:
  assumes "rb_inv L R s0 n s" "\<And>f. f < rb_frame s \<Longrightarrow> L f = L' f"
  shows "rb_inv L' R s0 n s"
proof -
  have tl: "rb_timeline L R s0 n s f = rb_timeline L' R s0 n s f"
      "replay step (rb_local_port s) 0 L R f s0 = replay step (rb_local_port s) 0 L' R f s0" if "f \<le> rb_frame s" for f
    using assms(2) that unfolding rb_timeline_def by (intro replay_cong_local; simp)+
  have "rb_kept L R s0 n s"
    using assms(1) by (simp add: rb_inv_def)
  then have "rb_kept L' R s0 n s"
    using assms(2) tl(1) unfolding rb_kept_def by simp
  moreover have "om_agrees (rb_own_crc s)
      (\<lambda>f c. f \<le> rb_frame s \<and> c = crc32 (enc (replay step (rb_local_port s) 0 L' R f s0)))"
    using assms(1) tl(2) unfolding rb_inv_def om_agrees_def by metis
  ultimately show ?thesis
    using assms(1) tl(1) [of "rb_frame s"] by (simp add: rb_inv_def)
qed

text \<open>If no frame was mispredicted, the session already is where the newly known inputs lead.\<close>

lemma rb_inv_settled:
  assumes inv: "rb_inv L R s0 n s"
    and right: "\<And>k. rb_verified s \<le> k \<Longrightarrow> k < min (rb_known s) (rb_frame s) \<Longrightarrow> predicted R n k = R k"
  shows "rb_inv L R s0 (rb_known s) s"
proof -
  have v: "rb_verified s \<le> n" "n \<le> rb_known s"
    using inv by (simp_all add: rb_inv_def)
  have eq: "f < rb_frame s \<Longrightarrow> predicted R n f = predicted R (rb_known s) f" for f
    by (rule predicted_settled [OF v right])
  then have tl: "f \<le> rb_frame s \<Longrightarrow> rb_timeline L R s0 n s f = rb_timeline L R s0 (rb_known s) s f" for f
    unfolding rb_timeline_def by (intro replay_cong) simp
  have "rb_kept L R s0 n s"
    using inv by (simp add: rb_inv_def)
  then have "rb_kept L R s0 (rb_known s) s"
    unfolding rb_kept_def using eq tl by (metis less_imp_le)
  then show ?thesis
    using inv tl [of "rb_frame s"] by (simp add: rb_inv_def)
qed

lemma rb_inv_verified:
  assumes "rb_inv L R s0 n s" "rb_verified s \<le> v" "v \<le> n" "v \<le> rb_frame s"
  shows "rb_inv L R s0 n (s\<lparr>rb_verified := v\<rparr>)"
proof -
  let ?s = "s\<lparr>rb_verified := v\<rparr>"
  have same: "rb_known ?s = rb_known s" "rb_ports_ok ?s = rb_ports_ok s" "rb_timeline L R s0 n ?s = rb_timeline L R s0 n s"
    by (simp_all add: rb_known_def rb_ports_ok_def rb_timeline_def fun_eq_iff)
  have k: "rb_kept L R s0 n s" and r: "rb_remote_ok R s"
    using assms(1) by (simp_all add: rb_inv_def)
  have le: "v \<le> f \<Longrightarrow> rb_verified s \<le> f" "v - 1 \<le> f \<Longrightarrow> rb_verified s - 1 \<le> f" for f
    using assms(2) by linarith+
  have "rb_kept L R s0 n ?s"
    using k le(1) unfolding rb_kept_def same by auto
  moreover have "rb_remote_ok R ?s"
    using r le(2) unfolding rb_remote_ok_def same by auto
  ultimately show ?thesis
    using assms unfolding rb_inv_def same by simp
qed

lemma rb_rollback_inv:
  assumes inv: "rb_inv L R s0 n s" and g: "rb_verified s \<le> g" "g < rb_frame s" "g < rb_known s"
    and right: "\<And>k. rb_verified s \<le> k \<Longrightarrow> k < g \<Longrightarrow> predicted R n k = R k"
  shows "\<exists>s'. rb_rollback ra g (rb_frame s) s = (s', True) \<and> rb_inv L R s0 (rb_known s) s' \<and>
     rb_fixed s' = rb_fixed s \<and> rb_verified s' = rb_verified s \<and> rb_status s' = rb_status s \<and>
     rb_local s' = rb_local s"
proof -
  let ?n = "rb_known s"
  have v: "rb_verified s \<le> n" "n \<le> ?n"
    using inv by (simp_all add: rb_inv_def)
  have eq: "k < g \<Longrightarrow> predicted R n k = predicted R ?n k" for k
    using predicted_settled [OF v, of g R] right by simp
  then have tl: "f \<le> g \<Longrightarrow> rb_timeline L R s0 n s f = rb_timeline L R s0 ?n s f" for f
    unfolding rb_timeline_def by (intro replay_cong) simp
  have "om_find (rb_ring s) g = Some (enc (rb_timeline L R s0 ?n s g))"
    using inv g tl [of g] by (simp add: rb_inv_def rb_kept_def)
  then have at: "om_at [] (rb_ring s) g = (enc (rb_timeline L R s0 ?n s g), rb_ring s)"
    by (simp add: om_at_def)
  obtain rt where rt: "ra_load_state ra (rb_rt s) (enc (rb_timeline L R s0 ?n s g)) = (rt, RP_OK)"
      "good rt" "st rt = rb_timeline L R s0 ?n s g"
    using load_law inv unfolding rb_inv_def by blast
  define s1 where "s1 = s\<lparr>rb_rt := rt\<rparr>"
  have fx: "rb_fixed s1 = rb_fixed s" by (simp add: s1_def rb_fixed_def)
  have p: "good (rb_rt s1)" "rb_ports_ok s1"
    "st (rb_rt s1) = replay step (rb_local_port s1) 0 L (predicted R ?n) g s0"
    "om_ok (rb_used s1)" "om_ok (rb_ring s1)"
    using rt inv by (simp_all add: s1_def rb_timeline_def rb_inv_def rb_kept_def rb_ports_ok_def)
  have "om_find (rb_local s1) k = Some (L k) \<and> rb_remote_input s1 k = predicted R ?n k"
    if "g \<le> k" "k < g + (rb_frame s - g)" for k
  proof
    show "om_find (rb_local s1) k = Some (L k)"
      using inv g that by (simp add: s1_def rb_inv_def rb_kept_def)
    have "rb_remote_input s k = predicted R ?n k"
      using inv g that by (intro rb_remote_input_predicted) (auto simp: rb_inv_def)
    then show "rb_remote_input s1 k = predicted R ?n k"
      using rb_fixed_eqs [OF fx] by simp
  qed
  from rb_resim_replays [where n = "rb_frame s - g", OF p this] g obtain s2 where
    s2: "rb_resim ra g (rb_frame s - g) s1 = (s2, True)" "good (rb_rt s2)"
      "st (rb_rt s2) = rb_timeline L R s0 ?n s (rb_frame s)"
      "rb_fixed s2 = rb_fixed s" "rb_verified s2 = rb_verified s" "rb_status s2 = rb_status s"
      "rb_local s2 = rb_local s" "om_ok (rb_used s2)" "om_ok (rb_ring s2)"
      and used: "\<And>k. om_find (rb_used s2) k = (if g \<le> k \<and> k < rb_frame s then Some (predicted R ?n k) else om_find (rb_used s) k)"
      and ring: "\<And>k. om_find (rb_ring s2) k = (if g < k \<and> k \<le> rb_frame s
          then Some (enc (rb_timeline L R s0 ?n s k)) else om_find (rb_ring s) k)"
    unfolding rb_timeline_def fx by (auto simp: s1_def)
  define s3 where "s3 = s2\<lparr>rb_rollback_count := wrap64 (rb_rollback_count s2 + 1)\<rparr>"
  have run: "rb_rollback ra g (rb_frame s) s = (s3, True)"
    using at rt(1) s2(1) by (simp add: rb_rollback_def s1_def s3_def Let_def)
  have fs: "rb_t s3 = rb_t s" "rb_local_port s3 = rb_local_port s" "rb_remote_port s3 = rb_remote_port s"
    "rb_max_prediction s3 = rb_max_prediction s" "rb_frame s3 = rb_frame s" "rb_known s3 = ?n"
    "rb_remote s3 = rb_remote s" "rb_own_crc s3 = rb_own_crc s"
    using s2(4) by (simp_all add: s3_def rb_fixed_def rb_known_def)
  have kept: "rb_kept L R s0 ?n s3"
    unfolding rb_kept_def
  proof (intro conjI allI impI)
    show "om_ok (rb_local s3)" "om_ok (rb_used s3)" "om_ok (rb_ring s3)"
      using s2 inv by (simp_all add: s3_def rb_inv_def rb_kept_def)
    fix f
    have tls: "rb_timeline L R s0 m s3 f = rb_timeline L R s0 m s f" for m
      by (simp add: rb_timeline_def fs)
    assume f: "rb_verified s3 \<le> f \<and> f < rb_frame s3"
    then have old: "om_find (rb_local s) f = Some (L f)" "om_find (rb_used s) f = Some (predicted R n f)"
        "om_find (rb_ring s) f = Some (enc (rb_timeline L R s0 n s f))"
      using inv s2(5) fs by (simp_all add: s3_def rb_inv_def rb_kept_def)
    show "om_find (rb_local s3) f = Some (L f)" using old s2(7) by (simp add: s3_def)
    show "om_find (rb_used s3) f = Some (predicted R ?n f)"
      using used [of f] old eq [of f] f fs by (auto simp: s3_def)
    show "om_find (rb_ring s3) f = Some (enc (rb_timeline L R s0 ?n s3 f))"
      using ring [of f] old tl [of f] f fs unfolding tls by (auto simp: s3_def)
  next
    fix f
    assume f: "rb_verified s3 \<le> f \<and> f \<le> rb_frame s3"
    then have "om_find (rb_ring s) f \<in> {None, Some (enc (rb_timeline L R s0 n s f))}"
      using inv s2(5) fs by (simp add: rb_inv_def rb_kept_def s3_def)
    then show "om_find (rb_ring s3) f \<in> {None, Some (enc (rb_timeline L R s0 ?n s3 f))}"
      using f ring [of f] tl [of f] s2(5) fs by (auto simp: s3_def rb_timeline_def split: if_splits)
  next
    fix f
    assume "rb_frame s3 < f"
    then show "om_find (rb_ring s3) f = None"
      using inv ring [of f] fs by (simp add: s3_def rb_inv_def rb_kept_def)
  qed
  have "rb_inv L R s0 ?n s3"
    using inv kept s2 fs v
    by (simp add: rb_inv_def rb_ports_ok_def rb_remote_ok_def rb_timeline_def) (simp add: s3_def)
  then show ?thesis
    using run s2 by (auto simp: s3_def rb_fixed_def)
qed

end

context lockstep_net
begin

lemma rb_reconcile_inv:
  assumes inv: "rb_inv L R s0 n s" and small: "rb_frame s < UINT64_MAX"
  shows "\<exists>s'. rb_reconcile ra s = (s', True) \<and> rb_inv L R s0 (rb_known s) s' \<and>
     rb_fixed s' = rb_fixed s \<and> rb_status s' = rb_status s \<and> rb_local s' = rb_local s"
proof -
  define F where "F = rb_frame s"
  define v where "v = rb_verified s"
  define hi where "hi = (if rb_confirmed s < F - 1 then rb_confirmed s else F - 1)"
  consider (idle) "\<not> (rb_have_confirmed s \<and> 0 < F \<and> v \<le> hi)"
    | (check) "rb_have_confirmed s" "0 < F" "v \<le> hi" by blast
  then show ?thesis
  proof cases
    case idle
    then have "rb_reconcile ra s = (s, True)"
      by (auto simp: rb_reconcile_def F_def v_def hi_def Let_def)
    moreover have "rb_inv L R s0 (rb_known s) s"
    proof (rule rb_inv_settled [OF inv])
      fix k
      assume k: "rb_verified s \<le> k" "k < min (rb_known s) (rb_frame s)"
      then have "rb_have_confirmed s" "0 < F" "k \<le> hi"
        by (auto simp: rb_known_def F_def hi_def split: if_splits)
      with idle k(1) show "predicted R n k = R k" by (simp add: v_def)
    qed
    ultimately show ?thesis by simp
  next
    case check
    have hi: "hi < F" "hi < rb_known s" "hi < UINT64_MAX" "Suc hi = min (rb_known s) F"
      using check small by (auto simp: hi_def rb_known_def F_def)
    define g where "g = rb_first_mispredicted (rb_remote s) (rb_used s) v hi"
    note spec = rb_first_mispredicted_spec [OF check(3) hi(3), of "rb_remote s" "rb_used s", folded g_def]
    have mis: "rb_mispredicted (rb_remote s) (rb_used s) k \<longleftrightarrow> predicted R n k \<noteq> R k"
      if "v \<le> k" "k \<le> hi" for k
      using inv that hi by (intro rb_mispredicted_iff) (auto simp: rb_inv_def rb_kept_def v_def F_def)
    have "\<exists>s1. (if g \<noteq> UINT64_MAX then rb_rollback ra g F s else (s, True)) = (s1, True) \<and>
        rb_inv L R s0 (rb_known s) s1 \<and> rb_fixed s1 = rb_fixed s \<and> rb_verified s1 = v \<and>
        rb_status s1 = rb_status s \<and> rb_local s1 = rb_local s"
    proof (cases "g = UINT64_MAX")
      case True
      have "rb_inv L R s0 (rb_known s) s"
        using spec(1) [OF True] mis hi(4) by (intro rb_inv_settled [OF inv]) (auto simp: v_def F_def)
      with True show ?thesis by (simp add: v_def)
    next
      case False
      have "predicted R n k = R k" if "v \<le> k" "k < g" for k
        using spec(3) [OF False that] mis [of k] that spec(2) [OF False] by auto
      then show ?thesis
        using rb_rollback_inv [OF inv, of g] spec(2) [OF False] hi False by (auto simp: v_def F_def)
    qed
    then obtain s1 where
      s1: "(if g \<noteq> UINT64_MAX then rb_rollback ra g F s else (s, True)) = (s1, True)"
        "rb_inv L R s0 (rb_known s) s1" "rb_fixed s1 = rb_fixed s" "rb_verified s1 = v"
        "rb_status s1 = rb_status s" "rb_local s1 = rb_local s"
      by blast
    have fs: "rb_frame s1 = F" "rb_known s1 = rb_known s"
      using s1(3) rb_fixed_eqs [OF s1(3)] by (simp_all add: rb_fixed_def F_def)
    have w: "wrap64 (hi + 1) = hi + 1"
      using hi(3) by (simp add: wrap64_def UINT64_MAX_def)
    have "rb_reconcile ra s = (s1\<lparr>rb_verified := hi + 1\<rparr>, True)"
      unfolding rb_reconcile_def Let_def F_def [symmetric] v_def [symmetric] hi_def [symmetric]
        g_def [symmetric] s1(1)
      using check w by simp
    moreover have "rb_inv L R s0 (rb_known s) (s1\<lparr>rb_verified := hi + 1\<rparr>)"
      using rb_inv_verified [OF s1(2), of "hi + 1"] s1(4) check(3) hi fs by simp
    ultimately show ?thesis
      using s1 by (simp add: rb_fixed_def)
  qed
qed

lemma rb_ingest_inv:
  assumes inv: "rb_inv L R s0 n s" and inb: "inbox (rb_t s) = m # inbox t"
  defines "s' \<equiv> rb_ingest m (s\<lparr>rb_t := t\<rparr>)"
  shows "rb_inv L R s0 n s'"
proof -
  have ord: "ordered_inputs R (rb_known s) (m # inbox t)" and rem: "rb_remote_ok R s"
    using inv inb by (simp_all add: rb_inv_def)
  have same: "rb_rt s' = rb_rt s" "rb_t s' = t" "rb_local_port s' = rb_local_port s"
    "rb_remote_port s' = rb_remote_port s" "rb_max_prediction s' = rb_max_prediction s"
    "rb_frame s' = rb_frame s" "rb_verified s' = rb_verified s" "rb_ring s' = rb_ring s"
    "rb_local s' = rb_local s" "rb_used s' = rb_used s" "rb_own_crc s' = rb_own_crc s"
    by (auto simp: s'_def rb_ingest_def Let_def split: option.splits)
  have "rb_known s \<le> rb_known s' \<and> ordered_inputs R (rb_known s') (inbox t) \<and> rb_remote_ok R s'"
  proof (cases "ingest_input m")
    case None
    then have "rb_known s' = rb_known s" "rb_remote s' = rb_remote s"
      by (simp_all add: s'_def rb_ingest_def rb_known_def)
    with None ord rem same show ?thesis by (simp add: rb_remote_ok_def)
  next
    case (Some a)
    obtain f i where a: "a = (f, i)" by fastforce
    have f: "f \<le> rb_known s" "i = R f" "ordered_inputs R (max (rb_known s) (f + 1)) (inbox t)"
      using ord Some a by simp_all
    have k: "rb_known s' = max (rb_known s) (f + 1)" and r: "rb_remote s' = om_put f i (rb_remote s)"
      using Some a f(1) by (auto simp: s'_def rb_ingest_def rb_known_def Let_def split: if_splits)
    have "rb_remote_ok R s'"
      using rem f unfolding rb_remote_ok_def r k same by auto
    with k f show ?thesis by simp
  qed
  then show ?thesis
    using inv same by (simp add: rb_inv_def rb_ports_ok_def rb_kept_def rb_timeline_def)
qed

text \<open>The drain returns, and keeps the invariant whether or not the peer is still there.\<close>

lemma rb_drain_inv:
  assumes "rb_inv L R s0 n s"
  shows "\<exists>s' b. rb_drain tr s = Some (s', b) \<and> rb_inv L R s0 n s' \<and> rb_frame s' = rb_frame s \<and>
     rb_local s' = rb_local s \<and> rb_local_port s' = rb_local_port s \<and>
     rb_status s' = (if b then rb_status s else RbDisconnected)"
  using assms
proof (induction "length (inbox (rb_t s))" arbitrary: s rule: less_induct)
  case less
  obtain t r where tr: "tr_recv tr (rb_t s) False 0 = (t, r)"
    by fastforce
  show ?case
  proof (cases r)
    case (Inl e)
    have "inbox t = inbox (rb_t s)"
      using recv_err tr Inl by blast
    then have "rb_inv L R s0 n (s\<lparr>rb_t := t\<rparr>)" "rb_inv L R s0 n (s\<lparr>rb_t := t, rb_status := RbDisconnected\<rparr>)"
      by (auto simp: rb_vars_def rb_inv_good [OF less.prems] intro!: rb_inv_same [OF less.prems])
    then show ?thesis
      using tr Inl by (subst rb_drain.simps) (auto simp: rb_recv_def)
  next
    case (Inr m)
    have inb: "inbox (rb_t s) = m # inbox t"
      using recv_msg tr Inr by blast
    define s1 where "s1 = rb_ingest m (s\<lparr>rb_t := t\<rparr>)"
    have s1: "rb_t s1 = t" "rb_frame s1 = rb_frame s" "rb_local s1 = rb_local s" "rb_status s1 = rb_status s"
        "rb_local_port s1 = rb_local_port s"
      by (auto simp: s1_def rb_ingest_def Let_def split: option.splits)
    have "rb_drain tr s = rb_drain tr s1"
      using tr Inr by (subst rb_drain.simps) (simp add: rb_recv_def s1_def)
    moreover have "length (inbox (rb_t s1)) < length (inbox (rb_t s))"
      using s1(1) inb by simp
    ultimately show ?thesis
      using less.hyps [OF _ rb_ingest_inv [OF less.prems inb, folded s1_def]] s1 by (auto simp only:)
  qed
qed

end

context lockstep_net
begin

lemma rb_simulate_inv:
  assumes inv: "rb_inv L R s0 (rb_known s) s" and small: "rb_frame s < UINT64_MAX"
    and loc: "om_find (rb_local s) (rb_frame s) = Some (L (rb_frame s))"
  shows "\<exists>s'. rb_simulate ra (L (rb_frame s)) out s = (s', True) \<and> rb_inv L R s0 (rb_known s) s' \<and>
     rb_frame s' = rb_frame s + 1 \<and> rb_known s' = rb_known s \<and> rb_local_port s' = rb_local_port s"
proof -
  define F where "F = rb_frame s"
  define U where "U = predicted R (rb_known s)"
  have g: "good (rb_rt s)" and p: "rb_ports_ok s" and v: "rb_verified s \<le> rb_known s" "rb_verified s \<le> F"
    and rem: "rb_remote_ok R s" and st0: "st (rb_rt s) = rb_timeline L R s0 (rb_known s) s F"
    and kept: "rb_kept L R s0 (rb_known s) s"
    using inv by (simp_all add: rb_inv_def F_def)
  from rb_save_ring_good [OF g, of F] obtain rt1 where
    rt1: "rb_save_ring ra F s = s\<lparr>rb_rt := rt1, rb_ring := om_put F (enc (st (rb_rt s))) (rb_ring s)\<rparr>"
      "good rt1" "st rt1 = st (rb_rt s)"
    by blast
  define s1 where "s1 = s\<lparr>rb_rt := rt1, rb_ring := om_put F (enc (st (rb_rt s))) (rb_ring s)\<rparr>"
  have "rb_fixed s1 = rb_fixed s" by (simp add: s1_def rb_fixed_def)
  then have ri: "rb_remote_input s1 F = U F"
    using rb_fixed_eqs rb_remote_input_predicted [OF rem v(1), of F] v(2) unfolding U_def by fastforce
  define rt2 where "rt2 = ra_set_input ra (ra_set_input ra rt1 (rb_local_port s) (L F)) (rb_remote_port s) (U F)"
  note set = set_both_ports [OF rt1(2) p [unfolded rb_ports_ok_def], of "L F" "U F", folded rt2_def]
  from advance_law [OF set(1), of True] obtain rt3 where
    rt3: "ra_advance ra rt2 True = (rt3, RP_OK)" "good rt3" "st rt3 = step (st rt2) (inp rt2 0) (inp rt2 1)"
    by blast
  have st3: "st rt3 = rb_timeline L R s0 (rb_known s) s (Suc F)"
    using rt3(3) set rt1(3) st0 by (simp add: rb_timeline_def replay_Suc input_pair_def delayed_def U_def)
  define rt4 where "rt4 = fst (ra_render ra rt3 out)"
  have rt4: "good rt4" "st rt4 = st rt3"
    using render_law [OF rt3(2)] by (simp_all add: rt4_def)
  define s' where "s' = s1\<lparr>rb_used := om_put F (U F) (rb_used s), rb_rt := rt4, rb_frame := F + 1\<rparr>"
  have w: "wrap64 (F + 1) = F + 1"
    using small by (simp add: wrap64_def UINT64_MAX_def F_def)
  have run: "rb_simulate ra (L F) out s = (s', True)"
    using rt1(1) ri rt3(1) w
    by (simp add: rb_simulate_def F_def [symmetric] s1_def [symmetric] Let_def)
      (simp add: s1_def rt2_def [symmetric] s'_def rt4_def)
  have tl: "rb_timeline L R s0 (rb_known s) s' = rb_timeline L R s0 (rb_known s) s"
    by (simp add: rb_timeline_def fun_eq_iff s'_def s1_def)
  have fs: "rb_known s' = rb_known s" "rb_ports_ok s' = rb_ports_ok s" "rb_remote_ok R s' = rb_remote_ok R s"
    "rb_frame s' = F + 1"
    by (simp_all add: s'_def s1_def rb_known_def rb_ports_ok_def rb_remote_ok_def)
  have "rb_kept L R s0 (rb_known s) s'"
    unfolding rb_kept_def tl
    using kept loc st0
    by (auto simp: rb_kept_def s'_def s1_def F_def [symmetric] U_def [symmetric] less_Suc_eq le_Suc_eq)
  moreover have "om_agrees (rb_own_crc s')
      (\<lambda>f c. f \<le> F + 1 \<and> c = crc32 (enc (replay step (rb_local_port s) 0 L R f s0)))"
    using inv unfolding rb_inv_def om_agrees_def F_def [symmetric] by (auto simp: s'_def s1_def intro: le_SucI)
  ultimately have "rb_inv L R s0 (rb_known s) s'"
    using inv fs tl st3 rt4 v by (simp add: rb_inv_def) (simp add: s'_def s1_def)
  then show ?thesis
    using run fs by (auto simp: F_def s'_def s1_def)
qed

lemma rb_floor_le: "rb_max_prediction s + 2 \<noteq> 0 \<Longrightarrow> rb_floor s \<le> rb_verified s - 1"
proof -
  assume "rb_max_prediction s + 2 \<noteq> 0"
  then have "0 < unat (rb_max_prediction s + 2)"
    by (simp add: unat_gt_0)
  then show ?thesis by (auto simp: rb_floor_def Let_def)
qed

lemma rb_prune_inv:
  assumes inv: "rb_inv L R s0 n s"
  shows "rb_inv L R s0 n (rb_prune s)"
proof -
  let ?s = "rb_prune s"
  have fl: "rb_floor s \<le> rb_verified s - 1"
    using inv by (intro rb_floor_le) (simp add: rb_inv_def)
  have same: "rb_known ?s = rb_known s" "rb_ports_ok ?s = rb_ports_ok s" "rb_timeline L R s0 n ?s = rb_timeline L R s0 n s"
    "rb_verified ?s = rb_verified s" "rb_frame ?s = rb_frame s"
    by (simp_all add: rb_prune_def rb_known_def rb_ports_ok_def rb_timeline_def fun_eq_iff)
  have k: "rb_kept L R s0 n s" and r: "rb_remote_ok R s"
    using inv by (simp_all add: rb_inv_def)
  have ge: "\<not> f < rb_floor s" if "rb_verified s - 1 \<le> f" for f
    using fl that by linarith
  then have ge': "\<not> f < rb_floor s" if "rb_verified s \<le> f" for f
    using that by (meson diff_le_self order_trans)
  have "rb_kept L R s0 n ?s"
    using k ge' unfolding rb_kept_def same by (auto simp: rb_prune_def rb_prune_below_def)
  moreover have "rb_remote_ok R ?s"
    using r ge unfolding rb_remote_ok_def same by (auto simp: rb_prune_def rb_prune_below_def)
  ultimately show ?thesis
    using inv unfolding rb_inv_def same by (simp add: rb_prune_def)
qed

lemma rb_finish_inv:
  assumes inv: "rb_inv L R s0 n s"
  shows "rb_inv L R s0 n (rb_finish tr s)"
    and "rb_frame (rb_finish tr s) = rb_frame s" "rb_known (rb_finish tr s) = rb_known s"
    "rb_local_port (rb_finish tr s) = rb_local_port s"
proof -
  let ?v = "rb_verified s" and ?s1 = "rb_maybe_send_checksum tr s"
  have s1: "rb_inv L R s0 n ?s1 \<and> rb_frame ?s1 = rb_frame s \<and> rb_known ?s1 = rb_known s \<and>
      rb_local_port ?s1 = rb_local_port s"
  proof (cases "?v = 0 \<or> ?v mod kChecksumEvery \<noteq> 0 \<or> om_find (rb_ring s) ?v = None")
    case True
    then show ?thesis using inv by (auto simp: rb_maybe_send_checksum_def)
  next
    case False
    then obtain blob where blob: "om_find (rb_ring s) ?v = Some blob" by blast
    have "om_find (rb_ring s) ?v \<in> {None, Some (enc (rb_timeline L R s0 n s ?v))}"
      using inv by (simp add: rb_inv_def rb_kept_def)
    with blob have "blob = enc (rb_timeline L R s0 n s ?v)" by simp
    moreover have "rb_timeline L R s0 n s ?v = replay step (rb_local_port s) 0 L R ?v s0"
      unfolding rb_timeline_def using inv by (intro replay_cong predicted_known) (simp add: rb_inv_def)
    ultimately have crc: "crc32 blob = crc32 (enc (replay step (rb_local_port s) 0 L R ?v s0))" by simp
    define s2 where "s2 = s\<lparr>rb_own_crc := om_put ?v (crc32 blob) (rb_own_crc s)\<rparr>"
    define t where "t = fst (tr_send tr (rb_t s) (encode_checksum \<lparr>c_frame = of_nat ?v, c_crc = crc32 blob\<rparr>))"
    have e: "?s1 = s2\<lparr>rb_t := t\<rparr>"
      using False blob by (simp add: rb_maybe_send_checksum_def rb_send_def s2_def t_def split_beta Let_def)
    have same: "rb_known s2 = rb_known s" "rb_ports_ok s2 = rb_ports_ok s" "rb_timeline L R s0 n s2 = rb_timeline L R s0 n s"
        "rb_kept L R s0 n s2 = rb_kept L R s0 n s" "rb_remote_ok R s2 = rb_remote_ok R s"
      by (simp_all add: s2_def rb_known_def rb_ports_ok_def rb_timeline_def rb_kept_def rb_remote_ok_def fun_eq_iff)
    have "om_agrees (rb_own_crc s2)
        (\<lambda>f c. f \<le> rb_frame s \<and> c = crc32 (enc (replay step (rb_local_port s) 0 L R f s0)))"
      using inv crc by (simp add: s2_def om_agrees_put rb_inv_def)
    then have "rb_inv L R s0 n s2"
      using inv unfolding rb_inv_def same by (simp add: s2_def)
    then have "rb_inv L R s0 n ?s1"
      unfolding e by (rule rb_inv_same) (simp_all add: rb_vars_def s2_def t_def send_inbox rb_inv_good [OF inv])
    then show ?thesis
      by (simp add: e s2_def rb_known_def)
  qed
  have s3: "rb_inv L R s0 n (rb_check_desync ?s1)"
    using s1 by (rule rb_inv_same [OF conjunct1]) (use s1 rb_inv_good in \<open>auto simp: rb_vars_def rb_check_desync_def\<close>)
  show "rb_inv L R s0 n (rb_finish tr s)"
    unfolding rb_finish_def by (rule rb_prune_inv [OF s3])
  have "rb_frame (rb_finish tr s) = rb_frame ?s1" "rb_known (rb_finish tr s) = rb_known ?s1"
    "rb_local_port (rb_finish tr s) = rb_local_port ?s1"
    by (simp_all add: rb_finish_def rb_prune_def rb_check_desync_def rb_known_def)
  with s1 show "rb_frame (rb_finish tr s) = rb_frame s" "rb_known (rb_finish tr s) = rb_known s"
    "rb_local_port (rb_finish tr s) = rb_local_port s"
    by simp_all
qed

end

context lockstep_net
begin

lemma rb_after_drain_inv:
  fixes out :: bool
  assumes inv: "rb_inv L R s0 n s" and small: "rb_frame s < UINT64_MAX"
    and loc: "om_find (rb_local s) (rb_frame s) = Some (L (rb_frame s))"
  defines "s' \<equiv> rb_after_drain ra tr (L (rb_frame s)) out s"
  shows "rb_inv L R s0 (rb_known s') s' \<and> (rb_status s' = RbOk \<or> rb_status s' = RbStalled) \<and>
     rb_frame s' \<le> rb_frame s + 1 \<and> rb_local_port s' = rb_local_port s"
proof -
  from rb_reconcile_inv [OF inv small] obtain s1 where
    s1: "rb_reconcile ra s = (s1, True)" "rb_inv L R s0 (rb_known s) s1" "rb_fixed s1 = rb_fixed s"
      "rb_local s1 = rb_local s"
    by blast
  have fs: "rb_known s1 = rb_known s" "rb_frame s1 = rb_frame s" "rb_local_port s1 = rb_local_port s"
    using rb_fixed_eqs [OF s1(3)] s1(3) by (simp_all add: rb_fixed_def)
  note inv1 = s1(2) [folded fs(1)]
  have keep: "rb_inv L R s0 (rb_known s2) (s2\<lparr>rb_status := x\<rparr>)" if "rb_inv L R s0 (rb_known s2) s2" for s2 x
    using that by (rule rb_inv_same) (simp_all add: rb_vars_def rb_inv_good [OF that])
  show ?thesis
  proof (cases "unat (rb_max_prediction s1) \<le> rb_ahead s1")
    case True
    define s2 where "s2 = s1\<lparr>rb_rt := fst (ra_render ra (rb_rt s1) out)\<rparr>"
    have "rb_inv L R s0 (rb_known s1) s2"
      using inv1 by (rule rb_inv_same)
        (simp_all add: s2_def rb_vars_def render_law [OF rb_inv_good [OF inv1]])
    note fin = rb_finish_inv [OF this]
    have "s' = (rb_finish tr s2)\<lparr>rb_status := RbStalled\<rparr>"
      using True s1(1) by (simp add: s'_def rb_after_drain_def s2_def)
    moreover have "rb_known s2 = rb_known s1" "rb_frame s2 = rb_frame s" "rb_local_port s2 = rb_local_port s"
      using fs by (simp_all add: s2_def)
    ultimately show ?thesis
      using fin keep [of "rb_finish tr s2" RbStalled] by simp
  next
    case False
    from rb_simulate_inv [OF inv1, of out] small loc fs s1(4) obtain s2 where
      s2: "rb_simulate ra (L (rb_frame s)) out s1 = (s2, True)" "rb_inv L R s0 (rb_known s1) s2"
        "rb_frame s2 = rb_frame s + 1" "rb_known s2 = rb_known s1" "rb_local_port s2 = rb_local_port s"
      by auto
    note fin = rb_finish_inv [OF s2(2)]
    have "s' = (rb_finish tr s2)\<lparr>rb_status := RbOk\<rparr>"
      using False s1(1) s2(1) by (simp add: s'_def rb_after_drain_def)
    then show ?thesis
      using fin keep [of "rb_finish tr s2" RbOk] s2 by simp
  qed
qed

lemma rb_tick_inv:
  assumes inv: "rb_inv L R s0 n s" and small: "rb_frame s < UINT64_MAX"
    and settled: "rb_status s \<noteq> RbDisconnected \<Longrightarrow> n = rb_known s" and nd: "rb_status s \<noteq> RbDesync"
  shows "\<exists>s' n'. rb_tick ra tr (L (rb_frame s)) out s = Some s' \<and> rb_inv L R s0 n' s' \<and>
     (rb_status s' \<noteq> RbDisconnected \<longrightarrow> n' = rb_known s') \<and> rb_status s' \<noteq> RbDesync \<and>
     rb_frame s' \<le> rb_frame s + 1 \<and> rb_local_port s' = rb_local_port s"
proof (cases "rb_status s = RbDisconnected")
  case True
  with inv show ?thesis by (auto simp: rb_tick_def)
next
  case False
  define F where "F = rb_frame s"
  let ?m = "encode_input \<lparr>i_frame = of_nat F, i_port = ucast (rb_local_port s), i_state = L F\<rparr>"
  obtain t r where tr: "tr_send tr (rb_t s) ?m = (t, r)"
    by fastforce
  define s1 where "s1 = s\<lparr>rb_local := om_put F (L F) (rb_local s), rb_t := t\<rparr>"
  have same: "rb_known s1 = rb_known s" "rb_ports_ok s1 = rb_ports_ok s" "rb_timeline L R s0 n s1 = rb_timeline L R s0 n s"
      "rb_remote_ok R s1 = rb_remote_ok R s"
    by (simp_all add: s1_def rb_known_def rb_ports_ok_def rb_timeline_def rb_remote_ok_def fun_eq_iff)
  have "rb_kept L R s0 n s"
    using inv by (simp add: rb_inv_def)
  then have "rb_kept L R s0 n s1"
    unfolding rb_kept_def same by (simp add: s1_def F_def)
  moreover have "inbox t = inbox (rb_t s)"
    using send_inbox [of "rb_t s" ?m] tr by simp
  ultimately have inv1: "rb_inv L R s0 n s1"
    using inv unfolding rb_inv_def same by (simp add: s1_def)
  have loc1: "om_find (rb_local s1) F = Some (L F)" "rb_frame s1 = F" "rb_status s1 = rb_status s"
    "rb_local_port s1 = rb_local_port s"
    using inv by (simp_all add: s1_def F_def rb_inv_def rb_kept_def)
  show ?thesis
  proof (cases "r = RP_OK")
    case bad: False
    have "rb_inv L R s0 n (s1\<lparr>rb_status := RbDisconnected\<rparr>)"
      using inv1 by (rule rb_inv_same) (simp_all add: rb_vars_def rb_inv_good [OF inv1])
    moreover have "rb_tick ra tr (L F) out s = Some (s1\<lparr>rb_status := RbDisconnected\<rparr>)"
      using False bad tr by (simp add: rb_tick_def rb_send_def s1_def F_def Let_def)
    ultimately show ?thesis
      using loc1 by (auto simp: F_def)
  next
    case True
    from rb_drain_inv [OF inv1] obtain s2 b where
      s2: "rb_drain tr s1 = Some (s2, b)" "rb_inv L R s0 n s2" "rb_frame s2 = F" "rb_local s2 = rb_local s1"
        "rb_local_port s2 = rb_local_port s" "rb_status s2 = (if b then rb_status s else RbDisconnected)"
      using loc1 by auto
    have tick: "rb_tick ra tr (L F) out s = Some (if b then rb_after_drain ra tr (L F) out s2 else s2)"
      using False True tr s2(1) by (simp add: rb_tick_def rb_send_def s1_def F_def Let_def)
    show ?thesis
    proof (cases b)
      case True
      have "rb_inv L R s0 (rb_known (rb_after_drain ra tr (L F) out s2)) (rb_after_drain ra tr (L F) out s2) \<and>
          (rb_status (rb_after_drain ra tr (L F) out s2) = RbOk \<or> rb_status (rb_after_drain ra tr (L F) out s2) = RbStalled) \<and>
          rb_frame (rb_after_drain ra tr (L F) out s2) \<le> F + 1 \<and>
          rb_local_port (rb_after_drain ra tr (L F) out s2) = rb_local_port s2"
        using rb_after_drain_inv [OF s2(2)] s2 small loc1 by (metis F_def)
      with tick True s2(5) show ?thesis by (auto simp: F_def)
    next
      case False
      with tick s2 show ?thesis by (auto simp: F_def)
    qed
  qed
qed

text \<open>Any input may be held at a tick: from then on it is the input of the current frame.\<close>

lemma rb_run_inv:
  assumes "rb_inv L R s0 n s" "rb_frame s + length ticks \<le> UINT64_MAX"
    and "rb_status s \<noteq> RbDisconnected \<Longrightarrow> n = rb_known s" "rb_status s \<noteq> RbDesync"
  shows "\<exists>s' n'. rb_run ra tr ticks s = Some s' \<and> rb_inv (rb_log ra tr ticks s L) R s0 n' s' \<and>
     (rb_status s' \<noteq> RbDisconnected \<longrightarrow> n' = rb_known s') \<and> rb_status s' \<noteq> RbDesync \<and>
     rb_frame s' \<le> rb_frame s + length ticks \<and> rb_local_port s' = rb_local_port s"
  using assms
proof (induction ticks arbitrary: s n L)
  case Nil
  then show ?case by auto
next
  case (Cons tick ticks)
  obtain x out where tick: "tick = (x, out)" by fastforce
  define L' where "L' = L(rb_frame s := x)"
  have "rb_inv L' R s0 n s"
    by (rule rb_inv_local_cong [OF Cons.prems(1)]) (simp add: L'_def)
  from rb_tick_inv [OF this _ Cons.prems(3,4), of out] Cons.prems(2) obtain s1 n1 where
    s1: "rb_tick ra tr x out s = Some s1" "rb_inv L' R s0 n1 s1"
      "rb_status s1 \<noteq> RbDisconnected \<longrightarrow> n1 = rb_known s1" "rb_status s1 \<noteq> RbDesync"
      "rb_frame s1 \<le> rb_frame s + 1" "rb_local_port s1 = rb_local_port s"
    by (auto simp: L'_def)
  with Cons.IH [OF s1(2) _ _ s1(4)] Cons.prems(2) show ?case
    unfolding tick by (fastforce simp: L'_def)
qed

end

section \<open>What a tick does with any runtime and any transport\<close>

lemma rb_save_ring_fixed [simp]: "rb_fixed (rb_save_ring ra f s) = rb_fixed s"
  by (simp add: rb_save_ring_def rb_fixed_def split: prod.splits sum.splits)

lemma rb_fixed_updates [simp]:
  "rb_fixed (s\<lparr>rb_rt := rt\<rparr>) = rb_fixed s" "rb_fixed (s\<lparr>rb_status := x\<rparr>) = rb_fixed s"
  "rb_fixed (s\<lparr>rb_verified := v\<rparr>) = rb_fixed s" "rb_fixed (s\<lparr>rb_used := m\<rparr>) = rb_fixed s"
  "rb_fixed (s\<lparr>rb_local := m\<rparr>) = rb_fixed s" "rb_fixed (s\<lparr>rb_ring := b\<rparr>) = rb_fixed s"
  "rb_fixed (s\<lparr>rb_rollback_count := c\<rparr>) = rb_fixed s"
  by (simp_all add: rb_fixed_def)

lemma rb_resim_fixed [simp]: "rb_fixed (fst (rb_resim ra f n s)) = rb_fixed s"
  by (induction n arbitrary: f s) (simp_all add: Let_def split_beta)

lemma rb_rollback_fixed [simp]: "rb_fixed (fst (rb_rollback ra g F s)) = rb_fixed s"
  by (simp add: rb_rollback_def Let_def split_beta)

lemma rb_reconcile_fixed: "rb_fixed (fst (rb_reconcile ra s)) = rb_fixed s"
  by (simp add: rb_reconcile_def Let_def split_beta)

lemma rb_simulate_fixed:
  assumes "rb_simulate ra x out s = (s', ok)"
  shows "rb_t s' = rb_t s \<and> rb_local_port s' = rb_local_port s \<and> rb_max_prediction s' = rb_max_prediction s \<and>
     rb_known s' = rb_known s \<and>
     (if ok then rb_frame s' = wrap64 (rb_frame s + 1)
      else rb_frame s' = rb_frame s \<and> rb_status s' = RbDesync)"
proof -
  have "rb_fixed (rb_save_ring ra (rb_frame s) s) = rb_fixed s" by simp
  then show ?thesis
    using assms by (auto simp: rb_simulate_def rb_fixed_def rb_known_def Let_def split: prod.splits if_splits)
qed

lemma rb_finish_fixed:
  "rb_frame (rb_finish tr s) = rb_frame s" "rb_local_port (rb_finish tr s) = rb_local_port s"
  "rb_known (rb_finish tr s) = rb_known s" "rb_max_prediction (rb_finish tr s) = rb_max_prediction s"
  by (auto simp: rb_finish_def rb_prune_def rb_check_desync_def rb_maybe_send_checksum_def rb_send_def
      rb_known_def Let_def split: option.splits prod.splits)

text \<open>A failed reconciliation is the only way for it to end early, and it reports a desync.\<close>

lemma rb_resim_failed: "\<not> snd (rb_resim ra f n s) \<Longrightarrow> rb_status (fst (rb_resim ra f n s)) = RbDesync"
  by (induction n arbitrary: f s) (auto simp: Let_def split_beta split: if_splits)

lemma rb_reconcile_failed:
  "\<not> snd (rb_reconcile ra s) \<Longrightarrow> rb_status (fst (rb_reconcile ra s)) = RbDesync"
  by (auto simp: rb_reconcile_def rb_rollback_def Let_def split_beta rb_resim_failed split: if_splits)

lemma rb_drain_fixed:
  "rb_drain tr s = Some y \<Longrightarrow>
     rb_frame (fst y) = rb_frame s \<and> rb_local_port (fst y) = rb_local_port s \<and>
     rb_max_prediction (fst y) = rb_max_prediction s \<and>
     rb_status (fst y) = (if snd y then rb_status s else RbDisconnected)"
proof (induction rule: rb_drain.raw_induct [rotated, consumes 1])
  case (1 f tr s y)
  obtain t r where tr: "tr_recv tr (rb_t s) False 0 = (t, r)" by fastforce
  show ?case
  proof (cases r)
    case (Inl e)
    with 1(2) tr show ?thesis by (auto simp: rb_recv_def split: if_splits)
  next
    case (Inr m)
    with 1(2) tr have "f tr (rb_ingest m (s\<lparr>rb_t := t\<rparr>)) = Some y"
      by (simp add: rb_recv_def)
    from 1(1) [OF this] show ?thesis
      by (auto simp: rb_ingest_def Let_def split: option.splits if_splits)
  qed
qed

section \<open>What a session sends\<close>

lemma ordered_inputs_checksums:
  "set c \<subseteq> range encode_checksum \<Longrightarrow> ordered_inputs R n (c @ ms) = ordered_inputs R n ms"
  by (induction c arbitrary: n) (auto simp: ingest_own)

context message_stream
begin

lemma rb_drain_outbox:
  "rb_drain tr s = Some (s', b) \<Longrightarrow> outbox (rb_t s') = outbox (rb_t s)"
proof (induction "length (inbox (rb_t s))" arbitrary: s rule: less_induct)
  case less
  obtain t r where tr: "tr_recv tr (rb_t s) False 0 = (t, r)" by fastforce
  have out: "outbox t = outbox (rb_t s)"
    using recv_outbox [of "rb_t s" False 0] tr by simp
  note unf = less.prems [unfolded rb_drain.simps [of tr s] rb_recv_def tr]
  show ?case
  proof (cases r)
    case (Inl e)
    with unf out show ?thesis by (auto split: if_splits)
  next
    case (Inr m)
    let ?s1 = "rb_ingest m (s\<lparr>rb_t := t\<rparr>)"
    have t1: "rb_t ?s1 = t"
      by (auto simp: rb_ingest_def Let_def split: option.splits)
    have "inbox (rb_t s) = m # inbox t"
      using recv_msg tr Inr by blast
    with less.hyps [of ?s1] unf Inr t1 out show ?thesis by simp
  qed
qed

lemma rb_finish_outbox:
  "\<exists>c. outbox (rb_t (rb_finish tr s)) = outbox (rb_t s) @ c \<and> set c \<subseteq> range encode_checksum"
proof -
  have t: "rb_t (rb_finish tr s) = rb_t (rb_maybe_send_checksum tr s)"
    by (simp add: rb_finish_def rb_prune_def rb_check_desync_def)
  have send: "\<exists>c. outbox (fst (tr_send tr (rb_t s) (encode_checksum x))) = outbox (rb_t s) @ c \<and>
      set c \<subseteq> range encode_checksum" for x
  proof -
    obtain t r where tr: "tr_send tr (rb_t s) (encode_checksum x) = (t, r)" by fastforce
    with send_outbox [of "rb_t s" "encode_checksum x" t] send_failed [of "rb_t s" "encode_checksum x" t r]
    show ?thesis by (cases "r = RP_OK") auto
  qed
  show ?thesis
    unfolding t using send
    by (auto simp: rb_maybe_send_checksum_def rb_send_def split_beta Let_def split: option.splits)
qed

lemma rb_after_drain_trace:
  defines "s' \<equiv> \<lambda>ra x out s. rb_after_drain ra tr x out s"
  shows "rb_local_port (s' ra x out s) = rb_local_port s \<and>
    (rb_frame (s' ra x out s) = rb_frame s \<or> rb_frame (s' ra x out s) = wrap64 (rb_frame s + 1)) \<and>
    (\<exists>c. outbox (rb_t (s' ra x out s)) = outbox (rb_t s) @ c \<and> set c \<subseteq> range encode_checksum)"
proof -
  obtain s1 ok where s1: "rb_reconcile ra s = (s1, ok)" by fastforce
  have f1: "rb_local_port s1 = rb_local_port s" "rb_frame s1 = rb_frame s" "rb_t s1 = rb_t s"
    using rb_reconcile_fixed [of ra s] s1 by (simp_all add: rb_fixed_def)
  obtain s2 ok2 where s2: "rb_simulate ra x out s1 = (s2, ok2)" by fastforce
  note f2 = rb_simulate_fixed [OF s2]
  define s3 where "s3 = s1\<lparr>rb_rt := fst (ra_render ra (rb_rt s1) out)\<rparr>"
  have "s' ra x out s = (if \<not> ok then s1
      else if unat (rb_max_prediction s1) \<le> rb_ahead s1 then (rb_finish tr s3)\<lparr>rb_status := RbStalled\<rparr>
      else if \<not> ok2 then s2 else (rb_finish tr s2)\<lparr>rb_status := RbOk\<rparr>)"
    using s1 s2 by (simp add: s'_def rb_after_drain_def s3_def)
  moreover have "rb_local_port s3 = rb_local_port s" "rb_frame s3 = rb_frame s" "rb_t s3 = rb_t s"
    using f1 by (simp_all add: s3_def)
  ultimately show ?thesis
    using f1 f2 rb_finish_outbox [of s3] rb_finish_outbox [of s2] by (auto simp: rb_finish_fixed split: if_splits)
qed

lemma rb_tick_trace:
  assumes "rb_tick ra tr x out s = Some s'"
  shows "rb_local_port s' = rb_local_port s \<and>
    (outbox (rb_t s') = outbox (rb_t s) \<and> rb_frame s' = rb_frame s \<or>
     (rb_frame s' = rb_frame s \<or> rb_frame s' = wrap64 (rb_frame s + 1)) \<and>
     (\<exists>c. outbox (rb_t s') = outbox (rb_t s) @ encode_input \<lparr>i_frame = of_nat (rb_frame s),
          i_port = ucast (rb_local_port s), i_state = x\<rparr> # c \<and> set c \<subseteq> range encode_checksum))"
proof (cases "rb_status s = RbDisconnected")
  case True
  with assms show ?thesis by (simp add: rb_tick_def)
next
  case False
  let ?m = "encode_input \<lparr>i_frame = of_nat (rb_frame s), i_port = ucast (rb_local_port s), i_state = x\<rparr>"
  obtain t r where tr: "tr_send tr (rb_t s) ?m = (t, r)" by fastforce
  define s1 where "s1 = s\<lparr>rb_local := om_put (rb_frame s) x (rb_local s), rb_t := t\<rparr>"
  have tick: "rb_tick ra tr x out s = (if r \<noteq> RP_OK then Some (s1\<lparr>rb_status := RbDisconnected\<rparr>)
      else case rb_drain tr s1 of None \<Rightarrow> None
           | Some (s2, ok) \<Rightarrow> Some (if ok then rb_after_drain ra tr x out s2 else s2))"
    using False tr by (simp add: rb_tick_def rb_send_def s1_def Let_def)
  show ?thesis
  proof (cases "r = RP_OK")
    case bad: False
    with assms tick send_failed [OF tr] show ?thesis by (auto simp: s1_def)
  next
    case True
    with assms tick obtain s2 ok where
      s2: "rb_drain tr s1 = Some (s2, ok)" "s' = (if ok then rb_after_drain ra tr x out s2 else s2)"
      by (auto split: option.splits)
    have "outbox (rb_t s2) = outbox (rb_t s) @ [?m]" "rb_frame s2 = rb_frame s" "rb_local_port s2 = rb_local_port s"
      using rb_drain_outbox [OF s2(1)] send_outbox [OF tr [unfolded True]] rb_drain_fixed [OF s2(1)]
      by (simp_all add: s1_def)
    with rb_after_drain_trace [of ra x out s2] s2(2) show ?thesis by (auto split: if_splits)
  qed
qed

lemma rb_run_trace:
  assumes "rb_run ra tr ticks s = Some s'" "rb_steady ra tr L ticks s" "rb_frame s + length ticks < 2 ^ 64"
    and "\<And>f. wf_input (L f)"
  shows "\<exists>ms. outbox (rb_t s') = outbox (rb_t s) @ ms \<and>
     ordered_inputs L (rb_frame s) ms \<and> ordered_inputs L (Suc (rb_frame s)) ms"
  using assms(1-3)
proof (induction ticks arbitrary: s)
  case Nil
  then show ?case by simp
next
  case (Cons tick ticks)
  obtain x out where tick: "tick = (x, out)" by fastforce
  with Cons.prems obtain s1 where s1: "rb_tick ra tr (L (rb_frame s)) out s = Some s1"
      "rb_run ra tr ticks s1 = Some s'" "rb_steady ra tr L ticks s1"
    by (auto split: option.splits)
  have w: "wrap64 (rb_frame s + 1) = Suc (rb_frame s)" "unat (of_nat (rb_frame s) :: u64) = rb_frame s"
    using Cons.prems(3) by (simp_all add: wrap64_def unat_of_nat_u64)
  note t = rb_tick_trace [OF s1(1), unfolded w]
  then have "rb_frame s1 = rb_frame s \<or> rb_frame s1 = Suc (rb_frame s)" by blast
  with Cons.IH [OF s1(2,3)] Cons.prems(3) obtain ms where
    ms: "outbox (rb_t s') = outbox (rb_t s1) @ ms" "ordered_inputs L (rb_frame s1) ms"
      "ordered_inputs L (Suc (rb_frame s1)) ms"
    by auto
  from t consider (none) "outbox (rb_t s1) = outbox (rb_t s)" "rb_frame s1 = rb_frame s"
    | (sent) c where "rb_frame s1 = rb_frame s \<or> rb_frame s1 = Suc (rb_frame s)" "set c \<subseteq> range encode_checksum"
      "outbox (rb_t s1) = outbox (rb_t s) @ encode_input \<lparr>i_frame = of_nat (rb_frame s),
          i_port = ucast (rb_local_port s), i_state = L (rb_frame s)\<rparr> # c"
    by blast
  then show ?case
  proof cases
    case none
    with ms show ?thesis by auto
  next
    case sent
    have "ordered_inputs L n (encode_input \<lparr>i_frame = of_nat (rb_frame s), i_port = ucast (rb_local_port s),
        i_state = L (rb_frame s)\<rparr> # c @ ms)" if "n = rb_frame s \<or> n = Suc (rb_frame s)" for n
      using that ms sent(1,2) w(2) assms(4) by (auto simp: ingest_own ordered_inputs_checksums max_def)
    with ms(1) sent(3) show ?thesis by auto
  qed
qed

end

section \<open>Correctness of rollback\<close>

text \<open>
  A session as \<open>start_host\<close> and \<open>start_join\<close> leave it. The slack of the pruning, \<open>max_prediction_ + 2\<close>
  in 32 bits, must not wrap to 0, or the last confirmed input is pruned while predictions still use it.
\<close>

definition rb_fresh :: "u32 \<Rightarrow> ('r, 't) RollbackSession \<Rightarrow> bool" where
  "rb_fresh lp s \<longleftrightarrow>
     (lp = 0 \<or> lp = 1) \<and> rb_local_port s = lp \<and> rb_remote_port s = 1 - lp \<and> rb_max_prediction s + 2 \<noteq> 0 \<and>
     rb_frame s = 0 \<and> rb_confirmed s = 0 \<and> \<not> rb_have_confirmed s \<and> rb_verified s = 0 \<and> rb_status s = RbOk \<and>
     rb_ring s = [] \<and> rb_local s = [] \<and> rb_remote s = [] \<and> rb_used s = [] \<and> rb_own_crc s = [] \<and> rb_peer_crc s = []"


context lockstep_net
begin

lemma rb_fresh_inv:
  assumes "rb_fresh lp s" "good (rb_rt s)" "ordered_inputs R 0 (inbox (rb_t s))"
  shows "rb_inv L R (st (rb_rt s)) 0 s" "rb_known s = 0"
  using assms
  by (auto simp: rb_fresh_def rb_inv_def rb_kept_def rb_ports_ok_def rb_remote_ok_def rb_known_def rb_timeline_def)

lemma rb_fresh_run:
  fixes L :: "nat \<Rightarrow> rp_input_state"
  assumes "rb_fresh lp s" "good (rb_rt s)" "ordered_inputs R 0 (inbox (rb_t s))" "length ticks < 2 ^ 64"
  defines "Lt \<equiv> rb_log ra tr ticks s L"
  shows "\<exists>s' n. rb_run ra tr ticks s = Some s' \<and>
     st (rb_rt s') = replay step lp 0 Lt (predicted R n) (rb_frame s') (st (rb_rt s)) \<and>
     n \<le> rb_known s' \<and> (rb_status s' \<noteq> RbDisconnected \<longrightarrow> n = rb_known s') \<and> rb_status s' \<noteq> RbDesync \<and>
     om_agrees (rb_own_crc s') (\<lambda>f c. c = crc32 (enc (replay step lp 0 Lt R f (st (rb_rt s)))))"
proof -
  have f: "rb_frame s + length ticks \<le> UINT64_MAX" "rb_status s \<noteq> RbDesync" "rb_local_port s = lp"
    using assms(1,4) by (simp_all add: rb_fresh_def UINT64_MAX_def)
  from rb_run_inv [OF rb_fresh_inv(1) [OF assms(1-3), of L] f(1) _ f(2)] rb_fresh_inv(2) [OF assms(1-3)]
  obtain s' n where "rb_run ra tr ticks s = Some s'" "rb_inv Lt R (st (rb_rt s)) n s'"
    "rb_status s' \<noteq> RbDisconnected \<longrightarrow> n = rb_known s'" "rb_status s' \<noteq> RbDesync" "rb_local_port s' = lp"
    using f(3) by (auto simp: Lt_def)
  then show ?thesis
    by (intro exI [of _ s'] exI [of _ n]) (simp add: rb_inv_def rb_timeline_def om_agrees_def)
qed

end

text \<open>
  C1. Rollback computes the right game: a fresh session over any simulating runtime, whose peer's
  inputs arrive in frame order with one value \<open>R f\<close> per frame, returns from every tick, and after any
  ticks, with any local input at each of them, advancing or stalled, the core is in exactly the state
  that playing all its frames from the start gives with the local inputs the last tick of each frame
  was given, and with the known remote inputs, the last known one repeated after them. While the peer
  is connected these are all the inputs received so far; no misprediction leaves a trace.
\<close>

theorem rollback_replays:
  assumes "sim_runtime ra good st inp step enc" and "message_stream tr inbox outbox"
    and "rb_fresh lp s" and "good (rb_rt s)" and "ordered_inputs R 0 (inbox (rb_t s))"
    and "length ticks < 2 ^ 64"
  shows "\<exists>s' n. rb_run ra tr ticks s = Some s' \<and>
     st (rb_rt s') = replay step lp 0 (rb_log ra tr ticks s L) (predicted R n) (rb_frame s') (st (rb_rt s)) \<and>
     n \<le> rb_known s' \<and> (rb_status s' \<noteq> RbDisconnected \<longrightarrow> n = rb_known s')"
  using lockstep_net.rb_fresh_run [OF lockstep_net.intro [OF assms(1,2)] assms(3-6)] by blast

text \<open>
  C2. Two rollback peers agree: if a host and a joiner start from equal core states, each receives
  only what the other sent, in order, and each player still holds the same input whenever a stalled
  frame is retried, then the checksums they recorded for the same frame are equal; and when both have
  simulated the same number of frames and know each other's inputs for them, their cores are in the
  same state. The retry condition is the caller's: the session itself takes what each tick gives it.
\<close>

theorem rollback_peers_agree:
  assumes "sim_runtime ra good st inp step enc" and "message_stream tr inbox outbox"
    and "sim_runtime ra' good' st' inp' step enc" and "message_stream tr' inbox' outbox'"
    and "rb_fresh 0 a" and "good (rb_rt a)" and "rb_fresh 1 b" and "good' (rb_rt b)"
    and "st (rb_rt a) = st' (rb_rt b)" and "\<And>f. wf_input (La f)" and "\<And>f. wf_input (Lb f)"
    and "length ticks < 2 ^ 64" and "length ticks' < 2 ^ 64"
    and "rb_run ra tr ticks a = Some a'" and "rb_run ra' tr' ticks' b = Some b'"
    and "rb_steady ra tr La ticks a" and "rb_steady ra' tr' Lb ticks' b"
    and "outbox' (rb_t b') = outbox' (rb_t b) @ inbox (rb_t a) @ rest"
    and "outbox (rb_t a') = outbox (rb_t a) @ inbox' (rb_t b) @ rest'"
  shows "(\<forall>f c c'. om_find (rb_own_crc a') f = Some c \<and> om_find (rb_own_crc b') f = Some c' \<longrightarrow> c = c') \<and>
     (rb_status a' \<noteq> RbDisconnected \<and> rb_status b' \<noteq> RbDisconnected \<and> rb_frame a' = rb_frame b' \<and>
      rb_frame a' \<le> rb_known a' \<and> rb_frame b' \<le> rb_known b' \<longrightarrow> st (rb_rt a') = st' (rb_rt b'))"
proof -
  have f0: "rb_frame a = 0" "rb_frame b = 0"
    using assms(5,7) by (simp_all add: rb_fresh_def)
  from message_stream.rb_run_trace [OF assms(4,15,17)] assms(11,13) f0 obtain mb where
    "outbox' (rb_t b') = outbox' (rb_t b) @ mb" "ordered_inputs Lb 0 mb" by auto
  then have oa: "ordered_inputs Lb 0 (inbox (rb_t a))"
    using assms(18) ordered_inputs_append by auto
  from message_stream.rb_run_trace [OF assms(2,14,16)] assms(10,12) f0 obtain ma where
    "outbox (rb_t a') = outbox (rb_t a) @ ma" "ordered_inputs La 0 ma" by auto
  then have ob: "ordered_inputs La 0 (inbox' (rb_t b))"
    using assms(19) ordered_inputs_append by auto
  from lockstep_net.rb_fresh_run [OF lockstep_net.intro [OF assms(1,2)] assms(5,6) oa assms(12), of La] assms(14) rb_log_steady [OF assms(16)]
  obtain n where a: "st (rb_rt a') = replay step 0 0 La (predicted Lb n) (rb_frame a') (st (rb_rt a))"
    "rb_status a' \<noteq> RbDisconnected \<longrightarrow> n = rb_known a'"
    "om_agrees (rb_own_crc a') (\<lambda>f c. c = crc32 (enc (replay step 0 0 La Lb f (st (rb_rt a)))))"
    by auto
  from lockstep_net.rb_fresh_run [OF lockstep_net.intro [OF assms(3,4)] assms(7,8) ob assms(13), of Lb] assms(15) rb_log_steady [OF assms(17)]
  obtain n' where b: "st' (rb_rt b') = replay step 1 0 Lb (predicted La n') (rb_frame b') (st' (rb_rt b))"
    "rb_status b' \<noteq> RbDisconnected \<longrightarrow> n' = rb_known b'"
    "om_agrees (rb_own_crc b') (\<lambda>f c. c = crc32 (enc (replay step 1 0 Lb La f (st' (rb_rt b)))))"
    by auto
  have swap: "replay step 1 0 Lb La f x = replay step 0 0 La Lb f x" for f x
  proof -
    have "input_pair 1 0 Lb La = input_pair 0 0 La Lb" by (rule ext) (simp add: input_pair_def)
    then show ?thesis by (simp add: replay_def)
  qed
  have crc: "c = c'" if "om_find (rb_own_crc a') f = Some c" "om_find (rb_own_crc b') f = Some c'" for f c c'
    using a(3) b(3) that assms(9) unfolding om_agrees_def swap by metis
  have "st (rb_rt a') = replay step 0 0 La Lb (rb_frame a') (st (rb_rt a))"
    if "rb_status a' \<noteq> RbDisconnected" "rb_frame a' \<le> rb_known a'"
    using a(1,2) that by (simp, intro replay_cong predicted_known) simp
  moreover have "st' (rb_rt b') = replay step 1 0 Lb La (rb_frame b') (st' (rb_rt b))"
    if "rb_status b' \<noteq> RbDisconnected" "rb_frame b' \<le> rb_known b'"
    using b(1,2) that by (simp, intro replay_cong predicted_known) simp
  ultimately show ?thesis
    using crc swap assms(9) by auto
qed

lemma rb_after_drain_policy:
  assumes "rb_max_prediction s \<noteq> 0" "rb_status (rb_after_drain ra tr x out s) \<noteq> RbDesync"
  defines "s' \<equiv> rb_after_drain ra tr x out s"
  shows "rb_known s' = rb_known s \<and>
    (if 0 < rb_known s \<and> rb_known s + unat (rb_max_prediction s) \<le> rb_frame s
     then rb_status s' = RbStalled \<and> rb_frame s' = rb_frame s
     else rb_status s' = RbOk \<and> rb_frame s' = wrap64 (rb_frame s + 1))"
proof -
  obtain s1 ok where s1: "rb_reconcile ra s = (s1, ok)" by fastforce
  have ok: ok
  proof (rule ccontr)
    assume "\<not> ok"
    with rb_reconcile_failed [of ra s] assms(2) s1 show False by (simp add: rb_after_drain_def)
  qed
  have fx: "rb_fixed s1 = rb_fixed s"
    using rb_reconcile_fixed [of ra s] s1 by simp
  have f1: "rb_frame s1 = rb_frame s" "rb_known s1 = rb_known s" "rb_ahead s1 = rb_ahead s"
      "rb_max_prediction s1 = rb_max_prediction s"
    using rb_fixed_eqs [OF fx] fx by (simp_all add: rb_fixed_def)
  have "0 < unat (rb_max_prediction s)"
    using assms(1) by (simp add: unat_gt_0)
  then have stall: "unat (rb_max_prediction s1) \<le> rb_ahead s1 \<longleftrightarrow>
      0 < rb_known s \<and> rb_known s + unat (rb_max_prediction s) \<le> rb_frame s"
    unfolding f1 by (auto simp: rb_ahead_def rb_known_def)
  obtain s2 ok2 where s2: "rb_simulate ra x out s1 = (s2, ok2)" by fastforce
  note f2 = rb_simulate_fixed [OF s2]
  have "\<not> (unat (rb_max_prediction s1) \<le> rb_ahead s1) \<Longrightarrow> ok2"
    using f2 assms(2) s1 s2 ok by (auto simp: rb_after_drain_def split: if_splits)
  then show ?thesis
    unfolding stall [symmetric] using s1 s2 ok f1 f2
    by (auto simp: s'_def rb_after_drain_def rb_finish_fixed)
qed

lemma rb_tick_policy:
  assumes "rb_tick ra tr x out s = Some s'" and "rb_max_prediction s \<noteq> 0"
    and "rb_status s' \<noteq> RbDisconnected" and "rb_status s' \<noteq> RbDesync"
  shows "if 0 < rb_known s' \<and> rb_known s' + unat (rb_max_prediction s) \<le> rb_frame s
     then rb_status s' = RbStalled \<and> rb_frame s' = rb_frame s
     else rb_status s' = RbOk \<and> rb_frame s' = wrap64 (rb_frame s + 1)"
proof -
  have "rb_status s \<noteq> RbDisconnected"
    using assms(1,3) by (auto simp: rb_tick_def)
  moreover obtain t r where "tr_send tr (rb_t s) (encode_input \<lparr>i_frame = of_nat (rb_frame s),
      i_port = ucast (rb_local_port s), i_state = x\<rparr>) = (t, r)"
    by fastforce
  ultimately obtain s1 where
    s1: "rb_drain tr (s\<lparr>rb_local := om_put (rb_frame s) x (rb_local s), rb_t := t\<rparr>) = Some (s1, True)"
      "s' = rb_after_drain ra tr x out s1"
    using assms(1,3) rb_drain_fixed
    by (fastforce simp: rb_tick_def rb_send_def Let_def split: if_splits option.splits prod.splits)
  have "rb_frame s1 = rb_frame s" "rb_max_prediction s1 = rb_max_prediction s"
    using rb_drain_fixed [OF s1(1)] by simp_all
  with rb_after_drain_policy [of s1 ra tr x out] assms(2,4) s1(2) show ?thesis by simp
qed

text \<open>The bound counts from the last input received: before the first one there is nothing to count from.\<close>

lemma rollback_unheard_does_not_stall:
  assumes "rb_tick ra tr x out s = Some s'" "rb_max_prediction s \<noteq> 0"
    "rb_status s' \<noteq> RbDisconnected" "rb_status s' \<noteq> RbDesync" "rb_known s' = 0"
  shows "rb_status s' = RbOk"
  using rb_tick_policy [OF assms(1-4)] assms(5) by simp

text \<open>
  C28. The stall policy of a session that has heard from its peer, with any runtime and transport: a
  completed tick of frame \<open>F\<close> keeps the frame and reports \<open>Stalled\<close> when \<open>F\<close> lies \<open>max_prediction_\<close> or
  more frames beyond the frames whose remote inputs are known, and otherwise advances to \<open>F + 1\<close>. So
  once the peer has been heard, no more than \<open>max_prediction_\<close> frames are simulated on predictions.
\<close>

theorem rollback_stall_policy:
  assumes "rb_tick ra tr x out s = Some s'" and "rb_max_prediction s \<noteq> 0"
    and "rb_status s' \<noteq> RbDisconnected" and "rb_status s' \<noteq> RbDesync" and "0 < rb_known s'"
  shows "if rb_known s' + unat (rb_max_prediction s) \<le> rb_frame s
     then rb_status s' = RbStalled \<and> rb_frame s' = rb_frame s
     else rb_status s' = RbOk \<and> rb_frame s' = wrap64 (rb_frame s + 1) \<and>
       rb_frame s' \<le> rb_known s' + unat (rb_max_prediction s)"
proof -
  have "wrap64 (rb_frame s + 1) \<le> rb_known s' + unat (rb_max_prediction s)"
    if "\<not> rb_known s' + unat (rb_max_prediction s) \<le> rb_frame s"
    using that by (simp add: wrap64_def)
  with rb_tick_policy [OF assms(1-4)] assms(5) show ?thesis by auto
qed

section \<open>Concrete sessions\<close>

text \<open>A session whose peer pushes the messages \<open>ms\<close> before the first receive.\<close>

definition demo_rollback ::
  "side \<Rightarrow> u32 \<Rightarrow> bytes list \<Rightarrow> ((RollbackCore, unit) Runtime, scripted_endpoint) RollbackSession" where
  "demo_rollback side lp ms =
     (RollbackSession_new rc_rt \<lparr>se_side = side, se_pair = make_loopback_pair, se_script = [map Peer_push ms]\<rparr>)
       \<lparr>rb_local_port := lp, rb_remote_port := 1 - lp\<rparr>"

lemma chan_events_pushes:
  "ch_open ch \<Longrightarrow> chan_events (map Peer_push ms) ch = ch\<lparr>ch_q := ch_q ch @ ms\<rparr>"
  by (induction ms arbitrary: ch) (simp_all add: chan_events_def lb_send_def)

lemma demo_rollback_facts:
  assumes "lp = 0 \<or> lp = 1"
  shows "rb_fresh lp (demo_rollback side lp ms)" "rb_rt (demo_rollback side lp ms) = rc_rt"
    "scripted_inbox (rb_t (demo_rollback side lp ms)) = ms" "scripted_outbox (rb_t (demo_rollback side lp ms)) = []"
    "rb_max_prediction (demo_rollback side lp ms) = 8" "rb_local_port (demo_rollback side lp ms) = lp"
    "rb_frame (demo_rollback side lp ms) = 0"
  using assms
  by (cases side; simp add: demo_rollback_def RollbackSession_new_def rb_fresh_def scripted_inbox_def
      scripted_outbox_def make_loopback_pair_def Channel_new_def in_ch_def chan_events_pushes)+

theorem rollback_replays_witness:
  "\<exists>s' n. rb_run (runtime_api (demo_env []) 1) scripted_loopback
         [(neutral_input, True), (press_x, False), (neutral_input, True)]
       (demo_rollback SideA 0 [encode_input \<lparr>i_frame = 0, i_port = 1, i_state = press_x\<rparr>]) = Some s' \<and>
     rt_view rc_acc (rb_rt s') =
       replay rc_step 0 0 (rb_log (runtime_api (demo_env []) 1) scripted_loopback
           [(neutral_input, True), (press_x, False), (neutral_input, True)]
           (demo_rollback SideA 0 [encode_input \<lparr>i_frame = 0, i_port = 1, i_state = press_x\<rparr>]) (\<lambda>f. neutral_input))
         (predicted (\<lambda>f. press_x) n) (rb_frame s') 0 \<and>
     n \<le> rb_known s'"
proof -
  let ?s = "demo_rollback SideA 0 [encode_input \<lparr>i_frame = 0, i_port = 1, i_state = press_x\<rparr>]"
  have f: "rb_fresh 0 ?s" "rt_simulating rc_abi (rb_rt ?s)"
    "ordered_inputs (\<lambda>f. press_x) 0 (scripted_inbox (rb_t ?s))" "rt_view rc_acc (rb_rt ?s) = 0"
    using demo_rollback_facts [of 0 SideA] rc_rt_simulating rc_rt_view by (simp_all add: ingest_own)
  from rollback_replays [OF rcsim.sim_runtime_axioms [of "demo_env []" 1] sl.message_stream_axioms f(1-3),
      of "[(neutral_input, True), (press_x, False), (neutral_input, True)]" "\<lambda>f. neutral_input"] f(4)
  show ?thesis by (auto simp del: rb_run.simps rb_log.simps)
qed

lemma demo_rollback_drain:
  fixes p :: u8
  assumes "lp = 0 \<or> lp = 1" "wf_input i"
  defines "m \<equiv> encode_input \<lparr>i_frame = 0, i_port = p, i_state = i\<rparr>"
  shows "\<exists>t s1. scripted_send (rb_t (demo_rollback side lp [m])) d = (t, RP_OK) \<and>
     rb_drain scripted_loopback ((demo_rollback side lp [m])\<lparr>rb_local := l, rb_t := t\<rparr>) = Some (s1, True) \<and>
     rb_known s1 = 1"
  using assms(2)
  by (cases side; subst rb_drain.simps; subst rb_drain.simps)
    (simp_all add: demo_rollback_def RollbackSession_new_def scripted_send_def loopback_send_def
      make_loopback_pair_def Channel_new_def lb_send_def rb_recv_def scripted_loopback_def scripted_recv_def
      peer_batch_def in_ch_def set_in_ch_def chan_events_def loopback_recv_def lb_recv_def lb_pop_def
      rb_ingest_def m_def ingest_own om_ingest_def rb_known_def Let_def)

lemma demo_rollback_tick:
  fixes p :: u8 and L :: "nat \<Rightarrow> rp_input_state"
  assumes "lp = 0 \<or> lp = 1" "wf_input i"
  defines "m \<equiv> encode_input \<lparr>i_frame = 0, i_port = p, i_state = i\<rparr>" and "ra \<equiv> runtime_api (demo_env []) 1"
  shows "\<exists>s'. rb_tick ra scripted_loopback (L 0) out (demo_rollback side lp [m]) = Some s' \<and>
     rb_status s' = RbOk \<and> rb_frame s' = 1 \<and> rb_known s' = 1"
proof -
  let ?s = "demo_rollback side lp [m]"
  note f = demo_rollback_facts [OF assms(1), of side "[m]"]
  have ord: "ordered_inputs (\<lambda>f. i) 0 (scripted_inbox (rb_t ?s))"
    using f(3) assms(2) by (simp add: m_def ingest_own)
  have good: "rt_simulating rc_abi (rb_rt ?s)"
    using f(2) rc_rt_simulating by simp
  define d where "d = encode_input \<lparr>i_frame = 0, i_port = ucast lp, i_state = L 0\<rparr>"
  from demo_rollback_drain [OF assms(1,2), of side p d "om_put 0 (L 0) []", folded m_def] obtain t s1 where
    s1: "scripted_send (rb_t ?s) d = (t, RP_OK)"
      "rb_drain scripted_loopback (?s\<lparr>rb_local := om_put 0 (L 0) [], rb_t := t\<rparr>) = Some (s1, True)" "rb_known s1 = 1"
    by blast
  have "rb_local ?s = []" "rb_status ?s = RbOk"
    using f(1) by (simp_all add: rb_fresh_def)
  then have tick: "rb_tick ra scripted_loopback (L 0) out ?s = Some (rb_after_drain ra scripted_loopback (L 0) out s1)"
    using s1(1,2) f(6,7) by (simp add: rb_tick_def rb_send_def scripted_loopback_def d_def Let_def)
  have "\<exists>s'. rb_tick ra scripted_loopback (L 0) out ?s = Some s' \<and> rb_status s' \<noteq> RbDesync"
    using lockstep_net.rb_tick_inv [OF rcnet.lockstep_net_axioms rcnet.rb_fresh_inv(1) [OF f(1) good ord, where L = L],
        of "demo_env []" 1 out] rcnet.rb_fresh_inv(2) [OF f(1) good ord] f(7) \<open>rb_status ?s = RbOk\<close>
    by (auto simp: UINT64_MAX_def ra_def)
  then have "rb_status (rb_after_drain ra scripted_loopback (L 0) out s1) \<noteq> RbDesync"
    using tick by simp
  moreover have "rb_frame s1 = 0" "rb_max_prediction s1 = 8"
    using rb_drain_fixed [OF s1(2)] f(5,7) by simp_all
  ultimately show ?thesis
    using rb_after_drain_policy [of s1 ra scripted_loopback "L 0" out] tick s1(3) by (simp add: wrap64_def)
qed

theorem rollback_peers_agree_witness:
  "\<exists>a b. rb_run (runtime_api (demo_env []) 1) scripted_loopback [(press_x, True)]
       (demo_rollback SideA 0 [encode_input \<lparr>i_frame = 0, i_port = 1, i_state = neutral_input\<rparr>]) = Some a \<and>
     rb_run (runtime_api (demo_env []) 1) scripted_loopback [(neutral_input, False)]
       (demo_rollback SideB 1 [encode_input \<lparr>i_frame = 0, i_port = 0, i_state = press_x\<rparr>]) = Some b \<and>
     rb_frame a = 1 \<and> rt_view rc_acc (rb_rt a) = rt_view rc_acc (rb_rt b)"
proof -
  let ?ra = "runtime_api (demo_env []) 1"
  let ?a = "demo_rollback SideA 0 [encode_input \<lparr>i_frame = 0, i_port = 1, i_state = neutral_input\<rparr>]"
  let ?b = "demo_rollback SideB 1 [encode_input \<lparr>i_frame = 0, i_port = 0, i_state = press_x\<rparr>]"
  obtain a where a: "rb_tick ?ra scripted_loopback press_x True ?a = Some a" "rb_status a = RbOk"
      "rb_frame a = 1" "rb_known a = 1"
    using demo_rollback_tick [of 0 neutral_input "\<lambda>f. press_x" True SideA 1] by auto
  obtain b where b: "rb_tick ?ra scripted_loopback neutral_input False ?b = Some b" "rb_status b = RbOk"
      "rb_frame b = 1" "rb_known b = 1"
    using demo_rollback_tick [of 1 press_x "\<lambda>f. neutral_input" False SideB 0] by auto
  have ra: "rb_run ?ra scripted_loopback [(press_x, True)] ?a = Some a"
    and rb: "rb_run ?ra scripted_loopback [(neutral_input, False)] ?b = Some b"
    and sa: "rb_steady ?ra scripted_loopback (\<lambda>f. press_x) [(press_x, True)] ?a"
    and sb: "rb_steady ?ra scripted_loopback (\<lambda>f. neutral_input) [(neutral_input, False)] ?b"
    using a(1) b(1) by simp_all
  note fa = demo_rollback_facts [of 0 SideA] and fb = demo_rollback_facts [of 1 SideB]
  from sl.rb_tick_trace [OF a(1)] a(3) fa obtain c where
    c: "scripted_outbox (rb_t a) = scripted_outbox (rb_t ?a) @ scripted_inbox (rb_t ?b) @ c"
    using fb by auto
  from sl.rb_tick_trace [OF b(1)] b(3) fb obtain c' where
    c': "scripted_outbox (rb_t b) = scripted_outbox (rb_t ?b) @ scripted_inbox (rb_t ?a) @ c'"
    using fa by auto
  have "rt_simulating rc_abi (rb_rt ?a)" "rt_simulating rc_abi (rb_rt ?b)"
    using fa(2) fb(2) rc_rt_simulating by simp_all
  from rollback_peers_agree [OF rcsim.sim_runtime_axioms sl.message_stream_axioms
      rcsim.sim_runtime_axioms sl.message_stream_axioms fa(1) this(1) fb(1) this(2) _ _ _ _ _ ra rb sa sb c' c]
  have "rt_view rc_acc (rb_rt a) = rt_view rc_acc (rb_rt b)"
    using a b fa(2) fb(2) by simp
  with ra rb a(3) show ?thesis by blast
qed

theorem rollback_stall_policy_witness:
  "\<exists>s'. rb_tick (runtime_api (demo_env []) 1) scripted_loopback press_x True
       (demo_rollback SideA 0 [encode_input \<lparr>i_frame = 0, i_port = 1, i_state = neutral_input\<rparr>]) = Some s' \<and>
     rb_status s' = RbOk \<and> rb_frame s' = 1"
proof -
  let ?s = "demo_rollback SideA 0 [encode_input \<lparr>i_frame = 0, i_port = 1, i_state = neutral_input\<rparr>]"
  obtain s' where s': "rb_tick (runtime_api (demo_env []) 1) scripted_loopback press_x True ?s = Some s'"
      "rb_status s' = RbOk" "rb_known s' = 1"
    using demo_rollback_tick [of 0 neutral_input "\<lambda>f. press_x" True SideA 1] by auto
  from rollback_stall_policy [OF s'(1)] s' demo_rollback_facts(5,7) [of 0 SideA] show ?thesis
    by (simp add: wrap64_def)
qed

end
