(* ===== verification/RP_Libretro.thy ===== *)
theory RP_Libretro
  imports RP_Abi
begin

text \<open>
  The part of the libretro contract (\<open>external/libretro/libretro.h\<close>) that the shim speaks: the
  structures passed in environment calls, and a libretro core as the shim sees it.

  A core is foreign code that calls back into the frontend in the middle of its own functions and
  acts on the answers. Such a function is a finite tree \<open>lr\<close>: it either returns or makes a call and
  continues with a tree for every answer, so that one definition covers every core and every order
  of callbacks. The core's own state has the type \<open>'k\<close>. A C string is a \<open>string\<close>, a null pointer
  \<open>None\<close>; an array that ends at a null key is the list before it.
\<close>

unbundle bit_operations_syntax

section \<open>Structures\<close>

record retro_variable =
  rv_key :: "string option"
  rv_value :: "string option"

record retro_core_option_value =
  ov_value :: "string option"
  ov_label :: "string option"

definition RETRO_NUM_CORE_OPTION_VALUES_MAX :: nat where "RETRO_NUM_CORE_OPTION_VALUES_MAX = 128"

record retro_core_option_definition =
  od_key :: "string option"
  od_desc :: "string option"
  od_info :: "string option"
  od_values :: "retro_core_option_value list"
  od_default_value :: "string option"

record retro_core_options_intl =
  oi_us :: "retro_core_option_definition list option"
  oi_local :: "retro_core_option_definition list option"

record retro_core_option_v2_definition =
  o2_key :: "string option"
  o2_desc :: "string option"
  o2_desc_categorized :: "string option"
  o2_info :: "string option"
  o2_info_categorized :: "string option"
  o2_category_key :: "string option"
  o2_values :: "retro_core_option_value list"
  o2_default_value :: "string option"

record retro_core_option_v2_category =
  oc_key :: "string option"
  oc_desc :: "string option"
  oc_info :: "string option"

record retro_core_options_v2 =
  os_categories :: "retro_core_option_v2_category list option"
  os_definitions :: "retro_core_option_v2_definition list option"

record retro_core_options_v2_intl =
  os_us :: "retro_core_options_v2 option"
  os_local :: "retro_core_options_v2 option"

record retro_system_info =
  si_library_name :: string
  si_library_version :: string
  si_valid_extensions :: string
  si_need_fullpath :: bool
  si_block_extract :: bool

record retro_game_geometry =
  gg_base_width :: u32
  gg_base_height :: u32
  gg_max_width :: u32
  gg_max_height :: u32
  gg_aspect_ratio :: rat

record retro_system_timing =
  st_fps :: rat
  st_sample_rate :: rat

record retro_system_av_info =
  sa_geometry :: retro_game_geometry
  sa_timing :: retro_system_timing

record retro_game_info =
  gi_path :: "string option"
  gi_data :: "bytes option"
  gi_size :: nat
  gi_meta :: "string option"

definition RETRO_API_VERSION :: u32 where "RETRO_API_VERSION = 1"
definition RETRO_LANGUAGE_ENGLISH :: u32 where "RETRO_LANGUAGE_ENGLISH = 0"
definition RETRO_PIXEL_FORMAT_0RGB1555 :: u32 where "RETRO_PIXEL_FORMAT_0RGB1555 = 0"
definition RETRO_PIXEL_FORMAT_XRGB8888 :: u32 where "RETRO_PIXEL_FORMAT_XRGB8888 = 1"
definition RETRO_PIXEL_FORMAT_RGB565 :: u32 where "RETRO_PIXEL_FORMAT_RGB565 = 2"
definition RETRO_HW_CONTEXT_OPENGL :: u32 where "RETRO_HW_CONTEXT_OPENGL = 1"
definition RETRO_HW_CONTEXT_OPENGL_CORE :: u32 where "RETRO_HW_CONTEXT_OPENGL_CORE = 3"

text \<open>
  The hardware-render request. \<open>context_reset\<close> and \<open>context_destroy\<close> are functions of the core on its
  own state; the two getters are the frontend's, and the core only learns that they are set.
\<close>

datatype hw_getter = Hw_get_current_framebuffer | Hw_get_proc_address | Hw_core_supplied nat

record 'k retro_hw_render_callback =
  hw_context_type :: u32
  hw_context_reset :: "('k \<Rightarrow> 'k) option"
  hw_get_current_framebuffer :: "hw_getter option"
  hw_get_proc_address :: "hw_getter option"
  hw_depth :: bool
  hw_stencil :: bool
  hw_bottom_left_origin :: bool
  hw_version_major :: u32
  hw_version_minor :: u32
  hw_cache_context :: bool
  hw_context_destroy :: "('k \<Rightarrow> 'k) option"
  hw_debug_context :: bool

section \<open>A core's calls and the frontend's answers\<close>

text \<open>The environment commands the shim distinguishes, with what their \<open>data\<close> pointer carries in.\<close>

datatype 'k env_cmd =
    SET_PIXEL_FORMAT u32
  | GET_CAN_DUPE
  | GET_OVERSCAN
  | GET_SYSTEM_DIRECTORY
  | GET_SAVE_DIRECTORY
  | GET_CORE_ASSETS_DIRECTORY
  | GET_VARIABLE "string option"
  | GET_VARIABLE_UPDATE
  | GET_CORE_OPTIONS_VERSION
  | GET_LANGUAGE
  | GET_LOG_INTERFACE
  | GET_INPUT_BITMASKS
  | GET_AUDIO_VIDEO_ENABLE
  | GET_FASTFORWARDING
  | SET_VARIABLES "retro_variable list option"
  | SET_CORE_OPTIONS "retro_core_option_definition list option"
  | SET_CORE_OPTIONS_INTL "retro_core_options_intl option"
  | SET_CORE_OPTIONS_V2 "retro_core_options_v2 option"
  | SET_CORE_OPTIONS_V2_INTL "retro_core_options_v2_intl option"
  | SET_INPUT_DESCRIPTORS
  | SET_CONTROLLER_INFO
  | SET_SUPPORT_NO_GAME
  | SET_MEMORY_MAPS
  | SET_SUBSYSTEM_INFO
  | SET_GEOMETRY
  | SET_SYSTEM_AV_INFO
  | SET_HW_RENDER "'k retro_hw_render_callback option"
  | ENV_OTHER u32

text \<open>Each command's number. A core passes the number; the constructor is the branch of the switch.\<close>

definition RETRO_ENVIRONMENT_EXPERIMENTAL :: u32 where "RETRO_ENVIRONMENT_EXPERIMENTAL = 0x10000"
definition RETRO_ENVIRONMENT_SET_PIXEL_FORMAT :: u32 where "RETRO_ENVIRONMENT_SET_PIXEL_FORMAT = 10"
definition RETRO_ENVIRONMENT_GET_CAN_DUPE :: u32 where "RETRO_ENVIRONMENT_GET_CAN_DUPE = 3"
definition RETRO_ENVIRONMENT_GET_OVERSCAN :: u32 where "RETRO_ENVIRONMENT_GET_OVERSCAN = 2"
definition RETRO_ENVIRONMENT_GET_SYSTEM_DIRECTORY :: u32 where "RETRO_ENVIRONMENT_GET_SYSTEM_DIRECTORY = 9"
definition RETRO_ENVIRONMENT_GET_SAVE_DIRECTORY :: u32 where "RETRO_ENVIRONMENT_GET_SAVE_DIRECTORY = 31"
definition RETRO_ENVIRONMENT_GET_CORE_ASSETS_DIRECTORY :: u32 where "RETRO_ENVIRONMENT_GET_CORE_ASSETS_DIRECTORY = 30"
definition RETRO_ENVIRONMENT_GET_VARIABLE :: u32 where "RETRO_ENVIRONMENT_GET_VARIABLE = 15"
definition RETRO_ENVIRONMENT_GET_VARIABLE_UPDATE :: u32 where "RETRO_ENVIRONMENT_GET_VARIABLE_UPDATE = 17"
definition RETRO_ENVIRONMENT_GET_CORE_OPTIONS_VERSION :: u32 where "RETRO_ENVIRONMENT_GET_CORE_OPTIONS_VERSION = 52"
definition RETRO_ENVIRONMENT_GET_LANGUAGE :: u32 where "RETRO_ENVIRONMENT_GET_LANGUAGE = 39"
definition RETRO_ENVIRONMENT_GET_LOG_INTERFACE :: u32 where "RETRO_ENVIRONMENT_GET_LOG_INTERFACE = 27"
definition RETRO_ENVIRONMENT_GET_INPUT_BITMASKS :: u32 where "RETRO_ENVIRONMENT_GET_INPUT_BITMASKS = 51 OR RETRO_ENVIRONMENT_EXPERIMENTAL"
definition RETRO_ENVIRONMENT_GET_AUDIO_VIDEO_ENABLE :: u32 where "RETRO_ENVIRONMENT_GET_AUDIO_VIDEO_ENABLE = 47 OR RETRO_ENVIRONMENT_EXPERIMENTAL"
definition RETRO_ENVIRONMENT_GET_FASTFORWARDING :: u32 where "RETRO_ENVIRONMENT_GET_FASTFORWARDING = 49 OR RETRO_ENVIRONMENT_EXPERIMENTAL"
definition RETRO_ENVIRONMENT_SET_VARIABLES :: u32 where "RETRO_ENVIRONMENT_SET_VARIABLES = 16"
definition RETRO_ENVIRONMENT_SET_CORE_OPTIONS :: u32 where "RETRO_ENVIRONMENT_SET_CORE_OPTIONS = 53"
definition RETRO_ENVIRONMENT_SET_CORE_OPTIONS_INTL :: u32 where "RETRO_ENVIRONMENT_SET_CORE_OPTIONS_INTL = 54"
definition RETRO_ENVIRONMENT_SET_CORE_OPTIONS_V2 :: u32 where "RETRO_ENVIRONMENT_SET_CORE_OPTIONS_V2 = 67"
definition RETRO_ENVIRONMENT_SET_CORE_OPTIONS_V2_INTL :: u32 where "RETRO_ENVIRONMENT_SET_CORE_OPTIONS_V2_INTL = 68"
definition RETRO_ENVIRONMENT_SET_INPUT_DESCRIPTORS :: u32 where "RETRO_ENVIRONMENT_SET_INPUT_DESCRIPTORS = 11"
definition RETRO_ENVIRONMENT_SET_CONTROLLER_INFO :: u32 where "RETRO_ENVIRONMENT_SET_CONTROLLER_INFO = 35"
definition RETRO_ENVIRONMENT_SET_SUPPORT_NO_GAME :: u32 where "RETRO_ENVIRONMENT_SET_SUPPORT_NO_GAME = 18"
definition RETRO_ENVIRONMENT_SET_MEMORY_MAPS :: u32 where "RETRO_ENVIRONMENT_SET_MEMORY_MAPS = 36 OR RETRO_ENVIRONMENT_EXPERIMENTAL"
definition RETRO_ENVIRONMENT_SET_SUBSYSTEM_INFO :: u32 where "RETRO_ENVIRONMENT_SET_SUBSYSTEM_INFO = 34"
definition RETRO_ENVIRONMENT_SET_GEOMETRY :: u32 where "RETRO_ENVIRONMENT_SET_GEOMETRY = 37"
definition RETRO_ENVIRONMENT_SET_SYSTEM_AV_INFO :: u32 where "RETRO_ENVIRONMENT_SET_SYSTEM_AV_INFO = 32"
definition RETRO_ENVIRONMENT_SET_HW_RENDER :: u32 where "RETRO_ENVIRONMENT_SET_HW_RENDER = 14"

fun env_number :: "'k env_cmd \<Rightarrow> u32" where
  "env_number (SET_PIXEL_FORMAT x) = RETRO_ENVIRONMENT_SET_PIXEL_FORMAT"
| "env_number (GET_CAN_DUPE) = RETRO_ENVIRONMENT_GET_CAN_DUPE"
| "env_number (GET_OVERSCAN) = RETRO_ENVIRONMENT_GET_OVERSCAN"
| "env_number (GET_SYSTEM_DIRECTORY) = RETRO_ENVIRONMENT_GET_SYSTEM_DIRECTORY"
| "env_number (GET_SAVE_DIRECTORY) = RETRO_ENVIRONMENT_GET_SAVE_DIRECTORY"
| "env_number (GET_CORE_ASSETS_DIRECTORY) = RETRO_ENVIRONMENT_GET_CORE_ASSETS_DIRECTORY"
| "env_number (GET_VARIABLE x) = RETRO_ENVIRONMENT_GET_VARIABLE"
| "env_number (GET_VARIABLE_UPDATE) = RETRO_ENVIRONMENT_GET_VARIABLE_UPDATE"
| "env_number (GET_CORE_OPTIONS_VERSION) = RETRO_ENVIRONMENT_GET_CORE_OPTIONS_VERSION"
| "env_number (GET_LANGUAGE) = RETRO_ENVIRONMENT_GET_LANGUAGE"
| "env_number (GET_LOG_INTERFACE) = RETRO_ENVIRONMENT_GET_LOG_INTERFACE"
| "env_number (GET_INPUT_BITMASKS) = RETRO_ENVIRONMENT_GET_INPUT_BITMASKS"
| "env_number (GET_AUDIO_VIDEO_ENABLE) = RETRO_ENVIRONMENT_GET_AUDIO_VIDEO_ENABLE"
| "env_number (GET_FASTFORWARDING) = RETRO_ENVIRONMENT_GET_FASTFORWARDING"
| "env_number (SET_VARIABLES x) = RETRO_ENVIRONMENT_SET_VARIABLES"
| "env_number (SET_CORE_OPTIONS x) = RETRO_ENVIRONMENT_SET_CORE_OPTIONS"
| "env_number (SET_CORE_OPTIONS_INTL x) = RETRO_ENVIRONMENT_SET_CORE_OPTIONS_INTL"
| "env_number (SET_CORE_OPTIONS_V2 x) = RETRO_ENVIRONMENT_SET_CORE_OPTIONS_V2"
| "env_number (SET_CORE_OPTIONS_V2_INTL x) = RETRO_ENVIRONMENT_SET_CORE_OPTIONS_V2_INTL"
| "env_number (SET_INPUT_DESCRIPTORS) = RETRO_ENVIRONMENT_SET_INPUT_DESCRIPTORS"
| "env_number (SET_CONTROLLER_INFO) = RETRO_ENVIRONMENT_SET_CONTROLLER_INFO"
| "env_number (SET_SUPPORT_NO_GAME) = RETRO_ENVIRONMENT_SET_SUPPORT_NO_GAME"
| "env_number (SET_MEMORY_MAPS) = RETRO_ENVIRONMENT_SET_MEMORY_MAPS"
| "env_number (SET_SUBSYSTEM_INFO) = RETRO_ENVIRONMENT_SET_SUBSYSTEM_INFO"
| "env_number (SET_GEOMETRY) = RETRO_ENVIRONMENT_SET_GEOMETRY"
| "env_number (SET_SYSTEM_AV_INFO) = RETRO_ENVIRONMENT_SET_SYSTEM_AV_INFO"
| "env_number (SET_HW_RENDER x) = RETRO_ENVIRONMENT_SET_HW_RENDER"
| "env_number (ENV_OTHER c) = c"

lemmas env_numbers = RETRO_ENVIRONMENT_EXPERIMENTAL_def
  RETRO_ENVIRONMENT_SET_PIXEL_FORMAT_def
  RETRO_ENVIRONMENT_GET_CAN_DUPE_def
  RETRO_ENVIRONMENT_GET_OVERSCAN_def
  RETRO_ENVIRONMENT_GET_SYSTEM_DIRECTORY_def
  RETRO_ENVIRONMENT_GET_SAVE_DIRECTORY_def
  RETRO_ENVIRONMENT_GET_CORE_ASSETS_DIRECTORY_def
  RETRO_ENVIRONMENT_GET_VARIABLE_def
  RETRO_ENVIRONMENT_GET_VARIABLE_UPDATE_def
  RETRO_ENVIRONMENT_GET_CORE_OPTIONS_VERSION_def
  RETRO_ENVIRONMENT_GET_LANGUAGE_def
  RETRO_ENVIRONMENT_GET_LOG_INTERFACE_def
  RETRO_ENVIRONMENT_GET_INPUT_BITMASKS_def
  RETRO_ENVIRONMENT_GET_AUDIO_VIDEO_ENABLE_def
  RETRO_ENVIRONMENT_GET_FASTFORWARDING_def
  RETRO_ENVIRONMENT_SET_VARIABLES_def
  RETRO_ENVIRONMENT_SET_CORE_OPTIONS_def
  RETRO_ENVIRONMENT_SET_CORE_OPTIONS_INTL_def
  RETRO_ENVIRONMENT_SET_CORE_OPTIONS_V2_def
  RETRO_ENVIRONMENT_SET_CORE_OPTIONS_V2_INTL_def
  RETRO_ENVIRONMENT_SET_INPUT_DESCRIPTORS_def
  RETRO_ENVIRONMENT_SET_CONTROLLER_INFO_def
  RETRO_ENVIRONMENT_SET_SUPPORT_NO_GAME_def
  RETRO_ENVIRONMENT_SET_MEMORY_MAPS_def
  RETRO_ENVIRONMENT_SET_SUBSYSTEM_INFO_def
  RETRO_ENVIRONMENT_SET_GEOMETRY_def
  RETRO_ENVIRONMENT_SET_SYSTEM_AV_INFO_def
  RETRO_ENVIRONMENT_SET_HW_RENDER_def

definition env_known :: "u32 list" where
  "env_known = [RETRO_ENVIRONMENT_SET_PIXEL_FORMAT, RETRO_ENVIRONMENT_GET_CAN_DUPE,
     RETRO_ENVIRONMENT_GET_OVERSCAN, RETRO_ENVIRONMENT_GET_SYSTEM_DIRECTORY,
     RETRO_ENVIRONMENT_GET_SAVE_DIRECTORY, RETRO_ENVIRONMENT_GET_CORE_ASSETS_DIRECTORY,
     RETRO_ENVIRONMENT_GET_VARIABLE, RETRO_ENVIRONMENT_GET_VARIABLE_UPDATE,
     RETRO_ENVIRONMENT_GET_CORE_OPTIONS_VERSION, RETRO_ENVIRONMENT_GET_LANGUAGE,
     RETRO_ENVIRONMENT_GET_LOG_INTERFACE, RETRO_ENVIRONMENT_GET_INPUT_BITMASKS,
     RETRO_ENVIRONMENT_GET_AUDIO_VIDEO_ENABLE, RETRO_ENVIRONMENT_GET_FASTFORWARDING,
     RETRO_ENVIRONMENT_SET_VARIABLES, RETRO_ENVIRONMENT_SET_CORE_OPTIONS,
     RETRO_ENVIRONMENT_SET_CORE_OPTIONS_INTL, RETRO_ENVIRONMENT_SET_CORE_OPTIONS_V2,
     RETRO_ENVIRONMENT_SET_CORE_OPTIONS_V2_INTL, RETRO_ENVIRONMENT_SET_INPUT_DESCRIPTORS,
     RETRO_ENVIRONMENT_SET_CONTROLLER_INFO, RETRO_ENVIRONMENT_SET_SUPPORT_NO_GAME,
     RETRO_ENVIRONMENT_SET_MEMORY_MAPS, RETRO_ENVIRONMENT_SET_SUBSYSTEM_INFO,
     RETRO_ENVIRONMENT_SET_GEOMETRY, RETRO_ENVIRONMENT_SET_SYSTEM_AV_INFO,
     RETRO_ENVIRONMENT_SET_HW_RENDER]"

text \<open>No two branches of the switch share a number, so a number the core passes selects one.\<close>

lemma env_known_distinct: "distinct env_known"
  by (simp add: env_known_def env_numbers)

text \<open>What a command writes through \<open>data\<close>.\<close>

datatype 'k env_out =
    Out_none
  | Out_bool bool
  | Out_uint u32
  | Out_string string
  | Out_value "string option"
  | Out_log
  | Out_hw "'k retro_hw_render_callback"

text \<open>The pixel data of a video refresh: null, the hardware marker \<open>(void*)-1\<close>, or memory.\<close>

datatype lr_pixels = Pix_null | Pix_hw | Pix_mem bytes

datatype 'k lr_call =
    Lr_env "'k env_cmd"
  | Lr_video lr_pixels u32 u32 nat
  | Lr_input_poll
  | Lr_input_state u32 u32 u32 u32
  | Lr_audio "16 word" "16 word"
  | Lr_audio_batch "16 word list option" nat

datatype 'k lr_answer =
    Ans_env bool "'k env_out"
  | Ans_unit
  | Ans_input "16 word"
  | Ans_frames nat

datatype ('k, 'r) lr = Ret 'r | Call "'k lr_call" "'k lr_answer \<Rightarrow> ('k, 'r) lr"

text \<open>The exported functions; \<open>None\<close> is a symbol that \<open>GetProcAddress\<close> does not find.\<close>

record 'k retro_core =
  lr_fresh :: 'k
  lr_api_version :: "u32 option"
  lr_init :: "('k \<Rightarrow> ('k, 'k) lr) option"
  lr_deinit :: "('k \<Rightarrow> ('k, 'k) lr) option"
  lr_get_system_info :: "('k \<Rightarrow> retro_system_info) option"
  lr_get_system_av_info :: "('k \<Rightarrow> retro_system_av_info) option"
  lr_set_environment :: "('k \<Rightarrow> ('k, 'k) lr) option"
  lr_set_video_refresh :: bool
  lr_set_audio_sample :: bool
  lr_set_audio_sample_batch :: bool
  lr_set_input_poll :: bool
  lr_set_input_state :: bool
  lr_load_game :: "('k \<Rightarrow> retro_game_info \<Rightarrow> ('k, 'k \<times> bool) lr) option"
  lr_unload_game :: "('k \<Rightarrow> ('k, 'k) lr) option"
  lr_run :: "('k \<Rightarrow> ('k, 'k) lr) option"
  lr_serialize_size :: "('k \<Rightarrow> nat) option"
  lr_serialize :: "('k \<Rightarrow> bytes \<Rightarrow> bool \<times> bytes) option"
  lr_unserialize :: "('k \<Rightarrow> bytes \<Rightarrow> 'k \<times> bool) option"

end
