(* ===== verification/RP_ShimOptions.thy ===== *)
theory RP_ShimOptions
  imports RP_Libretro
begin

text \<open>
  The core-option channel of \<open>cores/libretro_shim/LibretroShim.cpp\<close>: harvesting the options a core
  declares (the legacy strings and the two descriptor forms), serving them to the core and to the
  frontend, the user's overrides with their update latch, and the JSON description.

  \<open>options_refine\<close> states the channel against an abstract one, a map of defaults, a map of overrides
  and a flag; the legacy declaration syntax and the JSON are shown to be read back.
\<close>

section \<open>State\<close>

record ShimOption =
  so_key :: string
  so_desc :: string
  so_info :: string
  so_def :: string
  so_values :: "(string \<times> string) list"

record shim_options =
  op_defs :: "ShimOption list"
  op_index :: "string \<rightharpoonup> nat"
  op_json_cache :: string
  op_overrides :: "string \<rightharpoonup> string"
  op_dirty :: bool
  op_served :: "string \<rightharpoonup> string"

definition shim_options_new :: shim_options where
  "shim_options_new = \<lparr>op_defs = [], op_index = Map.empty, op_json_cache = '''', op_overrides = Map.empty,
     op_dirty = False, op_served = Map.empty\<rparr>"

section \<open>Harvesting\<close>

definition shim_add_option :: "ShimOption \<Rightarrow> shim_options \<Rightarrow> shim_options" where
  "shim_add_option opt s =
     (if so_key opt = '''' \<or> op_index s (so_key opt) \<noteq> None then s
      else s\<lparr>op_index := (op_index s)(so_key opt \<mapsto> length (op_defs s)), op_defs := op_defs s @ [opt]\<rparr>)"

text \<open>\<open>p ? p : ""\<close>\<close>

definition str_or_empty :: "string option \<Rightarrow> string" where
  "str_or_empty p = (case p of None \<Rightarrow> '''' | Some s \<Rightarrow> s)"

text \<open>The token loop of the legacy form: split at \<open>|\<close>, empty tokens dropped, the label is the value.\<close>

function legacy_values :: "string \<Rightarrow> (string \<times> string) list" where
  "legacy_values s =
     (let tok = takeWhile (\<lambda>c. c \<noteq> CHR ''|'') s;
          here = (if tok = [] then [] else [(tok, tok)])
      in case dropWhile (\<lambda>c. c \<noteq> CHR ''|'') s of
           [] \<Rightarrow> here
         | bar # rest \<Rightarrow> here @ legacy_values rest)"
  by pat_completeness auto
termination
proof (relation "measure length")
  fix s x and t and bar :: char and rest
  assume "dropWhile (\<lambda>c. c \<noteq> CHR ''|'') s = bar # rest"
  then have "length (bar # rest) \<le> length s"
    by (metis length_dropWhile_le)
  then show "(rest, s) \<in> measure length" by simp
qed simp

declare legacy_values.simps [simp del]

definition legacy_option :: "string \<Rightarrow> string option \<Rightarrow> ShimOption" where
  "legacy_option key value =
     (let str = str_or_empty value;
          desc = takeWhile (\<lambda>c. c \<noteq> CHR '';'') str;
          vals = (case dropWhile (\<lambda>c. c \<noteq> CHR '';'') str of
                    [] \<Rightarrow> []
                  | semi # rest \<Rightarrow> legacy_values (dropWhile (\<lambda>c. c = CHR '' '') rest))
      in \<lparr>so_key = key, so_desc = desc, so_info = '''',
          so_def = (if vals = [] then '''' else fst (hd vals)), so_values = vals\<rparr>)"

definition harvest_legacy :: "retro_variable list option \<Rightarrow> shim_options \<Rightarrow> shim_options" where
  "harvest_legacy vars s =
     (case vars of None \<Rightarrow> s
      | Some vs \<Rightarrow> fold (\<lambda>v. shim_add_option (legacy_option (the (rv_key v)) (rv_value v)))
                       (takeWhile (\<lambda>v. rv_key v \<noteq> None) vs) s)"

text \<open>The descriptor forms: at most 128 values, up to the first null one.\<close>

definition option_values :: "retro_core_option_value list \<Rightarrow> (string \<times> string) list" where
  "option_values vs =
     map (\<lambda>v. (the (ov_value v), case ov_label v of None \<Rightarrow> the (ov_value v) | Some l \<Rightarrow> l))
       (takeWhile (\<lambda>v. ov_value v \<noteq> None) (take RETRO_NUM_CORE_OPTION_VALUES_MAX vs))"

definition option_default :: "string option \<Rightarrow> (string \<times> string) list \<Rightarrow> string" where
  "option_default dv vals =
     (let def = str_or_empty dv in if def = '''' \<and> vals \<noteq> [] then fst (hd vals) else def)"

definition v1_option :: "retro_core_option_definition \<Rightarrow> ShimOption" where
  "v1_option d =
     (let vals = option_values (od_values d)
      in \<lparr>so_key = the (od_key d), so_desc = str_or_empty (od_desc d), so_info = str_or_empty (od_info d),
          so_def = option_default (od_default_value d) vals, so_values = vals\<rparr>)"

definition v2_option :: "retro_core_option_v2_definition \<Rightarrow> ShimOption" where
  "v2_option d =
     (let vals = option_values (o2_values d)
      in \<lparr>so_key = the (o2_key d), so_desc = str_or_empty (o2_desc d), so_info = str_or_empty (o2_info d),
          so_def = option_default (o2_default_value d) vals, so_values = vals\<rparr>)"

definition harvest_v1 :: "retro_core_option_definition list option \<Rightarrow> shim_options \<Rightarrow> shim_options" where
  "harvest_v1 ds s =
     (case ds of None \<Rightarrow> s
      | Some ds \<Rightarrow> fold (\<lambda>d. shim_add_option (v1_option d)) (takeWhile (\<lambda>d. od_key d \<noteq> None) ds) s)"

definition harvest_v2 :: "retro_core_option_v2_definition list option \<Rightarrow> shim_options \<Rightarrow> shim_options" where
  "harvest_v2 ds s =
     (case ds of None \<Rightarrow> s
      | Some ds \<Rightarrow> fold (\<lambda>d. shim_add_option (v2_option d)) (takeWhile (\<lambda>d. o2_key d \<noteq> None) ds) s)"

section \<open>Serving\<close>

text \<open>The override of a declared key, else its default; the served copy is kept per key.\<close>

definition serve_option :: "string \<Rightarrow> nat \<Rightarrow> shim_options \<Rightarrow> shim_options \<times> string" where
  "serve_option key i s =
     (let eff = (case op_overrides s key of Some v \<Rightarrow> v | None \<Rightarrow> so_def (op_defs s ! i))
      in (s\<lparr>op_served := (op_served s)(key \<mapsto> eff)\<rparr>, eff))"

definition env_get_variable :: "string option \<Rightarrow> shim_options \<Rightarrow> shim_options \<times> bool \<times> string option" where
  "env_get_variable key s =
     (case key of None \<Rightarrow> (s, False, None)
      | Some k \<Rightarrow>
          (case op_index s k of None \<Rightarrow> (s, False, None)
           | Some i \<Rightarrow> (case serve_option k i s of (s, eff) \<Rightarrow> (s, True, Some eff))))"

definition env_get_variable_update :: "shim_options \<Rightarrow> shim_options \<times> bool" where
  "env_get_variable_update s = (s\<lparr>op_dirty := False\<rparr>, op_dirty s)"

definition sh_core_option_get :: "string option \<Rightarrow> shim_options \<Rightarrow> shim_options \<times> string option" where
  "sh_core_option_get key s =
     (let k = str_or_empty key
      in case op_index s k of None \<Rightarrow> (s, None)
         | Some i \<Rightarrow> (case serve_option k i s of (s, eff) \<Rightarrow> (s, Some eff)))"

definition sh_core_option_set :: "string option \<Rightarrow> string option \<Rightarrow> shim_options \<Rightarrow> shim_options \<times> rp_result" where
  "sh_core_option_set key value s =
     (case (key, value) of
        (Some k, Some v) \<Rightarrow>
          if op_index s k = None then (s, RP_ERR_NOT_FOUND)
          else (s\<lparr>op_overrides := (op_overrides s)(k \<mapsto> v), op_dirty := True\<rparr>, RP_OK)
      | _ \<Rightarrow> (s, RP_ERR_BAD_ARG))"

section \<open>The JSON description\<close>

definition hex_digit :: "nat \<Rightarrow> char" where
  "hex_digit n = ''0123456789abcdef'' ! n"

text \<open>A byte below 0x20 in \<open>%04x\<close>: the two leading digits are 0.\<close>

definition json_escape_char :: "char \<Rightarrow> string" where
  "json_escape_char c =
     (let n = (of_char c :: nat)
      in if n = 34 then [CHR 0x5C, CHR 0x22]
         else if n = 92 then [CHR 0x5C, CHR 0x5C]
         else if n = 10 then [CHR 0x5C, CHR ''n'']
         else if n = 13 then [CHR 0x5C, CHR ''r'']
         else if n = 9 then [CHR 0x5C, CHR ''t'']
         else if n < 32 then [CHR 0x5C, CHR ''u'', CHR ''0'', CHR ''0'', hex_digit (n div 16), hex_digit (n mod 16)]
         else [c])"

definition json_escape :: "string \<Rightarrow> string" where
  "json_escape s = concat (map json_escape_char s)"

definition quote_char :: char where "quote_char = CHR 0x22"

definition json_quoted :: "string \<Rightarrow> string" where
  "json_quoted s = quote_char # json_escape s @ [quote_char]"

text \<open>\<open>"name":"value"\<close>\<close>

definition json_field :: "string \<Rightarrow> string \<Rightarrow> string" where
  "json_field name v = json_quoted name @ '':'' @ json_quoted v"

fun json_commas :: "string list \<Rightarrow> string" where
  "json_commas [] = ''''"
| "json_commas [x] = x"
| "json_commas (x # xs) = x @ '','' @ json_commas xs"

definition json_value :: "string \<times> string \<Rightarrow> string" where
  "json_value v = ''{'' @ json_field ''value'' (fst v) @ '','' @ json_field ''label'' (snd v) @ ''}''"

definition json_option :: "ShimOption \<Rightarrow> string" where
  "json_option opt =
     ''{'' @ json_field ''key'' (so_key opt) @ '','' @ json_field ''desc'' (so_desc opt) @ '','' @
     json_field ''info'' (so_info opt) @ '','' @ json_field ''default'' (so_def opt) @ '','' @
     json_quoted ''values'' @ '':['' @ json_commas (map json_value (so_values opt)) @ '']}''"

definition sh_core_options_json :: "shim_options \<Rightarrow> shim_options \<times> string" where
  "sh_core_options_json s =
     (let j = ''['' @ json_commas (map json_option (op_defs s)) @ '']''
      in (s\<lparr>op_json_cache := j\<rparr>, j))"

section \<open>The channel against its specification\<close>

text \<open>What the channel promises: the first declaration of a key fixes its default, a set overrides it
  and raises a flag that the core's next poll reads and clears.\<close>

record opt_spec =
  sp_default :: "string \<rightharpoonup> string"
  sp_override :: "string \<rightharpoonup> string"
  sp_dirty :: bool

datatype opt_op =
    Op_declare ShimOption
  | Op_set "string option" "string option"
  | Op_get "string option"
  | Op_core_reads "string option"
  | Op_core_polls

datatype opt_out = Out_ok | Out_result rp_result | Out_get "string option" | Out_read bool "string option" | Out_poll bool

definition spec_effective :: "opt_spec \<Rightarrow> string option \<Rightarrow> string option" where
  "spec_effective a key =
     (case key of None \<Rightarrow> None
      | Some k \<Rightarrow> (case sp_default a k of None \<Rightarrow> None
                  | Some d \<Rightarrow> Some (case sp_override a k of Some v \<Rightarrow> v | None \<Rightarrow> d)))"

fun spec_step :: "opt_op \<Rightarrow> opt_spec \<Rightarrow> opt_spec \<times> opt_out" where
  "spec_step (Op_declare opt) a =
     (if so_key opt = '''' \<or> sp_default a (so_key opt) \<noteq> None then a
      else a\<lparr>sp_default := (sp_default a)(so_key opt \<mapsto> so_def opt)\<rparr>, Out_ok)"
| "spec_step (Op_set key v) a =
     (if key = None \<or> v = None then (a, Out_result RP_ERR_BAD_ARG)
      else if sp_default a (the key) = None then (a, Out_result RP_ERR_NOT_FOUND)
      else (a\<lparr>sp_override := (sp_override a)(the key \<mapsto> the v), sp_dirty := True\<rparr>, Out_result RP_OK))"
| "spec_step (Op_get key) a = (a, Out_get (spec_effective a key))"
| "spec_step (Op_core_reads key) a = (a, Out_read (spec_effective a key \<noteq> None) (spec_effective a key))"
| "spec_step Op_core_polls a = (a\<lparr>sp_dirty := False\<rparr>, Out_poll (sp_dirty a))"

fun impl_step :: "opt_op \<Rightarrow> shim_options \<Rightarrow> shim_options \<times> opt_out" where
  "impl_step (Op_declare opt) s = (shim_add_option opt s, Out_ok)"
| "impl_step (Op_set key v) s = (case sh_core_option_set key v s of (s, r) \<Rightarrow> (s, Out_result r))"
| "impl_step (Op_get key) s = (case sh_core_option_get key s of (s, v) \<Rightarrow> (s, Out_get v))"
| "impl_step (Op_core_reads key) s = (case env_get_variable key s of (s, b, v) \<Rightarrow> (s, Out_read b v))"
| "impl_step Op_core_polls s = (case env_get_variable_update s of (s, b) \<Rightarrow> (s, Out_poll b))"

fun run_ops :: "(opt_op \<Rightarrow> 's \<Rightarrow> 's \<times> opt_out) \<Rightarrow> opt_op list \<Rightarrow> 's \<Rightarrow> opt_out list" where
  "run_ops step [] s = []"
| "run_ops step (op # ops) s = (case step op s of (s, out) \<Rightarrow> out # run_ops step ops s)"

definition spec_new :: opt_spec where
  "spec_new = \<lparr>sp_default = Map.empty, sp_override = Map.empty, sp_dirty = False\<rparr>"

text \<open>The invariant of the channel: the index and the definitions agree, and no key is empty.\<close>

definition options_ok :: "shim_options \<Rightarrow> bool" where
  "options_ok s \<longleftrightarrow>
     (\<forall>k i. op_index s k = Some i \<longrightarrow> i < length (op_defs s) \<and> so_key (op_defs s ! i) = k \<and> k \<noteq> '''') \<and>
     (\<forall>i < length (op_defs s). op_index s (so_key (op_defs s ! i)) = Some i) \<and>
     dom (op_overrides s) \<subseteq> dom (op_index s)"

definition options_abs :: "shim_options \<Rightarrow> opt_spec" where
  "options_abs s =
     \<lparr>sp_default = (\<lambda>k. map_option (\<lambda>i. so_def (op_defs s ! i)) (op_index s k)),
      sp_override = op_overrides s, sp_dirty = op_dirty s\<rparr>"

lemma options_ok_new [simp]: "options_ok shim_options_new" "options_abs shim_options_new = spec_new"
  by (simp_all add: options_ok_def shim_options_new_def options_abs_def spec_new_def)

lemma options_ok_empty_key: "options_ok s \<Longrightarrow> op_index s '''' = None"
  unfolding options_ok_def by (metis not_None_eq)

lemma shim_add_option_ok:
  assumes ok: "options_ok s"
  shows "options_ok (shim_add_option opt s)"
    and "options_abs (shim_add_option opt s) = fst (spec_step (Op_declare opt) (options_abs s))"
proof -
  show "options_ok (shim_add_option opt s)"
    using ok by (fastforce simp: options_ok_def shim_add_option_def nth_append less_Suc_eq)
  have "i < length (op_defs s)" if "op_index s k = Some i" for k i
    using ok that by (simp add: options_ok_def)
  then show "options_abs (shim_add_option opt s) = fst (spec_step (Op_declare opt) (options_abs s))"
    by (auto simp: shim_add_option_def options_abs_def fun_eq_iff nth_append intro!: option.map_cong0)
qed

lemma serve_option_keeps:
  "options_ok (fst (serve_option k i s)) = options_ok s" "options_abs (fst (serve_option k i s)) = options_abs s"
  by (simp_all add: serve_option_def options_ok_def options_abs_def Let_def)

lemma serve_option_effective:
  "op_index s k = Some i \<Longrightarrow> spec_effective (options_abs s) (Some k) = Some (snd (serve_option k i s))"
  by (simp add: spec_effective_def options_abs_def serve_option_def Let_def split: option.splits)

lemma impl_step_refines:
  assumes ok: "options_ok s"
  shows "options_ok (fst (impl_step op s)) \<and>
     (options_abs (fst (impl_step op s)), snd (impl_step op s)) = spec_step op (options_abs s)"
proof (cases op)
  case (Op_declare opt)
  then show ?thesis
    using shim_add_option_ok [OF ok, of opt] by (simp add: prod_eq_iff)
next
  case (Op_set key v)
  then show ?thesis
    using ok by (cases key; cases v)
      (auto simp: sh_core_option_set_def options_abs_def options_ok_def)
next
  case (Op_get key)
  show ?thesis
  proof (cases "op_index s (str_or_empty key)")
    case None
    then have "spec_effective (options_abs s) key = None"
      by (cases key) (simp_all add: spec_effective_def options_abs_def str_or_empty_def)
    with None Op_get ok show ?thesis by (simp add: sh_core_option_get_def Let_def)
  next
    case (Some i)
    then obtain k where k: "key = Some k" "op_index s k = Some i"
      using options_ok_empty_key [OF ok] by (cases key) (auto simp: str_or_empty_def)
    with Op_get ok serve_option_effective [OF k(2)] serve_option_keeps [of k i s] show ?thesis
      by (simp add: sh_core_option_get_def str_or_empty_def split_beta)
  qed
next
  case (Op_core_reads key)
  show ?thesis
  proof (cases "\<exists>k i. key = Some k \<and> op_index s k = Some i")
    case True
    then obtain k i where k: "key = Some k" "op_index s k = Some i" by blast
    with Op_core_reads ok serve_option_effective [OF k(2)] serve_option_keeps [of k i s] show ?thesis
      by (simp add: env_get_variable_def split_beta)
  next
    case False
    then have "spec_effective (options_abs s) key = None" "env_get_variable key s = (s, False, None)"
      by (auto simp: spec_effective_def options_abs_def env_get_variable_def split: option.splits)
    with Op_core_reads ok show ?thesis by simp
  qed
next
  case Op_core_polls
  then show ?thesis
    using ok by (simp add: env_get_variable_update_def options_abs_def options_ok_def)
qed

text \<open>
  C18. The option channel refines its specification: for every sequence of declarations, frontend
  reads and writes, core reads and core polls, the shim gives exactly the answers of the abstract
  channel, in which a key's first declaration fixes its default, an override replaces it, unknown
  keys are refused and a poll reports a change exactly once.
\<close>

theorem options_refine: "run_ops impl_step ops shim_options_new = run_ops spec_step ops spec_new"
proof -
  have "run_ops impl_step ops s = run_ops spec_step ops (options_abs s)" if "options_ok s" for s
    using that
  proof (induction ops arbitrary: s)
    case (Cons op ops)
    with impl_step_refines [OF Cons.prems, of op] show ?case
      by (auto simp: split_beta prod_eq_iff)
  qed simp
  from this [of shim_options_new] show ?thesis by simp
qed

section \<open>The legacy declaration syntax\<close>

fun join_bars :: "string list \<Rightarrow> string" where
  "join_bars [] = ''''"
| "join_bars [v] = v"
| "join_bars (v # vs) = v @ ''|'' @ join_bars vs"

lemma takeWhile_all: "(\<And>x. x \<in> set xs \<Longrightarrow> P x) \<Longrightarrow> takeWhile P (xs @ ys) = xs @ takeWhile P ys"
  by (induction xs) auto

lemma dropWhile_all: "(\<And>x. x \<in> set xs \<Longrightarrow> P x) \<Longrightarrow> dropWhile P (xs @ ys) = dropWhile P ys"
  by (induction xs) auto

lemma legacy_values_join:
  "vs \<noteq> [] \<Longrightarrow> \<forall>v \<in> set vs. v \<noteq> '''' \<and> CHR ''|'' \<notin> set v \<Longrightarrow>
     legacy_values (join_bars vs) = map (\<lambda>v. (v, v)) vs"
proof (induction vs rule: join_bars.induct)
  case (2 v)
  then have eqs: "takeWhile (\<lambda>c. c \<noteq> CHR ''|'') v = v" "dropWhile (\<lambda>c. c \<noteq> CHR ''|'') v = []"
    by (auto simp: takeWhile_eq_all_conv dropWhile_eq_Nil_conv)
  show ?case
    using 2 unfolding join_bars.simps legacy_values.simps [of v] eqs by simp
next
  case (3 v w vs)
  have eqs: "takeWhile (\<lambda>c. c \<noteq> CHR ''|'') (v @ ''|'' @ join_bars (w # vs)) = v"
    "dropWhile (\<lambda>c. c \<noteq> CHR ''|'') (v @ ''|'' @ join_bars (w # vs)) = CHR ''|'' # join_bars (w # vs)"
    using 3 by (subst takeWhile_all dropWhile_all; auto)+
  show ?case
    using 3 unfolding join_bars.simps legacy_values.simps [of "v @ ''|'' @ join_bars (w # vs)"] eqs by simp
qed simp

text \<open>
  The legacy option syntax is read back: a declaration \<open>desc; v1|v2|...\<close> with a description free
  of semicolons and values that are non-empty and free of bars, the first not starting with a space,
  yields exactly that description, those values in order and the first of them as the default.
\<close>

theorem legacy_option_reads:
  assumes "CHR '';'' \<notin> set desc" and "vs \<noteq> []" and "\<forall>v \<in> set vs. v \<noteq> '''' \<and> CHR ''|'' \<notin> set v"
    and "hd (hd vs) \<noteq> CHR '' ''"
  shows "legacy_option key (Some (desc @ '';'' @ replicate n CHR '' '' @ join_bars vs)) =
     \<lparr>so_key = key, so_desc = desc, so_info = '''', so_def = hd vs, so_values = map (\<lambda>v. (v, v)) vs\<rparr>"
proof -
  let ?str = "desc @ '';'' @ replicate n CHR '' '' @ join_bars vs"
  have tw: "takeWhile (\<lambda>c. c \<noteq> CHR '';'') ?str = desc"
    and dw: "dropWhile (\<lambda>c. c \<noteq> CHR '';'') ?str = CHR '';'' # replicate n CHR '' '' @ join_bars vs"
    using assms(1) by (subst takeWhile_all dropWhile_all; auto)+
  have "join_bars vs \<noteq> [] \<and> hd (join_bars vs) = hd (hd vs)"
    using assms(2,3) by (cases vs rule: join_bars.cases) auto
  then have "dropWhile (\<lambda>c. c = CHR '' '') (join_bars vs) = join_bars vs"
    using assms(4) by (cases "join_bars vs") auto
  then have "dropWhile (\<lambda>c. c = CHR '' '') (replicate n CHR '' '' @ join_bars vs) = join_bars vs"
    by (subst dropWhile_all) auto
  with tw dw legacy_values_join [OF assms(2,3)] assms(2) show ?thesis
    by (simp add: legacy_option_def str_or_empty_def hd_map)
qed

theorem legacy_option_reads_witness:
  "legacy_option ''fceumm_sndvolume'' (Some ''Sound Volume; 7|0|10'') =
     \<lparr>so_key = ''fceumm_sndvolume'', so_desc = ''Sound Volume'', so_info = '''', so_def = ''7'',
      so_values = [(''7'', ''7''), (''0'', ''0''), (''10'', ''10'')]\<rparr>"
  using legacy_option_reads [of "''Sound Volume''" "[''7'', ''0'', ''10'']" "''fceumm_sndvolume''" 1] by simp

section \<open>Reading the JSON back\<close>

definition hex_value :: "char \<Rightarrow> nat" where
  "hex_value c = (let n = of_char c in if n < 58 then n - 48 else n - 87)"

text \<open>The rest of a string literal, after the opening quote: its value and what follows it.\<close>

fun read_string :: "string \<Rightarrow> (string \<times> string) option" where
  "read_string [] = None"
| "read_string (c # cs) =
     (if c = quote_char then Some ([], cs)
      else if c = CHR 0x5C
      then (case cs of
              CHR ''u'' # a # b # x # y # r \<Rightarrow>
                map_option (apfst ((#) (char_of (16 * hex_value x + hex_value y)))) (read_string r)
            | e # r \<Rightarrow>
                map_option (apfst ((#) (if e = CHR ''n'' then CHR 0x0A else if e = CHR ''r'' then CHR 0x0D
                   else if e = CHR ''t'' then CHR 0x09 else e))) (read_string r)
            | [] \<Rightarrow> None)
      else map_option (apfst ((#) c)) (read_string cs))"

definition strip :: "string \<Rightarrow> string \<Rightarrow> string option" where
  "strip p s = (if take (length p) s = p then Some (drop (length p) s) else None)"

definition read_field :: "string \<Rightarrow> string \<Rightarrow> (string \<times> string) option" where
  "read_field name s = Option.bind (strip (json_quoted name @ '':'' @ [quote_char]) s) read_string"

fun read_items :: "(string \<Rightarrow> ('a \<times> string) option) \<Rightarrow> nat \<Rightarrow> string \<Rightarrow> ('a list \<times> string) option" where
  "read_items rd 0 s = None"
| "read_items rd (Suc n) s =
     (case rd s of None \<Rightarrow> None
      | Some (x, r) \<Rightarrow>
          (case strip '','' r of
             Some r' \<Rightarrow> map_option (apfst ((#) x)) (read_items rd n r')
           | None \<Rightarrow> map_option (Pair [x]) (strip '']'' r)))"

definition read_list :: "(string \<Rightarrow> ('a \<times> string) option) \<Rightarrow> string \<Rightarrow> ('a list \<times> string) option" where
  "read_list rd s = (case strip '']'' s of Some r \<Rightarrow> Some ([], r) | None \<Rightarrow> read_items rd (length s) s)"

definition read_value :: "string \<Rightarrow> ((string \<times> string) \<times> string) option" where
  "read_value s =
     Option.bind (strip ''{'' s) (\<lambda>s. Option.bind (read_field ''value'' s) (\<lambda>(v, s).
     Option.bind (strip '','' s) (\<lambda>s. Option.bind (read_field ''label'' s) (\<lambda>(l, s).
     map_option (Pair (v, l)) (strip ''}'' s)))))"

definition read_option :: "string \<Rightarrow> (ShimOption \<times> string) option" where
  "read_option s =
     Option.bind (strip ''{'' s) (\<lambda>s. Option.bind (read_field ''key'' s) (\<lambda>(k, s).
     Option.bind (strip '','' s) (\<lambda>s. Option.bind (read_field ''desc'' s) (\<lambda>(d, s).
     Option.bind (strip '','' s) (\<lambda>s. Option.bind (read_field ''info'' s) (\<lambda>(i, s).
     Option.bind (strip '','' s) (\<lambda>s. Option.bind (read_field ''default'' s) (\<lambda>(df, s).
     Option.bind (strip ('','' @ json_quoted ''values'' @ '':['') s) (\<lambda>s.
     Option.bind (read_list read_value s) (\<lambda>(vs, s).
     map_option (Pair \<lparr>so_key = k, so_desc = d, so_info = i, so_def = df, so_values = vs\<rparr>) (strip ''}'' s)))))))))))"

definition read_options :: "string \<Rightarrow> ShimOption list option" where
  "read_options s = Option.bind (strip ''['' s) (\<lambda>s. Option.bind (read_list read_option s) (\<lambda>(opts, s).
     if s = '''' then Some opts else None))"

lemma strip_append [simp]: "strip p (p @ s) = Some s"
  by (simp add: strip_def)

lemma strip_Cons [simp]: "strip [c] (c # s) = Some s" "d \<noteq> c \<Longrightarrow> strip [c] (d # s) = None"
  by (simp_all add: strip_def)

lemma hex_value_digit: "n < 16 \<Longrightarrow> hex_value (hex_digit n) = n"
proof -
  assume "n < 16"
  then have "n \<in> set [0..<16]" by simp
  moreover have "\<forall>n \<in> set [0..<16]. hex_value (hex_digit n) = n"
    by (simp add: hex_value_def hex_digit_def upt_rec)
  ultimately show ?thesis by blast
qed

lemma read_string_escape_char: "read_string (json_escape_char c @ s) = map_option (apfst ((#) c)) (read_string s)"
proof -
  let ?n = "of_char c :: nat"
  have same: "c = d" if "?n = of_char d" for d
    using that by (simp only: of_char_eq_iff)
  consider (q) "?n = 34" | (b) "?n = 92" | (n) "?n = 10" | (r) "?n = 13" | (t) "?n = 9"
    | (ctl) "?n < 32" "?n \<noteq> 10" "?n \<noteq> 13" "?n \<noteq> 9" | (plain) "32 \<le> ?n" "?n \<noteq> 34" "?n \<noteq> 92"
    by linarith
  then show ?thesis
  proof cases
    case q
    then have "c = CHR 0x22" by (intro same) simp
    then show ?thesis by (simp add: json_escape_char_def quote_char_def)
  next
    case b
    then have "c = CHR 0x5C" by (intro same) simp
    then show ?thesis by (simp add: json_escape_char_def quote_char_def)
  next
    case n
    then have "c = CHR 0x0A" by (intro same) simp
    then show ?thesis by (simp add: json_escape_char_def quote_char_def)
  next
    case r
    then have "c = CHR 0x0D" by (intro same) simp
    then show ?thesis by (simp add: json_escape_char_def quote_char_def)
  next
    case t
    then have "c = CHR 0x09" by (intro same) simp
    then show ?thesis by (simp add: json_escape_char_def quote_char_def)
  next
    case ctl
    have "hex_value (hex_digit (?n div 16)) = ?n div 16" "hex_value (hex_digit (?n mod 16)) = ?n mod 16"
      using ctl(1) by (simp_all add: hex_value_digit)
    with ctl show ?thesis by (simp add: json_escape_char_def quote_char_def Let_def)
  next
    case plain
    then have "c \<noteq> quote_char" "c \<noteq> CHR 0x5C"
      by (auto simp: quote_char_def)
    with plain show ?thesis by (simp add: json_escape_char_def Let_def)
  qed
qed

lemma read_string_escape: "read_string (json_escape v @ quote_char # s) = Some (v, s)"
  by (induction v) (simp_all add: json_escape_def read_string_escape_char)

lemma read_field_field: "read_field name (json_field name v @ s) = Some (v, s)"
proof -
  have "json_field name v @ s = (json_quoted name @ '':'' @ [quote_char]) @ json_escape v @ quote_char # s"
    by (simp add: json_field_def json_quoted_def)
  then show ?thesis
    by (simp only: read_field_def strip_append Option.bind.simps read_string_escape)
qed

lemma read_items_commas:
  "xs \<noteq> [] \<Longrightarrow> (\<And>x s. x \<in> set xs \<Longrightarrow> rd (pr x @ s) = Some (x, s)) \<Longrightarrow> length xs \<le> n \<Longrightarrow>
     read_items rd n (json_commas (map pr xs) @ '']'' @ s) = Some (xs, s)"
proof (induction xs arbitrary: n)
  case (Cons x xs)
  then obtain m where n: "n = Suc m" by (cases n) auto
  show ?case
  proof (cases xs)
    case Nil
    with Cons.prems n show ?thesis by simp
  next
    case (Cons y ys)
    then have "json_commas (map pr (x # xs)) = pr x @ '','' @ json_commas (map pr xs)" by simp
    with Cons Cons.IH [of m] Cons.prems n show ?thesis by simp
  qed
qed simp

lemma length_json_commas: "(\<And>x. x \<in> set xs \<Longrightarrow> pr x \<noteq> []) \<Longrightarrow> length xs \<le> length (json_commas (map pr xs))"
proof (induction xs)
  case (Cons x xs)
  then have "0 < length (pr x)" "length xs \<le> length (json_commas (map pr xs))" by simp_all
  then show ?case by (cases xs) (simp_all add: Suc_le_eq)
qed simp

lemma read_list_commas:
  assumes "\<And>x s. x \<in> set xs \<Longrightarrow> rd (pr x @ s) = Some (x, s)" "\<And>x. x \<in> set xs \<Longrightarrow> \<exists>r. pr x = ''{'' @ r"
  shows "read_list rd (json_commas (map pr xs) @ '']'' @ s) = Some (xs, s)"
proof (cases xs)
  case Nil
  then show ?thesis by (simp add: read_list_def)
next
  case (Cons y ys)
  then obtain r where r: "pr y = ''{'' @ r" using assms(2) by auto
  let ?t = "json_commas (map pr xs) @ '']'' @ s"
  obtain t where t: "?t = CHR ''{'' # t"
    using r Cons by (cases ys) auto
  have "length xs \<le> length ?t"
    using length_json_commas [of xs pr] assms(2) by fastforce
  then have "read_items rd (length ?t) ?t = Some (xs, s)"
    using Cons assms(1) by (intro read_items_commas) auto
  moreover have "strip '']'' ?t = None"
    unfolding t by simp
  ultimately show ?thesis
    by (simp only: read_list_def option.case)
qed

lemma read_value_json: "read_value (json_value v @ s) = Some (v, s)"
  by (simp add: read_value_def json_value_def read_field_field)

lemma read_option_json: "read_option (json_option opt @ s) = Some (opt, s)"
proof -
  have vs: "read_list read_value (json_commas (map json_value (so_values opt)) @ '']'' @ s) = Some (so_values opt, s)" for s
    by (rule read_list_commas, rule read_value_json, simp add: json_value_def)
  have vals: "strip (CHR '','' # json_quoted ''values'' @ '':['') (CHR '','' # json_quoted ''values'' @ CHR '':'' # CHR ''['' # r) = Some r" for r
    using strip_append [of "'','' @ json_quoted ''values'' @ '':[''" r] by simp
  show ?thesis
    using vs [of "''}'' @ s"]
    by (simp add: read_option_def json_option_def read_field_field vals)
qed

text \<open>
  C31. The JSON description loses nothing: reading the text that \<open>core_options_json\<close> returns gives back
  exactly the harvested options, whatever bytes their strings contain (quotes, backslashes, control
  characters), in order, and nothing is left over.
\<close>

theorem options_json_reads_back: "read_options (snd (sh_core_options_json s)) = Some (op_defs s)"
proof -
  have "read_list read_option (json_commas (map json_option (op_defs s)) @ '']'' @ '''') = Some (op_defs s, '''')"
    by (rule read_list_commas, rule read_option_json, simp add: json_option_def)
  then show ?thesis
    by (simp add: read_options_def sh_core_options_json_def Let_def)
qed

end
