(* ===== verification/RP_Pixel.thy ===== *)
theory RP_Pixel
  imports RP_Libretro
begin

text \<open>
  Software frames: \<open>cores/libretro_shim/PixelConvert.cpp\<close> turns the pixels of a libretro core, in one of
  three formats and with any row pitch, into tightly packed RGBA8. Memory is a byte list in the
  little-endian order of the supported hosts; a read past its end is unspecified, as in the source.
  \<open>HwRenderGL::read_frame\<close> does the same for frames drawn by OpenGL: it crops to the framebuffer and
  turns rows that run upwards over.
\<close>

section \<open>Conversion\<close>

definition e5 :: "u32 \<Rightarrow> u8" where
  "e5 v = ucast (push_bit 3 v OR drop_bit 2 v)"

definition e6 :: "u32 \<Rightarrow> u8" where
  "e6 v = ucast (push_bit 2 v OR drop_bit 4 v)"

definition mem_u32 :: "bytes \<Rightarrow> nat \<Rightarrow> u32" where
  "mem_u32 src a = or_bytes (\<lambda>i. src ! (a + i)) 4"

definition mem_u16 :: "bytes \<Rightarrow> nat \<Rightarrow> u16" where
  "mem_u16 src a = or_bytes (\<lambda>i. src ! (a + i)) 2"

text \<open>The pixel \<open>x\<close> of the row at address \<open>row\<close>, promoted to 32 bits.\<close>

definition src_pixel :: "u32 \<Rightarrow> bytes \<Rightarrow> nat \<Rightarrow> nat \<Rightarrow> u32" where
  "src_pixel fmt src row x =
     (if fmt = RETRO_PIXEL_FORMAT_XRGB8888 then mem_u32 src (row + 4 * x)
      else ucast (mem_u16 src (row + 2 * x)))"

definition convert_pixel :: "u32 \<Rightarrow> bytes \<Rightarrow> nat \<Rightarrow> nat \<Rightarrow> bytes" where
  "convert_pixel fmt src row x =
     (let p = src_pixel fmt src row x
      in if fmt = RETRO_PIXEL_FORMAT_XRGB8888
         then [ucast (drop_bit 16 p AND 0xFF), ucast (drop_bit 8 p AND 0xFF), ucast (p AND 0xFF), 255]
         else if fmt = RETRO_PIXEL_FORMAT_RGB565
         then [e5 (drop_bit 11 p AND 0x1F), e6 (drop_bit 5 p AND 0x3F), e5 (p AND 0x1F), 255]
         else if fmt = RETRO_PIXEL_FORMAT_0RGB1555
         then [e5 (drop_bit 10 p AND 0x1F), e5 (drop_bit 5 p AND 0x1F), e5 (p AND 0x1F), 255]
         else [0, 0, 0, 255])"

definition convert_to_rgba8 :: "bytes \<Rightarrow> u32 \<Rightarrow> u32 \<Rightarrow> u32 \<Rightarrow> u32 \<Rightarrow> bytes \<Rightarrow> bytes" where
  "convert_to_rgba8 src w h src_pitch fmt dst =
     (let out = concat (map (\<lambda>y. concat (map (convert_pixel fmt src (y * unat src_pitch)) [0..<unat w])) [0..<unat h])
      in out @ drop (length out) dst)"

section \<open>Packing back\<close>

definition pack_pixel :: "u32 \<Rightarrow> u8 \<Rightarrow> u8 \<Rightarrow> u8 \<Rightarrow> u32" where
  "pack_pixel fmt r g b =
     (if fmt = RETRO_PIXEL_FORMAT_XRGB8888 then push_bit 16 (ucast r) OR push_bit 8 (ucast g) OR ucast b
      else if fmt = RETRO_PIXEL_FORMAT_RGB565
      then push_bit 11 (ucast (drop_bit 3 r)) OR push_bit 5 (ucast (drop_bit 2 g)) OR ucast (drop_bit 3 b)
      else push_bit 10 (ucast (drop_bit 3 r)) OR push_bit 5 (ucast (drop_bit 3 g)) OR ucast (drop_bit 3 b))"

text \<open>The bits of a pixel that carry colour.\<close>

definition color_mask :: "u32 \<Rightarrow> u32" where
  "color_mask fmt =
     (if fmt = RETRO_PIXEL_FORMAT_XRGB8888 then 0xFFFFFF else if fmt = RETRO_PIXEL_FORMAT_RGB565 then 0xFFFF else 0x7FFF)"

lemmas retro_formats = RETRO_PIXEL_FORMAT_XRGB8888_def RETRO_PIXEL_FORMAT_RGB565_def RETRO_PIXEL_FORMAT_0RGB1555_def

lemma mask_bits: "(0x1F :: u32) = mask 5" "(0x3F :: u32) = mask 6" "(0xFF :: u32) = mask 8"
  "(0xFFFFFF :: u32) = mask 24" "(0xFFFF :: u32) = mask 16" "(0x7FFF :: u32) = mask 15"
  by (simp_all add: mask_eq_exp_minus_1)

lemma e5_top: "ucast (drop_bit 3 (e5 (v AND mask 5))) = v AND mask 5"
  by (rule bit_eqI)
    (auto simp: e5_def bit_simps)

lemma e6_top: "ucast (drop_bit 2 (e6 (v AND mask 6))) = v AND mask 6"
  by (rule bit_eqI)
    (auto simp: e6_def bit_simps)

lemma convert_pixel_packs:
  assumes "fmt \<in> {RETRO_PIXEL_FORMAT_XRGB8888, RETRO_PIXEL_FORMAT_RGB565, RETRO_PIXEL_FORMAT_0RGB1555}"
  shows "\<exists>r g b. convert_pixel fmt src row x = [r, g, b, 255] \<and>
     pack_pixel fmt r g b = src_pixel fmt src row x AND color_mask fmt"
proof -
  define p where "p = src_pixel fmt src row x"
  have xrgb: "push_bit 16 (ucast (ucast (drop_bit 16 p AND mask 8) :: u8)) OR
      push_bit 8 (ucast (ucast (drop_bit 8 p AND mask 8) :: u8)) OR ucast (ucast (p AND mask 8) :: u8) = p AND mask 24"
  proof (rule bit_eqI)
    fix n
    show "bit (push_bit 16 (ucast (ucast (drop_bit 16 p AND mask 8) :: u8)) OR
        push_bit 8 (ucast (ucast (drop_bit 8 p AND mask 8) :: u8)) OR ucast (ucast (p AND mask 8) :: u8) :: u32) n =
        bit (p AND mask 24) n"
      by (cases "n < 8"; cases "n < 16") (auto simp: bit_simps)
  qed
  have rgb565: "push_bit 11 (drop_bit 11 p AND mask 5) OR push_bit 5 (drop_bit 5 p AND mask 6) OR (p AND mask 5) = p AND mask 16"
  proof (rule bit_eqI)
    fix n
    show "bit (push_bit 11 (drop_bit 11 p AND mask 5) OR push_bit 5 (drop_bit 5 p AND mask 6) OR (p AND mask 5)) n = bit (p AND mask 16) n"
      by (cases "n < 5"; cases "n < 11") (auto simp: bit_simps)
  qed
  have rgb1555: "push_bit 10 (drop_bit 10 p AND mask 5) OR push_bit 5 (drop_bit 5 p AND mask 5) OR (p AND mask 5) = p AND mask 15"
  proof (rule bit_eqI)
    fix n
    show "bit (push_bit 10 (drop_bit 10 p AND mask 5) OR push_bit 5 (drop_bit 5 p AND mask 5) OR (p AND mask 5)) n = bit (p AND mask 15) n"
      by (cases "n < 5"; cases "n < 10") (auto simp: bit_simps)
  qed
  from assms xrgb rgb565 rgb1555 show ?thesis
    unfolding p_def [symmetric] convert_pixel_def color_mask_def pack_pixel_def Let_def
    by (auto simp: retro_formats mask_bits e5_top e6_top p_def [symmetric])
qed

lemma length_convert_pixel [simp]: "length (convert_pixel fmt src row x) = 4"
  by (simp add: convert_pixel_def Let_def)

text \<open>
  C32. Pixel conversion is exact: for each of the three formats, every pixel of the frame comes out
  opaque at its place in the tightly packed output, whatever the source pitch, and packing its
  colours again gives back all colour bits of the source pixel; bytes past the frame stay as they were.
\<close>

theorem convert_to_rgba8_exact:
  assumes "fmt \<in> {RETRO_PIXEL_FORMAT_XRGB8888, RETRO_PIXEL_FORMAT_RGB565, RETRO_PIXEL_FORMAT_0RGB1555}"
    and "x < unat w" and "y < unat h"
  shows "\<exists>r g b. take 4 (drop (4 * (y * unat w + x)) (convert_to_rgba8 src w h pitch fmt dst)) = [r, g, b, 255] \<and>
       pack_pixel fmt r g b = src_pixel fmt src (y * unat pitch) x AND color_mask fmt \<and>
       drop (unat w * unat h * 4) (convert_to_rgba8 src w h pitch fmt dst) = drop (unat w * unat h * 4) dst"
proof -
  define row where "row y = concat (map (convert_pixel fmt src (y * unat pitch)) [0..<unat w])" for y
  define out where "out = concat (map row [0..<unat h])"
  have len: "length (row y) = unat w * 4" for y
    unfolding row_def by (subst length_concat_const [of _ _ 4]) simp_all
  have lout: "length out = unat h * (unat w * 4)"
    unfolding out_def by (subst length_concat_const [of _ _ "unat w * 4"]) (simp_all add: len)
  have conv: "convert_to_rgba8 src w h pitch fmt dst = out @ drop (length out) dst"
    by (simp add: convert_to_rgba8_def out_def row_def [abs_def] Let_def)
  have blk: "take (unat w * 4) (drop (y * (unat w * 4)) (out @ ys)) = row y" for ys
    using take_drop_concat [of "[0..<unat h]" row "unat w * 4" y ys] assms(3) by (simp add: len out_def)
  have "take 4 (drop (4 * (y * unat w + x)) zs) =
      take 4 (drop (x * 4) (take (unat w * 4) (drop (y * (unat w * 4)) zs)))" for zs :: bytes
    using take_drop_block [of "x * 4" 4 "unat w * 4" "y * (unat w * 4)" zs] assms(2) by (simp add: algebra_simps)
  then have "take 4 (drop (4 * (y * unat w + x)) (out @ drop (length out) dst)) = take 4 (drop (x * 4) (row y))"
    by (simp only: blk)
  also have "take 4 (drop (x * 4) (row y)) = convert_pixel fmt src (y * unat pitch) x"
    using take_drop_concat [of "[0..<unat w]" "convert_pixel fmt src (y * unat pitch)" 4 x "[]"] assms(2)
    by (simp add: row_def)
  finally have "take 4 (drop (4 * (y * unat w + x)) (convert_to_rgba8 src w h pitch fmt dst)) =
      convert_pixel fmt src (y * unat pitch) x"
    unfolding conv .
  moreover have "drop (unat w * unat h * 4) (convert_to_rgba8 src w h pitch fmt dst) = drop (unat w * unat h * 4) dst"
    unfolding conv using lout by (simp add: ac_simps)
  ultimately show ?thesis
    using convert_pixel_packs [OF assms(1), of src "y * unat pitch" x] by auto
qed

theorem convert_to_rgba8_exact_witness:
  "\<exists>r g b. take 4 (drop 0 (convert_to_rgba8 [0x34, 0x12] 1 1 2 RETRO_PIXEL_FORMAT_RGB565 [])) = [r, g, b, 255] \<and>
     pack_pixel RETRO_PIXEL_FORMAT_RGB565 r g b = 0x1234"
proof -
  have "src_pixel RETRO_PIXEL_FORMAT_RGB565 [0x34, 0x12] 0 0 AND color_mask RETRO_PIXEL_FORMAT_RGB565 = 0x1234"
    by (simp add: src_pixel_def mem_u16_def or_bytes_def color_mask_def retro_formats upt_rec)
  with convert_to_rgba8_exact [of RETRO_PIXEL_FORMAT_RGB565 0 1 0 1 "[0x34, 0x12]" 2 "[]"] show ?thesis
    by auto
qed

section \<open>Frames drawn by OpenGL\<close>

text \<open>\<open>HwRenderGL\<close>: the framebuffer's size, whether its rows run upwards, and whether its texture is
  shared with the host. The OpenGL context and its calls are the graphics driver's; setup takes their
  outcome as the record \<open>gl_answers\<close>, reading takes what \<open>glReadPixels\<close> returns.\<close>

datatype depth_buffer = DEPTH24 | DEPTH24_STENCIL8

record HwRenderGL =
  hr_fbo :: u32
  hr_color :: u32
  hr_depth_rb :: "depth_buffer option"
  hr_maxW :: u32
  hr_maxH :: u32
  hr_blo :: bool
  hr_zero_copy :: bool

record gl_answers =
  ga_initialize :: "u32 \<Rightarrow> u32 \<Rightarrow> u32 \<Rightarrow> u32 \<Rightarrow> nat option \<Rightarrow> bool"
  ga_make_current :: bool
  ga_fbo :: u32
  ga_color :: u32
  ga_complete :: bool

text \<open>The object setup leaves behind is returned with the outcome: a failed setup keeps what it had built
  until the caller drops the object. \<open>ga_initialize\<close> takes the size, the requested version and the
  context to share.\<close>

definition hw_setup ::
  "gl_answers \<Rightarrow> bool \<Rightarrow> bool \<Rightarrow> bool \<Rightarrow> u32 \<Rightarrow> u32 \<Rightarrow> u32 \<Rightarrow> u32 \<Rightarrow> nat option \<Rightarrow> HwRenderGL \<times> bool" where
  "hw_setup ga depth stencil blo maxW maxH major minor share =
     (let w = (if maxW \<noteq> 0 then maxW else 1); h = (if maxH \<noteq> 0 then maxH else 1);
          hr = \<lparr>hr_fbo = 0, hr_color = 0, hr_depth_rb = None, hr_maxW = w, hr_maxH = h, hr_blo = blo,
                hr_zero_copy = False\<rparr>;
          first = ga_initialize ga w h major minor share
      in if \<not> first \<and> (share = None \<or> \<not> ga_initialize ga w h major minor None) then (hr, False)
         else let hr = hr\<lparr>hr_zero_copy := (first \<and> share \<noteq> None)\<rparr>
              in if \<not> ga_make_current ga then (hr, False)
                 else (hr\<lparr>hr_fbo := ga_fbo ga, hr_color := ga_color ga,
                          hr_depth_rb := (if depth then Some (if stencil then DEPTH24_STENCIL8 else DEPTH24)
                                          else None)\<rparr>, ga_complete ga))"

lemma hw_setup_size [simp]:
  "hr_maxW (fst (hw_setup ga depth stencil blo maxW maxH major minor share)) = (if maxW = 0 then 1 else maxW)"
  "hr_maxH (fst (hw_setup ga depth stencil blo maxW maxH major minor share)) = (if maxH = 0 then 1 else maxH)"
  by (simp_all add: hw_setup_def Let_def)

definition clamp_to :: "u32 \<Rightarrow> u32 \<Rightarrow> u32" where
  "clamp_to m v = (if m < v then m else v)"

definition flip_rows :: "nat \<Rightarrow> nat \<Rightarrow> bytes \<Rightarrow> bytes" where
  "flip_rows h row px = concat (map (\<lambda>y. take row (drop ((h - 1 - y) * row) px)) [0..<h])"

text \<open>\<open>px w h\<close> is what \<open>glReadPixels\<close> writes for a region into the zeroed buffer (nothing if it fails); the
  result is the frame, its size and its pitch.\<close>

definition hw_read_frame :: "HwRenderGL \<Rightarrow> (u32 \<Rightarrow> u32 \<Rightarrow> bytes) \<Rightarrow> u32 \<Rightarrow> u32 \<Rightarrow> bytes \<times> u32 \<times> u32 \<times> u32" where
  "hw_read_frame hr px w h =
     (let w = clamp_to (hr_maxW hr) w; h = clamp_to (hr_maxH hr) h;
          n = unat w * unat h * 4; data = take n (px w h @ replicate n 0)
      in (if hr_blo hr then flip_rows (unat h) (unat w * 4) data else data, w, h, w * 4))"

lemma flip_row_length:
  assumes "length px = h * row" "k < h"
  shows "length (take row (drop ((h - Suc k) * row) px)) = row"
proof -
  have "h - Suc k + 1 \<le> h" using assms(2) by simp
  then have "(h - Suc k + 1) * row \<le> h * row" by (rule mult_le_mono1)
  with assms(1) show ?thesis by simp
qed

lemma length_flip_rows: "length px = h * row \<Longrightarrow> length (flip_rows h row px) = h * row"
  unfolding flip_rows_def by (subst length_concat_const [of _ _ row]) (auto simp del: length_take intro!: flip_row_length)

lemma hw_read_frame_fields:
  assumes "hw_read_frame hr px w h = (data, w', h', pitch)"
  shows "w' = clamp_to (hr_maxW hr) w" "h' = clamp_to (hr_maxH hr) h" "pitch = w' * 4"
    "length data = unat w' * unat h' * 4"
proof -
  show "w' = clamp_to (hr_maxW hr) w" "h' = clamp_to (hr_maxH hr) h" "pitch = w' * 4"
    using assms by (auto simp: hw_read_frame_def Let_def)
  have "length (take (unat w' * unat h' * 4) (px w' h' @ replicate (unat w' * unat h' * 4) 0)) = unat h' * (unat w' * 4)"
    by (simp add: ac_simps)
  from length_flip_rows [OF this] show "length data = unat w' * unat h' * 4"
    using assms by (auto simp: hw_read_frame_def Let_def ac_simps split: if_splits)
qed

text \<open>Row \<open>y\<close> of a turned frame is row \<open>h - 1 - y\<close> of what was read.\<close>

lemma flip_rows_row:
  assumes "length px = h * row" "y < h"
  shows "take row (drop (y * row) (flip_rows h row px)) = take row (drop ((h - 1 - y) * row) px)"
  using take_drop_concat [of "[0..<h]" "\<lambda>y. take row (drop ((h - 1 - y) * row) px)" row y "[]"] assms
    flip_row_length [OF assms(1)]
  by (simp add: flip_rows_def)

end
