(* ===== verification/RP_Pad.thy ===== *)
theory RP_Pad
  imports RP_Abi
begin

text \<open>
  Controller input end to end: \<open>harness/windowed/xinput_map.h\<close> turns an XInput gamepad into the
  abstract pad of the core ABI, \<open>cores/libretro_shim/ShimInput.h\<close> turns the abstract pad (and the
  keyboard snapshot) into the answers a libretro core polls for.

  The values of the Windows SDK's constants, the \<open>XINPUT_GAMEPAD_*\<close> masks and the \<open>VK_*\<close> codes, are
  parameters \<open>xm\<close> and \<open>vk\<close>; those of \<open>libretro.h\<close> are in the repository. A gamepad axis is a 16-bit
  pattern read as two's complement.
\<close>

section \<open>libretro's input identifiers\<close>

definition RETRO_DEVICE_JOYPAD :: u32 where "RETRO_DEVICE_JOYPAD = 1"
definition RETRO_DEVICE_ANALOG :: u32 where "RETRO_DEVICE_ANALOG = 5"
definition RETRO_DEVICE_ID_JOYPAD_B :: u32 where "RETRO_DEVICE_ID_JOYPAD_B = 0"
definition RETRO_DEVICE_ID_JOYPAD_SELECT :: u32 where "RETRO_DEVICE_ID_JOYPAD_SELECT = 2"
definition RETRO_DEVICE_ID_JOYPAD_START :: u32 where "RETRO_DEVICE_ID_JOYPAD_START = 3"
definition RETRO_DEVICE_ID_JOYPAD_UP :: u32 where "RETRO_DEVICE_ID_JOYPAD_UP = 4"
definition RETRO_DEVICE_ID_JOYPAD_DOWN :: u32 where "RETRO_DEVICE_ID_JOYPAD_DOWN = 5"
definition RETRO_DEVICE_ID_JOYPAD_LEFT :: u32 where "RETRO_DEVICE_ID_JOYPAD_LEFT = 6"
definition RETRO_DEVICE_ID_JOYPAD_RIGHT :: u32 where "RETRO_DEVICE_ID_JOYPAD_RIGHT = 7"
definition RETRO_DEVICE_ID_JOYPAD_A :: u32 where "RETRO_DEVICE_ID_JOYPAD_A = 8"
definition RETRO_DEVICE_ID_JOYPAD_L :: u32 where "RETRO_DEVICE_ID_JOYPAD_L = 10"
definition RETRO_DEVICE_ID_JOYPAD_R :: u32 where "RETRO_DEVICE_ID_JOYPAD_R = 11"
definition RETRO_DEVICE_ID_JOYPAD_L2 :: u32 where "RETRO_DEVICE_ID_JOYPAD_L2 = 12"
definition RETRO_DEVICE_INDEX_ANALOG_LEFT :: u32 where "RETRO_DEVICE_INDEX_ANALOG_LEFT = 0"
definition RETRO_DEVICE_INDEX_ANALOG_RIGHT :: u32 where "RETRO_DEVICE_INDEX_ANALOG_RIGHT = 1"
definition RETRO_DEVICE_ID_ANALOG_X :: u32 where "RETRO_DEVICE_ID_ANALOG_X = 0"
definition RETRO_DEVICE_ID_ANALOG_Y :: u32 where "RETRO_DEVICE_ID_ANALOG_Y = 1"

lemmas retro_ids =
  RETRO_DEVICE_JOYPAD_def RETRO_DEVICE_ANALOG_def RETRO_DEVICE_ID_JOYPAD_B_def
  RETRO_DEVICE_ID_JOYPAD_SELECT_def RETRO_DEVICE_ID_JOYPAD_START_def RETRO_DEVICE_ID_JOYPAD_UP_def
  RETRO_DEVICE_ID_JOYPAD_DOWN_def RETRO_DEVICE_ID_JOYPAD_LEFT_def RETRO_DEVICE_ID_JOYPAD_RIGHT_def
  RETRO_DEVICE_ID_JOYPAD_A_def RETRO_DEVICE_ID_JOYPAD_L_def RETRO_DEVICE_ID_JOYPAD_R_def
  RETRO_DEVICE_ID_JOYPAD_L2_def RETRO_DEVICE_INDEX_ANALOG_LEFT_def RETRO_DEVICE_INDEX_ANALOG_RIGHT_def
  RETRO_DEVICE_ID_ANALOG_X_def RETRO_DEVICE_ID_ANALOG_Y_def

section \<open>The shim's mapping\<close>

text \<open>The virtual-key codes the mapping reads; \<open>keys['X']\<close> and \<open>keys['Z']\<close> are indices 88 and 90.\<close>

datatype vkey = VK_UP | VK_DOWN | VK_LEFT | VK_RIGHT | VK_RETURN | VK_SHIFT

definition pad_bit :: "rp_input_state \<Rightarrow> nat \<Rightarrow> bool" where
  "pad_bit i b \<longleftrightarrow> ucast (pad_buttons i) AND push_bit b (1 :: u32) \<noteq> 0"

definition key_down :: "rp_input_state \<Rightarrow> nat \<Rightarrow> bool" where
  "key_down i k \<longleftrightarrow> keys i ! k \<noteq> 0"

definition flag16 :: "bool \<Rightarrow> 16 word" where
  "flag16 b = (if b then 1 else 0)"

definition shim_map_input ::
  "(vkey \<Rightarrow> nat) \<Rightarrow> rp_input_state \<Rightarrow> u32 \<Rightarrow> u32 \<Rightarrow> u32 \<Rightarrow> 16 word" where
  "shim_map_input vk i device index ident =
     (if device = RETRO_DEVICE_ANALOG
      then if index = RETRO_DEVICE_INDEX_ANALOG_LEFT \<or> index = RETRO_DEVICE_INDEX_ANALOG_RIGHT
           then let ax = pad_axes i ! (if index = RETRO_DEVICE_INDEX_ANALOG_LEFT then RP_AXIS_LEFT_X else RP_AXIS_RIGHT_X);
                    ay = pad_axes i ! (if index = RETRO_DEVICE_INDEX_ANALOG_LEFT then RP_AXIS_LEFT_Y else RP_AXIS_RIGHT_Y)
                in if ident = RETRO_DEVICE_ID_ANALOG_X then ax
                   else if ident = RETRO_DEVICE_ID_ANALOG_Y then - ay else 0
           else 0
      else if device \<noteq> RETRO_DEVICE_JOYPAD then 0
      else if ident = RETRO_DEVICE_ID_JOYPAD_UP then flag16 (key_down i (vk VK_UP) \<or> pad_bit i RP_PAD_DPAD_UP)
      else if ident = RETRO_DEVICE_ID_JOYPAD_DOWN then flag16 (key_down i (vk VK_DOWN) \<or> pad_bit i RP_PAD_DPAD_DOWN)
      else if ident = RETRO_DEVICE_ID_JOYPAD_LEFT then flag16 (key_down i (vk VK_LEFT) \<or> pad_bit i RP_PAD_DPAD_LEFT)
      else if ident = RETRO_DEVICE_ID_JOYPAD_RIGHT then flag16 (key_down i (vk VK_RIGHT) \<or> pad_bit i RP_PAD_DPAD_RIGHT)
      else if ident = RETRO_DEVICE_ID_JOYPAD_A then flag16 (key_down i 88 \<or> pad_bit i RP_PAD_A)
      else if ident = RETRO_DEVICE_ID_JOYPAD_B then flag16 (key_down i 90 \<or> pad_bit i RP_PAD_B)
      else if ident = RETRO_DEVICE_ID_JOYPAD_START then flag16 (key_down i (vk VK_RETURN) \<or> pad_bit i RP_PAD_START)
      else if ident = RETRO_DEVICE_ID_JOYPAD_SELECT then flag16 (key_down i (vk VK_SHIFT) \<or> pad_bit i RP_PAD_SELECT)
      else if ident = RETRO_DEVICE_ID_JOYPAD_L then flag16 (pad_bit i RP_PAD_L)
      else if ident = RETRO_DEVICE_ID_JOYPAD_R then flag16 (pad_bit i RP_PAD_R)
      else if ident = RETRO_DEVICE_ID_JOYPAD_L2 then flag16 (8192 < sint (pad_axes i ! RP_AXIS_LEFT_TRIGGER))
      else 0)"

section \<open>XInput\<close>

datatype xbutton =
    XB_A | XB_B | XB_X | XB_Y | XB_LEFT_SHOULDER | XB_RIGHT_SHOULDER | XB_BACK | XB_START
  | XB_LEFT_THUMB | XB_RIGHT_THUMB | XB_DPAD_UP | XB_DPAD_DOWN | XB_DPAD_LEFT | XB_DPAD_RIGHT

record XINPUT_GAMEPAD =
  wButtons :: u16
  bLeftTrigger :: u8
  bRightTrigger :: u8
  sThumbLX :: "16 word"
  sThumbLY :: "16 word"
  sThumbRX :: "16 word"
  sThumbRY :: "16 word"

definition xb_down :: "(xbutton \<Rightarrow> u16) \<Rightarrow> XINPUT_GAMEPAD \<Rightarrow> xbutton \<Rightarrow> bool" where
  "xb_down xm gp b \<longleftrightarrow> wButtons gp AND xm b \<noteq> 0"

text \<open>The calls of the local lambda \<open>set\<close>, in order: pad bit and button.\<close>

definition xinput_table :: "(nat \<times> xbutton) list" where
  "xinput_table =
     [(RP_PAD_A, XB_A), (RP_PAD_B, XB_B), (RP_PAD_X, XB_X), (RP_PAD_Y, XB_Y), (RP_PAD_L, XB_LEFT_SHOULDER),
      (RP_PAD_R, XB_RIGHT_SHOULDER), (RP_PAD_SELECT, XB_BACK), (RP_PAD_START, XB_START),
      (RP_PAD_L3, XB_LEFT_THUMB), (RP_PAD_R3, XB_RIGHT_THUMB), (RP_PAD_DPAD_UP, XB_DPAD_UP),
      (RP_PAD_DPAD_DOWN, XB_DPAD_DOWN), (RP_PAD_DPAD_LEFT, XB_DPAD_LEFT), (RP_PAD_DPAD_RIGHT, XB_DPAD_RIGHT)]"

definition pad_set :: "nat \<Rightarrow> bool \<Rightarrow> rp_input_state \<Rightarrow> rp_input_state" where
  "pad_set b on s = (if on then s\<lparr>pad_buttons := pad_buttons s OR ucast (push_bit b (1 :: u32))\<rparr> else s)"

definition xinput_to_pad :: "(xbutton \<Rightarrow> u16) \<Rightarrow> XINPUT_GAMEPAD \<Rightarrow> rp_input_state \<Rightarrow> rp_input_state" where
  "xinput_to_pad xm gp s =
     (let s = fold (\<lambda>(b, x). pad_set b (xb_down xm gp x)) xinput_table s
      in s\<lparr>pad_axes := (pad_axes s)
            [RP_AXIS_LEFT_X := sThumbLX gp, RP_AXIS_LEFT_Y := sThumbLY gp,
             RP_AXIS_RIGHT_X := sThumbRX gp, RP_AXIS_RIGHT_Y := sThumbRY gp,
             RP_AXIS_LEFT_TRIGGER := ucast (bLeftTrigger gp) * 128,
             RP_AXIS_RIGHT_TRIGGER := ucast (bRightTrigger gp) * 128]\<rparr>)"

lemma fold_pad_set_keeps:
  "keys (fold (\<lambda>(b, x). pad_set b (f x)) tab s) = keys s \<and>
   pad_axes (fold (\<lambda>(b, x). pad_set b (f x)) tab s) = pad_axes s"
  by (induction tab arbitrary: s) (auto simp: pad_set_def)

text \<open>A pad bit after the table: as it was, or set by the button the table gives it.\<close>

lemma bit_fold_pad_set:
  "k < 16 \<Longrightarrow> bit (pad_buttons (fold (\<lambda>(b, x). pad_set b (f x)) tab s)) k \<longleftrightarrow>
     bit (pad_buttons s) k \<or> (\<exists>x. (k, x) \<in> set tab \<and> f x)"
proof (induction tab arbitrary: s)
  case (Cons p tab)
  obtain b x where p: "p = (b, x)" by fastforce
  have "bit (pad_buttons (pad_set b (f x) s)) k \<longleftrightarrow> bit (pad_buttons s) k \<or> k = b \<and> f x"
    using Cons.prems by (simp add: pad_set_def bit_or_iff bit_ucast_iff bit_exp_iff)
  then show ?case
    using Cons p by auto
qed simp

lemma pad_bit_iff: "b < 16 \<Longrightarrow> pad_bit i b \<longleftrightarrow> bit (pad_buttons i) b"
proof -
  assume "b < 16"
  have "pad_bit i b \<longleftrightarrow> bit (ucast (pad_buttons i) :: u32) b"
    by (simp add: pad_bit_def bit_iff_and_push_bit_not_eq_0)
  with \<open>b < 16\<close> show ?thesis by (simp add: bit_ucast_iff)
qed

lemma pad_bit_xinput:
  assumes "b < 16"
  shows "pad_bit (xinput_to_pad xm gp s) b \<longleftrightarrow> pad_bit s b \<or> (\<exists>x. (b, x) \<in> set xinput_table \<and> xb_down xm gp x)"
  using bit_fold_pad_set [OF assms, of "xb_down xm gp" xinput_table s] assms
  by (simp add: pad_bit_iff xinput_to_pad_def Let_def)

text \<open>The trigger scaling stays positive, and the shim's threshold 8192 is trigger value 64.\<close>

lemma trigger_sint: "sint (ucast (t :: u8) * 128 :: 16 word) = 128 * uint t"
proof -
  have t: "uint t < 256" using uint_bounded [of t] by simp
  have "uint (ucast t * 128 :: 16 word) = 128 * uint t"
    using t by (simp add: uint_word_ariths unsigned_ucast_eq take_bit_int_eq_self)
  moreover have "signed_take_bit 15 (128 * uint t) = 128 * uint t"
    using t by (intro signed_take_bit_int_eq_self) (auto intro: order_trans [OF _ uint_ge_0])
  ultimately show ?thesis
    by (simp add: sint_uint)
qed

section \<open>From the gamepad to the core\<close>

text \<open>The joypad buttons the shim answers, with the key and the XInput button that press each.\<close>

definition shim_buttons :: "(vkey \<Rightarrow> nat) \<Rightarrow> (u32 \<times> nat \<times> xbutton) list" where
  "shim_buttons vk =
     [(RETRO_DEVICE_ID_JOYPAD_UP, vk VK_UP, XB_DPAD_UP), (RETRO_DEVICE_ID_JOYPAD_DOWN, vk VK_DOWN, XB_DPAD_DOWN),
      (RETRO_DEVICE_ID_JOYPAD_LEFT, vk VK_LEFT, XB_DPAD_LEFT), (RETRO_DEVICE_ID_JOYPAD_RIGHT, vk VK_RIGHT, XB_DPAD_RIGHT),
      (RETRO_DEVICE_ID_JOYPAD_A, 88, XB_A), (RETRO_DEVICE_ID_JOYPAD_B, 90, XB_B),
      (RETRO_DEVICE_ID_JOYPAD_START, vk VK_RETURN, XB_START), (RETRO_DEVICE_ID_JOYPAD_SELECT, vk VK_SHIFT, XB_BACK)]"

lemma flag16_eq [simp]: "flag16 b = 1 \<longleftrightarrow> b" "flag16 b = 0 \<longleftrightarrow> \<not> b"
  by (simp_all add: flag16_def)

lemma sint_min16: "sint (a :: 16 word) = - 32768 \<longleftrightarrow> a = 0x8000"
proof
  assume "sint a = - 32768"
  then have "sint a = sint (0x8000 :: 16 word)" by simp
  then show "a = 0x8000" by (rule signed_word_eqI)
qed simp

lemma neg16_sint: "sint (- a :: 16 word) = (if sint a = - 32768 then - 32768 else - sint a)"
proof (cases "sint a = - 32768")
  case True
  then show ?thesis by (simp add: sint_min16)
next
  case False
  then show ?thesis
    using sint_range_size [of a] by (simp add: word_size sint_word_ariths signed_take_bit_int_eq_self)
qed

text \<open>
  C35. A controller's buttons reach the core: polling the joypad after mapping a gamepad onto an
  otherwise released pad reports each of the shim's buttons pressed exactly when its key or its
  gamepad button is down, the shoulders when theirs are, and L2 when the left trigger is past 64.
\<close>

theorem gamepad_buttons_reach_core:
  assumes "wf_input s" and "pad_buttons s = 0"
  shows "(\<forall>(ident, k, x) \<in> set (shim_buttons vk).
       shim_map_input vk (xinput_to_pad xm gp s) RETRO_DEVICE_JOYPAD index ident = flag16 (key_down s k \<or> xb_down xm gp x)) \<and>
     shim_map_input vk (xinput_to_pad xm gp s) RETRO_DEVICE_JOYPAD index RETRO_DEVICE_ID_JOYPAD_L =
       flag16 (xb_down xm gp XB_LEFT_SHOULDER) \<and>
     shim_map_input vk (xinput_to_pad xm gp s) RETRO_DEVICE_JOYPAD index RETRO_DEVICE_ID_JOYPAD_R =
       flag16 (xb_down xm gp XB_RIGHT_SHOULDER) \<and>
     shim_map_input vk (xinput_to_pad xm gp s) RETRO_DEVICE_JOYPAD index RETRO_DEVICE_ID_JOYPAD_L2 =
       flag16 (64 < uint (bLeftTrigger gp))"
proof -
  let ?i = "xinput_to_pad xm gp s"
  have keys: "key_down ?i k = key_down s k" for k
    using fold_pad_set_keeps [of "xb_down xm gp" xinput_table s] by (simp add: key_down_def xinput_to_pad_def Let_def)
  have none: "\<not> pad_bit s b" for b
    using assms(2) by (simp add: pad_bit_def)
  have trig: "8192 < sint (pad_axes ?i ! RP_AXIS_LEFT_TRIGGER) \<longleftrightarrow> 64 < uint (bLeftTrigger gp)"
    using fold_pad_set_keeps [of "xb_down xm gp" xinput_table s] assms(1)
    by (simp add: xinput_to_pad_def Let_def pad_defs wf_input_def trigger_sint)
  show ?thesis
    using trig none
    by (simp add: shim_buttons_def shim_map_input_def retro_ids keys pad_bit_xinput xinput_table_def pad_defs)
qed

theorem gamepad_buttons_reach_core_witness:
  "shim_map_input (\<lambda>v. 38)
     (xinput_to_pad (\<lambda>b. if b = XB_RIGHT_SHOULDER then 0x200 else 0)
       \<lparr>wButtons = 0x200, bLeftTrigger = 0, bRightTrigger = 0, sThumbLX = 0, sThumbLY = 0, sThumbRX = 0, sThumbRY = 0\<rparr>
       neutral_input) RETRO_DEVICE_JOYPAD 0 RETRO_DEVICE_ID_JOYPAD_R = 1"
proof -
  have "pad_buttons neutral_input = 0" by (simp add: neutral_input_def)
  from gamepad_buttons_reach_core [OF wf_neutral_input this] show ?thesis
    by (simp add: xb_down_def)
qed

text \<open>
  C36. A controller's sticks reach the core: the horizontal axes unchanged, the vertical ones negated
  (the pad's up is positive, libretro's is negative), except that a stick held fully down, at -32768,
  is reported as -32768 again: the negation overflows and full down becomes full up.
\<close>

theorem gamepad_sticks_reach_core:
  assumes "wf_input s"
  shows "let poll = shim_map_input vk (xinput_to_pad xm gp s) RETRO_DEVICE_ANALOG in
     poll RETRO_DEVICE_INDEX_ANALOG_LEFT RETRO_DEVICE_ID_ANALOG_X = sThumbLX gp \<and>
     poll RETRO_DEVICE_INDEX_ANALOG_RIGHT RETRO_DEVICE_ID_ANALOG_X = sThumbRX gp \<and>
     sint (poll RETRO_DEVICE_INDEX_ANALOG_LEFT RETRO_DEVICE_ID_ANALOG_Y) =
       (if sint (sThumbLY gp) = - 32768 then - 32768 else - sint (sThumbLY gp)) \<and>
     sint (poll RETRO_DEVICE_INDEX_ANALOG_RIGHT RETRO_DEVICE_ID_ANALOG_Y) =
       (if sint (sThumbRY gp) = - 32768 then - 32768 else - sint (sThumbRY gp))"
proof -
  let ?s = "fold (\<lambda>(b, x). pad_set b (xb_down xm gp x)) xinput_table s"
  have "length (pad_axes ?s) = 8"
    using fold_pad_set_keeps [of "xb_down xm gp" xinput_table s] assms by (simp add: wf_input_def)
  then show ?thesis
    by (simp add: shim_map_input_def xinput_to_pad_def retro_ids pad_defs neg16_sint Let_def)
qed

theorem gamepad_sticks_reach_core_witness:
  "sint (shim_map_input (\<lambda>v. 38)
     (xinput_to_pad (\<lambda>b. 0)
       \<lparr>wButtons = 0, bLeftTrigger = 0, bRightTrigger = 0, sThumbLX = 0, sThumbLY = 0x8000, sThumbRX = 0, sThumbRY = 0\<rparr>
       neutral_input) RETRO_DEVICE_ANALOG RETRO_DEVICE_INDEX_ANALOG_LEFT RETRO_DEVICE_ID_ANALOG_Y) = - 32768"
  using gamepad_sticks_reach_core [OF wf_neutral_input] by (simp add: Let_def)

end
