(* ===== verification/RP_Shim.thy ===== *)
theory RP_Shim
  imports RP_ShimOptions RP_Pixel RP_Pad
begin

text \<open>
  The libretro shim, \<open>cores/libretro_shim/LibretroShim.cpp\<close>: a driven core of the runtime that loads an
  unmodified libretro core, serves the callbacks it makes and forwards its frames and sound.

  The wrapped core is the parameter of the model: any \<open>retro_core\<close>, whose functions are trees of
  callbacks (\<open>RP_Libretro\<close>). \<open>shim_serve\<close> answers one callback, \<open>shim_exec\<close> runs a function of the core to
  its end; the calls it makes to the host meanwhile are collected in order. Files, the loaded
  library, the graphics driver's answers and the SDK's key codes come with a record \<open>shim_env\<close>.
\<close>

section \<open>State\<close>

text \<open>Windows' wide strings. \<open>sx_short_path\<close> is the length \<open>GetShortPathNameW\<close> returns and what it wrote,
  \<open>sx_multi_byte\<close> the conversion by \<open>WideCharToMultiByte\<close>.\<close>

type_synonym wstring = "16 word list"

definition widen :: "string \<Rightarrow> wstring" where
  "widen = map (\<lambda>c. scast (of_char c :: 8 word))"

record 'k shim_env =
  sx_vk :: "vkey \<Rightarrow> nat"
  sx_module_path :: wstring
  sx_short_path :: "wstring \<Rightarrow> nat \<times> wstring"
  sx_multi_byte :: "wstring \<Rightarrow> string"
  sx_text_file :: "wstring \<Rightarrow> string option"
  sx_library :: "wstring \<Rightarrow> 'k retro_core option"
  sx_wgl_proc :: "string \<Rightarrow> 64 word"
  sx_opengl32_proc :: "string \<Rightarrow> 64 word"
  sx_file :: "string \<Rightarrow> bytes option"
  sx_gl :: gl_answers
  sx_read_pixels :: "u32 \<Rightarrow> u32 \<Rightarrow> bytes"
  sx_video_refresh_gl :: bool

record 'k Shim =
  sh_lib :: "'k retro_core"
  sh_core :: 'k
  sh_pixel_format :: u32
  sh_rgba :: bytes
  sh_rom :: bytes
  sh_sys_dir :: string
  sh_game_loaded :: bool
  sh_hw_cb :: "'k retro_hw_render_callback"
  sh_hw_requested :: bool
  sh_hw :: "HwRenderGL option"
  sh_input :: "rp_input_state list"
  sh_options :: shim_options

definition hw_cb_zero :: "'k retro_hw_render_callback" where
  "hw_cb_zero = \<lparr>hw_context_type = 0, hw_context_reset = None, hw_get_current_framebuffer = None,
     hw_get_proc_address = None, hw_depth = False, hw_stencil = False, hw_bottom_left_origin = False,
     hw_version_major = 0, hw_version_minor = 0, hw_cache_context = False, hw_context_destroy = None,
     hw_debug_context = False\<rparr>"

definition Shim_new :: "'k retro_core \<Rightarrow> 'k Shim" where
  "Shim_new lib = \<lparr>sh_lib = lib, sh_core = lr_fresh lib, sh_pixel_format = RETRO_PIXEL_FORMAT_0RGB1555,
     sh_rgba = [], sh_rom = [], sh_sys_dir = '''', sh_game_loaded = False, sh_hw_cb = hw_cb_zero,
     sh_hw_requested = False, sh_hw = None, sh_input = [neutral_input, neutral_input],
     sh_options = shim_options_new\<rparr>"

section \<open>Callbacks\<close>

text \<open>\<open>hw_get_current_framebuffer\<close>: the framebuffer the core renders into, 0 before setup.\<close>

definition hw_current_framebuffer :: "'k Shim \<Rightarrow> u32" where
  "hw_current_framebuffer s = (case sh_hw s of None \<Rightarrow> 0 | Some hr \<Rightarrow> hr_fbo hr)"

definition hw_proc_address :: "'k shim_env \<Rightarrow> string option \<Rightarrow> 64 word" where
  "hw_proc_address env name =
     (case name of None \<Rightarrow> 0
      | Some name \<Rightarrow> let p = sx_wgl_proc env name
                     in if p = 0 \<or> p = 1 \<or> p = 2 \<or> p = 3 \<or> p = - 1 then sx_opengl32_proc env name else p)"

definition env_set_hw_render ::
  "'k retro_hw_render_callback option \<Rightarrow> 'k Shim \<Rightarrow> 'k Shim \<times> bool \<times> 'k env_out" where
  "env_set_hw_render cb s =
     (case cb of None \<Rightarrow> (s, False, Out_none)
      | Some cb \<Rightarrow>
          if hw_context_type cb \<noteq> RETRO_HW_CONTEXT_OPENGL \<and> hw_context_type cb \<noteq> RETRO_HW_CONTEXT_OPENGL_CORE
          then (s, False, Out_none)
          else let cb = cb\<lparr>hw_get_current_framebuffer := Some Hw_get_current_framebuffer,
                           hw_get_proc_address := Some Hw_get_proc_address\<rparr>
               in (s\<lparr>sh_hw_cb := cb, sh_hw_requested := True\<rparr>, True, Out_hw cb))"

definition with_options :: "(shim_options \<Rightarrow> shim_options) \<Rightarrow> 'k Shim \<Rightarrow> 'k Shim" where
  "with_options f s = s\<lparr>sh_options := f (sh_options s)\<rparr>"

fun env_cb :: "'k env_cmd \<Rightarrow> 'k Shim \<Rightarrow> 'k Shim \<times> bool \<times> 'k env_out" where
  "env_cb (SET_PIXEL_FORMAT f) s = (s\<lparr>sh_pixel_format := f\<rparr>, True, Out_none)"
| "env_cb GET_CAN_DUPE s = (s, True, Out_bool True)"
| "env_cb GET_OVERSCAN s = (s, True, Out_bool False)"
| "env_cb GET_SYSTEM_DIRECTORY s = (s, True, Out_string (sh_sys_dir s))"
| "env_cb GET_SAVE_DIRECTORY s = (s, True, Out_string (sh_sys_dir s))"
| "env_cb GET_CORE_ASSETS_DIRECTORY s = (s, True, Out_string (sh_sys_dir s))"
| "env_cb (GET_VARIABLE key) s =
     (case env_get_variable key (sh_options s) of (o', found, v) \<Rightarrow> (s\<lparr>sh_options := o'\<rparr>, found, Out_value v))"
| "env_cb GET_VARIABLE_UPDATE s =
     (case env_get_variable_update (sh_options s) of (o', b) \<Rightarrow> (s\<lparr>sh_options := o'\<rparr>, True, Out_bool b))"
| "env_cb GET_CORE_OPTIONS_VERSION s = (s, True, Out_uint 2)"
| "env_cb GET_LANGUAGE s = (s, True, Out_uint RETRO_LANGUAGE_ENGLISH)"
| "env_cb GET_LOG_INTERFACE s = (s, True, Out_log)"
| "env_cb GET_INPUT_BITMASKS s = (s, False, Out_none)"
| "env_cb GET_AUDIO_VIDEO_ENABLE s = (s, True, Out_uint 3)"
| "env_cb GET_FASTFORWARDING s = (s, True, Out_bool False)"
| "env_cb (SET_VARIABLES vars) s = (with_options (harvest_legacy vars) s, True, Out_none)"
| "env_cb (SET_CORE_OPTIONS ds) s = (with_options (harvest_v1 ds) s, True, Out_none)"
| "env_cb (SET_CORE_OPTIONS_INTL i) s =
     (with_options (harvest_v1 (case i of None \<Rightarrow> None | Some i \<Rightarrow> oi_us i)) s, True, Out_none)"
| "env_cb (SET_CORE_OPTIONS_V2 v) s =
     (with_options (harvest_v2 (case v of None \<Rightarrow> None | Some v \<Rightarrow> os_definitions v)) s, True, Out_none)"
| "env_cb (SET_CORE_OPTIONS_V2_INTL v) s =
     (with_options (harvest_v2 (case v of None \<Rightarrow> None
        | Some v \<Rightarrow> (case os_us v of None \<Rightarrow> None | Some u \<Rightarrow> os_definitions u))) s, True, Out_none)"
| "env_cb SET_INPUT_DESCRIPTORS s = (s, True, Out_none)"
| "env_cb SET_CONTROLLER_INFO s = (s, True, Out_none)"
| "env_cb SET_SUPPORT_NO_GAME s = (s, True, Out_none)"
| "env_cb SET_MEMORY_MAPS s = (s, True, Out_none)"
| "env_cb SET_SUBSYSTEM_INFO s = (s, True, Out_none)"
| "env_cb SET_GEOMETRY s = (s, True, Out_none)"
| "env_cb SET_SYSTEM_AV_INFO s = (s, True, Out_none)"
| "env_cb (SET_HW_RENDER cb) s = env_set_hw_render cb s"
| "env_cb (ENV_OTHER c) s = (s, False, Out_none)"

definition video_cb ::
  "'k shim_env \<Rightarrow> lr_pixels \<Rightarrow> u32 \<Rightarrow> u32 \<Rightarrow> nat \<Rightarrow> 'k Shim \<Rightarrow> 'k Shim \<times> host_call list" where
  "video_cb env data w h pitch s =
     (case data of
        Pix_hw \<Rightarrow>
          (case sh_hw s of
             Some hr \<Rightarrow>
               if hr_zero_copy hr \<and> sx_video_refresh_gl env
               then (s, [HVideoGL (hr_color hr) w h (hw_bottom_left_origin (sh_hw_cb s))])
               else (case hw_read_frame hr (sx_read_pixels env) w h of (px, cw, ch, p) \<Rightarrow>
                       (s, [HVideo (Some px) cw ch p]))
           | None \<Rightarrow> (s, [HVideo None w h 0]))
      | Pix_null \<Rightarrow> (s, [HVideo None w h 0])
      | Pix_mem src \<Rightarrow>
          if w = 0 \<or> h = 0 then (s, [HVideo None w h 0])
          else let rgba = convert_to_rgba8 src w h (of_nat pitch) (sh_pixel_format s)
                            (replicate (unat w * unat h * 4) 0)
               in (s\<lparr>sh_rgba := rgba\<rparr>, [HVideo (Some rgba) w h (w * 4)]))"

definition input_poll_cb :: "host_view \<Rightarrow> 'k Shim \<Rightarrow> 'k Shim \<times> host_call list" where
  "input_poll_cb hv s = (s\<lparr>sh_input := [hv_input hv 0, hv_input hv 1]\<rparr>, [HInput 0, HInput 1])"

definition input_state_cb :: "'k shim_env \<Rightarrow> u32 \<Rightarrow> u32 \<Rightarrow> u32 \<Rightarrow> u32 \<Rightarrow> 'k Shim \<Rightarrow> 16 word" where
  "input_state_cb env port device index ident s =
     (if port \<noteq> 0 \<and> port \<noteq> 1 then 0
      else shim_map_input (sx_vk env) (sh_input s ! unat port) device index ident)"

definition audio_cb :: "16 word \<Rightarrow> 16 word \<Rightarrow> host_call list" where
  "audio_cb l r = [HAudio (Some [l, r]) 1]"

definition audio_batch_cb :: "16 word list option \<Rightarrow> nat \<Rightarrow> host_call list \<times> nat" where
  "audio_batch_cb data frames =
     (if data \<noteq> None \<and> frames \<noteq> 0 then [HAudio data frames] else [], frames)"

fun shim_serve ::
  "'k shim_env \<Rightarrow> host_view \<Rightarrow> 'k lr_call \<Rightarrow> 'k Shim \<Rightarrow> 'k Shim \<times> 'k lr_answer \<times> host_call list" where
  "shim_serve env hv (Lr_env cmd) s = (case env_cb cmd s of (s, r, out) \<Rightarrow> (s, Ans_env r out, []))"
| "shim_serve env hv (Lr_video data w h pitch) s =
     (case video_cb env data w h pitch s of (s, hcs) \<Rightarrow> (s, Ans_unit, hcs))"
| "shim_serve env hv Lr_input_poll s = (case input_poll_cb hv s of (s, hcs) \<Rightarrow> (s, Ans_unit, hcs))"
| "shim_serve env hv (Lr_input_state port device index ident) s =
     (s, Ans_input (input_state_cb env port device index ident s), [])"
| "shim_serve env hv (Lr_audio l r) s = (s, Ans_unit, audio_cb l r)"
| "shim_serve env hv (Lr_audio_batch data frames) s =
     (case audio_batch_cb data frames of (hcs, n) \<Rightarrow> (s, Ans_frames n, hcs))"

primrec shim_exec ::
  "'k shim_env \<Rightarrow> host_view \<Rightarrow> ('k, 'r) lr \<Rightarrow> 'k Shim \<Rightarrow> 'k Shim \<times> host_call list \<times> 'r" where
  "shim_exec env hv (Ret r) = (\<lambda>s. (s, [], r))"
| "shim_exec env hv (Call c k) =
     (\<lambda>s. case shim_serve env hv c s of (s, a, hcs) \<Rightarrow>
        (case (shim_exec env hv \<circ> k) a s of (s, hcs', r) \<Rightarrow> (s, hcs @ hcs', r)))"

text \<open>Running a function of the core that returns its new state.\<close>

definition core_call ::
  "'k shim_env \<Rightarrow> host_view \<Rightarrow> ('k \<Rightarrow> ('k, 'k) lr) option \<Rightarrow> 'k Shim \<Rightarrow> 'k Shim \<times> host_call list" where
  "core_call env hv f s =
     (case f of None \<Rightarrow> (s, [])
      | Some f \<Rightarrow> (case shim_exec env hv (f (sh_core s)) s of (s, hcs, k) \<Rightarrow> (s\<lparr>sh_core := k\<rparr>, hcs)))"

section \<open>Locating the core\<close>

definition is_separator :: "16 word \<Rightarrow> bool" where
  "is_separator c \<longleftrightarrow> c = 0x5C \<or> c = 0x2F"

definition shim_dir :: "'k shim_env \<Rightarrow> wstring" where
  "shim_dir env =
     (let s = sx_module_path env
      in if list_ex is_separator s then rev (tl (dropWhile (\<lambda>c. \<not> is_separator c) (rev s))) else s)"

definition to_ansi :: "'k shim_env \<Rightarrow> wstring \<Rightarrow> string" where
  "to_ansi env w = (if w = [] then [] else sx_multi_byte env w)"

definition MAX_PATH :: nat where "MAX_PATH = 260"

definition ansi_safe_dir :: "'k shim_env \<Rightarrow> wstring \<Rightarrow> string" where
  "ansi_safe_dir env dir =
     (case sx_short_path env dir of (n, shortp) \<Rightarrow>
        if 0 < n \<and> n < MAX_PATH then to_ansi env (take n shortp) else to_ansi env dir)"

fun after_sub :: "string \<Rightarrow> string \<Rightarrow> string option" where
  "after_sub p s =
     (if take (length p) s = p then Some (drop (length p) s)
      else case s of [] \<Rightarrow> None | c # t \<Rightarrow> after_sub p t)"

declare after_sub.simps [simp del]

definition core_dll_name :: "'k shim_env \<Rightarrow> wstring \<Rightarrow> wstring" where
  "core_dll_name env dir =
     (let fallback = widen ''fceumm_libretro.dll''
      in case sx_text_file env (dir @ widen (CHR 0x5C # ''core.json'')) of None \<Rightarrow> fallback
         | Some text \<Rightarrow>
             (case after_sub (quote_char # ''libretro_core'' @ [quote_char]) text of None \<Rightarrow> fallback
              | Some t \<Rightarrow>
                  (case after_sub '':'' t of None \<Rightarrow> fallback
                   | Some t \<Rightarrow>
                       (case after_sub [quote_char] t of None \<Rightarrow> fallback
                        | Some t \<Rightarrow>
                            if quote_char \<notin> set t then fallback
                            else let name = takeWhile (\<lambda>c. c \<noteq> quote_char) t
                                 in if name = [] then fallback else widen name))))"

section \<open>The core ABI\<close>

definition sh_info :: rp_core_info where
  "sh_info = \<lparr>ci_abi_version = RETROPARK_ABI_VERSION, ci_type = 1, ci_graphics_api = 2,
              ci_id = ''libretro_shim''\<rparr>"

definition lib_accepted :: "'k retro_core \<Rightarrow> bool" where
  "lib_accepted lib \<longleftrightarrow>
     lr_api_version lib = Some RETRO_API_VERSION \<and> lr_run lib \<noteq> None \<and> lr_load_game lib \<noteq> None \<and>
     lr_set_environment lib \<noteq> None \<and> lr_set_video_refresh lib \<and> lr_init lib \<noteq> None \<and>
     lr_get_system_info lib \<noteq> None \<and> lr_get_system_av_info lib \<noteq> None"

text \<open>\<open>Crashed\<close>: a call through a function pointer that was never checked and is null.\<close>

datatype 'k sh_created = Created "'k Shim" "host_call list" | Refused | Crashed

definition sh_create :: "'k shim_env \<Rightarrow> host_view \<Rightarrow> 'k sh_created" where
  "sh_create env hv =
     (case sx_library env (shim_dir env @ [0x5C] @ core_dll_name env (shim_dir env)) of
        None \<Rightarrow> Refused
      | Some lib \<Rightarrow>
          if \<not> lib_accepted lib then Refused
          else case core_call env hv (lr_set_environment lib) ((Shim_new lib)\<lparr>sh_sys_dir := ansi_safe_dir env (shim_dir env)\<rparr>) of
                 (s, hcs) \<Rightarrow>
                   if \<not> (lr_set_input_poll lib \<and> lr_set_input_state lib \<and> lr_set_audio_sample lib \<and>
                          lr_set_audio_sample_batch lib)
                   then Crashed
                   else case core_call env hv (lr_init lib) s of (s, hcs') \<Rightarrow> Created s (hcs @ hcs'))"

definition sh_get_av_info :: "'k Shim \<Rightarrow> rp_av_info" where
  "sh_get_av_info s =
     (let av = (the (lr_get_system_av_info (sh_lib s))) (sh_core s)
      in \<lparr>av_fps = st_fps (sa_timing av), av_sample_rate = st_sample_rate (sa_timing av),
          base_width = gg_base_width (sa_geometry av), base_height = gg_base_height (sa_geometry av),
          max_width = gg_max_width (sa_geometry av), max_height = gg_max_height (sa_geometry av),
          pixel_format = RP_FMT_R8G8B8A8_UNORM\<rparr>)"

definition at_least :: "u32 \<Rightarrow> u32 \<Rightarrow> u32" where
  "at_least m b = (if b < m then m else b)"

text \<open>The framebuffer and \<open>context_reset\<close> of a core that asked for hardware rendering.\<close>

definition sh_start_hw ::
  "'k shim_env \<Rightarrow> host_view \<Rightarrow> 'k Shim \<Rightarrow> 'k Shim \<times> rp_result \<times> host_call list" where
  "sh_start_hw env hv s =
     (let av = sh_get_av_info s; cb = sh_hw_cb s
      in case hw_setup (sx_gl env) (hw_depth cb) (hw_stencil cb) (hw_bottom_left_origin cb)
                (at_least (max_width av) (base_width av)) (at_least (max_height av) (base_height av))
                (hw_version_major cb) (hw_version_minor cb) (hv_gl_context hv) of (hr, ok) \<Rightarrow>
           let s = s\<lparr>sh_hw := Some hr\<rparr>
           in if \<not> ok
              then (case core_call env hv (lr_unload_game (sh_lib s)) s of (s, hcs) \<Rightarrow>
                      (s\<lparr>sh_hw := None, sh_game_loaded := False\<rparr>, RP_ERR_DEVICE, hcs))
              else (case hw_context_reset (sh_hw_cb s) of None \<Rightarrow> s
                    | Some f \<Rightarrow> s\<lparr>sh_core := f (sh_core s)\<rparr>, RP_OK, []))"

definition sh_load_content ::
  "'k shim_env \<Rightarrow> host_view \<Rightarrow> string option \<Rightarrow> 'k Shim \<Rightarrow> 'k Shim \<times> rp_result \<times> host_call list" where
  "sh_load_content env hv path s =
     (if path = None \<or> path = Some '''' then (s, RP_ERR_BAD_ARG, [])
      else case sx_file env (the path) of
        None \<Rightarrow> (s, RP_ERR_NOT_FOUND, [])
      | Some rom \<Rightarrow>
          let s = s\<lparr>sh_rom := rom\<rparr>;
              full = si_need_fullpath ((the (lr_get_system_info (sh_lib s))) (sh_core s));
              gi = \<lparr>gi_path = path, gi_data = (if full then None else Some rom),
                    gi_size = (if full then 0 else length rom), gi_meta = None\<rparr>
          in case shim_exec env hv ((the (lr_load_game (sh_lib s))) (sh_core s) gi) s of (s, hcs, k, ok) \<Rightarrow>
               let s = s\<lparr>sh_core := k\<rparr>
               in if \<not> ok then (s, RP_ERR_UNSUPPORTED, hcs)
                  else let s = s\<lparr>sh_game_loaded := True\<rparr>
                       in if sh_hw_requested s
                          then (case sh_start_hw env hv s of (s, r, hcs') \<Rightarrow> (s, r, hcs @ hcs'))
                          else (s, RP_OK, hcs))"

definition sh_run_frame :: "'k shim_env \<Rightarrow> 'k Shim \<Rightarrow> host_view \<Rightarrow> 'k Shim \<times> host_call list" where
  "sh_run_frame env s hv = (if sh_game_loaded s then core_call env hv (lr_run (sh_lib s)) s else (s, []))"

definition sh_serialize_size :: "'k Shim \<Rightarrow> nat" where
  "sh_serialize_size s = (case lr_serialize_size (sh_lib s) of None \<Rightarrow> 0 | Some f \<Rightarrow> f (sh_core s))"

definition sh_serialize :: "'k Shim \<Rightarrow> bytes \<Rightarrow> rp_result \<times> bytes" where
  "sh_serialize s buf =
     (case lr_serialize (sh_lib s) of None \<Rightarrow> (RP_ERR_UNSUPPORTED, buf)
      | Some f \<Rightarrow> (case f (sh_core s) buf of (ok, out) \<Rightarrow> (if ok then RP_OK else RP_ERR_UNSUPPORTED, out)))"

definition sh_unserialize :: "'k Shim \<Rightarrow> bytes \<Rightarrow> 'k Shim \<times> rp_result" where
  "sh_unserialize s buf =
     (case lr_unserialize (sh_lib s) of None \<Rightarrow> (s, RP_ERR_UNSUPPORTED)
      | Some f \<Rightarrow> (case f (sh_core s) buf of (k, ok) \<Rightarrow>
                    (s\<lparr>sh_core := k\<rparr>, if ok then RP_OK else RP_ERR_UNSUPPORTED)))"

text \<open>Teardown: \<open>context_destroy\<close>, then \<open>retro_unload_game\<close>, then \<open>retro_deinit\<close>.\<close>

definition sh_destroy :: "'k shim_env \<Rightarrow> host_view \<Rightarrow> 'k Shim \<Rightarrow> 'k Shim \<times> host_call list" where
  "sh_destroy env hv s =
     (let s = (if sh_hw s = None then s
               else case hw_context_destroy (sh_hw_cb s) of None \<Rightarrow> s | Some f \<Rightarrow> s\<lparr>sh_core := f (sh_core s)\<rparr>)
      in case (if sh_game_loaded s then core_call env hv (lr_unload_game (sh_lib s)) s else (s, [])) of (s, hcs) \<Rightarrow>
           (case core_call env hv (lr_deinit (sh_lib s)) s of (s, hcs') \<Rightarrow> (s, hcs @ hcs')))"

text \<open>The exported table. Calls to the host made while a core is created or loads content are not
  part of the runtime's model of these functions and are left out of it.\<close>

definition shim_abi :: "'k shim_env \<Rightarrow> 'k Shim rp_core_abi" where
  "shim_abi env = \<lparr>ca_abi_version = RETROPARK_ABI_VERSION, ca_get_info = Some sh_info,
     ca_create = Some (\<lambda>hv. case sh_create env hv of Created s hcs \<Rightarrow> Some s | _ \<Rightarrow> None),
     ca_has_destroy = True, ca_set_surfaces = None, ca_start = None, ca_stop = None,
     ca_get_av_info = Some sh_get_av_info, ca_run_frame = Some (sh_run_frame env),
     ca_serialize_size = Some sh_serialize_size, ca_serialize = Some sh_serialize,
     ca_unserialize = Some sh_unserialize,
     ca_load_content = Some (\<lambda>s hv path. case sh_load_content env hv (Some path) s of (s, r, hcs) \<Rightarrow> (s, r)),
     ca_core_options_json = Some (\<lambda>s. case sh_core_options_json (sh_options s) of (o', j) \<Rightarrow>
        (s\<lparr>sh_options := o'\<rparr>, Some j)),
     ca_core_option_get = Some (\<lambda>s key. case sh_core_option_get key (sh_options s) of (o', v) \<Rightarrow>
        (s\<lparr>sh_options := o'\<rparr>, v)),
     ca_core_option_set = Some (\<lambda>s key v. case sh_core_option_set key v (sh_options s) of (o', r) \<Rightarrow>
        (s\<lparr>sh_options := o'\<rparr>, r))\<rparr>"

section \<open>What every core leaves intact\<close>

text \<open>The invariant of an instance, and well-formed calls to the host: a frame's buffer has exactly
  the size its dimensions say, with tightly packed rows.\<close>

definition shim_ok :: "'k Shim \<Rightarrow> bool" where
  "shim_ok s \<longleftrightarrow> lib_accepted (sh_lib s) \<and> options_ok (sh_options s) \<and> length (sh_input s) = 2 \<and>
     (sh_hw s \<noteq> None \<longrightarrow> sh_game_loaded s \<and> sh_hw_requested s)"

fun frame_ok :: "host_call \<Rightarrow> bool" where
  "frame_ok (HVideo (Some d) w h p) \<longleftrightarrow> length d = unat w * unat h * 4 \<and> p = w * 4"
| "frame_ok (HVideo None w h p) \<longleftrightarrow> p = 0"
| "frame_ok (HAudio d n) \<longleftrightarrow> d \<noteq> None \<and> n \<noteq> 0"
| "frame_ok hc \<longleftrightarrow> True"

text \<open>What callbacks cannot change.\<close>

definition shim_fixed :: "'k Shim \<Rightarrow> _" where
  "shim_fixed s = (sh_lib s, sh_game_loaded s, sh_hw s, sh_core s)"

lemma length_convert_to_rgba8:
  "length dst = unat w * unat h * 4 \<Longrightarrow> length (convert_to_rgba8 src w h pitch fmt dst) = unat w * unat h * 4"
proof -
  assume dst: "length dst = unat w * unat h * 4"
  let ?row = "\<lambda>y. concat (map (convert_pixel fmt src (y * unat pitch)) [0..<unat w])"
  have "length (?row y) = unat w * 4" for y
    by (subst length_concat_const [of _ _ 4]) simp_all
  then have "length (concat (map ?row [0..<unat h])) = unat h * (unat w * 4)"
    by (subst length_concat_const [of _ _ "unat w * 4"]) simp_all
  with dst show ?thesis by (simp add: convert_to_rgba8_def Let_def ac_simps)
qed

lemma video_cb_ok:
  assumes "video_cb env data w h pitch s = (s', hcs)"
  shows "shim_ok s' = shim_ok s" "shim_fixed s' = shim_fixed s" "\<forall>hc \<in> set hcs. frame_ok hc"
proof -
  have eq: "s' = s \<or> (\<exists>d. s' = s\<lparr>sh_rgba := d\<rparr>)"
    using assms by (auto simp: video_cb_def Let_def split: lr_pixels.splits option.splits if_splits prod.splits)
  then show "shim_ok s' = shim_ok s" "shim_fixed s' = shim_fixed s"
    by (auto simp: shim_ok_def shim_fixed_def)
  show "\<forall>hc \<in> set hcs. frame_ok hc"
    using assms hw_read_frame_fields(3,4)
    by (auto simp: video_cb_def Let_def length_convert_to_rgba8
        split: lr_pixels.splits option.splits if_splits prod.splits)
qed

lemma fold_add_option_ok:
  "options_ok o' \<Longrightarrow> options_ok (fold (\<lambda>d. shim_add_option (f d)) ds o')"
  by (induction ds arbitrary: o') (auto intro: shim_add_option_ok)

lemma harvest_ok:
  assumes "options_ok o'"
  shows "options_ok (harvest_legacy vars o')" "options_ok (harvest_v1 ds o')" "options_ok (harvest_v2 ds2 o')"
  using assms fold_add_option_ok
  by (auto simp: harvest_legacy_def harvest_v1_def harvest_v2_def split: option.splits)

lemma env_get_variable_ok: "options_ok o' \<Longrightarrow> options_ok (fst (env_get_variable key o'))"
  using impl_step_refines [of o' "Op_core_reads key"] by (simp add: split_beta)

lemma env_get_variable_update_ok: "options_ok o' \<Longrightarrow> options_ok (fst (env_get_variable_update o'))"
  using impl_step_refines [of o' Op_core_polls] by (simp add: split_beta)

lemma env_cb_ok:
  assumes "shim_ok s" "env_cb cmd s = (s', r, out)"
  shows "shim_ok s' \<and> shim_fixed s' = shim_fixed s"
proof -
  have ok: "options_ok (sh_options s)"
    using assms(1) by (simp add: shim_ok_def)
  show ?thesis
  proof (cases cmd)
    case (GET_VARIABLE key)
    with assms env_get_variable_ok [OF ok, of key] show ?thesis
      by (auto simp: shim_ok_def shim_fixed_def split: prod.splits)
  next
    case GET_VARIABLE_UPDATE
    with assms env_get_variable_update_ok [OF ok] show ?thesis
      by (auto simp: shim_ok_def shim_fixed_def split: prod.splits)
  next
    case (SET_HW_RENDER cb)
    with assms show ?thesis
      by (auto simp: shim_ok_def shim_fixed_def env_set_hw_render_def Let_def split: option.splits if_splits)
  qed (use assms harvest_ok [OF ok] in \<open>auto simp: shim_ok_def shim_fixed_def with_options_def\<close>)
qed

lemma shim_serve_ok:
  assumes "shim_ok s" "shim_serve env hv c s = (s', a, hcs)"
  shows "shim_ok s' \<and> shim_fixed s' = shim_fixed s \<and> (\<forall>hc \<in> set hcs. frame_ok hc)"
proof (cases c)
  case (Lr_env cmd)
  with assms env_cb_ok [OF assms(1), of cmd] show ?thesis
    by (auto split: prod.splits)
next
  case (Lr_video data w h pitch)
  with assms video_cb_ok [of env data w h pitch s] show ?thesis
    by (auto split: prod.splits)
next
  case Lr_input_poll
  with assms show ?thesis by (auto simp: input_poll_cb_def shim_ok_def shim_fixed_def)
next
  case (Lr_audio_batch data frames)
  with assms show ?thesis by (auto simp: audio_batch_cb_def split: if_splits)
qed (use assms in \<open>auto simp: audio_cb_def\<close>)

lemma shim_exec_ok:
  "shim_ok s \<Longrightarrow> shim_exec env hv p s = (s', hcs, r) \<Longrightarrow>
     shim_ok s' \<and> shim_fixed s' = shim_fixed s \<and> (\<forall>hc \<in> set hcs. frame_ok hc)"
proof (induction p arbitrary: s hcs)
  case (Call c k)
  obtain s1 a h1 where s1: "shim_serve env hv c s = (s1, a, h1)"
    by (metis prod_cases3)
  obtain h2 where s2: "shim_exec env hv (k a) s1 = (s', h2, r)" "hcs = h1 @ h2"
    using Call.prems(2) s1 by (auto split: prod.splits)
  from shim_serve_ok [OF Call.prems(1) s1] Call.IH [OF _ _ s2(1)] s2(2) show ?case
    by auto
qed simp

lemma core_call_ok:
  assumes "shim_ok s" "core_call env hv f s = (s', hcs)"
  shows "shim_ok s' \<and> sh_lib s' = sh_lib s \<and> sh_game_loaded s' = sh_game_loaded s \<and> sh_hw s' = sh_hw s \<and>
     (\<forall>hc \<in> set hcs. frame_ok hc)"
proof (cases f)
  case (Some g)
  obtain s1 k where ex: "shim_exec env hv (g (sh_core s)) s = (s1, hcs, k)" "s' = s1\<lparr>sh_core := k\<rparr>"
    using assms(2) Some by (auto simp: core_call_def split: prod.splits)
  from shim_exec_ok [OF assms(1) ex(1)] ex(2) show ?thesis
    by (auto simp: shim_ok_def shim_fixed_def)
qed (use assms in \<open>auto simp: core_call_def\<close>)

section \<open>Every instance the runtime can hold\<close>

text \<open>An instance lives from a successful create through any sequence of calls of the table; the host
  may answer differently in every call.\<close>

inductive shim_reachable :: "'k shim_env \<Rightarrow> 'k Shim \<Rightarrow> bool" for env where
  created: "sh_create env hv = Created s hcs \<Longrightarrow> shim_reachable env s"
| loaded: "shim_reachable env s \<Longrightarrow> sh_load_content env hv path s = (s', r, hcs) \<Longrightarrow> shim_reachable env s'"
| ran: "shim_reachable env s \<Longrightarrow> sh_run_frame env s hv = (s', hcs) \<Longrightarrow> shim_reachable env s'"
| restored: "shim_reachable env s \<Longrightarrow> sh_unserialize s buf = (s', r) \<Longrightarrow> shim_reachable env s'"
| listed: "shim_reachable env s \<Longrightarrow> sh_core_options_json (sh_options s) = (o', j) \<Longrightarrow>
    shim_reachable env (s\<lparr>sh_options := o'\<rparr>)"
| got: "shim_reachable env s \<Longrightarrow> sh_core_option_get key (sh_options s) = (o', v) \<Longrightarrow>
    shim_reachable env (s\<lparr>sh_options := o'\<rparr>)"
| put: "shim_reachable env s \<Longrightarrow> sh_core_option_set key v (sh_options s) = (o', res) \<Longrightarrow>
    shim_reachable env (s\<lparr>sh_options := o'\<rparr>)"

lemma Shim_new_ok: "lib_accepted lib \<Longrightarrow> shim_ok ((Shim_new lib)\<lparr>sh_sys_dir := d\<rparr>)"
  by (simp add: shim_ok_def Shim_new_def options_ok_new)

lemma sh_create_ok:
  assumes "sh_create env hv = Created s hcs"
  shows "shim_ok s \<and> \<not> sh_game_loaded s \<and> sh_hw s = None \<and> (\<forall>hc \<in> set hcs. frame_ok hc)"
proof -
  let ?lib = "the (sx_library env (shim_dir env @ [0x5C] @ core_dll_name env (shim_dir env)))"
  let ?s0 = "(Shim_new ?lib)\<lparr>sh_sys_dir := ansi_safe_dir env (shim_dir env)\<rparr>"
  obtain s1 h1 h2 where
      lib: "lib_accepted ?lib" and
      env: "core_call env hv (lr_set_environment ?lib) ?s0 = (s1, h1)" and
      ini: "core_call env hv (lr_init ?lib) s1 = (s, h2)" and hcs: "hcs = h1 @ h2"
    using assms by (auto simp: sh_create_def split: option.splits if_splits prod.splits)
  have new: "\<not> sh_game_loaded ?s0" "sh_hw ?s0 = None"
    by (simp_all add: Shim_new_def)
  from core_call_ok [OF Shim_new_ok [OF lib] env] new
  have s1: "shim_ok s1" "\<not> sh_game_loaded s1" "sh_hw s1 = None" "\<forall>hc \<in> set h1. frame_ok hc"
    by auto
  from core_call_ok [OF s1(1) ini] s1 hcs show ?thesis by auto
qed

lemma sh_start_hw_ok:
  assumes "shim_ok s" "sh_game_loaded s" "sh_hw_requested s" "sh_start_hw env hv s = (s', r, hcs)"
  shows "shim_ok s' \<and> (\<forall>hc \<in> set hcs. frame_ok hc) \<and>
     (r = RP_OK \<and> sh_game_loaded s' \<and> sh_hw s' \<noteq> None \<or>
      r = RP_ERR_DEVICE \<and> \<not> sh_game_loaded s' \<and> sh_hw s' = None)"
proof -
  obtain hr ok where hw: "hw_setup (sx_gl env) (hw_depth (sh_hw_cb s)) (hw_stencil (sh_hw_cb s))
      (hw_bottom_left_origin (sh_hw_cb s))
      (at_least (max_width (sh_get_av_info s)) (base_width (sh_get_av_info s)))
      (at_least (max_height (sh_get_av_info s)) (base_height (sh_get_av_info s)))
      (hw_version_major (sh_hw_cb s)) (hw_version_minor (sh_hw_cb s)) (hv_gl_context hv) = (hr, ok)"
    by (meson surj_pair)
  have on: "shim_ok (s\<lparr>sh_hw := Some hr\<rparr>)"
    using assms(1-3) by (simp add: shim_ok_def)
  show ?thesis
  proof (cases ok)
    case True
    with assms(2,4) hw on show ?thesis
      by (auto simp: sh_start_hw_def Let_def shim_ok_def split: option.splits)
  next
    case False
    then obtain s1 where s1: "core_call env hv (lr_unload_game (sh_lib s)) (s\<lparr>sh_hw := Some hr\<rparr>) = (s1, hcs)"
        and s': "s' = s1\<lparr>sh_hw := None, sh_game_loaded := False\<rparr>" "r = RP_ERR_DEVICE"
      using assms(4) hw by (auto simp: sh_start_hw_def Let_def split: prod.splits)
    from core_call_ok [OF on s1] s' show ?thesis by (auto simp: shim_ok_def)
  qed
qed

lemma sh_load_content_cases:
  assumes "shim_ok s" "sh_load_content env hv path s = (s', r, hcs)"
  shows "shim_ok s' \<and> (\<forall>hc \<in> set hcs. frame_ok hc) \<and>
     (r = RP_OK \<and> sh_game_loaded s' \<and> (sh_hw_requested s' \<longrightarrow> sh_hw s' \<noteq> None) \<or>
      r = RP_ERR_DEVICE \<and> \<not> sh_game_loaded s' \<and> sh_hw s' = None \<or>
      r \<in> {RP_ERR_BAD_ARG, RP_ERR_NOT_FOUND} \<and> s' = s \<and> hcs = [] \<or>
      r = RP_ERR_UNSUPPORTED \<and> sh_game_loaded s' = sh_game_loaded s \<and> sh_hw s' = sh_hw s)"
proof (cases "path = None \<or> path = Some '''' \<or> sx_file env (the path) = None")
  case True
  with assms show ?thesis by (simp add: sh_load_content_def split: if_splits) auto
next
  case False
  then obtain rom where rom: "sx_file env (the path) = Some rom" "path \<noteq> None" "path \<noteq> Some ''''"
    by auto
  let ?s = "s\<lparr>sh_rom := rom\<rparr>"
  let ?full = "si_need_fullpath ((the (lr_get_system_info (sh_lib s))) (sh_core s))"
  let ?gi = "\<lparr>gi_path = path, gi_data = (if ?full then None else Some rom),
     gi_size = (if ?full then 0 else length rom), gi_meta = None\<rparr>"
  obtain s1 h1 k ok where ex: "shim_exec env hv ((the (lr_load_game (sh_lib s))) (sh_core s) ?gi) ?s = (s1, h1, k, ok)"
    by (metis surj_pair)
  have "shim_ok ?s" using assms(1) by (simp add: shim_ok_def)
  from shim_exec_ok [OF this ex]
  have s1: "shim_ok s1" "sh_game_loaded s1 = sh_game_loaded s" "sh_hw s1 = sh_hw s" "\<forall>hc \<in> set h1. frame_ok hc"
    by (auto simp: shim_fixed_def)
  let ?s2 = "s1\<lparr>sh_core := k, sh_game_loaded := True\<rparr>"
  have s2: "shim_ok ?s2" using s1(1) by (auto simp: shim_ok_def)
  show ?thesis
  proof (cases "ok \<and> sh_hw_requested s1")
    case True
    then obtain h2 where hw: "sh_start_hw env hv ?s2 = (s', r, h2)" "hcs = h1 @ h2"
      using assms(2) rom ex by (auto simp: sh_load_content_def Let_def split: prod.splits)
    from sh_start_hw_ok [OF s2 _ _ hw(1)] True hw(2) s1(4) show ?thesis by auto
  next
    case False
    with assms(2) rom ex s1 show ?thesis
      by (auto simp: sh_load_content_def Let_def shim_ok_def split: if_splits)
  qed
qed

lemma sh_run_frame_ok:
  "shim_ok s \<Longrightarrow> sh_run_frame env s hv = (s', hcs) \<Longrightarrow> shim_ok s' \<and> (\<forall>hc \<in> set hcs. frame_ok hc)"
  using core_call_ok [of s env hv "lr_run (sh_lib s)" s' hcs]
  by (auto simp: sh_run_frame_def split: if_splits)

lemma options_calls_ok:
  assumes "options_ok o'"
  shows "sh_core_options_json o' = (o2, j) \<Longrightarrow> options_ok o2"
    and "sh_core_option_get key o' = (o2, v) \<Longrightarrow> options_ok o2"
    and "sh_core_option_set key v2 o' = (o2, res) \<Longrightarrow> options_ok o2"
proof -
  show "sh_core_options_json o' = (o2, j) \<Longrightarrow> options_ok o2"
  proof -
    assume "sh_core_options_json o' = (o2, j)"
    then have "o2 = o'\<lparr>op_json_cache := j\<rparr>" by (auto simp: sh_core_options_json_def Let_def)
    with assms show ?thesis by (simp add: options_ok_def)
  qed
  show "sh_core_option_get key o' = (o2, v) \<Longrightarrow> options_ok o2"
    using impl_step_refines [OF assms, of "Op_get key"] by simp
  show "sh_core_option_set key v2 o' = (o2, res) \<Longrightarrow> options_ok o2"
    using impl_step_refines [OF assms, of "Op_set key v2"] by simp
qed

lemma shim_reachable_ok: "shim_reachable env s \<Longrightarrow> shim_ok s"
proof (induction rule: shim_reachable.induct)
  case (restored s buf s' r)
  then show ?case by (auto simp: sh_unserialize_def shim_ok_def split: option.splits prod.splits)
next
  case (listed s o' j)
  then show ?case using options_calls_ok(1) by (auto simp: shim_ok_def)
next
  case (got s key o' v)
  then show ?case using options_calls_ok(2) by (auto simp: shim_ok_def)
next
  case (put s key v o' res)
  then show ?case using options_calls_ok(3) by (auto simp: shim_ok_def)
qed (use sh_create_ok sh_load_content_cases sh_run_frame_ok in blast)+

text \<open>
  C15. Whatever libretro core is wrapped and whatever calls it makes, in every state the shim can reach
  its options are consistent, two input snapshots are held, a hardware renderer exists only for a loaded
  game that asked for one; and every frame a run submits comes with a buffer of exactly
  \<open>width * height * 4\<close> bytes and tightly packed rows, every sound with samples and a non-zero count.
\<close>

theorem shim_keeps_invariant:
  assumes "shim_reachable env s" "sh_run_frame env s hv = (s', hcs)"
  shows "shim_ok s \<and> shim_ok s' \<and> list_all frame_ok hcs"
  using shim_reachable_ok [OF assms(1)] sh_run_frame_ok [OF shim_reachable_ok [OF assms(1)] assms(2)]
  by (auto simp: list_all_iff)

text \<open>A small core for the witnesses: it counts frames, asks for OpenGL when told to, and shows a
  two-pixel picture.\<close>

definition still_run :: "nat \<Rightarrow> (nat, nat) lr" where
  "still_run n = Call Lr_input_poll (\<lambda>a. Call (Lr_video (Pix_mem [0x34, 0x12, 0x78, 0x56]) 2 1 4) (\<lambda>a. Ret (Suc n)))"

definition gl_request :: "nat retro_hw_render_callback" where
  "gl_request = hw_cb_zero\<lparr>hw_context_type := RETRO_HW_CONTEXT_OPENGL\<rparr>"

definition still_core :: "bool \<Rightarrow> nat retro_core" where
  "still_core gl = \<lparr>lr_fresh = 0, lr_api_version = Some 1, lr_init = Some (\<lambda>n. Ret n), lr_deinit = None,
     lr_get_system_info = Some (\<lambda>n. \<lparr>si_library_name = ''still'', si_library_version = '''',
       si_valid_extensions = '''', si_need_fullpath = False, si_block_extract = False\<rparr>),
     lr_get_system_av_info = Some (\<lambda>n. \<lparr>sa_geometry = \<lparr>gg_base_width = 2, gg_base_height = 1, gg_max_width = 2,
       gg_max_height = 1, gg_aspect_ratio = 0\<rparr>, sa_timing = \<lparr>st_fps = 60, st_sample_rate = 48000\<rparr>\<rparr>),
     lr_set_environment = Some (\<lambda>n. if gl then Call (Lr_env (SET_HW_RENDER (Some gl_request))) (\<lambda>a. Ret n) else Ret n),
     lr_set_video_refresh = True, lr_set_audio_sample = True, lr_set_audio_sample_batch = True,
     lr_set_input_poll = True, lr_set_input_state = True, lr_load_game = Some (\<lambda>n g. Ret (n, True)),
     lr_unload_game = None, lr_run = Some still_run, lr_serialize_size = None, lr_serialize = None,
     lr_unserialize = None\<rparr>"

definition still_env :: "bool \<Rightarrow> nat shim_env" where
  "still_env gl = \<lparr>sx_vk = (\<lambda>k. 0), sx_module_path = widen ''d/shim.dll'',
     sx_short_path = (\<lambda>w. (0, [])), sx_multi_byte = (\<lambda>w. ''d''), sx_text_file = (\<lambda>p. None),
     sx_library = (\<lambda>p. Some (still_core gl)), sx_wgl_proc = (\<lambda>p. 0), sx_opengl32_proc = (\<lambda>p. 0), sx_file = (\<lambda>p. if p = ''rom'' then Some [1] else None),
     sx_gl = \<lparr>ga_initialize = (\<lambda>w h major minor share. False), ga_make_current = True, ga_fbo = 1, ga_color = 2,
       ga_complete = True\<rparr>,
     sx_read_pixels = (\<lambda>w h. []), sx_video_refresh_gl = False\<rparr>"

definition still_view :: host_view where
  "still_view = \<lparr>hv_input = (\<lambda>p. neutral_input), hv_gl_context = None\<rparr>"

lemma still_accepted: "lib_accepted (still_core gl)"
  by (simp add: lib_accepted_def still_core_def RETRO_API_VERSION_def)

definition still_created :: "bool \<Rightarrow> nat Shim" where
  "still_created gl = (if gl then (Shim_new (still_core gl))\<lparr>sh_sys_dir := ''d'', sh_hw_requested := True,
       sh_hw_cb := gl_request\<lparr>hw_get_current_framebuffer := Some Hw_get_current_framebuffer,
                            hw_get_proc_address := Some Hw_get_proc_address\<rparr>\<rparr>
     else (Shim_new (still_core gl))\<lparr>sh_sys_dir := ''d''\<rparr>)"

lemma still_dir: "ansi_safe_dir (still_env gl) (shim_dir (still_env gl)) = ''d''"
  by (simp add: ansi_safe_dir_def still_env_def to_ansi_def shim_dir_def widen_def is_separator_def of_char_def)

lemma still_create: "sh_create (still_env gl) still_view = Created (still_created gl) []"
  using still_accepted [of gl] still_dir [of gl]
  by (simp add: sh_create_def still_env_def core_call_def still_created_def)
    (simp add: still_core_def Shim_new_def env_set_hw_render_def gl_request_def core_call_def Let_def)

lemma still_reachable: "shim_reachable (still_env gl) (still_created gl)"
  by (rule shim_reachable.created [OF still_create])

definition still_playing :: "nat Shim" where
  "still_playing = (still_created False)\<lparr>sh_rom := [1], sh_game_loaded := True\<rparr>"

lemma still_load:
  "sh_load_content (still_env False) still_view (Some ''rom'') (still_created False) = (still_playing, RP_OK, [])"
  by (simp add: sh_load_content_def still_playing_def still_created_def still_env_def still_core_def Shim_new_def)

lemma still_shows:
  "snd (sh_run_frame (still_env False) still_playing still_view) =
     [HInput 0, HInput 1, HVideo (Some (convert_to_rgba8 [0x34, 0x12, 0x78, 0x56] 2 1 4 0 (replicate 8 0))) 2 1 8]"
  by (simp add: sh_run_frame_def still_playing_def still_created_def still_core_def Shim_new_def still_run_def
      core_call_def input_poll_cb_def video_cb_def Let_def still_env_def RETRO_PIXEL_FORMAT_0RGB1555_def)

theorem shim_keeps_invariant_witness:
  "shim_reachable (still_env False) still_playing \<and>
   shim_ok (fst (sh_run_frame (still_env False) still_playing still_view)) \<and>
   frame_ok (HVideo (Some (convert_to_rgba8 [0x34, 0x12, 0x78, 0x56] 2 1 4 0 (replicate 8 0))) 2 1 8)"
proof -
  have r: "shim_reachable (still_env False) still_playing"
    by (rule shim_reachable.loaded [OF still_reachable still_load])
  from shim_keeps_invariant [OF r prod.collapse [symmetric], of still_view] r show ?thesis
    by (simp add: still_shows)
qed

text \<open>The two answers a load depends on: the core's to \<open>retro_load_game\<close>, which gets the path and, unless it wants the path alone,
  the bytes of the file; and that of the graphics setup at the size the core then asks for.\<close>

definition load_answer ::
  "'k shim_env \<Rightarrow> host_view \<Rightarrow> string \<Rightarrow> bytes \<Rightarrow> 'k Shim \<Rightarrow> 'k Shim \<times> host_call list \<times> 'k \<times> bool" where
  "load_answer env hv path rom s =
     (let full = si_need_fullpath ((the (lr_get_system_info (sh_lib s))) (sh_core s));
          gi = (if full then \<lparr>gi_path = Some path, gi_data = None, gi_size = 0, gi_meta = None\<rparr>
                else \<lparr>gi_path = Some path, gi_data = Some rom, gi_size = length rom, gi_meta = None\<rparr>)
      in shim_exec env hv ((the (lr_load_game (sh_lib s))) (sh_core s) gi) (s\<lparr>sh_rom := rom\<rparr>))"

definition hw_answer :: "'k shim_env \<Rightarrow> host_view \<Rightarrow> 'k Shim \<Rightarrow> bool" where
  "hw_answer env hv s =
     (let av = sh_get_av_info s; cb = sh_hw_cb s
      in snd (hw_setup (sx_gl env) (hw_depth cb) (hw_stencil cb) (hw_bottom_left_origin cb)
                (max (max_width av) (base_width av)) (max (max_height av) (base_height av))
                (hw_version_major cb) (hw_version_minor cb) (hv_gl_context hv)))"

lemma at_least_max: "at_least m b = max m b"
  by (auto simp: at_least_def max_def)

lemma sh_get_av_info_cong: "sh_get_av_info (s\<lparr>sh_game_loaded := b\<rparr>) = sh_get_av_info s"
  by (simp add: sh_get_av_info_def)

lemma sh_start_hw_answer:
  assumes "sh_start_hw env hv (s\<lparr>sh_game_loaded := True\<rparr>) = (s', r, hcs)"
  shows "r = (if hw_answer env hv s then RP_OK else RP_ERR_DEVICE)"
proof -
  obtain hr ok where "hw_setup (sx_gl env) (hw_depth (sh_hw_cb s)) (hw_stencil (sh_hw_cb s)) (hw_bottom_left_origin (sh_hw_cb s))
      (max (max_width (sh_get_av_info s)) (base_width (sh_get_av_info s)))
      (max (max_height (sh_get_av_info s)) (base_height (sh_get_av_info s)))
      (hw_version_major (sh_hw_cb s)) (hw_version_minor (sh_hw_cb s)) (hv_gl_context hv) = (hr, ok)"
    by (meson surj_pair)
  then show ?thesis
    using assms by (auto simp: sh_start_hw_def hw_answer_def at_least_max sh_get_av_info_cong Let_def split: prod.splits if_splits)
qed

lemma sh_load_content_file:
  assumes "path \<noteq> ''''" "sx_file env path = Some rom" "load_answer env hv path rom s = (s1, h1, k, accepted)"
  shows "sh_load_content env hv (Some path) s =
     (let s2 = s1\<lparr>sh_core := k\<rparr>
      in if \<not> accepted then (s2, RP_ERR_UNSUPPORTED, h1)
         else if sh_hw_requested s1
         then (case sh_start_hw env hv (s2\<lparr>sh_game_loaded := True\<rparr>) of (s', r, h2) \<Rightarrow> (s', r, h1 @ h2))
         else (s2\<lparr>sh_game_loaded := True\<rparr>, RP_OK, h1))"
proof (cases "si_need_fullpath ((the (lr_get_system_info (sh_lib s))) (sh_core s))")
  case True
  with assms show ?thesis by (simp add: sh_load_content_def load_answer_def Let_def)
next
  case False
  with assms show ?thesis by (simp add: sh_load_content_def load_answer_def Let_def)
qed

text \<open>
  C26. Loading content does what the core and the graphics setup answer. An empty path is refused as a bad argument and a file that cannot
  be opened as not found; nothing changes and nobody is called. Otherwise the core is offered the game, and if it refuses, the call
  says unsupported, and whether a game counts as loaded, and its renderer, are as before. If it accepts, and did not ask for hardware
  rendering or the graphics setup succeeds, the call succeeds, the game is loaded and a core that asked has its renderer; if
  the setup fails the call says so, no game is loaded and no renderer is left.
\<close>

theorem sh_load_content_outcomes:
  assumes "shim_reachable env s" "sh_load_content env hv path s = (s', r, hcs)"
  shows "(path = None \<or> path = Some '''' \<longrightarrow> r = RP_ERR_BAD_ARG \<and> s' = s \<and> hcs = []) \<and>
    (\<forall>p. path = Some p \<and> p \<noteq> '''' \<and> sx_file env p = None \<longrightarrow> r = RP_ERR_NOT_FOUND \<and> s' = s \<and> hcs = []) \<and>
    (\<forall>p rom s1 h1 k accepted.
       path = Some p \<and> p \<noteq> '''' \<and> sx_file env p = Some rom \<and> load_answer env hv p rom s = (s1, h1, k, accepted) \<longrightarrow>
         (if \<not> accepted
          then r = RP_ERR_UNSUPPORTED \<and> s' = s1\<lparr>sh_core := k\<rparr> \<and> sh_game_loaded s' = sh_game_loaded s \<and> sh_hw s' = sh_hw s
          else if sh_hw_requested s1 \<and> \<not> hw_answer env hv (s1\<lparr>sh_core := k\<rparr>)
          then r = RP_ERR_DEVICE \<and> \<not> sh_game_loaded s' \<and> sh_hw s' = None
          else r = RP_OK \<and> sh_game_loaded s' \<and> (sh_hw_requested s' \<longrightarrow> sh_hw s' \<noteq> None)))"
proof (intro conjI allI impI)
  note cases = sh_load_content_cases [OF shim_reachable_ok [OF assms(1)] assms(2)]
  show "r = RP_ERR_BAD_ARG" "s' = s" "hcs = []" if "path = None \<or> path = Some ''''"
    using assms(2) that by (auto simp: sh_load_content_def)
  show "r = RP_ERR_NOT_FOUND" "s' = s" "hcs = []" if "path = Some p \<and> p \<noteq> '''' \<and> sx_file env p = None" for p
    using assms(2) that by (auto simp: sh_load_content_def)
  show "if \<not> accepted
      then r = RP_ERR_UNSUPPORTED \<and> s' = s1\<lparr>sh_core := k\<rparr> \<and> sh_game_loaded s' = sh_game_loaded s \<and> sh_hw s' = sh_hw s
      else if sh_hw_requested s1 \<and> \<not> hw_answer env hv (s1\<lparr>sh_core := k\<rparr>)
      then r = RP_ERR_DEVICE \<and> \<not> sh_game_loaded s' \<and> sh_hw s' = None
      else r = RP_OK \<and> sh_game_loaded s' \<and> (sh_hw_requested s' \<longrightarrow> sh_hw s' \<noteq> None)"
    if h: "path = Some p \<and> p \<noteq> '''' \<and> sx_file env p = Some rom \<and> load_answer env hv p rom s = (s1, h1, k, accepted)" for p rom s1 h1 k accepted
  proof -
    from h have "(s', r, hcs) =
       (let s2 = s1\<lparr>sh_core := k\<rparr>
        in if \<not> accepted then (s2, RP_ERR_UNSUPPORTED, h1)
           else if sh_hw_requested s1
           then (case sh_start_hw env hv (s2\<lparr>sh_game_loaded := True\<rparr>) of (s', r, h2) \<Rightarrow> (s', r, h1 @ h2))
           else (s2\<lparr>sh_game_loaded := True\<rparr>, RP_OK, h1))"
      using sh_load_content_file [of p env rom hv s] assms(2) by simp
    then consider "\<not> accepted" "r = RP_ERR_UNSUPPORTED" "s' = s1\<lparr>sh_core := k\<rparr>"
      | h2 where "accepted" "sh_hw_requested s1" "sh_start_hw env hv (s1\<lparr>sh_core := k\<rparr>\<lparr>sh_game_loaded := True\<rparr>) = (s', r, h2)"
      | "accepted" "\<not> sh_hw_requested s1" "r = RP_OK"
      by (auto simp: Let_def split: if_splits prod.splits)
    then show ?thesis
    proof cases
      case 2
      from sh_start_hw_answer [OF 2(3)] cases 2(1,2) show ?thesis by (auto split: if_splits)
    qed (use cases in auto)
  qed
qed

definition still_refused :: "nat Shim" where
  "still_refused = (still_created True)\<lparr>sh_rom := [1], sh_game_loaded := False, sh_hw := None\<rparr>"

lemma still_load_gl:
  "sh_load_content (still_env True) still_view (Some ''rom'') (still_created True) = (still_refused, RP_ERR_DEVICE, [])"
  by (simp add: sh_load_content_def still_refused_def still_created_def still_env_def still_core_def Shim_new_def
      sh_start_hw_def hw_setup_def still_view_def core_call_def Let_def)

text \<open>A core that takes no game.\<close>

definition picky_core :: "nat retro_core" where
  "picky_core = (still_core False)\<lparr>lr_load_game := Some (\<lambda>n g. Ret (n, False))\<rparr>"

definition picky_env :: "nat shim_env" where
  "picky_env = (still_env False)\<lparr>sx_library := (\<lambda>p. Some picky_core)\<rparr>"

definition picky_created :: "nat Shim" where
  "picky_created = (Shim_new picky_core)\<lparr>sh_sys_dir := ''d''\<rparr>"

lemma picky_create: "sh_create picky_env still_view = Created picky_created []"
proof -
  have "lib_accepted picky_core"
    using still_accepted [of False] by (simp add: lib_accepted_def picky_core_def)
  moreover have "ansi_safe_dir picky_env (shim_dir picky_env) = ''d''"
    by (simp add: ansi_safe_dir_def picky_env_def still_env_def to_ansi_def shim_dir_def widen_def is_separator_def of_char_def)
  ultimately show ?thesis
    by (simp add: sh_create_def picky_env_def core_call_def picky_created_def)
      (simp add: picky_core_def still_core_def Shim_new_def core_call_def Let_def)
qed

theorem sh_load_content_outcomes_witness:
  "snd (sh_load_content (still_env True) still_view (Some ''rom'') (still_created True)) = (RP_ERR_DEVICE, []) \<and>
   \<not> sh_game_loaded still_refused \<and> sh_hw still_refused = None \<and>
   fst (snd (sh_load_content picky_env still_view (Some ''rom'') picky_created)) = RP_ERR_UNSUPPORTED \<and>
   \<not> sh_game_loaded (fst (sh_load_content picky_env still_view (Some ''rom'') picky_created))"
proof -
  obtain s' r hcs where load: "sh_load_content picky_env still_view (Some ''rom'') picky_created = (s', r, hcs)"
    by (metis surj_pair)
  have answer: "load_answer picky_env still_view ''rom'' [1] picky_created = (picky_created\<lparr>sh_rom := [1]\<rparr>, [], sh_core picky_created, False)"
    "sx_file picky_env ''rom'' = Some [1]" "\<not> sh_game_loaded picky_created"
    by (simp_all add: load_answer_def picky_env_def picky_created_def picky_core_def still_core_def still_env_def Shim_new_def)
  note outcome = sh_load_content_outcomes [OF shim_reachable.created [OF picky_create] load]
  have "r = RP_ERR_UNSUPPORTED \<and> sh_game_loaded s' = sh_game_loaded picky_created"
    using outcome [THEN conjunct2, THEN conjunct2, rule_format, of "''rom''" "[1]" _ _ _ False] answer(1,2) by simp
  with load answer(3) still_load_gl show ?thesis
    by (simp add: still_refused_def)
qed

end
