(* ===== verification/RP_D3D11.thy ===== *)
theory RP_D3D11
  imports RP_Runtime "HOL-Library.Multiset"
begin

text \<open>
  The Direct3D 11 backend, \<open>src/render/d3d11/\<close>: devices, shared surfaces with their keyed mutexes and
  kernel handles, the upload of a driven core's frame, composition and read-back.

  Direct3D is outside the sources. The record \<open>d3d_api\<close> holds what it decides: whether the \<open>n\<close>-th fallible
  call succeeds (\<open>dx_ok\<close>, so every pattern of failures is covered), the row pitch and the initial
  contents of mapped memory, what the core left in a shared surface, what drawing a picture on a target
  gives (\<open>dx_draw\<close>), and what is left when objects of different devices are mixed, which Direct3D
  leaves undefined (\<open>dx_mixed\<close>). Objects carry the number of the device that made them. The last fields of the
  backend count what the system sees: calls, devices, open kernel handles, keyed mutexes held, presents.
  A call through a null device or a copy outside a buffer ends the process: \<open>d11_crashed\<close>.
\<close>

section \<open>State\<close>

record d3d_texture =
  tx_device :: nat
  tx_w :: u32
  tx_h :: u32
  tx_px :: bytes

record d3d_api =
  dx_ok :: "nat \<Rightarrow> bool"
  dx_row_pitch :: "u32 \<Rightarrow> u32"
  dx_memory :: "nat \<Rightarrow> bytes"
  dx_surface :: "nat \<Rightarrow> bytes"
  dx_draw :: "(u32 \<times> u32 \<times> bytes) option \<Rightarrow> u32 \<times> u32 \<Rightarrow> u32 \<Rightarrow> u32 \<Rightarrow> bytes"
  dx_mixed :: "bytes \<Rightarrow> bytes"

record d3d_surface =
  sf_device :: nat
  sf_w :: u32
  sf_h :: u32
  sf_handle :: nat

record D3D11Backend =
  d11_device :: "nat option"
  d11_device1 :: bool
  d11_swapchain :: bool
  d11_surfaces :: "d3d_surface list"
  d11_width :: u32
  d11_height :: u32
  d11_compositor :: "nat option"
  d11_compositor_ready :: bool
  d11_offscreen :: "d3d_texture option"
  d11_offscreen_rtv :: bool
  d11_backbuffer :: "d3d_texture option"
  d11_driven_tex :: "d3d_texture option"
  d11_driven_srv :: bool
  d11_driven_w :: u32
  d11_driven_h :: u32
  d11_calls :: nat
  d11_devices :: nat
  d11_handles :: "nat list"
  d11_next_handle :: nat
  d11_held :: "nat list"
  d11_presents :: nat
  d11_crashed :: bool

definition D3D11Backend_new :: D3D11Backend where
  "D3D11Backend_new = \<lparr>d11_device = None, d11_device1 = False, d11_swapchain = False, d11_surfaces = [],
     d11_width = 0, d11_height = 0, d11_compositor = None, d11_compositor_ready = False,
     d11_offscreen = None, d11_offscreen_rtv = False, d11_backbuffer = None, d11_driven_tex = None,
     d11_driven_srv = False, d11_driven_w = 0, d11_driven_h = 0, d11_calls = 0, d11_devices = 0,
     d11_handles = [], d11_next_handle = 1, d11_held = [], d11_presents = 0, d11_crashed = False\<rparr>"

definition d11_call :: "d3d_api \<Rightarrow> D3D11Backend \<Rightarrow> D3D11Backend \<times> bool" where
  "d11_call api b = (b\<lparr>d11_calls := Suc (d11_calls b)\<rparr>, dx_ok api (d11_calls b))"

text \<open>A run of calls that stops at the first failure.\<close>

fun try_calls :: "d3d_api \<Rightarrow> nat \<Rightarrow> D3D11Backend \<Rightarrow> D3D11Backend \<times> bool" where
  "try_calls api 0 b = (b, True)"
| "try_calls api (Suc k) b = (case d11_call api b of (b, ok) \<Rightarrow> if ok then try_calls api k b else (b, False))"

definition d11_crash :: "D3D11Backend \<Rightarrow> D3D11Backend \<times> rp_result" where
  "d11_crash b = (b\<lparr>d11_crashed := True\<rparr>, RP_ERR_INTERNAL)"

section \<open>Set-up\<close>

text \<open>\<open>make_device\<close> clears the device it replaces before it makes the new one.\<close>

definition make_device :: "d3d_api \<Rightarrow> D3D11Backend \<Rightarrow> D3D11Backend \<times> rp_result" where
  "make_device api b =
     (case d11_call api (b\<lparr>d11_device := None\<rparr>) of (b, ok) \<Rightarrow>
        if ok then (b\<lparr>d11_device := Some (d11_devices b), d11_devices := Suc (d11_devices b)\<rparr>, RP_OK)
        else (b, RP_ERR_DEVICE))"

definition d11_open_swapchain :: "d3d_api \<Rightarrow> u32 \<Rightarrow> u32 \<Rightarrow> D3D11Backend \<Rightarrow> D3D11Backend \<times> rp_result" where
  "d11_open_swapchain api w h b =
     (case try_calls api 4 b of (b, ok) \<Rightarrow>
        if \<not> ok then (b, RP_ERR_DEVICE)
        else case try_calls api 2 (b\<lparr>d11_swapchain := True\<rparr>) of (b, ok) \<Rightarrow>
          if \<not> ok then (b, RP_ERR_DEVICE)
          else (b\<lparr>d11_backbuffer := Some \<lparr>tx_device = the (d11_device b), tx_w = w, tx_h = h, tx_px = []\<rparr>\<rparr>, RP_OK))"

definition d11_initialize ::
  "d3d_api \<Rightarrow> D3D11Backend \<Rightarrow> nat option \<Rightarrow> u32 \<Rightarrow> u32 \<Rightarrow> D3D11Backend \<times> rp_result" where
  "d11_initialize api b native_window w h =
     (case make_device api (b\<lparr>d11_width := w, d11_height := h\<rparr>) of (b, r) \<Rightarrow>
        if r \<noteq> RP_OK then (b, r)
        else case d11_call api b of (b, ok) \<Rightarrow>
          let b = b\<lparr>d11_device1 := ok\<rparr>
          in if \<not> ok then (b, RP_ERR_DEVICE)
             else let b = b\<lparr>d11_swapchain := False, d11_backbuffer := None\<rparr>
                  in if native_window = None then (b, RP_OK) else d11_open_swapchain api w h b)"

section \<open>Shared surfaces\<close>

text \<open>The destructor of a surface closes its handle.\<close>

definition d11_close_surfaces :: "D3D11Backend \<Rightarrow> D3D11Backend" where
  "d11_close_surfaces b =
     b\<lparr>d11_handles := fold (\<lambda>s. remove1 (sf_handle s)) (d11_surfaces b) (d11_handles b), d11_surfaces := []\<rparr>"

text \<open>One round: texture, keyed mutex, view, resource and handle, five calls. A failure drops the
  unfinished surface, which has no handle yet.\<close>

fun d11_make_surfaces ::
  "d3d_api \<Rightarrow> nat \<Rightarrow> u32 \<Rightarrow> u32 \<Rightarrow> u32 \<Rightarrow> D3D11Backend \<Rightarrow> rp_surface_desc list \<Rightarrow>
   D3D11Backend \<times> rp_result \<times> rp_surface_desc list" where
  "d11_make_surfaces api 0 i w h b out = (b, RP_OK, out)"
| "d11_make_surfaces api (Suc k) i w h b out =
     (case d11_device b of None \<Rightarrow> (case d11_crash b of (b, r) \<Rightarrow> (b, r, out))
      | Some dev \<Rightarrow>
        case try_calls api 5 b of (b, ok) \<Rightarrow>
          if \<not> ok then (b, RP_ERR_DEVICE, out)
          else let handle = d11_next_handle b;
                   b = b\<lparr>d11_next_handle := Suc handle, d11_handles := handle # d11_handles b,
                         d11_surfaces := d11_surfaces b @ [\<lparr>sf_device = dev, sf_w = w, sf_h = h, sf_handle = handle\<rparr>]\<rparr>;
                   desc = \<lparr>sd_index = i, sd_width = w, sd_height = h, sd_format = RP_FMT_R8G8B8A8_UNORM,
                           sd_shared_handle = Some handle, sd_generation = 0\<rparr>
               in d11_make_surfaces api k (i + 1) w h b (out @ [desc]))"

definition d11_allocate_surfaces ::
  "d3d_api \<Rightarrow> D3D11Backend \<Rightarrow> u32 \<Rightarrow> u32 \<Rightarrow> u32 \<Rightarrow> D3D11Backend \<times> rp_result \<times> rp_surface_desc list" where
  "d11_allocate_surfaces api b num w h =
     d11_make_surfaces api (unat num) 0 w h ((d11_close_surfaces b)\<lparr>d11_width := w, d11_height := h\<rparr>) []"

definition d11_acquire :: "d3d_api \<Rightarrow> nat \<Rightarrow> D3D11Backend \<Rightarrow> D3D11Backend \<times> bool" where
  "d11_acquire api key b =
     (case d11_call api b of (b, ok) \<Rightarrow> (if ok then b\<lparr>d11_held := key # d11_held b\<rparr> else b, ok))"

definition d11_release :: "nat \<Rightarrow> D3D11Backend \<Rightarrow> D3D11Backend" where
  "d11_release key b = b\<lparr>d11_held := remove1 key (d11_held b)\<rparr>"

section \<open>Composition\<close>

definition D3D11Compositor_initialize :: "d3d_api \<Rightarrow> D3D11Backend \<Rightarrow> D3D11Backend \<times> rp_result" where
  "D3D11Compositor_initialize api b =
     (case d11_call api b of (b, ok) \<Rightarrow>
        if \<not> ok then (b, RP_ERR_DEVICE)
        else if d11_device b = None then d11_crash b
        else case try_calls api 4 b of (b, ok) \<Rightarrow>
          if \<not> ok then (b, RP_ERR_DEVICE) else (b\<lparr>d11_compositor := d11_device b\<rparr>, RP_OK))"

definition ensure_offscreen_target :: "d3d_api \<Rightarrow> D3D11Backend \<Rightarrow> D3D11Backend \<times> rp_result" where
  "ensure_offscreen_target api b =
     (if d11_offscreen b \<noteq> None then (b, RP_OK)
      else case d11_device b of None \<Rightarrow> d11_crash b
      | Some dev \<Rightarrow>
        case d11_call api b of (b, ok) \<Rightarrow>
          if \<not> ok then (b, RP_ERR_DEVICE)
          else let b = b\<lparr>d11_offscreen := Some \<lparr>tx_device = dev, tx_w = d11_width b, tx_h = d11_height b, tx_px = []\<rparr>\<rparr>
               in case d11_call api (b\<lparr>d11_offscreen_rtv := False\<rparr>) of (b, ok) \<Rightarrow>
                    if \<not> ok then (b, RP_ERR_DEVICE) else (b\<lparr>d11_offscreen_rtv := True\<rparr>, RP_OK))"

text \<open>What both composition functions do first: the compositor, then the headless target.\<close>

definition d11_prepare :: "d3d_api \<Rightarrow> bool \<Rightarrow> D3D11Backend \<Rightarrow> D3D11Backend \<times> rp_result" where
  "d11_prepare api out_rgba b =
     (case (if d11_compositor_ready b then (b, RP_OK)
            else case D3D11Compositor_initialize api b of (b, r) \<Rightarrow>
                   (if r = RP_OK then b\<lparr>d11_compositor_ready := True\<rparr> else b, r)) of
        (b, r) \<Rightarrow>
          if r \<noteq> RP_OK then (b, r)
          else if d11_offscreen b = None \<and> (\<not> d11_swapchain b \<or> out_rgba) then ensure_offscreen_target api b
          else (b, RP_OK))"

definition d11_target :: "D3D11Backend \<Rightarrow> d3d_texture option" where
  "d11_target b =
     (if d11_swapchain b then d11_backbuffer b else if d11_offscreen_rtv b then d11_offscreen b else None)"

definition d11_paint :: "bytes \<Rightarrow> D3D11Backend \<Rightarrow> D3D11Backend" where
  "d11_paint px b =
     (if d11_swapchain b then b\<lparr>d11_backbuffer := map_option (\<lambda>t. t\<lparr>tx_px := px\<rparr>) (d11_backbuffer b)\<rparr>
      else b\<lparr>d11_offscreen := map_option (\<lambda>t. t\<lparr>tx_px := px\<rparr>) (d11_offscreen b)\<rparr>)"

text \<open>\<open>D3D11Compositor::render\<close>: clear to black, then the picture over the whole viewport. The source is a
  texture or a shared surface, given with its device.\<close>

definition D3D11Compositor_render ::
  "d3d_api \<Rightarrow> (nat \<times> u32 \<times> u32 \<times> bytes) option \<Rightarrow> D3D11Backend \<Rightarrow> D3D11Backend \<times> rp_result" where
  "D3D11Compositor_render api src b =
     (case d11_device b of None \<Rightarrow> d11_crash b
      | Some dev \<Rightarrow>
        (case d11_target b of None \<Rightarrow> b
         | Some t \<Rightarrow>
             d11_paint
               (if tx_device t = dev \<and> d11_compositor b = Some dev \<and> (case src of None \<Rightarrow> True | Some (d, _) \<Rightarrow> d = dev)
                then dx_draw api (map_option snd src) (tx_w t, tx_h t) (d11_width b) (d11_height b)
                else dx_mixed api (tx_px t)) b, RP_OK))"

text \<open>\<open>read_back_target\<close>: the staging copy of the target, row by row, with the source's 32-bit offsets.\<close>

definition pad_rows :: "d3d_api \<Rightarrow> u32 \<Rightarrow> u32 \<Rightarrow> bytes \<Rightarrow> bytes" where
  "pad_rows api w h px =
     (let row = unat w * 4; pitch = unat (dx_row_pitch api w)
      in concat (map (\<lambda>y. take row (drop (y * row) px) @ take (pitch - row) (dx_memory api (pitch - row))) [0..<unat h]))"

fun read_rows :: "nat \<Rightarrow> u32 \<Rightarrow> bytes \<Rightarrow> u32 \<Rightarrow> u32 \<Rightarrow> bytes \<Rightarrow> bytes option" where
  "read_rows 0 y mem pitch width out = Some out"
| "read_rows (Suc k) y mem pitch width out =
     (case mem_copy out (unat (y * width * 4)) mem (unat (y * pitch)) (unat (width * 4)) of
        None \<Rightarrow> None | Some out \<Rightarrow> read_rows k (y + 1) mem pitch width out)"

definition read_back_target :: "d3d_api \<Rightarrow> D3D11Backend \<Rightarrow> D3D11Backend \<times> rp_result \<times> bytes option" where
  "read_back_target api b =
     (case try_calls api 2 b of (b, ok) \<Rightarrow>
        if \<not> ok then (b, RP_ERR_DEVICE, None)
        else let w = d11_width b; h = d11_height b; n = unat w * unat h * 4;
                 px = (case d11_offscreen b of
                         Some t \<Rightarrow> (if Some (tx_device t) = d11_device b \<and> tx_w t = w \<and> tx_h t = h then tx_px t
                                    else dx_memory api n)
                       | None \<Rightarrow> dx_memory api n)
             in case read_rows (unat h) 0 (pad_rows api w h px) (dx_row_pitch api w) w (replicate n 0) of
                  None \<Rightarrow> (case d11_crash b of (b, r) \<Rightarrow> (b, r, None))
                | Some img \<Rightarrow> (b, RP_OK, Some img))"

definition d11_finish :: "d3d_api \<Rightarrow> bool \<Rightarrow> D3D11Backend \<Rightarrow> D3D11Backend \<times> rp_result \<times> bytes option" where
  "d11_finish api out_rgba b =
     (let b = (if d11_swapchain b then b\<lparr>d11_presents := Suc (d11_presents b)\<rparr> else b)
      in if out_rgba then read_back_target api b else (b, RP_OK, None))"

definition d11_composite_and_present ::
  "d3d_api \<Rightarrow> D3D11Backend \<Rightarrow> u32 \<Rightarrow> u64 \<Rightarrow> bool \<Rightarrow> bool \<Rightarrow> D3D11Backend \<times> rp_result \<times> bytes option" where
  "d11_composite_and_present api b idx sync_value has_frame out_rgba =
     (if d11_swapchain b \<and> out_rgba then (b, RP_ERR_UNSUPPORTED, None)
      else case d11_prepare api out_rgba b of (b, r) \<Rightarrow>
        if r \<noteq> RP_OK then (b, r, None)
        else let s = d11_surfaces b ! unat idx; shown = has_frame \<and> unat idx < length (d11_surfaces b)
             in case (if shown then d11_acquire api (sf_handle s) b else (b, True)) of (b, ok) \<Rightarrow>
                  if \<not> ok then (b, RP_ERR_TIMEOUT, None)
                  else case D3D11Compositor_render api
                              (if shown then Some (sf_device s, sf_w s, sf_h s, dx_surface api (sf_handle s)) else None) b of
                         (b, r) \<Rightarrow>
                           let b = (if shown then d11_release (sf_handle s) b else b)
                           in if r \<noteq> RP_OK then (b, r, None) else d11_finish api out_rgba b)"

text \<open>The upload of a driven core's frame: the texture is made anew when its size changes.\<close>

definition d11_ensure_driven :: "d3d_api \<Rightarrow> u32 \<Rightarrow> u32 \<Rightarrow> D3D11Backend \<Rightarrow> D3D11Backend \<times> rp_result" where
  "d11_ensure_driven api width height b =
     (if d11_driven_tex b = None \<or> d11_driven_w b \<noteq> width \<or> d11_driven_h b \<noteq> height
      then let b = b\<lparr>d11_driven_srv := False, d11_driven_tex := None\<rparr>
           in case d11_device b of None \<Rightarrow> d11_crash b
           | Some dev \<Rightarrow>
             case d11_call api b of (b, ok) \<Rightarrow>
               if \<not> ok then (b, RP_ERR_DEVICE)
               else case d11_call api (b\<lparr>d11_driven_tex :=
                           Some \<lparr>tx_device = dev, tx_w = width, tx_h = height, tx_px = []\<rparr>\<rparr>) of (b, ok) \<Rightarrow>
                 if \<not> ok then (b, RP_ERR_DEVICE)
                 else (b\<lparr>d11_driven_srv := True, d11_driven_w := width, d11_driven_h := height\<rparr>, RP_OK)
      else (b, RP_OK))"

definition d11_upload ::
  "d3d_api \<Rightarrow> bytes option \<Rightarrow> u32 \<Rightarrow> u32 \<Rightarrow> u32 \<Rightarrow> D3D11Backend \<Rightarrow> D3D11Backend \<times> rp_result" where
  "d11_upload api data width height pitch b =
     (case d11_ensure_driven api width height b of (b, r) \<Rightarrow>
        if r \<noteq> RP_OK then (b, r)
        else if d11_device b = None then d11_crash b
        else case d11_call api b of (b, ok) \<Rightarrow>
          if \<not> ok then (b, RP_ERR_DEVICE)
          else case (d11_driven_tex b, data) of
            (Some t, Some src) \<Rightarrow>
              (let dp = dx_row_pitch api (tx_w t); n = unat dp * unat (tx_h t)
              in case copy_rgba8_rows src width height pitch (take n (dx_memory api n)) dp of
                    None \<Rightarrow> d11_crash b
                  | Some mem \<Rightarrow>
                      (b\<lparr>d11_driven_tex :=
                          Some (t\<lparr>tx_px := tight_rows (unat (tx_w t) * 4) (unat dp) (unat (tx_h t)) mem\<rparr>)\<rparr>, RP_OK))
          | _ \<Rightarrow> d11_crash b)"

definition d11_composite_driven ::
  "d3d_api \<Rightarrow> D3D11Backend \<Rightarrow> bytes option \<Rightarrow> u32 \<Rightarrow> u32 \<Rightarrow> u32 \<Rightarrow> bool \<Rightarrow> bool \<Rightarrow>
   D3D11Backend \<times> rp_result \<times> bytes option" where
  "d11_composite_driven api b data width height pitch dupe out_rgba =
     (if d11_swapchain b \<and> out_rgba then (b, RP_ERR_UNSUPPORTED, None)
      else case (if dupe then (b, RP_OK) else d11_upload api data width height pitch b) of (b, r) \<Rightarrow>
        if r \<noteq> RP_OK then (b, r, None)
        else case d11_prepare api out_rgba b of (b, r) \<Rightarrow>
          if r \<noteq> RP_OK then (b, r, None)
          else case D3D11Compositor_render api
                      (case d11_driven_tex b of
                         Some t \<Rightarrow> if d11_driven_srv b then Some (tx_device t, tx_w t, tx_h t, tx_px t) else None
                       | None \<Rightarrow> None) b of (b, r) \<Rightarrow>
            if r \<noteq> RP_OK then (b, r, None) else d11_finish api out_rgba b)"

text \<open>The pixel read-back that the tests use, and the destructor.\<close>

definition readback_surface_pixel ::
  "d3d_api \<Rightarrow> D3D11Backend \<Rightarrow> u32 \<Rightarrow> u32 \<Rightarrow> u32 \<Rightarrow> D3D11Backend \<times> rp_result \<times> bytes option" where
  "readback_surface_pixel api b index x y =
     (if length (d11_surfaces b) \<le> unat index then (b, RP_ERR_BAD_ARG, None)
      else let s = d11_surfaces b ! unat index
           in case d11_acquire api (sf_handle s) b of (b, ok) \<Rightarrow>
                if \<not> ok then (b, RP_ERR_TIMEOUT, None)
                else if d11_device b = None then (case d11_crash b of (b, r) \<Rightarrow> (b, r, None))
                else case try_calls api 2 b of (b, ok) \<Rightarrow>
                  let b = d11_release (sf_handle s) b;
                      mem = pad_rows api (d11_width b) (d11_height b) (dx_surface api (sf_handle s));
                      off = unat (y * dx_row_pitch api (d11_width b)) + unat (x * 4)
                  in if ok then (b, RP_OK, Some (take 4 (drop off mem))) else (b, RP_ERR_DEVICE, None))"

definition D3D11Backend_destroy :: "D3D11Backend \<Rightarrow> D3D11Backend" where
  "D3D11Backend_destroy b = d11_close_surfaces b"

definition d3d11_backend :: "d3d_api \<Rightarrow> D3D11Backend IRenderBackend" where
  "d3d11_backend api =
     \<lparr>be_initialize = d11_initialize api, be_allocate_surfaces = d11_allocate_surfaces api,
      be_composite_and_present = d11_composite_and_present api,
      be_composite_driven = d11_composite_driven api,
      be_present_sync_handle = (\<lambda>b. None), be_present_consume_sync_handle = (\<lambda>b. None),
      be_present_device_uuid = (\<lambda>b. default_device_uuid), be_gl_context = (\<lambda>b. None),
      be_composite_external_gl = default_composite_external_gl\<rparr>"

section \<open>What the system sees\<close>

text \<open>The part of the state that names kernel handles and keyed mutexes; composition leaves it alone.\<close>

definition d11_sys :: "D3D11Backend \<Rightarrow> nat list \<times> nat \<times> nat list \<times> nat list" where
  "d11_sys b = (d11_handles b, d11_next_handle b, d11_held b, map sf_handle (d11_surfaces b))"

lemma d11_call_sys [simp]: "d11_sys (fst (d11_call api b)) = d11_sys b"
  by (simp add: d11_call_def d11_sys_def)

lemma try_calls_sys [simp]: "d11_sys (fst (try_calls api n b)) = d11_sys b"
proof (induction n arbitrary: b)
  case (Suc n)
  then show ?case using d11_call_sys [of api b] by (simp add: split_beta)
qed simp

lemma d11_crash_sys [simp]: "d11_sys (fst (d11_crash b)) = d11_sys b"
  by (simp add: d11_crash_def d11_sys_def)

lemma d11_sys_updates [simp]:
  "d11_sys (b\<lparr>d11_device := dev\<rparr>) = d11_sys b" "d11_sys (b\<lparr>d11_devices := k\<rparr>) = d11_sys b"
  "d11_sys (b\<lparr>d11_device1 := x\<rparr>) = d11_sys b" "d11_sys (b\<lparr>d11_swapchain := x\<rparr>) = d11_sys b"
  "d11_sys (b\<lparr>d11_width := w\<rparr>) = d11_sys b" "d11_sys (b\<lparr>d11_height := h\<rparr>) = d11_sys b"
  "d11_sys (b\<lparr>d11_compositor := dev\<rparr>) = d11_sys b" "d11_sys (b\<lparr>d11_compositor_ready := x\<rparr>) = d11_sys b"
  "d11_sys (b\<lparr>d11_offscreen := t\<rparr>) = d11_sys b" "d11_sys (b\<lparr>d11_offscreen_rtv := x\<rparr>) = d11_sys b"
  "d11_sys (b\<lparr>d11_backbuffer := t\<rparr>) = d11_sys b" "d11_sys (b\<lparr>d11_driven_tex := t\<rparr>) = d11_sys b"
  "d11_sys (b\<lparr>d11_driven_srv := x\<rparr>) = d11_sys b" "d11_sys (b\<lparr>d11_driven_w := w\<rparr>) = d11_sys b"
  "d11_sys (b\<lparr>d11_driven_h := h\<rparr>) = d11_sys b" "d11_sys (b\<lparr>d11_presents := k\<rparr>) = d11_sys b"
  by (simp_all add: d11_sys_def)

lemma d11_initialize_sys [simp]: "d11_sys (fst (d11_initialize api b win w h)) = d11_sys b"
  by (simp add: d11_initialize_def make_device_def d11_open_swapchain_def Let_def split_beta)

lemma D3D11Compositor_initialize_sys [simp]: "d11_sys (fst (D3D11Compositor_initialize api b)) = d11_sys b"
  by (simp add: D3D11Compositor_initialize_def split_beta)

lemma ensure_offscreen_target_sys [simp]: "d11_sys (fst (ensure_offscreen_target api b)) = d11_sys b"
  by (cases "d11_device b") (simp_all add: ensure_offscreen_target_def Let_def split_beta)

lemma d11_prepare_sys [simp]: "d11_sys (fst (d11_prepare api out b)) = d11_sys b"
  by (simp add: d11_prepare_def split_beta)

lemma D3D11Compositor_render_sys [simp]: "d11_sys (fst (D3D11Compositor_render api src b)) = d11_sys b"
  by (simp add: D3D11Compositor_render_def d11_paint_def split: option.splits)

lemma read_back_target_sys [simp]: "d11_sys (fst (read_back_target api b)) = d11_sys b"
  using try_calls_sys [of api 2 b]
  by (cases "try_calls api 2 b") (simp add: read_back_target_def Let_def split_beta del: try_calls_sys split: option.split)

lemma d11_finish_sys [simp]: "d11_sys (fst (d11_finish api out b)) = d11_sys b"
  by (simp add: d11_finish_def Let_def)

lemma d11_ensure_driven_sys [simp]: "d11_sys (fst (d11_ensure_driven api w h b)) = d11_sys b"
  by (simp add: d11_ensure_driven_def Let_def split_beta split: option.splits)

lemma d11_upload_sys [simp]: "d11_sys (fst (d11_upload api data w h p b)) = d11_sys b"
  by (simp add: d11_upload_def Let_def split_beta split: option.splits)

lemma d11_composite_driven_sys [simp]:
  "d11_sys (fst (d11_composite_driven api b data w h p dupe out)) = d11_sys b"
  by (simp add: d11_composite_driven_def split_beta)

lemma d11_shown_sys:
  assumes "d11_acquire api key b = (b1, True)" "d11_sys b2 = d11_sys b1"
  shows "d11_sys (d11_release key b2) = d11_sys b"
  using assms by (auto simp: d11_acquire_def d11_release_def d11_sys_def d11_call_def split: if_splits)

lemma d11_acquire_fails: "d11_acquire api key b = (b1, False) \<Longrightarrow> d11_sys b1 = d11_sys b"
  by (auto simp: d11_acquire_def d11_sys_def d11_call_def split: if_splits)

lemma d11_composite_and_present_sys [simp]:
  "d11_sys (fst (d11_composite_and_present api b idx sv has out)) = d11_sys b"
proof (cases "d11_swapchain b \<and> out \<or> snd (d11_prepare api out b) \<noteq> RP_OK")
  case True
  then show ?thesis by (auto simp: d11_composite_and_present_def split_beta)
next
  case False
  define b1 where "b1 = fst (d11_prepare api out b)"
  have prep: "d11_prepare api out b = (b1, RP_OK)" and s1: "d11_sys b1 = d11_sys b"
    using False by (auto simp: b1_def prod_eq_iff)
  let ?s = "d11_surfaces b1 ! unat idx"
  show ?thesis
  proof (cases "has \<and> unat idx < length (d11_surfaces b1)")
    case shown: True
    obtain b2 ok where acq: "d11_acquire api (sf_handle ?s) b1 = (b2, ok)" by (meson surj_pair)
    note go = False
    show ?thesis
    proof (cases ok)
      case True
      with go prep shown acq d11_shown_sys [of api "sf_handle ?s" b1 b2] s1 show ?thesis
        by (auto simp: d11_composite_and_present_def Let_def split_beta)
    next
      case False
      with go prep shown acq d11_acquire_fails [of api "sf_handle ?s" b1 b2] s1 show ?thesis
        by (auto simp: d11_composite_and_present_def Let_def split_beta)
    qed
  next
    case shown: False
    with False prep s1 show ?thesis
      by (auto simp: d11_composite_and_present_def Let_def split_beta)
  qed
qed

section \<open>No handle leaks, no lock is kept\<close>

definition d11_ok :: "D3D11Backend \<Rightarrow> bool" where
  "d11_ok b \<longleftrightarrow> distinct (d11_handles b) \<and> mset (d11_handles b) = mset (map sf_handle (d11_surfaces b)) \<and>
     list_all (\<lambda>k. k < d11_next_handle b) (d11_handles b) \<and> d11_held b = []"

lemma d11_ok_sys: "d11_sys b' = d11_sys b \<Longrightarrow> d11_ok b' = d11_ok b"
  by (simp add: d11_sys_def d11_ok_def)

text \<open>The calls the runtime and the tests make on a live backend, with any arguments.\<close>

inductive d11_step :: "d3d_api \<Rightarrow> D3D11Backend \<Rightarrow> D3D11Backend \<Rightarrow> bool" for api where
  initialize: "d11_step api b (fst (d11_initialize api b win w h))"
| allocate: "d11_step api b (fst (d11_allocate_surfaces api b n w h))"
| present: "d11_step api b (fst (d11_composite_and_present api b idx sv has out))"
| driven: "d11_step api b (fst (d11_composite_driven api b data w h p dupe out))"
| pixel: "d11_step api b (fst (readback_surface_pixel api b idx x y))"

inductive d11_reachable :: "d3d_api \<Rightarrow> D3D11Backend \<Rightarrow> bool" for api where
  new: "d11_reachable api D3D11Backend_new"
| step: "d11_reachable api b \<Longrightarrow> \<not> d11_crashed b \<Longrightarrow> d11_step api b b' \<Longrightarrow> d11_reachable api b'"

lemma mset_fold_remove1: "mset (fold (\<lambda>s. remove1 (f s)) xs hs) = mset hs - mset (map f xs)"
  by (induction xs arbitrary: hs) (simp_all add: diff_diff_add_mset)

lemma d11_close_surfaces_ok:
  assumes "d11_ok b"
  shows "d11_ok (d11_close_surfaces b)" "d11_handles (d11_close_surfaces b) = []"
proof -
  have "mset (fold (\<lambda>s. remove1 (sf_handle s)) (d11_surfaces b) (d11_handles b)) = {#}"
    using assms by (simp add: mset_fold_remove1 d11_ok_def)
  then show "d11_handles (d11_close_surfaces b) = []"
    by (simp add: d11_close_surfaces_def)
  with assms show "d11_ok (d11_close_surfaces b)"
    by (simp add: d11_ok_def d11_close_surfaces_def)
qed

lemma d11_make_surfaces_ok:
  "d11_ok b \<Longrightarrow> d11_ok (fst (d11_make_surfaces api n i w h b out))"
proof (induction n arbitrary: i b out)
  case (Suc n)
  show ?case
  proof (cases "d11_device b")
    case None
    with Suc.prems show ?thesis by (simp add: d11_crash_def d11_ok_def)
  next
    case (Some dev)
    obtain b1 ok where calls: "try_calls api 5 b = (b1, ok)" by (meson surj_pair)
    have b1: "d11_ok b1"
      using Suc.prems d11_ok_sys [OF try_calls_sys [of api 5 b]] calls by simp
    let ?key = "d11_next_handle b1"
    let ?b2 = "b1\<lparr>d11_next_handle := Suc ?key, d11_handles := ?key # d11_handles b1,
       d11_surfaces := d11_surfaces b1 @ [\<lparr>sf_device = dev, sf_w = w, sf_h = h, sf_handle = ?key\<rparr>]\<rparr>"
    have "d11_ok ?b2"
      using b1 by (auto simp: d11_ok_def list_all_iff intro: less_SucI)
    from Suc.IH [OF this] calls Some b1 show ?thesis
      by (simp add: Let_def)
  qed
qed simp

lemma readback_surface_pixel_ok:
  assumes "d11_ok b"
  shows "d11_crashed (fst (readback_surface_pixel api b idx x y)) \<or> d11_ok (fst (readback_surface_pixel api b idx x y))"
proof (cases "length (d11_surfaces b) \<le> unat idx")
  case False
  let ?k = "sf_handle (d11_surfaces b ! unat idx)"
  obtain b1 ok where acq: "d11_acquire api ?k b = (b1, ok)" by (meson surj_pair)
  show ?thesis
  proof (cases "ok \<and> d11_device b1 \<noteq> None")
    case True
    obtain b2 ok2 where calls: "try_calls api 2 b1 = (b2, ok2)" by (meson surj_pair)
    have "d11_sys (d11_release ?k b2) = d11_sys b"
      using True acq try_calls_sys [of api 2 b1] calls by (intro d11_shown_sys) simp_all
    from d11_ok_sys [OF this] False True acq calls assms show ?thesis
      by (auto simp: readback_surface_pixel_def Let_def)
  next
    case no: False
    with False acq d11_ok_sys [OF d11_acquire_fails, of api ?k b b1] assms show ?thesis
      by (auto simp: readback_surface_pixel_def Let_def d11_crash_def)
  qed
qed (simp add: readback_surface_pixel_def assms)

lemma d11_step_ok: "d11_step api b b' \<Longrightarrow> d11_ok b \<Longrightarrow> d11_crashed b' \<or> d11_ok b'"
proof (induction rule: d11_step.induct)
  case (allocate b n w h)
  have "d11_ok ((d11_close_surfaces b)\<lparr>d11_width := w, d11_height := h\<rparr>)"
    using d11_close_surfaces_ok(1) [OF allocate] by (simp add: d11_ok_def)
  then show ?case
    unfolding d11_allocate_surfaces_def by (intro disjI2 d11_make_surfaces_ok)
next
  case (pixel b idx x y)
  then show ?case by (rule readback_surface_pixel_ok)
qed (simp_all add: d11_ok_sys [OF d11_initialize_sys] d11_ok_sys [OF d11_composite_and_present_sys]
    d11_ok_sys [OF d11_composite_driven_sys])

text \<open>
  C23. Whatever Direct3D answers, and whatever operations are called in whatever order, the kernel
  handles open are exactly those of the surfaces the backend holds, each once, no keyed mutex stays
  acquired after a call, on any error path, and destroying the backend closes every handle.
\<close>

theorem d3d11_handles_balanced:
  assumes "d11_reachable api b" "\<not> d11_crashed b"
  shows "distinct (d11_handles b) \<and> set (d11_handles b) = sf_handle ` set (d11_surfaces b) \<and>
     d11_held b = [] \<and> d11_handles (D3D11Backend_destroy b) = []"
proof -
  have "d11_crashed b \<or> d11_ok b"
    using assms(1) by induction (auto simp: d11_ok_def D3D11Backend_new_def dest: d11_step_ok)
  with assms(2) have ok: "d11_ok b" by simp
  then have "set (d11_handles b) = sf_handle ` set (d11_surfaces b)"
    by (metis d11_ok_def list.set_map set_mset_mset)
  with ok d11_close_surfaces_ok(2) [OF ok] show ?thesis
    by (simp add: d11_ok_def D3D11Backend_destroy_def)
qed

text \<open>A driver for the witnesses: call \<open>bad\<close> fails, all others succeed; rows are padded by four bytes; drawing
  scales by repeating or cutting the bytes.\<close>

definition tame_driver :: "nat \<Rightarrow> d3d_api" where
  "tame_driver bad = \<lparr>dx_ok = (\<lambda>n. n \<noteq> bad), dx_row_pitch = (\<lambda>w. w * 4 + 4), dx_memory = (\<lambda>n. replicate n 7),
     dx_surface = (\<lambda>k. []),
     dx_draw = (\<lambda>src sz w h. take (unat w * unat h * 4)
       ((case src of None \<Rightarrow> [] | Some (tw, th, px) \<Rightarrow> px) @ replicate (unat w * unat h * 4) 0)),
     dx_mixed = (\<lambda>px. px)\<rparr>"

definition tame_backend :: D3D11Backend where
  "tame_backend = D3D11Backend_new\<lparr>d11_width := 1, d11_height := 1, d11_calls := 2, d11_device := Some 0,
     d11_devices := 1, d11_device1 := True\<rparr>"

lemma tame_initialize: "2 \<le> bad \<Longrightarrow> d11_initialize (tame_driver bad) D3D11Backend_new None 1 1 = (tame_backend, RP_OK)"
  by (simp add: d11_initialize_def make_device_def d11_call_def tame_driver_def D3D11Backend_new_def tame_backend_def)

theorem d3d11_handles_balanced_witness:
  "d11_handles (fst (d11_allocate_surfaces (tame_driver 90) tame_backend 2 4 4)) = [2, 1] \<and>
   d11_handles (D3D11Backend_destroy (fst (d11_allocate_surfaces (tame_driver 90) tame_backend 2 4 4))) = []"
proof -
  let ?api = "tame_driver 90"
  have "d11_step ?api D3D11Backend_new tame_backend"
    using d11_step.initialize [of ?api D3D11Backend_new None 1 1] by (simp add: tame_initialize)
  then have "d11_reachable ?api tame_backend"
    by (rule d11_reachable.step [OF d11_reachable.new, rotated]) (simp add: D3D11Backend_new_def)
  then have r: "d11_reachable ?api (fst (d11_allocate_surfaces ?api tame_backend 2 4 4))"
    by (rule d11_reachable.step) (simp_all add: tame_backend_def D3D11Backend_new_def d11_step.allocate)
  have h: "d11_handles (fst (d11_allocate_surfaces ?api tame_backend 2 4 4)) = [2, 1]"
      "\<not> d11_crashed (fst (d11_allocate_surfaces ?api tame_backend 2 4 4))"
    by code_simp+
  from d3d11_handles_balanced [OF r h(2)] h(1) show ?thesis by blast
qed

end
