(* ===== verification/RP_D3D11_Frames.thy ===== *)
theory RP_D3D11_Frames
  imports RP_D3D11
begin

text \<open>
  What the Direct3D 11 backend shows: a frame uploaded from a driven core reaches the target and the
  read-back unchanged, and a duplicate shows it again; and two failures of the driver after which it
  does not, because an object is kept whose companion was never made.
\<close>

section \<open>Rows out of mapped memory\<close>

text \<open>The copy out of mapped memory gives the packed picture back.\<close>

lemma read_rows_prefix:
  assumes "unat w * 4 < 2 ^ 32" "length out = length px" "(unat y + k) * (unat w * 4) \<le> length px"
    and "(unat y + k) * (unat w * 4) < 2 ^ 32" "(unat y + k) * unat pitch < 2 ^ 32"
    and "\<And>j. j < unat y + k \<Longrightarrow> j * unat pitch + unat w * 4 \<le> length mem \<and>
          take (unat w * 4) (drop (j * unat pitch) mem) = take (unat w * 4) (drop (j * (unat w * 4)) px)"
    and "unat y + k < 2 ^ 32"
  shows "read_rows k y mem pitch w (take (unat y * (unat w * 4)) px @ drop (unat y * (unat w * 4)) out) =
     Some (take ((unat y + k) * (unat w * 4)) px @ drop ((unat y + k) * (unat w * 4)) out)"
  using assms
proof (induction k arbitrary: y)
  case (Suc k)
  let ?row = "unat w * 4"
  have row: "unat (w * 4) = ?row"
    using Suc.prems(1) by (simp add: unat_word_ariths)
  have y1: "unat (y + 1) = unat y + 1"
    using Suc.prems(7) by (simp add: unat_word_ariths)
  have bound: "unat y * ?row < 2 ^ 32" "unat y * unat pitch < 2 ^ 32"
    using Suc.prems(4,5) by (simp_all add: algebra_simps)
  have "unat (y * w * 4) = unat (y * (w * 4))" by (simp add: mult.assoc)
  also have "\<dots> = unat y * ?row"
    using bound(1) row by (simp add: unat_word_ariths)
  finally have o1: "unat (y * w * 4) = unat y * ?row" .
  have o2: "unat (y * pitch) = unat y * unat pitch"
    using bound(2) by (simp add: unat_word_ariths)
  have fits: "unat y * ?row + ?row \<le> length px"
    using Suc.prems(3) by (simp add: algebra_simps)
  have slice: "unat y * unat pitch + ?row \<le> length mem"
      "take ?row (drop (unat y * unat pitch) mem) = take ?row (drop (unat y * ?row) px)"
    using Suc.prems(6) [of "unat y"] by auto
  have "take (unat y * ?row) px @ take ?row (drop (unat y * ?row) px) = take (unat (y + 1) * ?row) px"
    using take_add [of "unat y * ?row" ?row px] unfolding y1 by (simp add: algebra_simps)
  then have step: "mem_copy (take (unat y * ?row) px @ drop (unat y * ?row) out) (unat y * ?row) mem
      (unat y * unat pitch) ?row = Some (take (unat (y + 1) * ?row) px @ drop (unat (y + 1) * ?row) out)"
    using fits slice Suc.prems(2) unfolding y1 by (simp add: mem_copy_def algebra_simps min_absorb2)
  have "read_rows k (y + 1) mem pitch w (take (unat (y + 1) * ?row) px @ drop (unat (y + 1) * ?row) out) =
      Some (take ((unat (y + 1) + k) * ?row) px @ drop ((unat (y + 1) + k) * ?row) out)"
    using Suc.prems by (intro Suc.IH) (simp_all add: y1)
  with step o1 o2 row show ?case by (simp add: y1)
qed simp

lemma read_rows_picture:
  assumes mem: "\<And>n. length (dx_memory api n) = n" and pitch: "unat w * 4 \<le> unat (dx_row_pitch api w)"
    and small: "unat (dx_row_pitch api w) * unat h < 2 ^ 32" and px: "length px = unat w * unat h * 4"
  shows "read_rows (unat h) 0 (pad_rows api w h px) (dx_row_pitch api w) w (replicate (unat w * unat h * 4) 0) = Some px"
proof (cases "unat h = 0")
  case False
  let ?row = "unat w * 4" and ?p = "unat (dx_row_pitch api w)"
  let ?f = "\<lambda>y. take ?row (drop (y * ?row) px) @ take (?p - ?row) (dx_memory api (?p - ?row))"
  have in_px: "y * ?row + ?row \<le> length px" if "y < unat h" for y
  proof -
    have "Suc y * ?row \<le> unat h * ?row" using that by (intro mult_le_mono1) simp
    then show ?thesis by (simp add: px algebra_simps)
  qed
  have len: "length (?f y) = ?p" if "y \<in> set [0..<unat h]" for y
    using in_px [of y] that pitch mem by simp
  have mem_len: "length (pad_rows api w h px) = unat h * ?p"
    unfolding pad_rows_def Let_def by (subst length_concat_const [of _ _ ?p]) (use len in auto)
  have slice: "j * ?p + ?row \<le> length (pad_rows api w h px) \<and>
      take ?row (drop (j * ?p) (pad_rows api w h px)) = take ?row (drop (j * ?row) px)" if j: "j < unat h" for j
  proof
    have "Suc j * ?p \<le> unat h * ?p" using j by (intro mult_le_mono1) simp
    then show "j * ?p + ?row \<le> length (pad_rows api w h px)"
      using pitch by (simp add: mem_len)
    have "take ?p (drop (j * ?p) (pad_rows api w h px)) = ?f j"
      using take_drop_concat [of "[0..<unat h]" ?f ?p j "[]"] len j by (simp add: pad_rows_def Let_def)
    then have "take ?row (take ?p (drop (j * ?p) (pad_rows api w h px))) = take ?row (?f j)"
      by simp
    then show "take ?row (drop (j * ?p) (pad_rows api w h px)) = take ?row (drop (j * ?row) px)"
      using pitch in_px [OF j] by (simp add: min_absorb1)
  qed
  have small': "unat h * ?row < 2 ^ 32" "?row < 2 ^ 32" "unat h * ?p < 2 ^ 32"
  proof -
    have "unat h * ?row \<le> ?p * unat h" using pitch by (simp add: mult.commute)
    moreover have "?row \<le> unat h * ?row" using False by simp
    ultimately show "unat h * ?row < 2 ^ 32" "?row < 2 ^ 32" using small by linarith+
    show "unat h * ?p < 2 ^ 32" using small by (simp add: mult.commute)
  qed
  have "read_rows (unat h) 0 (pad_rows api w h px) (dx_row_pitch api w) w
      (take (unat (0 :: u32) * ?row) px @ drop (unat (0 :: u32) * ?row) (replicate (unat w * unat h * 4) 0)) =
      Some (take ((unat (0 :: u32) + unat h) * ?row) px @
            drop ((unat (0 :: u32) + unat h) * ?row) (replicate (unat w * unat h * 4) 0))"
    by (rule read_rows_prefix) (use slice small' px unat_u32_bound [of h] in \<open>auto simp: ac_simps\<close>)
  then show ?thesis using px by (simp add: ac_simps)
qed (use px in simp)

section \<open>A settled backend\<close>

text \<open>A headless backend whose objects belong to the current device, have the current sizes and are
  complete: the state after initialisation, kept by every successful call.\<close>

definition d11_settled :: "D3D11Backend \<Rightarrow> bool" where
  "d11_settled b \<longleftrightarrow> d11_device b \<noteq> None \<and> \<not> d11_swapchain b \<and> \<not> d11_crashed b \<and>
     (case d11_offscreen b of None \<Rightarrow> True
      | Some t \<Rightarrow> d11_device b = Some (tx_device t) \<and> tx_w t = d11_width b \<and> tx_h t = d11_height b \<and> d11_offscreen_rtv b) \<and>
     (d11_compositor_ready b \<longrightarrow> d11_compositor b = d11_device b) \<and>
     (case d11_driven_tex b of None \<Rightarrow> \<not> d11_driven_srv b
      | Some t \<Rightarrow> d11_device b = Some (tx_device t) \<and> tx_w t = d11_driven_w b \<and> tx_h t = d11_driven_h b \<and> d11_driven_srv b)"

definition d11_ready :: "D3D11Backend \<Rightarrow> bool" where
  "d11_ready b \<longleftrightarrow> d11_settled b \<and> d11_compositor_ready b \<and> d11_offscreen b \<noteq> None"

text \<open>The picture the backend holds of the core: size and pixels.\<close>

definition d11_picture :: "D3D11Backend \<Rightarrow> (u32 \<times> u32 \<times> bytes) option" where
  "d11_picture b = (if d11_driven_srv b then map_option (\<lambda>t. (tx_w t, tx_h t, tx_px t)) (d11_driven_tex b) else None)"

lemma d11_call_fields [simp]:
  "d11_device (fst (d11_call api b)) = d11_device b" "d11_swapchain (fst (d11_call api b)) = d11_swapchain b"
  "d11_offscreen (fst (d11_call api b)) = d11_offscreen b" "d11_width (fst (d11_call api b)) = d11_width b"
  "d11_height (fst (d11_call api b)) = d11_height b" "d11_settled (fst (d11_call api b)) = d11_settled b"
  "d11_picture (fst (d11_call api b)) = d11_picture b" "d11_driven_tex (fst (d11_call api b)) = d11_driven_tex b"
  "d11_ready (fst (d11_call api b)) = d11_ready b"
  by (simp_all add: d11_call_def d11_settled_def d11_picture_def d11_ready_def split: option.split)

lemma try_calls_fields [simp]:
  "d11_device (fst (try_calls api n b)) = d11_device b \<and> d11_swapchain (fst (try_calls api n b)) = d11_swapchain b \<and>
   d11_offscreen (fst (try_calls api n b)) = d11_offscreen b \<and> d11_width (fst (try_calls api n b)) = d11_width b \<and>
   d11_height (fst (try_calls api n b)) = d11_height b \<and> d11_settled (fst (try_calls api n b)) = d11_settled b \<and>
   d11_picture (fst (try_calls api n b)) = d11_picture b \<and> d11_ready (fst (try_calls api n b)) = d11_ready b"
proof (induction n arbitrary: b)
  case (Suc n)
  then show ?case
    using Suc [of "fst (d11_call api b)"] by (simp add: split_beta)
qed simp

lemma d11_picture_updates [simp]:
  "d11_picture (b\<lparr>d11_compositor := x\<rparr>) = d11_picture b" "d11_picture (b\<lparr>d11_compositor_ready := c\<rparr>) = d11_picture b"
  by (simp_all add: d11_picture_def)

lemma d11_ensure_driven_settled:
  assumes "d11_settled b" "d11_ensure_driven api w h b = (b1, RP_OK)"
  shows "d11_settled b1 \<and> d11_width b1 = d11_width b \<and> d11_height b1 = d11_height b \<and> d11_driven_srv b1 \<and>
     (\<exists>t. d11_driven_tex b1 = Some t \<and> tx_w t = w \<and> tx_h t = h)"
  using assms
  by (auto simp: d11_ensure_driven_def d11_settled_def d11_call_def Let_def d11_crash_def
      split: option.splits if_splits)

lemma d11_upload_settled:
  assumes st: "d11_settled b" and up: "d11_upload api (Some src) w h p b = (b1, RP_OK)"
    and mem: "\<And>n. length (dx_memory api n) = n" and pitch: "unat w * 4 \<le> unat (dx_row_pitch api w)"
    and frame: "unat w * 4 < 2 ^ 32" "0 < unat w" "0 < unat h" "(unat h - 1) * unat p + unat w * 4 \<le> length src"
  shows "d11_settled b1 \<and> d11_width b1 = d11_width b \<and> d11_height b1 = d11_height b \<and>
     d11_picture b1 = Some (w, h, tight_rows (unat w * 4) (unat p) (unat h) src)"
proof -
  obtain b0 r0 where en: "d11_ensure_driven api w h b = (b0, r0)" by (meson surj_pair)
  have r0: "r0 = RP_OK" using up en by (auto simp: d11_upload_def split: if_splits)
  from d11_ensure_driven_settled [OF st en [unfolded r0]] obtain t where
    b0: "d11_settled b0" "d11_width b0 = d11_width b" "d11_height b0 = d11_height b" "d11_driven_srv b0" and
    t: "d11_driven_tex b0 = Some t" "tx_w t = w" "tx_h t = h"
    by auto
  let ?dp = "dx_row_pitch api w" and ?n = "unat (dx_row_pitch api w) * unat h"
  obtain d where d: "copy_rgba8_rows src w h p (take ?n (dx_memory api ?n)) ?dp = Some d"
    and rows: "\<And>y. y < unat h \<Longrightarrow> take (unat w * 4) (drop (y * unat ?dp) d) = take (unat w * 4) (drop (y * unat p) src)"
    using copy_rgba8_rows_slices [OF frame(1-3) pitch frame(4), of "take ?n (dx_memory api ?n)"] mem by auto
  have tight: "tight_rows (unat w * 4) (unat ?dp) (unat h) d = tight_rows (unat w * 4) (unat p) (unat h) src"
    by (rule tight_rows_cong) (rule rows)
  have "d11_device b0 \<noteq> None" using b0(1) by (simp add: d11_settled_def)
  then have "b1 = (fst (d11_call api b0))\<lparr>d11_driven_tex :=
      Some (t\<lparr>tx_px := tight_rows (unat w * 4) (unat p) (unat h) src\<rparr>)\<rparr>"
    using up en r0 t d tight by (auto simp: d11_upload_def Let_def split_beta split: if_splits)
  with b0 t show ?thesis
    by (auto simp: d11_call_def d11_settled_def d11_picture_def split: option.splits)
qed

lemma D3D11Compositor_initialize_settled:
  assumes "d11_settled b" "D3D11Compositor_initialize api b = (b1, RP_OK)" "\<not> d11_compositor_ready b"
  shows "d11_settled (b1\<lparr>d11_compositor_ready := True\<rparr>) \<and> d11_width b1 = d11_width b \<and> d11_height b1 = d11_height b \<and>
     d11_picture b1 = d11_picture b"
proof -
  obtain b0 ok where c: "try_calls api 4 (fst (d11_call api b)) = (b0, ok)" by (meson surj_pair)
  have "b1 = b0\<lparr>d11_compositor := d11_device b0\<rparr>"
    using assms c by (auto simp: D3D11Compositor_initialize_def d11_crash_def split_beta split: if_splits)
  moreover have "d11_settled b0" "d11_width b0 = d11_width b" "d11_height b0 = d11_height b" "d11_picture b0 = d11_picture b"
    using try_calls_fields [of api 4 "fst (d11_call api b)"] c assms(1) by simp_all
  ultimately show ?thesis
    by (auto simp: d11_settled_def split: option.splits)
qed

lemma ensure_offscreen_target_settled:
  assumes "d11_settled b" "d11_offscreen b = None" "ensure_offscreen_target api b = (b1, RP_OK)"
  shows "d11_settled b1 \<and> d11_offscreen b1 \<noteq> None \<and> d11_width b1 = d11_width b \<and> d11_height b1 = d11_height b \<and>
     d11_picture b1 = d11_picture b \<and> d11_compositor_ready b1 = d11_compositor_ready b"
  using assms
  by (auto simp: ensure_offscreen_target_def d11_settled_def d11_call_def d11_picture_def Let_def d11_crash_def
      split: option.splits if_splits)

lemma d11_prepare_ready:
  assumes st: "d11_settled b" and pr: "d11_prepare api out b = (b1, RP_OK)"
  shows "d11_ready b1 \<and> d11_width b1 = d11_width b \<and> d11_height b1 = d11_height b \<and> d11_picture b1 = d11_picture b"
proof -
  obtain b0 where
    b0: "d11_settled b0" "d11_compositor_ready b0" "d11_width b0 = d11_width b" "d11_height b0 = d11_height b"
      "d11_picture b0 = d11_picture b"
    and rest: "(if d11_offscreen b0 = None \<and> (\<not> d11_swapchain b0 \<or> out) then ensure_offscreen_target api b0
                else (b0, RP_OK)) = (b1, RP_OK)"
  proof (cases "d11_compositor_ready b")
    case True
    with pr st that [of b] show ?thesis by (simp add: d11_prepare_def)
  next
    case False
    obtain c r where c: "D3D11Compositor_initialize api b = (c, r)" by (meson surj_pair)
    with pr False have r: "r = RP_OK" by (auto simp: d11_prepare_def split: if_splits)
    from D3D11Compositor_initialize_settled [OF st c [unfolded r] False] pr False c r
      that [of "c\<lparr>d11_compositor_ready := True\<rparr>"]
    show ?thesis by (simp add: d11_prepare_def)
  qed
  have "\<not> d11_swapchain b0" using b0(1) by (simp add: d11_settled_def)
  with b0 rest ensure_offscreen_target_settled [OF b0(1), of api b1] show ?thesis
    by (auto simp: d11_ready_def split: if_splits)
qed

text \<open>What the composition functions hand to the compositor.\<close>

definition d11_source :: "D3D11Backend \<Rightarrow> (nat \<times> u32 \<times> u32 \<times> bytes) option" where
  "d11_source b = (case d11_driven_tex b of
       Some t \<Rightarrow> if d11_driven_srv b then Some (tx_device t, tx_w t, tx_h t, tx_px t) else None | None \<Rightarrow> None)"

lemma D3D11Compositor_render_ready:
  assumes "d11_ready b" "D3D11Compositor_render api (d11_source b) b = (b1, r)"
  shows "r = RP_OK \<and> d11_ready b1 \<and> d11_width b1 = d11_width b \<and> d11_height b1 = d11_height b \<and>
     d11_picture b1 = d11_picture b \<and>
     map_option tx_px (d11_offscreen b1) =
       Some (dx_draw api (d11_picture b) (d11_width b, d11_height b) (d11_width b) (d11_height b))"
proof -
  obtain t where t: "d11_offscreen b = Some t" "d11_device b = Some (tx_device t)" "tx_w t = d11_width b"
      "tx_h t = d11_height b" "d11_offscreen_rtv b" "\<not> d11_swapchain b" "d11_compositor b = d11_device b"
    using assms(1) by (auto simp: d11_ready_def d11_settled_def)
  have src: "(case d11_source b of None \<Rightarrow> True | Some (d, _) \<Rightarrow> d = tx_device t)"
      "map_option snd (d11_source b) = d11_picture b"
    using assms(1) t(2)
    by (auto simp: d11_source_def d11_picture_def d11_ready_def d11_settled_def split: option.splits)
  let ?px = "dx_draw api (d11_picture b) (d11_width b, d11_height b) (d11_width b) (d11_height b)"
  have "b1 = b\<lparr>d11_offscreen := Some (t\<lparr>tx_px := ?px\<rparr>)\<rparr>" "r = RP_OK"
    using assms(2) t src by (auto simp: D3D11Compositor_render_def d11_target_def d11_paint_def)
  with assms(1) t show ?thesis
    by (auto simp: d11_ready_def d11_settled_def d11_picture_def split: option.splits)
qed

lemma d11_finish_ready:
  assumes "d11_ready b" "map_option tx_px (d11_offscreen b) = Some px" "d11_finish api True b = (b1, RP_OK, img)"
    and "\<And>n. length (dx_memory api n) = n" "unat (d11_width b) * 4 \<le> unat (dx_row_pitch api (d11_width b))"
      "unat (dx_row_pitch api (d11_width b)) * unat (d11_height b) < 2 ^ 32"
      "length px = unat (d11_width b) * unat (d11_height b) * 4"
  shows "img = Some px \<and> d11_ready b1 \<and> d11_width b1 = d11_width b \<and> d11_height b1 = d11_height b \<and>
     d11_picture b1 = d11_picture b"
proof -
  obtain t where t: "d11_offscreen b = Some t" "d11_device b = Some (tx_device t)" "tx_w t = d11_width b"
      "tx_h t = d11_height b" "\<not> d11_swapchain b" "tx_px t = px"
    using assms(1,2) by (auto simp: d11_ready_def d11_settled_def)
  obtain b0 ok where c: "try_calls api 2 b = (b0, ok)" by (meson surj_pair)
  have b0: "d11_device b0 = d11_device b" "d11_offscreen b0 = d11_offscreen b" "d11_width b0 = d11_width b"
      "d11_height b0 = d11_height b" "d11_ready b0 = d11_ready b" "d11_picture b0 = d11_picture b"
    using try_calls_fields [of api 2 b] c by simp_all
  have "b1 = b0 \<and> img = Some px"
    using assms(3) t c b0 read_rows_picture [OF assms(4-7)]
    by (auto simp: d11_finish_def read_back_target_def Let_def split: if_splits)
  with b0 assms(1) show ?thesis by simp
qed

section \<open>Frames are shown\<close>

lemma d11_composite_driven_tail:
  assumes st: "d11_settled b" and pr: "d11_prepare api True b = (b1, RP_OK)"
    and run: "(case D3D11Compositor_render api (d11_source b1) b1 of (b, r) \<Rightarrow>
       if r \<noteq> RP_OK then (b, r, None) else d11_finish api True b) = (b', RP_OK, img)"
    and mem: "\<And>n. length (dx_memory api n) = n" and pitch: "unat (d11_width b) * 4 \<le> unat (dx_row_pitch api (d11_width b))"
    and small: "unat (dx_row_pitch api (d11_width b)) * unat (d11_height b) < 2 ^ 32"
    and draw: "\<And>src. length (dx_draw api src (d11_width b, d11_height b) (d11_width b) (d11_height b)) =
       unat (d11_width b) * unat (d11_height b) * 4"
  shows "img = Some (dx_draw api (d11_picture b) (d11_width b, d11_height b) (d11_width b) (d11_height b)) \<and>
     d11_settled b' \<and> d11_width b' = d11_width b \<and> d11_height b' = d11_height b \<and> d11_picture b' = d11_picture b"
proof -
  note b1 = d11_prepare_ready [OF st pr]
  obtain b2 r2 where rn: "D3D11Compositor_render api (d11_source b1) b1 = (b2, r2)" by (meson surj_pair)
  note b2 = D3D11Compositor_render_ready [OF conjunct1 [OF b1] rn]
  have fin: "d11_finish api True b2 = (b', RP_OK, img)" using run rn b2 by simp
  from d11_finish_ready [OF _ _ fin mem] b1 b2 pitch small draw show ?thesis
    by (simp add: d11_ready_def)
qed

text \<open>
  C21. On a settled backend (a device, no window; the off-screen target, the compositor and the core's texture each either
  absent or made on the current device, of the current sizes, with its view), two successful calls, one with a new frame and one with a
  duplicate, both return in the caller's buffer the picture composed from exactly the rows of that frame, whatever the pitches of the core's
  buffer and of mapped memory, and neither accesses memory out of bounds. The core's buffer covers its rows; mapped memory has the
  size asked for, its rows hold a row of the picture and its size is below \<open>2 ^ 32\<close>. It is not claimed after a view could not be created or after
  a second \<open>initialize\<close> or a resize left objects of an old device or size behind: then the backend is not settled, see
  \<open>d3d11_failed_view_overruns\<close> and \<open>d3d11_initialize_keeps_old_objects\<close>.
\<close>

theorem d3d11_shows_frame:
  assumes "d11_settled b"
    and "\<And>n. length (dx_memory api n) = n" "unat w * 4 \<le> unat (dx_row_pitch api w)"
      "unat (d11_width b) * 4 \<le> unat (dx_row_pitch api (d11_width b))"
      "unat (dx_row_pitch api (d11_width b)) * unat (d11_height b) < 2 ^ 32"
      "\<And>src. length (dx_draw api src (d11_width b, d11_height b) (d11_width b) (d11_height b)) =
         unat (d11_width b) * unat (d11_height b) * 4"
    and "unat w * 4 < 2 ^ 32" "0 < unat w" "0 < unat h" "(unat h - 1) * unat p + unat w * 4 \<le> length src"
    and "d11_composite_driven api b (Some src) w h p False True = (b1, RP_OK, img)"
    and "d11_composite_driven api b1 data w2 h2 p2 True True = (b2, RP_OK, img2)"
  shows "img = Some (dx_draw api (Some (w, h, tight_rows (unat w * 4) (unat p) (unat h) src))
       (d11_width b, d11_height b) (d11_width b) (d11_height b)) \<and>
     img2 = img \<and> \<not> d11_crashed b1 \<and> \<not> d11_crashed b2"
proof -
  have win: "\<not> d11_swapchain b" using assms(1) by (simp add: d11_settled_def)
  obtain u r where u: "d11_upload api (Some src) w h p b = (u, r)" by (meson surj_pair)
  with assms(11) win have r: "r = RP_OK" by (auto simp: d11_composite_driven_def split: if_splits)
  note up = d11_upload_settled [OF assms(1) u [unfolded r] assms(2,3,7-10)]
  obtain c rc where c: "d11_prepare api True u = (c, rc)" by (meson surj_pair)
  have rc: "rc = RP_OK" and run: "(case D3D11Compositor_render api (d11_source c) c of (b, r) \<Rightarrow>
      if r \<noteq> RP_OK then (b, r, None) else d11_finish api True b) = (b1, RP_OK, img)"
    using assms(11) win u r c by (auto simp: d11_composite_driven_def d11_source_def split: if_splits)
  have one: "img = Some (dx_draw api (d11_picture u) (d11_width u, d11_height u) (d11_width u) (d11_height u)) \<and>
      d11_settled b1 \<and> d11_width b1 = d11_width u \<and> d11_height b1 = d11_height u \<and> d11_picture b1 = d11_picture u"
    by (rule d11_composite_driven_tail [OF conjunct1 [OF up] c [unfolded rc] run]) (use up assms(2-6) in auto)
  then have win1: "\<not> d11_swapchain b1" "d11_settled b1" by (simp_all add: d11_settled_def)
  obtain c2 rc2 where c2: "d11_prepare api True b1 = (c2, rc2)" by (meson surj_pair)
  have rc2: "rc2 = RP_OK" and run2: "(case D3D11Compositor_render api (d11_source c2) c2 of (b, r) \<Rightarrow>
      if r \<noteq> RP_OK then (b, r, None) else d11_finish api True b) = (b2, RP_OK, img2)"
    using assms(12) win1 c2 by (auto simp: d11_composite_driven_def d11_source_def split: if_splits)
  have two: "img2 = Some (dx_draw api (d11_picture b1) (d11_width b1, d11_height b1) (d11_width b1) (d11_height b1)) \<and>
      d11_settled b2 \<and> d11_width b2 = d11_width b1 \<and> d11_height b2 = d11_height b1 \<and> d11_picture b2 = d11_picture b1"
    by (rule d11_composite_driven_tail [OF win1(2) c2 [unfolded rc2] run2]) (use one up assms(2-6) in auto)
  from one two up show ?thesis by (auto simp: d11_settled_def)
qed

lemma tame_first: "fst (snd (d11_composite_driven (tame_driver 90) tame_backend (Some [1, 2, 3, 4]) 1 1 4 False True)) = RP_OK"
  by code_simp

lemma tame_again: "fst (snd (d11_composite_driven (tame_driver 90)
    (fst (d11_composite_driven (tame_driver 90) tame_backend (Some [1, 2, 3, 4]) 1 1 4 False True)) None 0 0 0 True True)) = RP_OK"
  by code_simp

theorem d3d11_shows_frame_witness:
  "snd (snd (d11_composite_driven (tame_driver 90) tame_backend (Some [1, 2, 3, 4]) 1 1 4 False True)) = Some [1, 2, 3, 4]"
proof -
  let ?api = "tame_driver 90"
  have st: "d11_settled tame_backend"
    by (simp add: d11_settled_def tame_backend_def D3D11Backend_new_def)
  have law: "length (dx_memory ?api n) = n" "length (dx_draw ?api src sz w h) = unat w * unat h * 4"
    "dx_row_pitch ?api 1 = 8" for n src sz w h
    by (simp_all add: tame_driver_def)
  have dims: "d11_width tame_backend = 1" "d11_height tame_backend = 1"
    by (simp_all add: tame_backend_def)
  obtain b1 img where one: "d11_composite_driven ?api tame_backend (Some [1, 2, 3, 4]) 1 1 4 False True = (b1, RP_OK, img)"
    using tame_first by (metis prod.collapse)
  obtain b2 img2 where two: "d11_composite_driven ?api b1 None 0 0 0 True True = (b2, RP_OK, img2)"
    using tame_again one by (metis prod.collapse fst_conv)
  have "img = Some (dx_draw ?api (Some (1, 1, tight_rows (unat (1 :: u32) * 4) (unat (4 :: u32)) (unat (1 :: u32)) [1, 2, 3, 4]))
      (d11_width tame_backend, d11_height tame_backend) (d11_width tame_backend) (d11_height tame_backend))"
    by (rule d3d11_shows_frame [OF st _ _ _ _ _ _ _ _ _ one two, THEN conjunct1]) (simp_all add: law dims)
  then have "img = Some [1, 2, 3, 4]"
    by (simp add: dims tight_rows_def tame_driver_def)
  then show ?thesis by (simp add: one)
qed

section \<open>Where the code goes wrong\<close>

text \<open>
  A texture whose view could not be made is kept, with the size of the one before. The next frame of that
  earlier size is copied into the smaller texture: the copy leaves the mapped memory.
\<close>

lemma d3d11_failed_view_overruns:
  fixes api b0 b1 b2
  defines "api \<equiv> tame_driver 13"
    and "b0 \<equiv> fst (d11_initialize api D3D11Backend_new None 1 1)"
    and "b1 \<equiv> fst (d11_composite_driven api b0 (Some (replicate 12 1)) 3 1 12 False False)"
    and "b2 \<equiv> d11_composite_driven api b1 (Some (replicate 4 1)) 1 1 4 False False"
  shows "fst (snd b2) = RP_ERR_DEVICE \<and>
     d11_crashed (fst (d11_composite_driven api (fst b2) (Some (replicate 12 1)) 3 1 12 False False))"
  unfolding assms by code_simp

text \<open>
  Initialising again makes a new device but keeps the compositor and the target of the old one, so every
  later picture mixes objects of two devices.
\<close>

lemma d3d11_initialize_keeps_old_objects:
  fixes api b1 b2
  defines "api \<equiv> tame_driver 90"
    and "b1 \<equiv> fst (d11_composite_driven api tame_backend (Some [1, 2, 3, 4]) 1 1 4 False False)"
    and "b2 \<equiv> d11_initialize api b1 None 2 2"
  shows "snd b2 = RP_OK \<and> d11_device (fst b2) = Some 1 \<and> d11_compositor_ready (fst b2) \<and>
     d11_compositor (fst b2) = Some 0 \<and> map_option tx_w (d11_offscreen (fst b2)) = Some 1 \<and> d11_width (fst b2) = 2"
  unfolding assms by code_simp

text \<open>After a failed initialisation the device is null and the next composition goes through it.\<close>

lemma d3d11_crashes_after_failed_initialize:
  fixes api b1 b2
  defines "api \<equiv> tame_driver 12"
    and "b1 \<equiv> fst (d11_composite_driven api tame_backend (Some [1, 2, 3, 4]) 1 1 4 False False)"
    and "b2 \<equiv> d11_initialize api b1 None 2 2"
  shows "snd b2 = RP_ERR_DEVICE \<and> d11_crashed (fst (d11_composite_driven api (fst b2) None 0 0 0 True False))"
  unfolding assms by code_simp

end
