(* ===== verification/RP_GL.thy ===== *)
theory RP_GL
  imports RP_Pixel RP_Runtime
begin

text \<open>
  The OpenGL backend, \<open>src/render/gl/\<close>: the context with its hidden window (\<open>GLContext\<close>), the compositor's
  fullscreen triangle (\<open>GLCompositor\<close>, \<open>GLShaders.h\<close>) and the backend (\<open>GLBackend\<close>).

  Windows and the OpenGL driver are outside the sources. \<open>gl_api\<close> holds what they decide: whether the
  \<open>n\<close>-th fallible call succeeds, the addresses of entry points, the window's client area, the textures
  other contexts of the share group own, and what sampling a texture at a position gives. Positions are
  exact rationals where the source has floats. The counters at the end of a context say what the system
  holds for it: hidden windows, device contexts, GL contexts.
\<close>

section \<open>The context\<close>

text \<open>A texture: rows in the order they were uploaded, the first at \<open>v = 0\<close>.\<close>

record gl_texture =
  gt_w :: u32
  gt_h :: u32
  gt_px :: bytes

record gl_api =
  gx_ok :: "nat \<Rightarrow> bool"
  gx_wgl_proc :: "string \<Rightarrow> 64 word"
  gx_opengl32_proc :: "string \<Rightarrow> 64 word"
  gx_client_rect :: "(int \<times> int) option"
  gx_undefined :: "nat \<Rightarrow> bytes"
  gx_uniform :: "string \<Rightarrow> bool"
  gx_external :: "u32 \<Rightarrow> gl_texture option"
  gx_sample :: "gl_texture \<Rightarrow> rat \<Rightarrow> rat \<Rightarrow> bytes"

record GLContext =
  gc_hwnd :: "nat option"
  gc_owns_window :: bool
  gc_hdc :: bool
  gc_hglrc :: "nat option"
  gc_w :: u32
  gc_h :: u32
  gc_version :: "int \<times> int"
  gc_calls :: nat
  gc_next :: nat
  gc_windows :: "nat list"
  gc_dcs :: nat
  gc_contexts :: "nat list"
  gc_swaps :: nat

definition GLContext_new :: GLContext where
  "GLContext_new = \<lparr>gc_hwnd = None, gc_owns_window = False, gc_hdc = False, gc_hglrc = None, gc_w = 0, gc_h = 0,
     gc_version = (0, 0), gc_calls = 0, gc_next = 1, gc_windows = [], gc_dcs = 0, gc_contexts = [], gc_swaps = 0\<rparr>"

definition gl_call :: "gl_api \<Rightarrow> GLContext \<Rightarrow> GLContext \<times> bool" where
  "gl_call api c = (c\<lparr>gc_calls := Suc (gc_calls c)\<rparr>, gx_ok api (gc_calls c))"

definition gl_sym :: "gl_api \<Rightarrow> string \<Rightarrow> 64 word" where
  "gl_sym api name =
     (let p = gx_wgl_proc api name
      in if p = 0 \<or> p = 1 \<or> p = 2 \<or> p = 3 \<or> p = - 1 then gx_opengl32_proc api name else p)"

definition gl_entry_points :: "string list" where
  "gl_entry_points = [''glGetString'', ''glGetIntegerv'', ''glViewport'', ''glClear'', ''glClearColor'', ''glGenTextures'',
     ''glDeleteTextures'', ''glBindTexture'', ''glTexParameteri'', ''glTexImage2D'', ''glTexSubImage2D'',
     ''glPixelStorei'', ''glReadPixels'', ''glDrawArrays'', ''glGenFramebuffers'', ''glBindFramebuffer'',
     ''glFramebufferTexture2D'', ''glCheckFramebufferStatus'', ''glGenVertexArrays'', ''glBindVertexArray'',
     ''glCreateShader'', ''glShaderSource'', ''glCompileShader'', ''glGetShaderiv'', ''glGetShaderInfoLog'',
     ''glCreateProgram'', ''glAttachShader'', ''glLinkProgram'', ''glGetProgramiv'', ''glGetProgramInfoLog'',
     ''glUseProgram'', ''glDeleteShader'', ''glGetUniformLocation'', ''glUniform1i'', ''glUniform2f'',
     ''glGetTexLevelParameteriv'', ''glActiveTexture'', ''glGenRenderbuffers'', ''glBindRenderbuffer'',
     ''glRenderbufferStorage'', ''glFramebufferRenderbuffer'', ''glEnable'', ''glDisable'', ''glScissor'']"

definition make_hidden_window :: "gl_api \<Rightarrow> GLContext \<Rightarrow> GLContext \<times> nat option" where
  "make_hidden_window api c =
     (case gl_call api c of (c, ok) \<Rightarrow>
        if ok then (c\<lparr>gc_next := Suc (gc_next c), gc_windows := gc_next c # gc_windows c\<rparr>, Some (gc_next c))
        else (c, None))"

text \<open>
  \<open>load_wgl_arb\<close> makes a window, a device context and a GL context of its own, each of which may fail, looks the
  two functions up (the last call: whether both were found), and releases what it made.
\<close>

definition load_wgl_arb :: "gl_api \<Rightarrow> GLContext \<Rightarrow> GLContext \<times> bool" where
  "load_wgl_arb api c =
     (case make_hidden_window api c of
        (c, None) \<Rightarrow> (c, False)
      | (c, Some dw) \<Rightarrow>
          (case gl_call api c of (c, ddc) \<Rightarrow>
             let c = (if ddc then c\<lparr>gc_dcs := Suc (gc_dcs c)\<rparr> else c)
             in case gl_call api c of (c, ok) \<Rightarrow>
                  let drc = gc_next c;
                      c = (if ok then c\<lparr>gc_next := Suc drc, gc_contexts := drc # gc_contexts c\<rparr> else c)
                  in case gl_call api c of (c, found) \<Rightarrow>
                       let c = (if ok then c\<lparr>gc_contexts := remove1 drc (gc_contexts c)\<rparr> else c);
                           c = (if ddc then c\<lparr>gc_dcs := gc_dcs c - 1\<rparr> else c)
                       in (c\<lparr>gc_windows := remove1 dw (gc_windows c)\<rparr>, found)))"

definition gc_destroy :: "GLContext \<Rightarrow> GLContext" where
  "gc_destroy c =
     (let c = (case gc_hglrc c of None \<Rightarrow> c
               | Some rc \<Rightarrow> c\<lparr>gc_contexts := remove1 rc (gc_contexts c), gc_hglrc := None\<rparr>);
          c = (if gc_hdc c \<and> gc_hwnd c \<noteq> None then c\<lparr>gc_dcs := gc_dcs c - 1\<rparr> else c);
          c = c\<lparr>gc_hdc := False\<rparr>;
          c = (case gc_hwnd c of None \<Rightarrow> c
               | Some wnd \<Rightarrow> if gc_owns_window c then c\<lparr>gc_windows := remove1 wnd (gc_windows c)\<rparr> else c)
      in c\<lparr>gc_hwnd := None, gc_owns_window := False\<rparr>)"

definition gc_open_window :: "gl_api \<Rightarrow> nat option \<Rightarrow> GLContext \<Rightarrow> GLContext" where
  "gc_open_window api native_window c =
     (case native_window of
        Some wnd \<Rightarrow> c\<lparr>gc_hwnd := Some wnd, gc_owns_window := False\<rparr>
      | None \<Rightarrow> (case make_hidden_window api c of (c, wnd) \<Rightarrow> c\<lparr>gc_hwnd := wnd, gc_owns_window := True\<rparr>))"

definition gl_version :: "int \<Rightarrow> int \<Rightarrow> int \<times> int" where
  "gl_version major minor = (if major < 3 \<or> major = 3 \<and> minor < 3 then (3, 3) else (major, minor))"

definition gc_initialize ::
  "gl_api \<Rightarrow> nat option \<Rightarrow> u32 \<Rightarrow> u32 \<Rightarrow> int \<Rightarrow> int \<Rightarrow> nat option \<Rightarrow> GLContext \<Rightarrow> GLContext \<times> bool" where
  "gc_initialize api native_window w h major minor share_context c =
     (case load_wgl_arb api ((gc_destroy c)\<lparr>gc_w := w, gc_h := h\<rparr>) of (c, ok) \<Rightarrow>
        if \<not> ok then (c, False)
        else let c = gc_open_window api native_window c
             in if gc_hwnd c = None then (c, False)
                else case gl_call api c of (c, dc) \<Rightarrow>
                  let c = (if dc then c\<lparr>gc_hdc := True, gc_dcs := Suc (gc_dcs c)\<rparr> else c)
                  in case gl_call api c of (c, ok) \<Rightarrow> if \<not> ok then (c, False)
                else case gl_call api c of (c, ok) \<Rightarrow> if \<not> ok then (c, False)
                else case gl_call api (c\<lparr>gc_version := gl_version major minor\<rparr>) of (c, ok) \<Rightarrow> if \<not> ok then (c, False)
                else let c = c\<lparr>gc_hglrc := Some (gc_next c), gc_next := Suc (gc_next c),
                               gc_contexts := gc_next c # gc_contexts c\<rparr>
                     in case gl_call api c of (c, ok) \<Rightarrow>
                          if \<not> ok then (c, False) else (c, list_all (\<lambda>name. gl_sym api name \<noteq> 0) gl_entry_points))"

definition gc_make_current :: "gl_api \<Rightarrow> GLContext \<Rightarrow> GLContext \<times> bool" where
  "gc_make_current api c = (if gc_hdc c \<and> gc_hglrc c \<noteq> None then gl_call api c else (c, False))"

definition gc_client_size :: "gl_api \<Rightarrow> GLContext \<Rightarrow> u32 \<times> u32" where
  "gc_client_size api c =
     (case (gc_hwnd c, gx_client_rect api) of
        (Some wnd, Some (cw, ch)) \<Rightarrow> if 0 < cw \<and> 0 < ch then (of_int cw, of_int ch) else (gc_w c, gc_h c)
      | _ \<Rightarrow> (gc_w c, gc_h c))"

definition gc_present :: "GLContext \<Rightarrow> GLContext" where
  "gc_present c = (if \<not> gc_owns_window c then c\<lparr>gc_swaps := Suc (gc_swaps c)\<rparr> else c)"

section \<open>Nothing leaks\<close>

definition gc_ok :: "GLContext \<Rightarrow> bool" where
  "gc_ok c \<longleftrightarrow>
     gc_windows c = (case gc_hwnd c of Some wnd \<Rightarrow> if gc_owns_window c then [wnd] else [] | None \<Rightarrow> []) \<and>
     gc_dcs c = (if gc_hdc c then 1 else 0) \<and> (gc_hdc c \<longrightarrow> gc_hwnd c \<noteq> None) \<and>
     gc_contexts c = (case gc_hglrc c of Some rc \<Rightarrow> [rc] | None \<Rightarrow> [])"

lemma gc_ok_call [simp]: "gc_ok (fst (gl_call api c)) = gc_ok c"
  by (simp add: gl_call_def gc_ok_def split: option.split)

lemma gl_call_fields [simp]:
  "gc_hwnd (fst (gl_call api c)) = gc_hwnd c" "gc_hdc (fst (gl_call api c)) = gc_hdc c"
  "gc_hglrc (fst (gl_call api c)) = gc_hglrc c" "gc_owns_window (fst (gl_call api c)) = gc_owns_window c"
  "gc_w (fst (gl_call api c)) = gc_w c" "gc_h (fst (gl_call api c)) = gc_h c"
  by (simp_all add: gl_call_def)

lemma gc_ok_updates [simp]:
  "gc_ok (c\<lparr>gc_w := w\<rparr>) = gc_ok c" "gc_ok (c\<lparr>gc_h := h\<rparr>) = gc_ok c" "gc_ok (c\<lparr>gc_version := v\<rparr>) = gc_ok c"
  "gc_ok (c\<lparr>gc_swaps := n\<rparr>) = gc_ok c"
  by (simp_all add: gc_ok_def split: option.split)

lemma gc_destroy_ok:
  assumes "gc_ok c"
  shows "gc_ok (gc_destroy c)" "gc_windows (gc_destroy c) = []" "gc_dcs (gc_destroy c) = 0" "gc_contexts (gc_destroy c) = []"
    "gc_hwnd (gc_destroy c) = None" "\<not> gc_hdc (gc_destroy c)" "gc_hglrc (gc_destroy c) = None"
  using assms by (auto simp: gc_destroy_def gc_ok_def Let_def split: option.splits if_splits)

lemma gc_open_window_ok:
  assumes "gc_ok c" "gc_hwnd c = None" "gc_hglrc c = None"
  shows "gc_ok (gc_open_window api win c)" "\<not> gc_hdc (gc_open_window api win c)"
    "gc_hglrc (gc_open_window api win c) = None"
  using assms by (auto simp: gc_open_window_def make_hidden_window_def gc_ok_def gl_call_def split: option.splits)

text \<open>The part of initialisation after the window.\<close>

lemma gc_ok_dc: "gc_ok c \<Longrightarrow> gc_hwnd c \<noteq> None \<Longrightarrow> \<not> gc_hdc c \<Longrightarrow> gc_ok (c\<lparr>gc_hdc := True, gc_dcs := Suc (gc_dcs c)\<rparr>)"
  by (auto simp: gc_ok_def split: option.splits)

lemma gc_ok_context:
  "gc_ok c \<Longrightarrow> gc_hglrc c = None \<Longrightarrow>
     gc_ok (c\<lparr>gc_hglrc := Some k, gc_next := n, gc_contexts := k # gc_contexts c\<rparr>)"
  by (auto simp: gc_ok_def split: option.splits)

text \<open>Nothing of \<open>load_wgl_arb\<close> is left behind, wherever it fails.\<close>

lemma load_wgl_arb_releases [simp]:
  "gc_windows (fst (load_wgl_arb api c)) = gc_windows c" "gc_dcs (fst (load_wgl_arb api c)) = gc_dcs c"
  "gc_contexts (fst (load_wgl_arb api c)) = gc_contexts c" "gc_hwnd (fst (load_wgl_arb api c)) = gc_hwnd c"
  "gc_hdc (fst (load_wgl_arb api c)) = gc_hdc c" "gc_owns_window (fst (load_wgl_arb api c)) = gc_owns_window c"
  "gc_hglrc (fst (load_wgl_arb api c)) = gc_hglrc c"
  by (simp_all add: load_wgl_arb_def make_hidden_window_def gl_call_def Let_def)

lemma load_wgl_arb_ok [simp]: "gc_ok (fst (load_wgl_arb api c)) = gc_ok c"
  by (simp only: gc_ok_def load_wgl_arb_releases)

lemma gc_initialize_ok:
  assumes "gc_ok c"
  shows "gc_ok (fst (gc_initialize api win w h major minor share c))"
proof -
  define d where "d = fst (load_wgl_arb api ((gc_destroy c)\<lparr>gc_w := w, gc_h := h\<rparr>))"
  have d: "gc_ok d" "gc_hwnd d = None" "gc_hglrc d = None"
    using gc_destroy_ok [OF assms] by (simp_all add: d_def)
  define e where "e = gc_open_window api win d"
  note e = gc_open_window_ok [OF d, of api win, folded e_def]
  define f where "f = (case gl_call api e of (c, dc) \<Rightarrow> if dc then c\<lparr>gc_hdc := True, gc_dcs := Suc (gc_dcs c)\<rparr> else c)"
  have f: "gc_ok f" "gc_hglrc f = None" if "gc_hwnd e \<noteq> None"
    using that e gc_ok_dc [of "fst (gl_call api e)"] by (auto simp: f_def split_beta)
  define g where "g = fst (gl_call api ((fst (gl_call api (fst (gl_call api f))))\<lparr>gc_version := gl_version major minor\<rparr>))"
  have g: "gc_ok g" "gc_hglrc g = None" if "gc_hwnd e \<noteq> None"
    using f [OF that] by (simp_all add: g_def)
  show ?thesis
    using d e f g gc_ok_context [of g "gc_next g" "Suc (gc_next g)"]
    unfolding gc_initialize_def split_beta Let_def d_def [symmetric] e_def [symmetric]
    by (auto simp: f_def [unfolded split_beta, symmetric] g_def [symmetric])
qed

inductive gc_reachable :: "gl_api \<Rightarrow> GLContext \<Rightarrow> bool" for api where
  new: "gc_reachable api GLContext_new"
| initialize: "gc_reachable api c \<Longrightarrow> gc_reachable api (fst (gc_initialize api win w h major minor share c))"
| current: "gc_reachable api c \<Longrightarrow> gc_reachable api (fst (gc_make_current api c))"
| presented: "gc_reachable api c \<Longrightarrow> gc_reachable api (gc_present c)"
| destroyed: "gc_reachable api c \<Longrightarrow> gc_reachable api (gc_destroy c)"

lemma gc_reachable_ok: "gc_reachable api c \<Longrightarrow> gc_ok c"
proof (induction rule: gc_reachable.induct)
  case new
  then show ?case by (simp add: gc_ok_def GLContext_new_def)
qed (auto simp: gc_make_current_def gc_present_def gc_initialize_ok gc_destroy_ok)

text \<open>
  C40. However often a context is initialised, and wherever an initialisation fails, the system holds for it
  at most one hidden window, one device context and one GL context, and the destructor releases
  them all.
\<close>

theorem gl_context_balanced:
  assumes "gc_reachable api c"
  shows "length (gc_windows c) \<le> 1 \<and> gc_dcs c \<le> 1 \<and> length (gc_contexts c) \<le> 1 \<and>
     gc_windows (gc_destroy c) = [] \<and> gc_dcs (gc_destroy c) = 0 \<and> gc_contexts (gc_destroy c) = []"
proof -
  have ok: "gc_ok c" by (rule gc_reachable_ok [OF assms])
  then have "length (gc_windows c) \<le> 1" "gc_dcs c \<le> 1" "length (gc_contexts c) \<le> 1"
    by (auto simp: gc_ok_def split: option.splits)
  with gc_destroy_ok(2-4) [OF ok] show ?thesis by simp
qed

text \<open>A driver whose every call works except one.\<close>

definition tame_gl :: "nat \<Rightarrow> gl_api" where
  "tame_gl bad = \<lparr>gx_ok = (\<lambda>n. n \<noteq> bad), gx_wgl_proc = (\<lambda>p. 3), gx_opengl32_proc = (\<lambda>p. 16), gx_client_rect = None,
     gx_undefined = (\<lambda>n. replicate n 0), gx_uniform = (\<lambda>u. True), gx_external = (\<lambda>t. None),
     gx_sample = (\<lambda>t u v. take 4 (drop (4 * nat \<lfloor>u * of_nat (unat (gt_w t))\<rfloor> + 4 * unat (gt_w t) * nat \<lfloor>v * of_nat (unat (gt_h t))\<rfloor>)
        (gt_px t)))\<rparr>"

theorem gl_context_balanced_witness:
  "gc_contexts (fst (gc_initialize (tame_gl 16) None 1 1 3 3 None GLContext_new)) = [4] \<and>
   gc_windows (gc_destroy (fst (gc_initialize (tame_gl 16) None 1 1 3 3 None
     (fst (gc_initialize (tame_gl 16) None 1 1 3 3 None GLContext_new))))) = []"
proof -
  let ?c = "fst (gc_initialize (tame_gl 16) None 1 1 3 3 None (fst (gc_initialize (tame_gl 16) None 1 1 3 3 None GLContext_new)))"
  have "gc_reachable (tame_gl 16) ?c"
    by (intro gc_reachable.intros)
  moreover have "gc_contexts (fst (gc_initialize (tame_gl 16) None 1 1 3 3 None GLContext_new)) = [4]"
    by code_simp
  ultimately show ?thesis
    using gl_context_balanced [of "tame_gl 16" ?c] by simp
qed

section \<open>The compositor\<close>

text \<open>
  The vertex shader spans the viewport with a triangle whose texture coordinates run from 0 to 1 across
  it, turned upside down for pictures whose first row is the top, and scaled to the part of the texture
  that holds the picture. A fragment is taken at the centre of its pixel.
\<close>

record GLCompositor =
  cp_ready :: bool
  cp_flipV :: bool
  cp_uvScale :: bool

definition cp_initialize :: "gl_api \<Rightarrow> GLContext \<Rightarrow> GLContext \<times> GLCompositor \<times> bool" where
  "cp_initialize api c =
     (let none = \<lparr>cp_ready = False, cp_flipV = False, cp_uvScale = False\<rparr>
      in case gl_call api c of (c, ok) \<Rightarrow> if \<not> ok then (c, none, False)
         else case gl_call api c of (c, ok) \<Rightarrow> if \<not> ok then (c, none, False)
         else case gl_call api c of (c, ok) \<Rightarrow> if \<not> ok then (c, none, False)
         else (c, \<lparr>cp_ready = True, cp_flipV = gx_uniform api ''uFlipV'', cp_uvScale = gx_uniform api ''uUVScale''\<rparr>, True))"

definition frag_uv :: "bool \<Rightarrow> rat \<times> rat \<Rightarrow> u32 \<times> u32 \<Rightarrow> nat \<Rightarrow> nat \<Rightarrow> rat \<times> rat" where
  "frag_uv flipV scale vp x y =
     (let px = (of_nat x + 1 / 2) / of_nat (unat (fst vp)); py = (of_nat y + 1 / 2) / of_nat (unat (snd vp))
      in (px * fst scale, (if flipV then 1 - py else py) * snd scale))"

text \<open>\<open>glClear\<close> to opaque black and, where the viewport reaches, the sampled texture: the framebuffer from its
  bottom row up.\<close>

definition black_pixel :: bytes where
  "black_pixel = [0, 0, 0, 255]"

definition cp_draw ::
  "gl_api \<Rightarrow> GLCompositor \<Rightarrow> gl_texture option \<Rightarrow> bool \<Rightarrow> rat \<times> rat \<Rightarrow> u32 \<times> u32 \<Rightarrow> u32 \<times> u32 \<Rightarrow> bytes" where
  "cp_draw api cp tex flipV scale vp fb =
     (let flip = (if cp_flipV cp then flipV else False); sc = (if cp_uvScale cp then scale else (0, 0));
          frag = (\<lambda>y x. if x < unat (fst vp) \<and> y < unat (snd vp)
                       then (case tex of None \<Rightarrow> black_pixel
                             | Some t \<Rightarrow> (case frag_uv flip sc vp x y of (u, v) \<Rightarrow> gx_sample api t u v))
                       else black_pixel)
      in concat (map (\<lambda>y. concat (map (frag y) [0..<unat (fst fb)])) [0..<unat (snd fb)]))"

section \<open>The backend\<close>

record GLBackend =
  gb_ctx :: GLContext
  gb_comp :: GLCompositor
  gb_frame :: "gl_texture option"
  gb_fbo :: bool
  gb_fb_size :: "u32 \<times> u32"
  gb_fb_complete :: bool
  gb_width :: u32
  gb_height :: u32
  gb_headless :: bool
  gb_ready :: bool
  gb_tex_w :: u32
  gb_tex_h :: u32
  gb_window :: bytes

definition GLBackend_new :: GLBackend where
  "GLBackend_new = \<lparr>gb_ctx = GLContext_new, gb_comp = \<lparr>cp_ready = False, cp_flipV = False, cp_uvScale = False\<rparr>,
     gb_frame = None, gb_fbo = False, gb_fb_size = (0, 0), gb_fb_complete = False, gb_width = 0, gb_height = 0, gb_headless = True,
     gb_ready = False, gb_tex_w = 0, gb_tex_h = 0, gb_window = []\<rparr>"

text \<open>The headless target. A framebuffer that is found incomplete stays in place: nothing can be drawn to it.\<close>

definition gb_ensure_target :: "gl_api \<Rightarrow> GLBackend \<Rightarrow> GLBackend \<times> rp_result" where
  "gb_ensure_target api b =
     (if \<not> gb_headless b then (b, RP_OK)
      else case gl_call api (gb_ctx b) of (c, ok) \<Rightarrow>
        (b\<lparr>gb_ctx := c, gb_fbo := True, gb_fb_size := (gb_width b, gb_height b), gb_fb_complete := ok\<rparr>,
         if ok then RP_OK else RP_ERR_DEVICE))"

definition gb_initialize ::
  "gl_api \<Rightarrow> GLBackend \<Rightarrow> nat option \<Rightarrow> u32 \<Rightarrow> u32 \<Rightarrow> GLBackend \<times> rp_result" where
  "gb_initialize api b native_window w h =
     (let b = b\<lparr>gb_width := w, gb_height := h, gb_headless := (native_window = None), gb_ready := False,
                gb_frame := None, gb_fbo := False\<rparr>
      in case gc_initialize api native_window w h 3 3 None (gb_ctx b) of (c, ok) \<Rightarrow>
           if \<not> ok then (b\<lparr>gb_ctx := c\<rparr>, RP_ERR_DEVICE)
           else case gc_make_current api c of (c, ok) \<Rightarrow>
             if \<not> ok then (b\<lparr>gb_ctx := c\<rparr>, RP_ERR_DEVICE)
             else case cp_initialize api c of (c, cp, ok) \<Rightarrow>
               if \<not> ok then (b\<lparr>gb_ctx := c, gb_comp := cp\<rparr>, RP_ERR_DEVICE)
               else case gb_ensure_target api (b\<lparr>gb_ctx := c, gb_comp := cp, gb_tex_w := 0, gb_tex_h := 0\<rparr>) of (b, r) \<Rightarrow>
                 if r \<noteq> RP_OK then (b, r) else (b\<lparr>gb_ready := True\<rparr>, RP_OK))"

definition gb_allocate_surfaces ::
  "gl_api \<Rightarrow> GLBackend \<Rightarrow> u32 \<Rightarrow> u32 \<Rightarrow> u32 \<Rightarrow> GLBackend \<times> rp_result \<times> rp_surface_desc list" where
  "gb_allocate_surfaces api b num w h =
     (let b = b\<lparr>gb_width := w, gb_height := h\<rparr>
      in case gc_make_current api (gb_ctx b) of (c, ok) \<Rightarrow>
           let b = b\<lparr>gb_ctx := c\<rparr>; b = (if ok then fst (gb_ensure_target api b) else b)
           in (b, RP_OK, map (\<lambda>i. \<lparr>sd_index = of_nat i, sd_width = w, sd_height = h, sd_format = RP_FMT_R8G8B8A8_UNORM,
                                  sd_shared_handle = None, sd_generation = 0\<rparr>) [0..<unat num]))"

definition gb_composite_and_present ::
  "GLBackend \<Rightarrow> u32 \<Rightarrow> u64 \<Rightarrow> bool \<Rightarrow> bool \<Rightarrow> GLBackend \<times> rp_result \<times> bytes option" where
  "gb_composite_and_present b idx sv has_frame out_rgba = (b, RP_ERR_UNSUPPORTED, None)"

text \<open>The upload. OpenGL takes the row length in whole pixels, zero meaning the width; sizes are signed
  there, and an upload with a negative one changes nothing.\<close>

definition gl_row_stride :: "u32 \<Rightarrow> u32 \<Rightarrow> nat" where
  "gl_row_stride width pitch = (let n = unat (pitch div 4) in 4 * (if n = 0 then unat width else n))"

definition gb_upload :: "bytes \<Rightarrow> u32 \<Rightarrow> u32 \<Rightarrow> u32 \<Rightarrow> GLBackend \<Rightarrow> GLBackend" where
  "gb_upload data width height pitch b =
     (let px = tight_rows (unat width * 4) (gl_row_stride width pitch) (unat height) data;
          b = (if width < 0x80000000 \<and> height < 0x80000000
               then b\<lparr>gb_frame := Some \<lparr>gt_w = width, gt_h = height, gt_px = px\<rparr>\<rparr> else b)
      in if width \<noteq> gb_tex_w b \<or> height \<noteq> gb_tex_h b then b\<lparr>gb_tex_w := width, gb_tex_h := height\<rparr> else b)"

definition gb_viewport :: "gl_api \<Rightarrow> GLBackend \<Rightarrow> u32 \<times> u32" where
  "gb_viewport api b =
     (if gb_headless b then (gb_width b, gb_height b)
      else case gc_client_size api (gb_ctx b) of (cw, ch) \<Rightarrow>
             if cw \<noteq> 0 \<and> ch \<noteq> 0 then (cw, ch) else (gb_width b, gb_height b))"

text \<open>The end of both composition functions: \<open>draw\<close> gives the framebuffer for a size; headless, it is read back
  and turned; otherwise the window shows it. From an incomplete framebuffer nothing is read, and the
  buffer keeps the zeros it was made with; beyond the size of the target the driver decides.\<close>

definition gb_finish :: "gl_api \<Rightarrow> bool \<Rightarrow> (u32 \<times> u32 \<Rightarrow> bytes) \<Rightarrow> GLBackend \<Rightarrow> GLBackend \<times> rp_result \<times> bytes option" where
  "gb_finish api out_rgba draw b =
     (if gb_headless b \<and> out_rgba
      then let W = gb_width b; H = gb_height b; n = unat W * unat H * 4;
               px = (if gb_fbo b \<and> \<not> gb_fb_complete b then replicate n 0
                     else if gb_fbo b \<and> gb_fb_size b = (W, H) then draw (W, H) else gx_undefined api n)
           in (b, RP_OK, Some (flip_rows (unat H) (unat W * 4) px))
      else (b\<lparr>gb_ctx := gc_present (gb_ctx b),
              gb_window := (if gb_headless b then gb_window b else draw (gb_viewport api b))\<rparr>, RP_OK, None))"

definition gb_composite_driven ::
  "gl_api \<Rightarrow> GLBackend \<Rightarrow> bytes option \<Rightarrow> u32 \<Rightarrow> u32 \<Rightarrow> u32 \<Rightarrow> bool \<Rightarrow> bool \<Rightarrow>
   GLBackend \<times> rp_result \<times> bytes option" where
  "gb_composite_driven api b data width height pitch dupe out_rgba =
     (if \<not> gb_ready b then (b, RP_ERR_DEVICE, None)
      else case gc_make_current api (gb_ctx b) of (c, ok) \<Rightarrow>
        let b = b\<lparr>gb_ctx := c\<rparr>
        in if \<not> ok then (b, RP_ERR_DEVICE, None)
           else let b = (case data of Some d \<Rightarrow> if dupe then b else gb_upload d width height pitch b | None \<Rightarrow> b);
                    draw = (\<lambda>fb. if gb_tex_w b \<noteq> 0
                                 then cp_draw api (gb_comp b) (gb_frame b) True (1, 1) (gb_viewport api b) fb
                                 else cp_draw api (gb_comp b) None True (1, 1) (0, 0) fb)
                in gb_finish api out_rgba draw b)"

definition uv_scale :: "u32 \<Rightarrow> u32 \<Rightarrow> rat" where
  "uv_scale n whole = (if 0 < whole \<and> n \<le> whole then of_nat (unat n) / of_nat (unat whole) else 1)"

definition gb_composite_external_gl ::
  "gl_api \<Rightarrow> GLBackend \<Rightarrow> u32 \<Rightarrow> u32 \<Rightarrow> u32 \<Rightarrow> bool \<Rightarrow> bool \<Rightarrow> GLBackend \<times> rp_result \<times> bytes option" where
  "gb_composite_external_gl api b tex w h bottom_left_origin out_rgba =
     (if \<not> gb_ready b then (b, RP_ERR_DEVICE, None)
      else case gc_make_current api (gb_ctx b) of (c, ok) \<Rightarrow>
        let b = b\<lparr>gb_ctx := c\<rparr>
        in if \<not> ok then (b, RP_ERR_DEVICE, None)
           else let t = gx_external api tex;
                    (texW, texH) = (case t of None \<Rightarrow> (0, 0) | Some t \<Rightarrow> (gt_w t, gt_h t));
                    draw = (\<lambda>fb. cp_draw api (gb_comp b) t (\<not> bottom_left_origin) (uv_scale w texW, uv_scale h texH)
                                   (gb_viewport api b) fb)
                in gb_finish api out_rgba draw b)"

definition gl_backend :: "gl_api \<Rightarrow> GLBackend IRenderBackend" where
  "gl_backend api =
     \<lparr>be_initialize = gb_initialize api, be_allocate_surfaces = gb_allocate_surfaces api,
      be_composite_and_present = gb_composite_and_present, be_composite_driven = gb_composite_driven api,
      be_present_sync_handle = (\<lambda>b. None), be_present_consume_sync_handle = (\<lambda>b. None),
      be_present_device_uuid = (\<lambda>b. default_device_uuid), be_gl_context = (\<lambda>b. gc_hglrc (gb_ctx b)),
      be_composite_external_gl = gb_composite_external_gl api\<rparr>"

end
