(* ===== verification/RP_GL_Frames.thy ===== *)
theory RP_GL_Frames
  imports RP_GL
begin

text \<open>
  What the OpenGL backend shows, pixel for pixel, when the picture has the size of the target: the chain of
  upload, texture coordinates, sampling at pixel centres, read-back and turning is the identity on a
  driven core's frame, and turns a hardware-rendered texture the way its origin asks.
\<close>

section \<open>Pixels, rows and turning\<close>

lemma concat_slices: "concat (map (\<lambda>i. take n (drop (a + i * n) zs)) [0..<k]) = take (k * n) (drop a zs)"
proof (induction k)
  case (Suc k)
  have "take (k * n + n) (drop a zs) = take (k * n) (drop a zs) @ take n (drop (k * n) (drop a zs))"
    by (rule take_add)
  with Suc show ?case by (simp add: add.commute)
qed simp

lemma flip_rows_twice:
  assumes "length px = h * row"
  shows "flip_rows h row (flip_rows h row px) = px"
proof -
  have "take row (drop ((h - 1 - y) * row) (flip_rows h row px)) = take row (drop (0 + y * row) px)" if "y < h" for y
    using flip_rows_row [OF assms, of "h - 1 - y"] that by simp
  then have "flip_rows h row (flip_rows h row px) = concat (map (\<lambda>y. take row (drop (0 + y * row) px)) [0..<h])"
    unfolding flip_rows_def [of h row "flip_rows h row px"] by (intro arg_cong [of _ _ concat] map_cong) simp_all
  also have "\<dots> = px" using assms by (simp only: concat_slices) simp
  finally show ?thesis .
qed

text \<open>What sampling a texture at the centre of a texel gives: the texel. This is what filtering does at such
  positions, whether nearest or linear.\<close>

definition texel :: "gl_texture \<Rightarrow> nat \<Rightarrow> nat \<Rightarrow> bytes" where
  "texel t x y = take 4 (drop (4 * (y * unat (gt_w t) + x)) (gt_px t))"

definition samples_centres :: "gl_api \<Rightarrow> gl_texture \<Rightarrow> bool" where
  "samples_centres api t \<longleftrightarrow> (\<forall>x < unat (gt_w t). \<forall>y < unat (gt_h t).
     gx_sample api t ((of_nat x + 1 / 2) / of_nat (unat (gt_w t))) ((of_nat y + 1 / 2) / of_nat (unat (gt_h t))) = texel t x y)"

lemma texel_row:
  assumes "n \<le> unat (gt_w t)"
  shows "concat (map (\<lambda>x. texel t x y) [0..<n]) = take (n * 4) (drop (y * (unat (gt_w t) * 4)) (gt_px t))"
  using concat_slices [of 4 "y * (unat (gt_w t) * 4)" "gt_px t" n] by (simp add: texel_def algebra_simps)

text \<open>The texture coordinates of a pixel, for a picture that fills the viewport one to one.\<close>

lemma frag_uv_centre:
  assumes "w \<le> tw" "h \<le> th" "0 < w" "0 < h" "y < unat h"
  shows "frag_uv flip (uv_scale w tw, uv_scale h th) (w, h) x y =
     ((of_nat x + 1 / 2) / of_nat (unat tw),
      (of_nat (if flip then unat h - 1 - y else y) + 1 / 2) / of_nat (unat th))"
proof -
  have pos: "0 < unat w" "0 < unat h" "0 < tw" "0 < th"
    using assms(1-4) unfolding word_less_nat_alt word_le_nat_alt by simp_all
  then have u: "(of_nat x + 1 / 2) / of_nat (unat w) * uv_scale w tw = (of_nat x + 1 / 2) / (of_nat (unat tw) :: rat)"
    using assms(1) by (simp add: uv_scale_def del: of_nat_unat)
  have h0: "(of_nat (unat h) :: rat) \<noteq> 0" using pos(2) by (simp del: of_nat_unat)
  have v: "(of_nat y + 1 / 2) / of_nat (unat h) * uv_scale h th = (of_nat y + 1 / 2) / (of_nat (unat th) :: rat)"
    using assms(2) pos by (simp add: uv_scale_def del: of_nat_unat)
  have "(of_nat (unat h - 1 - y) :: rat) = of_nat (unat h) - 1 - of_nat y"
    using assms(5) by (simp add: of_nat_diff)
  then have "1 - (of_nat y + 1 / 2) / of_nat (unat h) = (of_nat (unat h - 1 - y) + 1 / 2) / (of_nat (unat h) :: rat)"
    using h0 by (simp add: field_simps del: of_nat_unat)
  then have fv: "(1 - (of_nat y + 1 / 2) / of_nat (unat h)) * uv_scale h th =
      (of_nat (unat h - 1 - y) + 1 / 2) / (of_nat (unat th) :: rat)"
    using assms(2) pos by (simp add: uv_scale_def del: of_nat_unat)
  from u v fv show ?thesis by (simp add: frag_uv_def Let_def)
qed

lemma cp_draw_rows:
  assumes sampled: "samples_centres api t" and cp: "cp_flipV cp" "cp_uvScale cp"
    and size: "w \<le> gt_w t" "h \<le> gt_h t" "0 < w" "0 < h"
  shows "cp_draw api cp (Some t) flip (uv_scale w (gt_w t), uv_scale h (gt_h t)) (w, h) (w, h) =
     concat (map (\<lambda>y. take (unat w * 4) (drop ((if flip then unat h - 1 - y else y) * (unat (gt_w t) * 4)) (gt_px t)))
       [0..<unat h])"
proof -
  have le: "unat w \<le> unat (gt_w t)" "unat h \<le> unat (gt_h t)"
    using size(1,2) by (simp_all add: word_le_nat_alt)
  have px: "(case frag_uv flip (uv_scale w (gt_w t), uv_scale h (gt_h t)) (w, h) x y of (u, v) \<Rightarrow> gx_sample api t u v) =
      texel t x (if flip then unat h - 1 - y else y)" if "x < unat w" "y < unat h" for x y
  proof -
    have "(if flip then unat h - 1 - y else y) < unat (gt_h t)" "x < unat (gt_w t)"
      using that le by auto
    with sampled frag_uv_centre [OF size that(2), of flip x] show ?thesis
      by (simp add: samples_centres_def)
  qed
  have row: "concat (map (\<lambda>x. if x < unat w \<and> y < unat h
        then (case frag_uv flip (uv_scale w (gt_w t), uv_scale h (gt_h t)) (w, h) x y of (u, v) \<Rightarrow> gx_sample api t u v)
        else black_pixel) [0..<unat w]) =
      take (unat w * 4) (drop ((if flip then unat h - 1 - y else y) * (unat (gt_w t) * 4)) (gt_px t))" if "y < unat h" for y
    unfolding texel_row [OF le(1), symmetric]
    using px that by (intro arg_cong [of _ _ concat] map_cong) simp_all
  show ?thesis
    unfolding cp_draw_def Let_def option.case using cp row
    by (intro arg_cong [of _ _ concat] map_cong) (simp_all del: One_nat_def)
qed

section \<open>Frames are shown\<close>

text \<open>A headless backend whose target is complete and of the current size, and whose shader has both uniforms.\<close>

definition gb_settled :: "GLBackend \<Rightarrow> bool" where
  "gb_settled b \<longleftrightarrow> gb_headless b \<and> gb_fbo b \<and> gb_fb_complete b \<and> gb_fb_size b = (gb_width b, gb_height b) \<and>
     cp_flipV (gb_comp b) \<and> cp_uvScale (gb_comp b)"

lemma uv_scale_self: "0 < n \<Longrightarrow> uv_scale n n = 1"
  by (simp add: uv_scale_def word_less_nat_alt del: of_nat_unat)

lemma length_tight_rows:
  assumes "\<And>y. y < h \<Longrightarrow> y * p + row \<le> length m"
  shows "length (tight_rows row p h m) = h * row"
proof -
  have "length (take row (drop (y * p) m)) = row" if "y < h" for y
    using assms [OF that] by simp
  then show ?thesis
    unfolding tight_rows_def by (subst length_concat_const [of _ _ row]) auto
qed

text \<open>
  C20. On a settled headless OpenGL backend (its framebuffer complete and of the current size, as a
  successful initialisation or resize leaves it, and both uniforms of the shader found), a frame of the
  display's size, below \<open>2 ^ 31\<close> both ways, that a driven core hands over comes back byte for byte, when its
  pitch is a whole number of pixels and sampling at the centre of a texel gives the texel: the upload,
  the flipped texture coordinates, the sampling and the flip of the read-back cancel.
\<close>

theorem gl_driven_pixel_exact:
  assumes "gb_settled b" "gb_composite_driven api b (Some data) w h pitch False True = (b', RP_OK, img)"
    and "gb_width b = w" "gb_height b = h" "0 < w" "0 < h" "w < 0x80000000" "h < 0x80000000"
    and "4 * (unat pitch div 4) = unat pitch" "unat w * 4 \<le> unat pitch" "unat h * unat pitch \<le> length data"
    and "samples_centres api \<lparr>gt_w = w, gt_h = h, gt_px = tight_rows (unat w * 4) (unat pitch) (unat h) data\<rparr>"
  shows "img = Some (tight_rows (unat w * 4) (unat pitch) (unat h) data)"
proof -
  let ?px = "tight_rows (unat w * 4) (unat pitch) (unat h) data"
  let ?t = "\<lparr>gt_w = w, gt_h = h, gt_px = ?px\<rparr>"
  have stride: "gl_row_stride w pitch = unat pitch"
  proof -
    have "0 < unat w" using assms(5) by (simp add: word_less_nat_alt)
    then have "0 < unat pitch div 4" using assms(10) by simp
    then show ?thesis using assms(9) by (simp add: gl_row_stride_def Let_def unat_div)
  qed
  have len: "length ?px = unat h * (unat w * 4)"
  proof (rule length_tight_rows)
    fix y assume "y < unat h"
    then have "Suc y * unat pitch \<le> unat h * unat pitch" by (intro mult_le_mono1) simp
    with assms(10,11) show "y * unat pitch + unat w * 4 \<le> length data" by simp
  qed
  let ?b = "gb_upload data w h pitch (b\<lparr>gb_ctx := fst (gc_make_current api (gb_ctx b))\<rparr>)"
  have up: "gb_frame ?b = Some ?t" "gb_tex_w ?b = w" "gb_comp ?b = gb_comp b" "gb_headless ?b" "gb_width ?b = w"
      "gb_height ?b = h" "gb_fbo ?b" "gb_fb_complete ?b" "gb_fb_size ?b = (w, h)"
    using assms(1,3-8) stride by (auto simp: gb_upload_def Let_def gb_settled_def)
  have "w \<noteq> 0" using assms(5) by auto
  then have "img = Some (flip_rows (unat h) (unat w * 4) (cp_draw api (gb_comp b) (Some ?t) True (1, 1) (w, h) (w, h)))"
    using assms(2) up
    by (auto simp: gb_composite_driven_def gb_finish_def gb_viewport_def Let_def split_beta split: if_splits)
  also have "cp_draw api (gb_comp b) (Some ?t) True (1, 1) (w, h) (w, h) = flip_rows (unat h) (unat w * 4) ?px"
    using cp_draw_rows [OF assms(12), of "gb_comp b" w h True] assms(1,5,6)
    by (simp add: uv_scale_self gb_settled_def flip_rows_def)
  finally show ?thesis by (simp add: flip_rows_twice [OF len])
qed

definition tame_gb :: "u32 \<Rightarrow> u32 \<Rightarrow> GLBackend" where
  "tame_gb w h = fst (gb_initialize (tame_gl 99) GLBackend_new None w h)"

lemma tame_gb_settled: "gb_settled (tame_gb 1 2)" "gb_width (tame_gb 1 2) = 1" "gb_height (tame_gb 1 2) = 2"
  by code_simp+

lemma tame_gb_current: "gb_ready (tame_gb 1 2)" "snd (gc_make_current (tame_gl 99) (gb_ctx (tame_gb 1 2)))"
  by code_simp+

lemma gb_composite_ok:
  assumes "gb_ready b" "snd (gc_make_current api (gb_ctx b))"
  shows "fst (snd (gb_composite_driven api b data w h p dupe out)) = RP_OK"
    "fst (snd (gb_composite_external_gl api b tex w h blo out)) = RP_OK"
  using assms
  by (simp_all add: gb_composite_driven_def gb_composite_external_gl_def gb_finish_def Let_def split_beta)

lemma tame_samples: "samples_centres (tame_gl bad) t"
proof -
  have "nat \<lfloor>(of_nat x + 1 / 2) / of_nat n * of_nat n :: rat\<rfloor> = x" if "x < n" for x n
  proof -
    have "(of_nat x + 1 / 2) / of_nat n * of_nat n = (of_nat x + 1 / 2 :: rat)" using that by simp
    moreover have "\<lfloor>of_nat x + 1 / 2 :: rat\<rfloor> = int x" by (rule floor_unique) simp_all
    ultimately show ?thesis by simp
  qed
  then show ?thesis
    by (simp add: samples_centres_def tame_gl_def texel_def algebra_simps del: of_nat_unat times_divide_eq_left)
qed

theorem gl_driven_pixel_exact_witness:
  "snd (gb_composite_driven (tame_gl 99) (tame_gb 1 2) (Some [1, 2, 3, 4, 0, 0, 0, 0, 5, 6, 7, 8, 0, 0, 0, 0]) 1 2 8 False True) =
     (RP_OK, Some [1, 2, 3, 4, 5, 6, 7, 8])"
proof -
  let ?d = "[1, 2, 3, 4, 0, 0, 0, 0, 5, 6, 7, 8, 0, 0, 0, 0] :: bytes"
  obtain b' img where run: "gb_composite_driven (tame_gl 99) (tame_gb 1 2) (Some ?d) 1 2 8 False True = (b', RP_OK, img)"
    using gb_composite_ok(1) [OF tame_gb_current] by (metis prod.collapse)
  have "img = Some (tight_rows (unat (1 :: u32) * 4) (unat (8 :: u32)) (unat (2 :: u32)) ?d)"
    by (rule gl_driven_pixel_exact [OF tame_gb_settled(1) run tame_gb_settled(2,3)]) (simp_all add: tame_samples)
  with run show ?thesis by (simp add: tight_rows_def upt_rec)
qed

text \<open>A resize that leaves the target incomplete is not reported, and every frame after it comes back as zeros, with \<open>RP_OK\<close>.\<close>

lemma gl_incomplete_target_shows_nothing:
  fixes w h num :: u32
  assumes "gb_headless b" "gb_ready b" "snd (gc_make_current api (gb_ctx b))" "\<not> gx_ok api (gc_calls (fst (gc_make_current api (gb_ctx b))))"
  defines "b' \<equiv> fst (gb_allocate_surfaces api b num w h)"
  shows "fst (snd (gb_allocate_surfaces api b num w h)) = RP_OK" "gb_ready b'" "\<not> gb_fb_complete b'" "\<not> gb_settled b'"
    "snd (gc_make_current api (gb_ctx b')) \<Longrightarrow>
       snd (gb_composite_driven api b' None cw ch pitch False True) =
         (RP_OK, Some (flip_rows (unat h) (unat w * 4) (replicate (unat w * unat h * 4) 0)))"
  using assms(1-4) unfolding b'_def
  by (simp_all add: gb_allocate_surfaces_def gb_ensure_target_def gl_call_def gb_settled_def gb_composite_driven_def
      gb_finish_def Let_def split_beta)

text \<open>With a pitch that is not a multiple of four the rows drift: the second row starts two bytes early.\<close>

lemma gl_odd_pitch_drifts:
  "map_option gt_px (gb_frame (gb_upload [1, 2, 3, 4, 0, 0, 5, 6, 7, 8, 0, 0] 1 2 6 b)) = Some [1, 2, 3, 4, 0, 0, 5, 6]"
  by (simp add: gb_upload_def gl_row_stride_def tight_rows_def upt_rec Let_def)

text \<open>
  A texture of the share group that holds a frame of the display's size in its lower corner is shown
  the right way up and nothing else of it: with a lower-left origin the frame's last row is the top row,
  otherwise the first is.
\<close>

lemma gl_external_orientation:
  assumes "gb_settled b" "gb_composite_external_gl api b tex w h blo True = (b', RP_OK, img)"
    and "gb_width b = w" "gb_height b = h" "0 < w" "0 < h" "gx_external api tex = Some t" "w \<le> gt_w t" "h \<le> gt_h t"
    and "samples_centres api t" "length (gt_px t) = unat (gt_h t) * (unat (gt_w t) * 4)"
  shows "img = Some (concat (map (\<lambda>y. take (unat w * 4)
       (drop ((if blo then unat h - 1 - y else y) * (unat (gt_w t) * 4)) (gt_px t))) [0..<unat h]))"
proof -
  let ?row = "\<lambda>flip y. take (unat w * 4) (drop ((if flip then unat h - 1 - y else y) * (unat (gt_w t) * 4)) (gt_px t))"
  let ?fb = "concat (map (?row (\<not> blo)) [0..<unat h])"
  have le: "unat w \<le> unat (gt_w t)" "unat h \<le> unat (gt_h t)"
    using assms(8,9) by (simp_all add: word_le_nat_alt)
  have len: "length (?row flip y) = unat w * 4" if "y < unat h" for y flip
  proof -
    let ?y = "if flip then unat h - 1 - y else y"
    have "Suc ?y * (unat (gt_w t) * 4) \<le> unat (gt_h t) * (unat (gt_w t) * 4)"
      using that le(2) by (intro mult_le_mono1) auto
    then show ?thesis using le(1) assms(11) by simp
  qed
  have "img = Some (flip_rows (unat h) (unat w * 4)
      (cp_draw api (gb_comp b) (Some t) (\<not> blo) (uv_scale w (gt_w t), uv_scale h (gt_h t)) (w, h) (w, h)))"
    using assms(1-4,7)
    by (auto simp: gb_composite_external_gl_def gb_finish_def gb_viewport_def gb_settled_def Let_def split_beta
        split: if_splits)
  also have "cp_draw api (gb_comp b) (Some t) (\<not> blo) (uv_scale w (gt_w t), uv_scale h (gt_h t)) (w, h) (w, h) = ?fb"
    using assms(1) by (intro cp_draw_rows assms) (simp_all add: gb_settled_def)
  also have "flip_rows (unat h) (unat w * 4) ?fb = concat (map (?row blo) [0..<unat h])"
  proof -
    have "take (unat w * 4) (drop ((unat h - 1 - y) * (unat w * 4)) ?fb) = ?row blo y" if "y < unat h" for y
      using take_drop_concat [of "[0..<unat h]" "?row (\<not> blo)" "unat w * 4" "unat h - 1 - y" "[]"] len that by auto
    then show ?thesis
      unfolding flip_rows_def by (intro arg_cong [of _ _ concat] map_cong) simp_all
  qed
  finally show ?thesis .
qed

definition shared_gl :: gl_api where
  "shared_gl = (tame_gl 99)\<lparr>gx_external := (\<lambda>tex. Some \<lparr>gt_w = 2, gt_h = 2,
     gt_px = [1, 1, 1, 1, 2, 2, 2, 2, 3, 3, 3, 3, 4, 4, 4, 4]\<rparr>)\<rparr>"

theorem gl_external_orientation_witness:
  "snd (gb_composite_external_gl shared_gl (tame_gb 1 2) 7 1 2 True True) = (RP_OK, Some [3, 3, 3, 3, 1, 1, 1, 1])"
proof -
  have "samples_centres shared_gl t" for t
    using tame_samples [of 99 t] by (simp add: shared_gl_def samples_centres_def)
  moreover have "snd (gc_make_current shared_gl (gb_ctx (tame_gb 1 2)))"
    using tame_gb_current(2) by (auto simp: shared_gl_def gc_make_current_def gl_call_def split: if_splits)
  then obtain b' img where run: "gb_composite_external_gl shared_gl (tame_gb 1 2) 7 1 2 True True = (b', RP_OK, img)"
    using gb_composite_ok(2) [OF tame_gb_current(1)] by (metis prod.collapse)
  ultimately have "img = Some (concat (map (\<lambda>y. take (unat (1 :: u32) * 4) (drop ((if True then unat (2 :: u32) - 1 - y else y) *
      (unat (2 :: u32) * 4)) [1, 1, 1, 1, 2, 2, 2, 2, 3, 3, 3, 3, 4, 4, 4, 4])) [0..<unat (2 :: u32)]))"
    using gl_external_orientation [OF tame_gb_settled(1) run tame_gb_settled(2,3),
        of "\<lparr>gt_w = 2, gt_h = 2, gt_px = [1, 1, 1, 1, 2, 2, 2, 2, 3, 3, 3, 3, 4, 4, 4, 4]\<rparr>"]
    by (simp add: shared_gl_def)
  with run show ?thesis by (simp add: upt_rec)
qed

end
