(* ===== verification/RP_Vulkan.thy ===== *)
theory RP_Vulkan
  imports RP_Runtime
begin

text \<open>
  The Vulkan backend, \<open>src/render/vulkan/\<close>: instance and device, swap chain, exported images and timeline
  semaphores, the compositor, the upload of a driven core's frame, composition, read-back and tear-down.

  The driver is outside the sources. Whether its \<open>n\<close>-th call succeeds is \<open>vk_ok\<close>; what it reports of devices,
  memory and the window is in the other fields of \<open>vk_api\<close>, as is what drawing gives (\<open>vk_draw\<close>) and what
  memory holds at first (\<open>vk_memory\<close>). An object of the driver is a number. A member variable that
  holds one is a constructor of \<open>vk_field\<close> and \<open>vb_obj\<close> maps it to the object, or to \<open>None\<close> for a null handle; kernel
  handles likewise. The last fields of the backend record what the system sees: the calls made, the
  objects and kernel handles in existence, those whose only handle was overwritten (\<open>vb_lost\<close>, \<open>vb_lost_handles\<close>), the signals
  submitted, the presents, whether something was destroyed twice, and whether a null handle was used or
  memory overrun (\<open>vb_crashed\<close>).
\<close>

section \<open>The driver\<close>

record vk_device_info =
  vd_families :: "bool list"
  vd_discrete :: bool
  vd_uuid :: bytes

record vk_surface_info =
  vs_supported :: bool
  vs_formats :: "(u32 \<times> u32) list"
  vs_current_extent :: "u32 \<times> u32"
  vs_min_extent :: "u32 \<times> u32"
  vs_max_extent :: "u32 \<times> u32"
  vs_min_images :: u32
  vs_max_images :: u32
  vs_images :: nat

datatype vk_acquire = AcquireOk nat | AcquireTimeout | AcquireFailed

record vk_api =
  vk_ok :: "nat \<Rightarrow> bool"
  vk_devices :: "vk_device_info list"
  vk_memory_types :: "u32 list"
  vk_type_bits :: "nat \<Rightarrow> u32"
  vk_surface :: vk_surface_info
  vk_acquire :: "nat \<Rightarrow> vk_acquire"
  vk_memory :: "nat \<Rightarrow> bytes"
  vk_shared :: "nat \<Rightarrow> bytes"
  vk_draw :: "(u32 \<times> u32 \<times> bytes) option \<Rightarrow> u32 \<Rightarrow> u32 \<Rightarrow> bytes"

datatype vk_field =
    FInstance | FDevice
  | FSwapSurface | FSwapchain | FSwapView nat | FPresentSem nat | FAcquireSem
  | FSurfImage nat | FSurfMem nat | FSurfView nat | FTimeline | FConsume
  | FVert | FFrag | FSetLayout | FSampler | FDescPool | FRenderPass | FCoreLayout | FPipeline | FFramebuffer
  | FOffImage | FOffMem | FOffView | FStagingBuf | FStagingMem | FPool | FFence
  | FDrivenImage | FDrivenMem | FDrivenView | FDrivenBuf | FDrivenBufMem

datatype vk_handle = HSurface nat | HSync | HConsume

record VulkanBackend =
  vb_obj :: "vk_field \<Rightarrow> nat option"
  vb_handle :: "vk_handle \<Rightarrow> nat option"
  vb_queue_family :: u32
  vb_uuid :: bytes
  vb_surfaces :: nat
  vb_surface_size :: "u32 \<times> u32"
  vb_width :: u32
  vb_height :: u32
  vb_compositor_ready :: bool
  vb_fb :: "(nat option \<times> u32 \<times> u32) option"
  vb_cmd :: bool
  vb_offscreen :: "u32 \<times> u32 \<times> bytes"
  vb_staging :: bytes
  vb_driven_w :: u32
  vb_driven_h :: u32
  vb_driven_staging :: bytes
  vb_driven_image :: "u32 \<times> u32 \<times> bytes"
  vb_swap_format :: u32
  vb_swap_extent :: "u32 \<times> u32"
  vb_swap_images :: nat
  vb_swap_px :: bytes
  vb_last_sync :: u64
  vb_calls :: nat
  vb_next :: nat
  vb_live :: "nat list"
  vb_open :: "nat list"
  vb_lost :: "nat list"
  vb_lost_handles :: "nat list"
  vb_signals :: "(vk_field \<times> u64) list"
  vb_presents :: nat
  vb_freed_twice :: bool
  vb_crashed :: bool

definition VulkanBackend_new :: VulkanBackend where
  "VulkanBackend_new = \<lparr>vb_obj = (\<lambda>_. None), vb_handle = (\<lambda>_. None), vb_queue_family = 0, vb_uuid = replicate 16 0,
     vb_surfaces = 0, vb_surface_size = (0, 0), vb_width = 0, vb_height = 0, vb_compositor_ready = False, vb_fb = None, vb_cmd = False,
     vb_offscreen = (0, 0, []), vb_staging = [], vb_driven_w = 0, vb_driven_h = 0, vb_driven_staging = [],
     vb_driven_image = (0, 0, []), vb_swap_format = 0, vb_swap_extent = (0, 0), vb_swap_images = 0, vb_swap_px = [], vb_last_sync = 0,
     vb_calls = 0, vb_next = 1, vb_live = [], vb_open = [], vb_lost = [], vb_lost_handles = [], vb_signals = [],
     vb_presents = 0, vb_freed_twice = False, vb_crashed = False\<rparr>"

definition vk_call :: "vk_api \<Rightarrow> VulkanBackend \<Rightarrow> VulkanBackend \<times> bool" where
  "vk_call api b = (b\<lparr>vb_calls := Suc (vb_calls b)\<rparr>, vk_ok api (vb_calls b))"

definition vk_crash :: "VulkanBackend \<Rightarrow> VulkanBackend" where
  "vk_crash b = b\<lparr>vb_crashed := True\<rparr>"

text \<open>A creating call that succeeds stores its result in a member, whatever was there; one that fails leaves the member.\<close>

definition vk_store :: "vk_field \<Rightarrow> VulkanBackend \<Rightarrow> VulkanBackend" where
  "vk_store f b =
     (let lost = (case vb_obj b f of None \<Rightarrow> vb_lost b | Some x \<Rightarrow> x # vb_lost b)
      in b\<lparr>vb_obj := (vb_obj b)(f := Some (vb_next b)), vb_live := vb_next b # vb_live b,
           vb_next := Suc (vb_next b), vb_lost := lost\<rparr>)"

definition vk_store_handle :: "vk_handle \<Rightarrow> VulkanBackend \<Rightarrow> VulkanBackend" where
  "vk_store_handle f b =
     (let lost = (case vb_handle b f of None \<Rightarrow> vb_lost_handles b | Some x \<Rightarrow> x # vb_lost_handles b)
      in b\<lparr>vb_handle := (vb_handle b)(f := Some (vb_next b)), vb_open := vb_next b # vb_open b,
           vb_next := Suc (vb_next b), vb_lost_handles := lost\<rparr>)"

text \<open>Destroying what a member holds, if anything, and nulling the member.\<close>

definition vk_drop :: "vk_field \<Rightarrow> VulkanBackend \<Rightarrow> VulkanBackend" where
  "vk_drop f b =
     (case vb_obj b f of None \<Rightarrow> b
      | Some x \<Rightarrow> b\<lparr>vb_obj := (vb_obj b)(f := None), vb_live := remove1 x (vb_live b),
                    vb_freed_twice := (vb_freed_twice b \<or> x \<notin> set (vb_live b))\<rparr>)"

definition vk_close :: "vk_handle \<Rightarrow> VulkanBackend \<Rightarrow> VulkanBackend" where
  "vk_close f b =
     (case vb_handle b f of None \<Rightarrow> b
      | Some x \<Rightarrow> b\<lparr>vb_handle := (vb_handle b)(f := None), vb_open := remove1 x (vb_open b),
                    vb_freed_twice := (vb_freed_twice b \<or> x \<notin> set (vb_open b))\<rparr>)"

text \<open>\<open>find_mem_type\<close>: the first memory type that the requirements allow and that has all the properties.\<close>

definition find_mem_type :: "u32 list \<Rightarrow> u32 \<Rightarrow> u32 \<Rightarrow> u32 option" where
  "find_mem_type types type_bits props =
     map_option of_nat (List.find (\<lambda>i. bit type_bits i \<and> and (types ! i) props = props) [0..<length types])"

definition DEVICE_LOCAL :: u32 where "DEVICE_LOCAL = 1"
definition HOST_VISIBLE_COHERENT :: u32 where "HOST_VISIBLE_COHERENT = 6"

text \<open>A run of checked calls: \<open>Make\<close> creates an object into a member, \<open>Share\<close> a kernel handle, \<open>Check\<close> does neither,
  \<open>Memory\<close> looks for a memory type. The run ends at the first failure.\<close>

datatype vk_cmd = Make vk_field | Share vk_handle | Check | Memory u32

fun vk_cmd_step :: "vk_api \<Rightarrow> vk_cmd \<Rightarrow> VulkanBackend \<Rightarrow> VulkanBackend \<times> bool" where
  "vk_cmd_step api (Make f) b = (case vk_call api b of (b, ok) \<Rightarrow> (if ok then vk_store f b else b, ok))"
| "vk_cmd_step api (Share f) b = (case vk_call api b of (b, ok) \<Rightarrow> (if ok then vk_store_handle f b else b, ok))"
| "vk_cmd_step api Check b = vk_call api b"
| "vk_cmd_step api (Memory props) b = (b, find_mem_type (vk_memory_types api) (vk_type_bits api (vb_calls b)) props \<noteq> None)"

fun vk_run :: "vk_api \<Rightarrow> vk_cmd list \<Rightarrow> VulkanBackend \<Rightarrow> VulkanBackend \<times> rp_result" where
  "vk_run api [] b = (b, RP_OK)"
| "vk_run api (c # cs) b =
     (case vk_cmd_step api c b of (b, ok) \<Rightarrow> if ok then vk_run api cs b else (b, RP_ERR_DEVICE))"

text \<open>Going on only after success; the second form is for operations that also return a picture.\<close>

definition vk_then ::
  "VulkanBackend \<times> rp_result \<Rightarrow> (VulkanBackend \<Rightarrow> VulkanBackend \<times> rp_result) \<Rightarrow> VulkanBackend \<times> rp_result" where
  "vk_then m f = (case m of (b, r) \<Rightarrow> if r \<noteq> RP_OK then (b, r) else f b)"

definition vk_then_out ::
  "VulkanBackend \<times> rp_result \<Rightarrow> (VulkanBackend \<Rightarrow> VulkanBackend \<times> rp_result \<times> 'o option) \<Rightarrow>
   VulkanBackend \<times> rp_result \<times> 'o option" where
  "vk_then_out m f = (case m of (b, r) \<Rightarrow> if r \<noteq> RP_OK then (b, r, None) else f b)"

section \<open>Instance and device\<close>

text \<open>\<open>pick_physical\<close>: a discrete device is preferred; a device without a graphics queue is passed over.\<close>

definition gfx_family :: "vk_device_info \<Rightarrow> u32 option" where
  "gfx_family d = map_option of_nat (List.find (\<lambda>i. vd_families d ! i) [0..<length (vd_families d)])"

fun pick_best :: "(vk_device_info \<times> u32) option \<Rightarrow> vk_device_info list \<Rightarrow> (vk_device_info \<times> u32) option" where
  "pick_best best [] = best"
| "pick_best best (d # ds) =
     (case gfx_family d of
        None \<Rightarrow> pick_best best ds
      | Some q \<Rightarrow>
          pick_best (case best of
                       None \<Rightarrow> Some (d, q)
                     | Some (b, _) \<Rightarrow> if vd_discrete d \<and> \<not> vd_discrete b then Some (d, q) else best) ds)"

definition pick_physical :: "vk_device_info list \<Rightarrow> (vk_device_info \<times> u32) option" where
  "pick_physical ds = pick_best None ds"

definition create_instance_and_device :: "vk_api \<Rightarrow> VulkanBackend \<Rightarrow> VulkanBackend \<times> rp_result" where
  "create_instance_and_device api b =
     vk_then (vk_run api [Make FInstance] b) (\<lambda>b.
       case pick_physical (vk_devices api) of
         None \<Rightarrow> (b, RP_ERR_UNSUPPORTED)
       | Some (d, q) \<Rightarrow> vk_run api [Make FDevice] (b\<lparr>vb_uuid := vd_uuid d, vb_queue_family := q\<rparr>))"

section \<open>Swap chain\<close>

definition B8G8R8A8_UNORM :: u32 where "B8G8R8A8_UNORM = 44"
definition R8G8B8A8_UNORM :: u32 where "R8G8B8A8_UNORM = 37"
definition SRGB_NONLINEAR :: u32 where "SRGB_NONLINEAR = 0"

text \<open>The choice of format: the loop over what the surface offers.\<close>

fun scan_formats :: "u32 \<times> u32 \<Rightarrow> (u32 \<times> u32) list \<Rightarrow> u32 \<times> u32" where
  "scan_formats chosen [] = chosen"
| "scan_formats chosen ((f, cs) # fs) =
     (if cs \<noteq> SRGB_NONLINEAR then scan_formats chosen fs
      else if f = B8G8R8A8_UNORM then (f, cs)
      else if f = R8G8B8A8_UNORM then scan_formats (f, cs) fs
      else scan_formats chosen fs)"

definition clamp_extent :: "u32 \<Rightarrow> u32 \<Rightarrow> u32 \<Rightarrow> u32" where
  "clamp_extent lo hi x =
     (let x = (if x < lo then lo else x); x = (if hi < x then hi else x) in if x = 0 then 1 else x)"

definition swap_extent :: "vk_surface_info \<Rightarrow> u32 \<Rightarrow> u32 \<Rightarrow> u32 \<times> u32" where
  "swap_extent si w h =
     (let (ew, eh) = (if fst (vs_current_extent si) = 0xFFFFFFFF then (w, h) else vs_current_extent si)
      in (clamp_extent (fst (vs_min_extent si)) (fst (vs_max_extent si)) ew,
          clamp_extent (snd (vs_min_extent si)) (snd (vs_max_extent si)) eh))"

definition swap_image_count :: "vk_surface_info \<Rightarrow> u32" where
  "swap_image_count si =
     (let n = (if vs_min_images si < 2 then 2 else vs_min_images si)
      in if vs_max_images si \<noteq> 0 \<and> vs_max_images si < n then vs_max_images si else n)"

definition vk_drops :: "vk_field list \<Rightarrow> VulkanBackend \<Rightarrow> VulkanBackend" where
  "vk_drops fs b = fold vk_drop fs b"

definition destroy_swapchain :: "VulkanBackend \<Rightarrow> VulkanBackend" where
  "destroy_swapchain b =
     (let n = vb_swap_images b;
          b = vk_drops ([FAcquireSem] @ map FPresentSem (rev [0..<n]) @ map FSwapView (rev [0..<n]) @ [FSwapchain]) b;
          b = (if vb_obj b FInstance \<noteq> None then vk_drop FSwapSurface b else b)
      in b\<lparr>vb_swap_images := 0, vb_swap_format := 0, vb_swap_extent := (0, 0)\<rparr>)"

definition swap_views :: "nat \<Rightarrow> vk_cmd list" where
  "swap_views n = concat (map (\<lambda>i. [Make (FSwapView i), Make (FPresentSem i)]) [0..<n]) @ [Make FAcquireSem]"

definition create_swapchain :: "vk_api \<Rightarrow> VulkanBackend \<Rightarrow> VulkanBackend \<times> rp_result" where
  "create_swapchain api b =
     (let si = vk_surface api
      in vk_then (vk_run api [Make FSwapSurface, Check] (destroy_swapchain b)) (\<lambda>b.
         if \<not> vs_supported si then (b, RP_ERR_UNSUPPORTED)
         else vk_then (vk_run api [Check] b) (\<lambda>b.
         if vs_formats si = [] then (b, RP_ERR_UNSUPPORTED)
         else vk_then (vk_run api [Check] b) (\<lambda>b.
         vk_then (vk_run api [Check]
                    (b\<lparr>vb_swap_format := fst (scan_formats (hd (vs_formats si)) (vs_formats si))\<rparr>)) (\<lambda>b.
         vk_then (vk_run api [Make FSwapchain, Check, Check]
                    (b\<lparr>vb_swap_extent := swap_extent si (vb_width b) (vb_height b)\<rparr>)) (\<lambda>b.
         vk_run api (swap_views (vs_images si)) (b\<lparr>vb_swap_images := vs_images si\<rparr>)))))))"

definition vk_initialize ::
  "vk_api \<Rightarrow> VulkanBackend \<Rightarrow> nat option \<Rightarrow> u32 \<Rightarrow> u32 \<Rightarrow> VulkanBackend \<times> rp_result" where
  "vk_initialize api b native_window w h =
     (let b = b\<lparr>vb_width := w, vb_height := h\<rparr>
      in vk_then (if vb_obj b FDevice = None then create_instance_and_device api b else (b, RP_OK)) (\<lambda>b.
         if native_window \<noteq> None then create_swapchain api b else (b, RP_OK)))"

section \<open>Shared images and timelines\<close>

definition destroy_surfaces :: "VulkanBackend \<Rightarrow> VulkanBackend" where
  "destroy_surfaces b =
     (let b = fold (\<lambda>i b. vk_close (HSurface i) (vk_drops [FSurfView i, FSurfImage i, FSurfMem i] b))
                (rev [0..<vb_surfaces b]) b;
          b = vk_close HSync (vk_drop FTimeline (b\<lparr>vb_surfaces := 0\<rparr>))
      in vk_close HConsume (vk_drop FConsume b))"

fun make_vk_surfaces ::
  "vk_api \<Rightarrow> nat \<Rightarrow> u32 \<Rightarrow> u32 \<Rightarrow> VulkanBackend \<Rightarrow> rp_surface_desc list \<Rightarrow>
   VulkanBackend \<times> rp_result \<times> rp_surface_desc list" where
  "make_vk_surfaces api 0 w h b out = (b, RP_OK, out)"
| "make_vk_surfaces api (Suc k) w h b out =
     (let i = vb_surfaces b
      in case vk_run api [Make (FSurfImage i), Memory DEVICE_LOCAL, Make (FSurfMem i), Check, Share (HSurface i),
                          Make (FSurfView i)] (b\<lparr>vb_surfaces := Suc i\<rparr>) of (b, r) \<Rightarrow>
           if r \<noteq> RP_OK then (b, r, out)
           else make_vk_surfaces api k w h b
                  (out @ [\<lparr>sd_index = of_nat i, sd_width = w, sd_height = h, sd_format = RP_FMT_R8G8B8A8_UNORM,
                           sd_shared_handle = vb_handle b (HSurface i), sd_generation = 0\<rparr>]))"

definition vk_allocate_surfaces ::
  "vk_api \<Rightarrow> VulkanBackend \<Rightarrow> u32 \<Rightarrow> u32 \<Rightarrow> u32 \<Rightarrow> VulkanBackend \<times> rp_result \<times> rp_surface_desc list" where
  "vk_allocate_surfaces api b num w h =
     (if vb_obj b FDevice = None then (b, RP_ERR_INTERNAL, [])
      else if num = 0 then (b, RP_ERR_BAD_ARG, [])
      else case vk_run api [Check] (destroy_surfaces b) of (b, r) \<Rightarrow>
        if r \<noteq> RP_OK then (b, r, [])
        else case make_vk_surfaces api (unat num) w h
                    (b\<lparr>vb_width := w, vb_height := h, vb_surface_size := (w, h)\<rparr>) [] of (b, r, out) \<Rightarrow>
          case vk_then (b, r) (\<lambda>b. vk_then (vk_run api [Make FTimeline] b) (\<lambda>b.
                 vk_run api [Share HSync, Make FConsume, Share HConsume] (b\<lparr>vb_last_sync := 0\<rparr>))) of
            (b, r) \<Rightarrow> (b, r, out))"

section \<open>The compositor and its targets\<close>

definition compositor_fields :: "vk_field list" where
  "compositor_fields = [FFramebuffer, FPipeline, FCoreLayout, FRenderPass, FDescPool, FSampler, FSetLayout, FFrag, FVert]"

definition VulkanCompositor_initialize :: "vk_api \<Rightarrow> VulkanBackend \<Rightarrow> VulkanBackend \<times> rp_result" where
  "VulkanCompositor_initialize api b =
     vk_run api [Make FVert, Make FFrag, Make FSetLayout, Make FSampler, Make FDescPool, Check, Make FRenderPass,
                 Make FCoreLayout, Make FPipeline] b"

definition picture_bytes :: "u32 \<Rightarrow> u32 \<Rightarrow> nat" where
  "picture_bytes w h = unat w * unat h * 4"

text \<open>The headless target and its staging buffer, made together when there is no target image yet.\<close>

definition ensure_offscreen :: "vk_api \<Rightarrow> VulkanBackend \<Rightarrow> VulkanBackend \<times> rp_result" where
  "ensure_offscreen api b =
     (let n = picture_bytes (vb_width b) (vb_height b)
      in vk_then (vk_run api [Make FOffImage] b) (\<lambda>b.
         vk_then (vk_run api [Memory DEVICE_LOCAL, Make FOffMem, Check, Make FOffView, Make FStagingBuf]
                    (b\<lparr>vb_offscreen := (vb_width b, vb_height b, [])\<rparr>)) (\<lambda>b.
         vk_run api [Memory HOST_VISIBLE_COHERENT, Make FStagingMem, Check]
           (b\<lparr>vb_staging := take n (vk_memory api n)\<rparr>))))"

definition ensure_commands :: "vk_api \<Rightarrow> VulkanBackend \<Rightarrow> VulkanBackend \<times> rp_result" where
  "ensure_commands api b =
     vk_then (vk_run api [Make FPool, Check] b) (\<lambda>b. vk_run api [Make FFence] (b\<lparr>vb_cmd := True\<rparr>))"

definition windowed :: "VulkanBackend \<Rightarrow> bool" where
  "windowed b \<longleftrightarrow> vb_obj b FSwapchain \<noteq> None"

definition ensure_compositor :: "vk_api \<Rightarrow> VulkanBackend \<Rightarrow> VulkanBackend \<times> rp_result" where
  "ensure_compositor api b =
     (if vb_compositor_ready b then (b, RP_OK)
      else vk_then (VulkanCompositor_initialize api b) (\<lambda>b. (b\<lparr>vb_compositor_ready := True\<rparr>, RP_OK)))"

definition ensure_composite_resources :: "vk_api \<Rightarrow> VulkanBackend \<Rightarrow> VulkanBackend \<times> rp_result" where
  "ensure_composite_resources api b =
     vk_then (ensure_compositor api b) (\<lambda>b.
     vk_then (if \<not> windowed b \<and> vb_obj b FOffImage = None then ensure_offscreen api b else (b, RP_OK)) (\<lambda>b.
     if vb_obj b FPool = None then ensure_commands api b else (b, RP_OK)))"

text \<open>\<open>VulkanCompositor::render\<close>: the framebuffer is kept while the target and its size stay the same. The commands
  it records paint the picture; a null target view is a misuse.\<close>

definition VulkanCompositor_render ::
  "vk_api \<Rightarrow> nat option \<Rightarrow> u32 \<Rightarrow> u32 \<Rightarrow> VulkanBackend \<Rightarrow> VulkanBackend \<times> rp_result" where
  "VulkanCompositor_render api target w h b =
     (let b = (if target = None then vk_crash b else b)
      in if vb_obj b FFramebuffer = None \<or> vb_fb b \<noteq> Some (target, w, h)
         then vk_then (vk_run api [Make FFramebuffer] (vk_drop FFramebuffer b)) (\<lambda>b.
                (b\<lparr>vb_fb := Some (target, w, h)\<rparr>, RP_OK))
         else (b, RP_OK))"

text \<open>Reset the fence and the command buffer and begin recording.\<close>

definition vk_begin :: "vk_api \<Rightarrow> VulkanBackend \<Rightarrow> VulkanBackend \<times> rp_result" where
  "vk_begin api b =
     vk_run api [Check, Check, Check] (if vb_obj b FFence = None \<or> \<not> vb_cmd b then vk_crash b else b)"

text \<open>The wait for the fence is the one call whose failure is a time-out.\<close>

definition vk_wait_fence :: "vk_api \<Rightarrow> VulkanBackend \<Rightarrow> VulkanBackend \<times> rp_result" where
  "vk_wait_fence api b = (case vk_call api b of (b, ok) \<Rightarrow> (b, if ok then RP_OK else RP_ERR_TIMEOUT))"

text \<open>\<open>record_offscreen_readback\<close>: the copy covers the display size, whatever the size of the target and the buffer.\<close>

definition record_offscreen_readback :: "VulkanBackend \<Rightarrow> VulkanBackend" where
  "record_offscreen_readback b =
     (let (ow, oh, px) = vb_offscreen b; n = picture_bytes (vb_width b) (vb_height b)
      in if vb_obj b FOffImage \<noteq> None \<and> vb_obj b FStagingBuf \<noteq> None \<and> vb_width b \<le> ow \<and> vb_height b \<le> oh \<and>
            n \<le> length (vb_staging b)
         then b\<lparr>vb_staging := tight_rows (unat (vb_width b) * 4) (unat ow * 4) (unat (vb_height b)) px @ drop n (vb_staging b)\<rparr>
         else vk_crash b)"

definition copy_staging_to_out :: "vk_api \<Rightarrow> VulkanBackend \<Rightarrow> VulkanBackend \<times> rp_result \<times> bytes option" where
  "copy_staging_to_out api b =
     vk_then_out (vk_run api [Check] b) (\<lambda>b.
       let n = picture_bytes (vb_width b) (vb_height b)
       in if n \<le> length (vb_staging b) then (b, RP_OK, Some (take n (vb_staging b)))
          else (vk_crash b, RP_ERR_INTERNAL, None))"

section \<open>Composition\<close>

text \<open>A picture of \<open>w \<times> h\<close> painted on the corner of a target \<open>ow\<close> wide; what lies outside is not specified.\<close>

definition place_picture :: "vk_api \<Rightarrow> u32 \<Rightarrow> u32 \<Rightarrow> u32 \<Rightarrow> bytes \<Rightarrow> bytes" where
  "place_picture api ow w h pic =
     (let row = unat w * 4; pad = unat ow * 4 - row
      in concat (map (\<lambda>y. take row (drop (y * row) pic) @ take pad (vk_memory api pad)) [0..<unat h]))"

definition paint_offscreen :: "vk_api \<Rightarrow> (u32 \<times> u32 \<times> bytes) option \<Rightarrow> VulkanBackend \<Rightarrow> VulkanBackend" where
  "paint_offscreen api src b =
     (let (ow, oh, _) = vb_offscreen b; w = vb_width b; h = vb_height b
      in if w \<le> ow \<and> h \<le> oh then b\<lparr>vb_offscreen := (ow, oh, place_picture api ow w h (vk_draw api src w h))\<rparr>
         else vk_crash b)"

definition shared_picture :: "vk_api \<Rightarrow> nat \<Rightarrow> VulkanBackend \<Rightarrow> u32 \<times> u32 \<times> bytes" where
  "shared_picture api i b =
     (fst (vb_surface_size b), snd (vb_surface_size b), vk_shared api (the (vb_obj b (FSurfImage i))))"

definition driven_picture :: "VulkanBackend \<Rightarrow> (u32 \<times> u32 \<times> bytes) option" where
  "driven_picture b =
     (if vb_obj b FDrivenView = None then None else Some (vb_driven_image b))"

text \<open>The consume signal goes to the second timeline when there are several images.\<close>

definition consume_sem :: "VulkanBackend \<Rightarrow> vk_field" where
  "consume_sem b = (if 2 \<le> vb_surfaces b \<and> vb_obj b FConsume \<noteq> None then FConsume else FTimeline)"

definition submit_signal :: "bool \<Rightarrow> u64 \<Rightarrow> VulkanBackend \<Rightarrow> VulkanBackend" where
  "submit_signal new_frame sync_value b =
     (if new_frame then b\<lparr>vb_signals := (consume_sem b, sync_value + 1) # vb_signals b\<rparr> else b)"

definition consumed :: "bool \<Rightarrow> u64 \<Rightarrow> VulkanBackend \<Rightarrow> VulkanBackend" where
  "consumed new_frame sync_value b = (if new_frame then b\<lparr>vb_last_sync := sync_value\<rparr> else b)"

definition composite_headless ::
  "vk_api \<Rightarrow> (u32 \<times> u32 \<times> bytes) option \<Rightarrow> bool \<Rightarrow> bool \<Rightarrow> u64 \<Rightarrow> bool \<Rightarrow> VulkanBackend \<Rightarrow>
   VulkanBackend \<times> rp_result \<times> bytes option" where
  "composite_headless api src readback new_frame sync_value out_rgba b =
     vk_then_out (vk_begin api b) (\<lambda>b.
     vk_then_out (VulkanCompositor_render api (vb_obj b FOffView) (vb_width b) (vb_height b) b) (\<lambda>b.
     vk_then_out (vk_run api [Check, Check] b) (\<lambda>b.
     let b = paint_offscreen api src b;
         b = submit_signal new_frame sync_value (if readback then record_offscreen_readback b else b)
     in vk_then_out (vk_wait_fence api b) (\<lambda>b.
        case (if out_rgba then copy_staging_to_out api b else (b, RP_OK, None)) of (b, r, img) \<Rightarrow>
          if r \<noteq> RP_OK then (b, r, None) else (consumed new_frame sync_value b, RP_OK, img)))))"

text \<open>The windowed half: acquire a swap image, draw, submit, present, wait.\<close>

definition composite_windowed ::
  "vk_api \<Rightarrow> (u32 \<times> u32 \<times> bytes) option \<Rightarrow> bool \<Rightarrow> u64 \<Rightarrow> VulkanBackend \<Rightarrow> VulkanBackend \<times> rp_result" where
  "composite_windowed api src new_frame sync_value b =
     (let acquired = vk_acquire api (vb_calls b); b = b\<lparr>vb_calls := Suc (vb_calls b)\<rparr>; (w, h) = vb_swap_extent b
      in case acquired of
           AcquireTimeout \<Rightarrow> (b, RP_ERR_TIMEOUT)
         | AcquireFailed \<Rightarrow> (b, RP_ERR_DEVICE)
         | AcquireOk i \<Rightarrow>
             vk_then (vk_begin api b) (\<lambda>b.
             vk_then (VulkanCompositor_render api (vb_obj b (FSwapView i)) w h b) (\<lambda>b.
             vk_then (vk_run api [Check, Check] b) (\<lambda>b.
             vk_then (vk_run api [Check] (submit_signal new_frame sync_value (b\<lparr>vb_swap_px := vk_draw api src w h\<rparr>))) (\<lambda>b.
             vk_then (vk_wait_fence api (b\<lparr>vb_presents := Suc (vb_presents b)\<rparr>)) (\<lambda>b.
             (consumed new_frame sync_value b, RP_OK)))))))"

definition vk_composite_and_present ::
  "vk_api \<Rightarrow> VulkanBackend \<Rightarrow> u32 \<Rightarrow> u64 \<Rightarrow> bool \<Rightarrow> bool \<Rightarrow> VulkanBackend \<times> rp_result \<times> bytes option" where
  "vk_composite_and_present api b idx sync_value has_frame out_rgba =
     (if vb_obj b FDevice = None then (b, RP_ERR_INTERNAL, None)
      else if has_frame \<and> vb_surfaces b \<le> unat idx then (b, RP_ERR_BAD_ARG, None)
      else if windowed b \<and> out_rgba then (b, RP_ERR_UNSUPPORTED, None)
      else vk_then_out (ensure_composite_resources api b) (\<lambda>b.
        let new_frame = has_frame \<and> vb_last_sync b < sync_value;
            src = (if has_frame then Some (shared_picture api (unat idx) b) else None)
        in if windowed b
           then vk_then_out (composite_windowed api src new_frame sync_value b) (\<lambda>b. (b, RP_OK, None))
           else composite_headless api src True new_frame sync_value out_rgba b))"

section \<open>Driven frames\<close>

definition destroy_driven :: "VulkanBackend \<Rightarrow> VulkanBackend" where
  "destroy_driven b =
     (if vb_obj b FDevice = None then b
      else (vk_drops [FDrivenView, FDrivenImage, FDrivenMem, FDrivenBuf, FDrivenBufMem] b)
             \<lparr>vb_driven_w := 0, vb_driven_h := 0\<rparr>)"

definition ensure_driven :: "vk_api \<Rightarrow> u32 \<Rightarrow> u32 \<Rightarrow> VulkanBackend \<Rightarrow> VulkanBackend \<times> rp_result" where
  "ensure_driven api width height b =
     (if vb_obj b FDrivenImage = None \<or> vb_driven_w b \<noteq> width \<or> vb_driven_h b \<noteq> height
      then let n = picture_bytes width height
           in vk_then (vk_run api [Make FDrivenImage] (destroy_driven b)) (\<lambda>b.
              vk_then (vk_run api [Memory DEVICE_LOCAL, Make FDrivenMem, Check, Make FDrivenView, Make FDrivenBuf,
                                   Memory HOST_VISIBLE_COHERENT, Make FDrivenBufMem, Check]
                         (b\<lparr>vb_driven_image := (width, height, take n (vk_memory api n))\<rparr>)) (\<lambda>b.
              (b\<lparr>vb_driven_staging := take n (vk_memory api n), vb_driven_w := width, vb_driven_h := height\<rparr>, RP_OK)))
      else (b, RP_OK))"

definition upload_driven_frame ::
  "vk_api \<Rightarrow> bytes option \<Rightarrow> u32 \<Rightarrow> u32 \<Rightarrow> u32 \<Rightarrow> VulkanBackend \<Rightarrow> VulkanBackend \<times> rp_result" where
  "upload_driven_frame api data width height pitch b =
     vk_then (ensure_driven api width height b) (\<lambda>b.
     vk_then (vk_run api [Check] b) (\<lambda>b.
     case Option.bind data (\<lambda>src. copy_rgba8_rows src width height pitch (vb_driven_staging b) (width * 4)) of
       None \<Rightarrow> (vk_crash b, RP_ERR_INTERNAL)
     | Some mem \<Rightarrow>
         vk_then (vk_begin api (b\<lparr>vb_driven_staging := mem\<rparr>)) (\<lambda>b.
         vk_then (vk_run api [Check, Check] b) (\<lambda>b.
         vk_wait_fence api (b\<lparr>vb_driven_image := (width, height, take (picture_bytes width height) mem)\<rparr>)))))"

text \<open>The driven image has no timeline: it is never a new frame of the hand-off.\<close>

definition composite_driven_headless :: "vk_api \<Rightarrow> bool \<Rightarrow> VulkanBackend \<Rightarrow> VulkanBackend \<times> rp_result \<times> bytes option" where
  "composite_driven_headless api out_rgba b = composite_headless api (driven_picture b) out_rgba False 0 out_rgba b"

definition present_driven_windowed :: "vk_api \<Rightarrow> VulkanBackend \<Rightarrow> VulkanBackend \<times> rp_result" where
  "present_driven_windowed api b = composite_windowed api (driven_picture b) False 0 b"

definition vk_composite_driven ::
  "vk_api \<Rightarrow> VulkanBackend \<Rightarrow> bytes option \<Rightarrow> u32 \<Rightarrow> u32 \<Rightarrow> u32 \<Rightarrow> bool \<Rightarrow> bool \<Rightarrow>
   VulkanBackend \<times> rp_result \<times> bytes option" where
  "vk_composite_driven api b data width height pitch dupe out_rgba =
     (if vb_obj b FDevice = None then (b, RP_ERR_INTERNAL, None)
      else if windowed b \<and> out_rgba then (b, RP_ERR_UNSUPPORTED, None)
      else vk_then_out (ensure_composite_resources api b) (\<lambda>b.
        vk_then_out (if dupe then (b, RP_OK) else upload_driven_frame api data width height pitch b) (\<lambda>b.
        if windowed b
        then vk_then_out (present_driven_windowed api b) (\<lambda>b. (b, RP_OK, None))
        else composite_driven_headless api out_rgba b)))"

section \<open>Tear-down\<close>

definition VulkanCompositor_destroy :: "VulkanBackend \<Rightarrow> VulkanBackend" where
  "VulkanCompositor_destroy b = vk_drops compositor_fields b"

definition destroy_composite :: "VulkanBackend \<Rightarrow> VulkanBackend" where
  "destroy_composite b =
     (if vb_obj b FDevice = None then b
      else let b = (vk_drops [FFence, FPool] b)\<lparr>vb_cmd := False\<rparr>;
               b = vk_drops [FStagingBuf, FStagingMem, FOffView, FOffImage, FOffMem] b
           in if vb_compositor_ready b then (VulkanCompositor_destroy b)\<lparr>vb_compositor_ready := False\<rparr> else b)"

definition VulkanBackend_destroy :: "VulkanBackend \<Rightarrow> VulkanBackend" where
  "VulkanBackend_destroy b =
     (let b = (if vb_obj b FDevice \<noteq> None
               then vk_drop FDevice (destroy_surfaces (destroy_swapchain (destroy_composite (destroy_driven b)))) else b)
      in vk_drop FInstance b)"

definition probe_vulkan_shared :: "vk_api \<Rightarrow> VulkanBackend \<times> bool" where
  "probe_vulkan_shared api =
     (case create_instance_and_device api VulkanBackend_new of (b, r) \<Rightarrow> (VulkanBackend_destroy b, r = RP_OK))"

definition vulkan_backend :: "vk_api \<Rightarrow> VulkanBackend IRenderBackend" where
  "vulkan_backend api =
     \<lparr>be_initialize = vk_initialize api, be_allocate_surfaces = vk_allocate_surfaces api,
      be_composite_and_present = vk_composite_and_present api,
      be_composite_driven = vk_composite_driven api,
      be_present_sync_handle = (\<lambda>b. vb_handle b HSync), be_present_consume_sync_handle = (\<lambda>b. vb_handle b HConsume),
      be_present_device_uuid = vb_uuid, be_gl_context = (\<lambda>b. None),
      be_composite_external_gl = default_composite_external_gl\<rparr>"

end
