(* ===== verification/RP_Vulkan_Own.thy ===== *)
theory RP_Vulkan_Own
  imports RP_Vulkan
begin

text \<open>
  Who owns what in the Vulkan backend: every object and every kernel handle the driver hands out is held by exactly one
  member until it is destroyed, once. Kernel handles are never lost, on any path; objects of the
  driver are lost only when a failed creation of the device or the compositor is tried again, and the
  destructor leaves behind only those and the parts of a compositor that was never completed.
\<close>

section \<open>Ownership\<close>

text \<open>A ledger: what members hold, what exists, what was lost.\<close>

definition ledger :: "('f \<Rightarrow> nat option) \<Rightarrow> nat list \<Rightarrow> nat list \<Rightarrow> nat \<Rightarrow> bool" where
  "ledger m live lost nxt \<longleftrightarrow>
     distinct live \<and> distinct lost \<and> set live = ran m \<union> set lost \<and> ran m \<inter> set lost = {} \<and>
     (\<forall>f g x. m f = Some x \<and> m g = Some x \<longrightarrow> f = g) \<and> (\<forall>x \<in> set live. x < nxt)"

lemma ledger_store:
  assumes "ledger m live lost nxt"
  shows "ledger (m(f := Some nxt)) (nxt # live) (case m f of None \<Rightarrow> lost | Some x \<Rightarrow> x # lost) (Suc nxt)"
proof -
  have fresh: "nxt \<notin> set live" and old: "\<forall>x \<in> ran m \<union> set lost. x < nxt"
    using assms by (auto simp: ledger_def)
  have others: "ran (m(f := Some nxt)) = insert nxt (\<Union>g \<in> UNIV - {f}. set_option (m g))"
    by (force simp: ran_def split: if_splits)
  have mine: "ran m = set_option (m f) \<union> (\<Union>g \<in> UNIV - {f}. set_option (m g))"
    by (force simp: ran_def)
  show ?thesis
  proof (cases "m f")
    case None
    then have "ran (m(f := Some nxt)) = insert nxt (ran m)"
      by (rule ran_map_upd)
    with None assms fresh old show ?thesis
      by (auto simp: ledger_def ranI less_SucI)
  next
    case (Some x)
    then have "x \<notin> (\<Union>g \<in> UNIV - {f}. set_option (m g))"
      using assms by (auto simp: ledger_def elem_set)
    with Some assms fresh old others mine show ?thesis
      by (auto simp: ledger_def ranI less_SucI)
  qed
qed

lemma ledger_drop:
  assumes "ledger m live lost nxt" "m f = Some x"
  shows "ledger (m(f := None)) (remove1 x live) lost nxt" "x \<in> set live"
proof -
  have "ran (m(f := None)) = ran m - {x}"
  proof (intro set_eqI iffI)
    fix y assume "y \<in> ran m - {x}"
    then obtain g where "m g = Some y" "y \<noteq> x"
      by (auto simp: ran_def)
    with assms(2) show "y \<in> ran (m(f := None))"
      by (intro ranI [of _ g]) auto
  qed (use assms in \<open>auto simp: ledger_def ran_def split: if_splits\<close>)
  moreover have "x \<notin> set lost"
    using ranI [of m f x] assms by (auto simp: ledger_def)
  ultimately show "ledger (m(f := None)) (remove1 x live) lost nxt" "x \<in> set live"
    using assms by (auto simp: ledger_def ranI set_remove1_eq)
qed

lemma ledger_mono: "ledger m live lost n \<Longrightarrow> n \<le> k \<Longrightarrow> ledger m live lost k"
  unfolding ledger_def by (meson order.strict_trans2)

definition vk_books :: "VulkanBackend \<Rightarrow> bool" where
  "vk_books b \<longleftrightarrow>
     ledger (vb_obj b) (vb_live b) (vb_lost b) (vb_next b) \<and>
     ledger (vb_handle b) (vb_open b) (vb_lost_handles b) (vb_next b) \<and> \<not> vb_freed_twice b"

lemma vk_books_new: "vk_books VulkanBackend_new"
  by (simp add: vk_books_def VulkanBackend_new_def ledger_def)

lemma vk_books_store: "vk_books b \<Longrightarrow> vk_books (vk_store f b)"
  using ledger_store [of "vb_obj b" "vb_live b" "vb_lost b" "vb_next b" f]
  by (simp add: vk_books_def vk_store_def Let_def ledger_mono [of "vb_handle b" _ _ "vb_next b"])

lemma vk_books_store_handle: "vk_books b \<Longrightarrow> vk_books (vk_store_handle f b)"
  using ledger_store [of "vb_handle b" "vb_open b" "vb_lost_handles b" "vb_next b" f]
  by (simp add: vk_books_def vk_store_handle_def Let_def ledger_mono [of "vb_obj b" _ _ "vb_next b"])

lemma vk_books_drop: "vk_books b \<Longrightarrow> vk_books (vk_drop f b)"
  by (cases "vb_obj b f") (auto simp: vk_books_def vk_drop_def dest: ledger_drop)

lemma vk_books_close: "vk_books b \<Longrightarrow> vk_books (vk_close f b)"
  by (cases "vb_handle b f") (auto simp: vk_books_def vk_close_def dest: ledger_drop)

lemma vk_books_updates [simp]:
  "vk_books (b\<lparr>vb_queue_family := v1\<rparr>) = vk_books b" "vk_books (b\<lparr>vb_uuid := v2\<rparr>) = vk_books b"
  "vk_books (b\<lparr>vb_surfaces := v3\<rparr>) = vk_books b" "vk_books (b\<lparr>vb_surface_size := v4\<rparr>) = vk_books b"
  "vk_books (b\<lparr>vb_width := v5\<rparr>) = vk_books b" "vk_books (b\<lparr>vb_height := v6\<rparr>) = vk_books b"
  "vk_books (b\<lparr>vb_compositor_ready := v7\<rparr>) = vk_books b" "vk_books (b\<lparr>vb_fb := v8\<rparr>) = vk_books b"
  "vk_books (b\<lparr>vb_cmd := v9\<rparr>) = vk_books b" "vk_books (b\<lparr>vb_offscreen := v10\<rparr>) = vk_books b"
  "vk_books (b\<lparr>vb_staging := v11\<rparr>) = vk_books b" "vk_books (b\<lparr>vb_driven_w := v12\<rparr>) = vk_books b"
  "vk_books (b\<lparr>vb_driven_h := v13\<rparr>) = vk_books b" "vk_books (b\<lparr>vb_driven_staging := v14\<rparr>) = vk_books b"
  "vk_books (b\<lparr>vb_driven_image := v15\<rparr>) = vk_books b" "vk_books (b\<lparr>vb_swap_format := v16\<rparr>) = vk_books b"
  "vk_books (b\<lparr>vb_swap_extent := v17\<rparr>) = vk_books b" "vk_books (b\<lparr>vb_swap_images := v18\<rparr>) = vk_books b"
  "vk_books (b\<lparr>vb_swap_px := v19\<rparr>) = vk_books b" "vk_books (b\<lparr>vb_last_sync := v20\<rparr>) = vk_books b"
  "vk_books (b\<lparr>vb_calls := v21\<rparr>) = vk_books b" "vk_books (b\<lparr>vb_signals := v22\<rparr>) = vk_books b"
  "vk_books (b\<lparr>vb_presents := v23\<rparr>) = vk_books b" "vk_books (b\<lparr>vb_crashed := v24\<rparr>) = vk_books b"
  by (simp_all add: vk_books_def)

text \<open>What a run of calls leaves alone.\<close>

lemma vk_cmd_step_books: "vk_books b \<Longrightarrow> vk_books (fst (vk_cmd_step api c b))"
  by (cases c) (simp_all add: vk_call_def vk_books_store vk_books_store_handle)

lemma vk_store_fields:
  "vb_obj (vk_store f b) = (vb_obj b)(f := Some (vb_next b))" "vb_handle (vk_store f b) = vb_handle b"
  "vb_lost_handles (vk_store f b) = vb_lost_handles b"
  "vb_handle (vk_store_handle h b) = (vb_handle b)(h := Some (vb_next b))" "vb_obj (vk_store_handle h b) = vb_obj b"
  "vb_handle b h = None \<Longrightarrow> vb_lost_handles (vk_store_handle h b) = vb_lost_handles b"
  by (simp_all add: vk_store_def vk_store_handle_def Let_def)

lemma vk_cmd_step_tables:
  "c \<noteq> Make f \<Longrightarrow> vb_obj (fst (vk_cmd_step api c b)) f = vb_obj b f"
  "vb_obj b f \<noteq> None \<Longrightarrow> vb_obj (fst (vk_cmd_step api c b)) f \<noteq> None"
  "c \<noteq> Share h \<Longrightarrow> vb_handle (fst (vk_cmd_step api c b)) h = vb_handle b h"
  "(\<And>h. c = Share h \<Longrightarrow> vb_handle b h = None) \<Longrightarrow> vb_lost_handles (fst (vk_cmd_step api c b)) = vb_lost_handles b"
  "snd (vk_cmd_step api (Make f) b) \<Longrightarrow> vb_obj (fst (vk_cmd_step api (Make f) b)) f \<noteq> None"
  by (cases c; simp add: vk_call_def vk_store_fields)+

text \<open>The members that are not handles.\<close>

definition vk_plain :: "VulkanBackend \<Rightarrow> VulkanBackend" where
  "vk_plain b = b\<lparr>vb_obj := (\<lambda>_. None), vb_handle := (\<lambda>_. None), vb_calls := 0, vb_next := 0, vb_live := [], vb_open := [],
     vb_lost := [], vb_lost_handles := [], vb_freed_twice := False\<rparr>"

lemma vk_cmd_step_plain: "vk_plain (fst (vk_cmd_step api c b)) = vk_plain b"
  by (cases c) (simp_all add: vk_call_def vk_store_def vk_store_handle_def vk_plain_def Let_def)

lemma vk_run_Cons:
  "vk_run api (c # cs) b =
     (if snd (vk_cmd_step api c b) then vk_run api cs (fst (vk_cmd_step api c b)) else (fst (vk_cmd_step api c b), RP_ERR_DEVICE))"
  by (simp add: split_beta)

lemma vk_run_books: "vk_books b \<Longrightarrow> vk_books (fst (vk_run api cs b))"
  by (induction cs arbitrary: b) (simp_all add: vk_run_Cons vk_cmd_step_books del: vk_run.simps(2))

lemma vk_run_plain: "vk_plain (fst (vk_run api cs b)) = vk_plain b"
  by (induction cs arbitrary: b) (simp_all add: vk_run_Cons vk_cmd_step_plain del: vk_run.simps(2))

lemma vk_run_tables:
  "Make f \<notin> set cs \<Longrightarrow> vb_obj (fst (vk_run api cs b)) f = vb_obj b f"
  "vb_obj b f \<noteq> None \<Longrightarrow> vb_obj (fst (vk_run api cs b)) f \<noteq> None"
  "Share h \<notin> set cs \<Longrightarrow> vb_handle (fst (vk_run api cs b)) h = vb_handle b h"
proof (induction cs arbitrary: b)
  case (Cons c cs)
  { case (1 b)
    then have "c \<noteq> Make f" by auto
    with 1 Cons.IH(1) vk_cmd_step_tables(1) [OF this] show ?case by (simp add: vk_run_Cons del: vk_run.simps(2)) }
  { case (2 b)
    with Cons.IH(2) vk_cmd_step_tables(2) [OF 2] show ?case by (simp add: vk_run_Cons del: vk_run.simps(2)) }
  { case (3 b)
    then have "c \<noteq> Share h" by auto
    with 3 Cons.IH(3) vk_cmd_step_tables(3) [OF this] show ?case by (simp add: vk_run_Cons del: vk_run.simps(2)) }
qed simp_all

lemma vk_run_lost:
  assumes "distinct (filter (\<lambda>c. \<exists>h. c = Share h) cs)" "\<And>h. Share h \<in> set cs \<Longrightarrow> vb_handle b h = None"
  shows "vb_lost_handles (fst (vk_run api cs b)) = vb_lost_handles b"
  using assms
proof (induction cs arbitrary: b)
  case (Cons c cs)
  have "vb_lost_handles (fst (vk_cmd_step api c b)) = vb_lost_handles b"
    using Cons.prems(2) by (intro vk_cmd_step_tables(4)) auto
  moreover have "vb_handle (fst (vk_cmd_step api c b)) h = None" if "Share h \<in> set cs" for h
  proof -
    have "c \<noteq> Share h"
      using Cons.prems(1) that by auto
    with that Cons.prems(2) vk_cmd_step_tables(3) show ?thesis by simp
  qed
  ultimately show ?case
    using Cons by (auto simp: vk_run_Cons simp del: vk_run.simps(2) split: if_splits)
qed simp

lemma vk_run_made:
  "snd (vk_run api cs b) = RP_OK \<Longrightarrow> Make f \<in> set cs \<Longrightarrow> vb_obj (fst (vk_run api cs b)) f \<noteq> None"
proof (induction cs arbitrary: b)
  case (Cons c cs)
  then show ?case
    using vk_cmd_step_tables(5) [of api f b] vk_run_tables(2) [of "fst (vk_cmd_step api c b)" f api cs]
    by (auto simp: vk_run_Cons simp del: vk_run.simps(2) split: if_splits)
qed simp

lemma vk_plain_fields [simp]:
  "vb_surfaces (vk_plain b) = vb_surfaces b" "vb_swap_images (vk_plain b) = vb_swap_images b"
  "vb_compositor_ready (vk_plain b) = vb_compositor_ready b" "vb_width (vk_plain b) = vb_width b"
  "vb_height (vk_plain b) = vb_height b"
  by (simp_all add: vk_plain_def)

lemma vk_run_fields [simp]:
  "vb_surfaces (fst (vk_run api cs b)) = vb_surfaces b" "vb_swap_images (fst (vk_run api cs b)) = vb_swap_images b"
  "vb_compositor_ready (fst (vk_run api cs b)) = vb_compositor_ready b"
  "vb_width (fst (vk_run api cs b)) = vb_width b" "vb_height (fst (vk_run api cs b)) = vb_height b"
  using vk_run_plain [of api cs b] by (metis vk_plain_fields)+

section \<open>Which members can hold something\<close>

fun field_fits :: "nat \<Rightarrow> nat \<Rightarrow> vk_field \<Rightarrow> bool" where
  "field_fits surfaces images (FSurfImage i) = (i < surfaces)"
| "field_fits surfaces images (FSurfMem i) = (i < surfaces)"
| "field_fits surfaces images (FSurfView i) = (i < surfaces)"
| "field_fits surfaces images (FSwapView i) = (i < images)"
| "field_fits surfaces images (FPresentSem i) = (i < images)"
| "field_fits surfaces images f = True"

fun handle_fits :: "nat \<Rightarrow> vk_handle \<Rightarrow> bool" where
  "handle_fits surfaces (HSurface i) = (i < surfaces)"
| "handle_fits surfaces h = True"

definition vk_shape :: "VulkanBackend \<Rightarrow> bool" where
  "vk_shape b \<longleftrightarrow>
     vk_books b \<and> vb_lost_handles b = [] \<and>
     (\<forall>f. vb_obj b f \<noteq> None \<longrightarrow> field_fits (vb_surfaces b) (vb_swap_images b) f) \<and> (\<forall>h. vb_handle b h \<noteq> None \<longrightarrow> handle_fits (vb_surfaces b) h) \<and>
     (vb_obj b FDevice = None \<longrightarrow> (\<forall>f. f \<noteq> FInstance \<longrightarrow> vb_obj b f = None) \<and> (\<forall>h. vb_handle b h = None)) \<and>
     (vb_obj b FDevice \<noteq> None \<longrightarrow> vb_obj b FInstance \<noteq> None)"

definition vk_up :: "VulkanBackend \<Rightarrow> bool" where
  "vk_up b \<longleftrightarrow> vk_shape b \<and> vb_obj b FDevice \<noteq> None"

lemma vk_up_iff:
  "vk_up b \<longleftrightarrow> vk_books b \<and> vb_lost_handles b = [] \<and> (\<forall>f. vb_obj b f \<noteq> None \<longrightarrow> field_fits (vb_surfaces b) (vb_swap_images b) f) \<and>
     (\<forall>h. vb_handle b h \<noteq> None \<longrightarrow> handle_fits (vb_surfaces b) h) \<and> vb_obj b FDevice \<noteq> None \<and> vb_obj b FInstance \<noteq> None"
  unfolding vk_up_def vk_shape_def by blast

lemma vk_up_run:
  assumes "vk_up b" "\<And>f. Make f \<in> set cs \<Longrightarrow> field_fits (vb_surfaces b) (vb_swap_images b) f"
    and "\<And>h. Share h \<in> set cs \<Longrightarrow> vb_handle b h = None \<and> handle_fits (vb_surfaces b) h"
    and "distinct (filter (\<lambda>c. \<exists>h. c = Share h) cs)"
  shows "vk_up (fst (vk_run api cs b))"
proof -
  let ?b = "fst (vk_run api cs b)"
  have dev: "vb_obj ?b FDevice \<noteq> None" "vb_obj ?b FInstance \<noteq> None"
    using assms(1) by (auto simp: vk_up_def vk_shape_def intro!: vk_run_tables(2) simp del: not_None_eq)
  have "field_fits (vb_surfaces b) (vb_swap_images b) f" if "vb_obj ?b f \<noteq> None" for f
    using that assms(1,2) vk_run_tables(1) [of f cs api b] by (cases "Make f \<in> set cs") (auto simp: vk_up_def vk_shape_def)
  moreover have "handle_fits (vb_surfaces b) h" if "vb_handle ?b h \<noteq> None" for h
    using that assms(1,3) vk_run_tables(3) [of h cs api b] by (cases "Share h \<in> set cs") (auto simp: vk_up_def vk_shape_def)
  moreover have "vb_lost_handles ?b = vb_lost_handles b"
    using assms(3,4) by (intro vk_run_lost) auto
  ultimately show ?thesis
    using assms(1) dev vk_run_books [of b api cs]
    unfolding vk_up_iff by simp
qed

lemma vk_drop_fields:
  "vb_surfaces (vk_drop f b) = vb_surfaces b" "vb_swap_images (vk_drop f b) = vb_swap_images b"
  "vb_obj (vk_drop f b) = (vb_obj b)(f := None)" "vb_handle (vk_drop f b) = vb_handle b"
  "vb_lost_handles (vk_drop f b) = vb_lost_handles b" "vb_lost (vk_drop f b) = vb_lost b"
  "vb_compositor_ready (vk_drop f b) = vb_compositor_ready b"
  by (auto simp: vk_drop_def split: option.split)

lemma vk_close_fields:
  "vb_surfaces (vk_close h b) = vb_surfaces b" "vb_swap_images (vk_close h b) = vb_swap_images b"
  "vb_obj (vk_close h b) = vb_obj b" "vb_handle (vk_close h b) = (vb_handle b)(h := None)"
  "vb_lost_handles (vk_close h b) = vb_lost_handles b" "vb_lost (vk_close h b) = vb_lost b"
  "vb_compositor_ready (vk_close h b) = vb_compositor_ready b"
  by (auto simp: vk_close_def split: option.split)

lemma vk_up_drop: "vk_up b \<Longrightarrow> FDevice \<noteq> f \<Longrightarrow> FInstance \<noteq> f \<Longrightarrow> vk_up (vk_drop f b)"
  using vk_books_drop [of b f]
  unfolding vk_up_iff by (auto simp: vk_drop_fields)

lemma vk_up_close: "vk_up b \<Longrightarrow> vk_up (vk_close h b)"
  using vk_books_close [of b h]
  unfolding vk_up_iff by (simp add: vk_close_fields)

lemma vk_drops_Cons [simp]: "vk_drops [] b = b" "vk_drops (f # fs) b = vk_drops fs (vk_drop f b)"
  by (simp_all add: vk_drops_def)

lemma vk_up_drops: "vk_up b \<Longrightarrow> FDevice \<notin> set fs \<Longrightarrow> FInstance \<notin> set fs \<Longrightarrow> vk_up (vk_drops fs b)"
  by (induction fs arbitrary: b) (simp_all add: vk_up_drop)

lemma vk_drops_fields [simp]:
  "vb_surfaces (vk_drops fs b) = vb_surfaces b" "vb_swap_images (vk_drops fs b) = vb_swap_images b"
  "vb_obj (vk_drops fs b) f = (if f \<in> set fs then None else vb_obj b f)" "vb_handle (vk_drops fs b) = vb_handle b"
  "vb_compositor_ready (vk_drops fs b) = vb_compositor_ready b" "vb_lost (vk_drops fs b) = vb_lost b"
  by (induction fs arbitrary: b) (auto simp: vk_drop_fields)

lemma vk_up_updates [simp]:
  "vk_up (b\<lparr>vb_queue_family := v0\<rparr>) = vk_up b"
  "vk_up (b\<lparr>vb_uuid := v1\<rparr>) = vk_up b"
  "vk_up (b\<lparr>vb_surface_size := v2\<rparr>) = vk_up b"
  "vk_up (b\<lparr>vb_width := v3\<rparr>) = vk_up b"
  "vk_up (b\<lparr>vb_height := v4\<rparr>) = vk_up b"
  "vk_up (b\<lparr>vb_compositor_ready := v5\<rparr>) = vk_up b"
  "vk_up (b\<lparr>vb_fb := v6\<rparr>) = vk_up b"
  "vk_up (b\<lparr>vb_cmd := v7\<rparr>) = vk_up b"
  "vk_up (b\<lparr>vb_offscreen := v8\<rparr>) = vk_up b"
  "vk_up (b\<lparr>vb_staging := v9\<rparr>) = vk_up b"
  "vk_up (b\<lparr>vb_driven_w := v10\<rparr>) = vk_up b"
  "vk_up (b\<lparr>vb_driven_h := v11\<rparr>) = vk_up b"
  "vk_up (b\<lparr>vb_driven_staging := v12\<rparr>) = vk_up b"
  "vk_up (b\<lparr>vb_driven_image := v13\<rparr>) = vk_up b"
  "vk_up (b\<lparr>vb_swap_format := v14\<rparr>) = vk_up b"
  "vk_up (b\<lparr>vb_swap_extent := v15\<rparr>) = vk_up b"
  "vk_up (b\<lparr>vb_swap_px := v16\<rparr>) = vk_up b"
  "vk_up (b\<lparr>vb_last_sync := v17\<rparr>) = vk_up b"
  "vk_up (b\<lparr>vb_calls := v18\<rparr>) = vk_up b"
  "vk_up (b\<lparr>vb_signals := v19\<rparr>) = vk_up b"
  "vk_up (b\<lparr>vb_presents := v20\<rparr>) = vk_up b"
  "vk_up (b\<lparr>vb_crashed := v21\<rparr>) = vk_up b"
  by (simp_all add: vk_up_iff)

section \<open>The operations\<close>

lemma field_fits_images: "field_fits n m f \<Longrightarrow> (\<And>i. f \<noteq> FSwapView i \<and> f \<noteq> FPresentSem i) \<Longrightarrow> field_fits n k f"
  by (cases f) auto

lemma vk_up_images:
  assumes "vk_up b" "\<And>i. vb_obj b (FSwapView i) = None \<and> vb_obj b (FPresentSem i) = None"
  shows "vk_up (b\<lparr>vb_swap_images := n\<rparr>)"
proof -
  have "field_fits (vb_surfaces b) n f" if "vb_obj b f \<noteq> None" for f
  proof (rule field_fits_images)
    show "field_fits (vb_surfaces b) (vb_swap_images b) f"
      using assms(1) that unfolding vk_up_iff by blast
    show "f \<noteq> FSwapView i \<and> f \<noteq> FPresentSem i" for i
      using that assms(2) [of i] by auto
  qed
  with assms(1) show ?thesis
    unfolding vk_up_iff by simp
qed

lemma swap_members_bound:
  assumes "vk_up b" "vb_swap_images b \<le> i"
  shows "vb_obj b (FSwapView i) = None" "vb_obj b (FPresentSem i) = None"
proof -
  have "field_fits (vb_surfaces b) (vb_swap_images b) f" if "vb_obj b f \<noteq> None" for f
    using assms(1) that unfolding vk_up_iff by blast
  from this [of "FSwapView i"] this [of "FPresentSem i"] assms(2)
  show "vb_obj b (FSwapView i) = None" "vb_obj b (FPresentSem i) = None"
    by fastforce+
qed

lemma destroy_swapchain_up:
  assumes "vk_up b"
  shows "vk_up (destroy_swapchain b)"
    "vb_obj (destroy_swapchain b) f =
      (if f \<in> {FAcquireSem, FSwapchain, FSwapSurface} \<or> (\<exists>i. f = FSwapView i \<or> f = FPresentSem i) then None else vb_obj b f)"
    "vb_handle (destroy_swapchain b) = vb_handle b" "vb_surfaces (destroy_swapchain b) = vb_surfaces b"
    "vb_lost (destroy_swapchain b) = vb_lost b" "vb_compositor_ready (destroy_swapchain b) = vb_compositor_ready b"
proof -
  let ?fs = "[FAcquireSem] @ map FPresentSem (rev [0..<vb_swap_images b]) @ map FSwapView (rev [0..<vb_swap_images b]) @ [FSwapchain]"
  let ?b = "vk_drop FSwapSurface (vk_drops ?fs b)"
  have inst: "vb_obj (vk_drops ?fs b) FInstance \<noteq> None"
    using assms by (auto simp: vk_up_iff simp del: append.simps)
  then have eq: "destroy_swapchain b = ?b\<lparr>vb_swap_images := 0, vb_swap_format := 0, vb_swap_extent := (0, 0)\<rparr>"
    by (simp add: destroy_swapchain_def Let_def)
  have up: "vk_up ?b"
    using assms by (intro vk_up_drop vk_up_drops) auto
  have gone: "vb_obj ?b (FSwapView i) = None \<and> vb_obj ?b (FPresentSem i) = None" for i
    using swap_members_bound [OF assms, of i]
    by (cases "i < vb_swap_images b") (auto simp: vk_drop_fields simp del: append.simps)
  show "vk_up (destroy_swapchain b)"
    unfolding eq using vk_up_images [OF up gone] by simp
  show "vb_obj (destroy_swapchain b) f =
      (if f \<in> {FAcquireSem, FSwapchain, FSwapSurface} \<or> (\<exists>i. f = FSwapView i \<or> f = FPresentSem i) then None else vb_obj b f)"
  proof (cases "\<exists>i. f = FSwapView i \<or> f = FPresentSem i")
    case True
    with gone show ?thesis unfolding eq by (auto simp del: vk_drops_fields)
  next
    case False
    then show ?thesis unfolding eq by (auto simp: vk_drop_fields simp del: append.simps)
  qed
  show "vb_handle (destroy_swapchain b) = vb_handle b" "vb_surfaces (destroy_swapchain b) = vb_surfaces b"
    "vb_lost (destroy_swapchain b) = vb_lost b" "vb_compositor_ready (destroy_swapchain b) = vb_compositor_ready b"
    unfolding eq by (simp_all add: vk_drop_fields del: append.simps)
qed

section \<open>Nothing is overwritten\<close>

lemma vk_cmd_step_lost:
  "(\<And>f. c = Make f \<Longrightarrow> vb_obj b f = None) \<Longrightarrow> vb_lost (fst (vk_cmd_step api c b)) = vb_lost b"
  by (cases c) (simp_all add: vk_call_def vk_store_def vk_store_handle_def Let_def)

lemma vk_run_lost_obj:
  assumes "distinct (filter (\<lambda>c. \<exists>f. c = Make f) cs)" "\<And>f. Make f \<in> set cs \<Longrightarrow> vb_obj b f = None"
  shows "vb_lost (fst (vk_run api cs b)) = vb_lost b"
  using assms
proof (induction cs arbitrary: b)
  case (Cons c cs)
  have "vb_lost (fst (vk_cmd_step api c b)) = vb_lost b"
    using Cons.prems(2) by (intro vk_cmd_step_lost) auto
  moreover have "vb_obj (fst (vk_cmd_step api c b)) f = None" if "Make f \<in> set cs" for f
  proof -
    have "c \<noteq> Make f"
      using Cons.prems(1) that by auto
    with that Cons.prems(2) vk_cmd_step_tables(1) show ?thesis by simp
  qed
  ultimately show ?case
    using Cons by (auto simp: vk_run_Cons simp del: vk_run.simps(2) split: if_splits)
qed simp

text \<open>Some members are made only while another is held.\<close>

fun part_of :: "vk_field \<Rightarrow> vk_field option" where
  "part_of FOffMem = Some FOffImage"
| "part_of FOffView = Some FOffImage"
| "part_of FStagingBuf = Some FOffImage"
| "part_of FStagingMem = Some FOffImage"
| "part_of FFence = Some FPool"
| "part_of f = None"

definition vk_tidy :: "VulkanBackend \<Rightarrow> bool" where
  "vk_tidy b \<longleftrightarrow>
     vk_up b \<and> (\<forall>f g. part_of f = Some g \<and> vb_obj b f \<noteq> None \<longrightarrow> vb_obj b g \<noteq> None) \<and>
     (vb_obj b FFramebuffer \<noteq> None \<longrightarrow> vb_compositor_ready b)"

definition vk_clean :: "nat list \<Rightarrow> VulkanBackend \<Rightarrow> bool" where
  "vk_clean lost b \<longleftrightarrow> vk_tidy b \<and> vb_lost b = lost"

lemma vk_tidy_run:
  assumes "vk_tidy b" "\<And>f. Make f \<in> set cs \<Longrightarrow> field_fits (vb_surfaces b) (vb_swap_images b) f"
    and "\<And>h. Share h \<in> set cs \<Longrightarrow> vb_handle b h = None \<and> handle_fits (vb_surfaces b) h"
    and "distinct (filter (\<lambda>c. \<exists>h. c = Share h) cs)"
    and "\<And>f g. Make f \<in> set cs \<Longrightarrow> part_of f = Some g \<Longrightarrow> vb_obj b g \<noteq> None"
    and "Make FFramebuffer \<in> set cs \<Longrightarrow> vb_compositor_ready b"
  shows "vk_tidy (fst (vk_run api cs b))"
  unfolding vk_tidy_def
proof (intro conjI allI impI)
  show "vk_up (fst (vk_run api cs b))"
    using assms(1-4) by (intro vk_up_run) (simp_all add: vk_tidy_def)
  fix f g
  assume held: "part_of f = Some g \<and> vb_obj (fst (vk_run api cs b)) f \<noteq> None"
  have "vb_obj b g \<noteq> None"
  proof (cases "Make f \<in> set cs")
    case True
    with assms(5) held show ?thesis by blast
  next
    case False
    with held assms(1) vk_run_tables(1) [OF False] show ?thesis by (auto simp: vk_tidy_def)
  qed
  then show "vb_obj (fst (vk_run api cs b)) g \<noteq> None"
    by (rule vk_run_tables(2))
next
  assume "vb_obj (fst (vk_run api cs b)) FFramebuffer \<noteq> None"
  then show "vb_compositor_ready (fst (vk_run api cs b))"
    using assms(1,6) vk_run_tables(1) [of FFramebuffer cs api b]
    by (cases "Make FFramebuffer \<in> set cs") (auto simp: vk_tidy_def)
qed

lemma vk_clean_run:
  assumes "vk_clean l b" "\<And>f. Make f \<in> set cs \<Longrightarrow> field_fits (vb_surfaces b) (vb_swap_images b) f \<and> vb_obj b f = None"
    and "\<And>h. Share h \<in> set cs \<Longrightarrow> vb_handle b h = None \<and> handle_fits (vb_surfaces b) h"
    and "distinct (filter (\<lambda>c. \<exists>h. c = Share h) cs)" "distinct (filter (\<lambda>c. \<exists>f. c = Make f) cs)"
    and "\<And>f g. Make f \<in> set cs \<Longrightarrow> part_of f = Some g \<Longrightarrow> vb_obj b g \<noteq> None"
    and "Make FFramebuffer \<in> set cs \<Longrightarrow> vb_compositor_ready b"
  shows "vk_clean l (fst (vk_run api cs b))"
  using assms vk_tidy_run [of b cs api] vk_run_lost_obj [of cs b api] unfolding vk_clean_def by simp

lemma vk_clean_checks:
  assumes "vk_clean l b" "list_all (\<lambda>c. c = Check) cs"
  shows "vk_clean l (fst (vk_run api cs b))"
  using assms(1)
proof (rule vk_clean_run)
  have "filter (\<lambda>c. \<exists>h. c = Share h) cs = []" "filter (\<lambda>c. \<exists>f. c = Make f) cs = []"
    using assms(2) by (auto simp: list_all_iff filter_empty_conv)
  then show "distinct (filter (\<lambda>c. \<exists>h. c = Share h) cs)" "distinct (filter (\<lambda>c. \<exists>f. c = Make f) cs)"
    by simp_all
qed (use assms(2) in \<open>auto simp: list_all_iff\<close>)

lemma vk_then_inv:
  "P (fst m) \<Longrightarrow> (\<And>b. m = (b, RP_OK) \<Longrightarrow> P b \<Longrightarrow> P (fst (f b))) \<Longrightarrow> P (fst (vk_then m f))"
  by (cases m) (auto simp: vk_then_def)

lemma vk_then_out_inv:
  "P (fst m) \<Longrightarrow> (\<And>b. m = (b, RP_OK) \<Longrightarrow> P b \<Longrightarrow> P (fst (f b))) \<Longrightarrow> P (fst (vk_then_out m f))"
  by (cases m) (auto simp: vk_then_out_def)

lemma vk_tidy_updates [simp]:
  "vk_tidy (b\<lparr>vb_queue_family := v0\<rparr>) = vk_tidy b" "vk_tidy (b\<lparr>vb_uuid := v1\<rparr>) = vk_tidy b"
  "vk_tidy (b\<lparr>vb_surface_size := v2\<rparr>) = vk_tidy b" "vk_tidy (b\<lparr>vb_width := v3\<rparr>) = vk_tidy b"
  "vk_tidy (b\<lparr>vb_height := v4\<rparr>) = vk_tidy b" "vk_tidy (b\<lparr>vb_fb := v6\<rparr>) = vk_tidy b"
  "vk_tidy (b\<lparr>vb_cmd := v7\<rparr>) = vk_tidy b" "vk_tidy (b\<lparr>vb_offscreen := v8\<rparr>) = vk_tidy b"
  "vk_tidy (b\<lparr>vb_staging := v9\<rparr>) = vk_tidy b" "vk_tidy (b\<lparr>vb_driven_w := v10\<rparr>) = vk_tidy b"
  "vk_tidy (b\<lparr>vb_driven_h := v11\<rparr>) = vk_tidy b" "vk_tidy (b\<lparr>vb_driven_staging := v12\<rparr>) = vk_tidy b"
  "vk_tidy (b\<lparr>vb_driven_image := v13\<rparr>) = vk_tidy b" "vk_tidy (b\<lparr>vb_swap_format := v14\<rparr>) = vk_tidy b"
  "vk_tidy (b\<lparr>vb_swap_extent := v15\<rparr>) = vk_tidy b" "vk_tidy (b\<lparr>vb_swap_px := v16\<rparr>) = vk_tidy b"
  "vk_tidy (b\<lparr>vb_last_sync := v17\<rparr>) = vk_tidy b" "vk_tidy (b\<lparr>vb_calls := v18\<rparr>) = vk_tidy b"
  "vk_tidy (b\<lparr>vb_signals := v19\<rparr>) = vk_tidy b" "vk_tidy (b\<lparr>vb_presents := v20\<rparr>) = vk_tidy b"
  "vk_tidy (b\<lparr>vb_crashed := v21\<rparr>) = vk_tidy b"
  by (simp_all add: vk_tidy_def)

lemma vk_clean_updates [simp]:
  "vk_clean l (b\<lparr>vb_queue_family := v0\<rparr>) = vk_clean l b" "vk_clean l (b\<lparr>vb_uuid := v1\<rparr>) = vk_clean l b"
  "vk_clean l (b\<lparr>vb_surface_size := v2\<rparr>) = vk_clean l b" "vk_clean l (b\<lparr>vb_width := v3\<rparr>) = vk_clean l b"
  "vk_clean l (b\<lparr>vb_height := v4\<rparr>) = vk_clean l b" "vk_clean l (b\<lparr>vb_fb := v6\<rparr>) = vk_clean l b"
  "vk_clean l (b\<lparr>vb_cmd := v7\<rparr>) = vk_clean l b" "vk_clean l (b\<lparr>vb_offscreen := v8\<rparr>) = vk_clean l b"
  "vk_clean l (b\<lparr>vb_staging := v9\<rparr>) = vk_clean l b" "vk_clean l (b\<lparr>vb_driven_w := v10\<rparr>) = vk_clean l b"
  "vk_clean l (b\<lparr>vb_driven_h := v11\<rparr>) = vk_clean l b" "vk_clean l (b\<lparr>vb_driven_staging := v12\<rparr>) = vk_clean l b"
  "vk_clean l (b\<lparr>vb_driven_image := v13\<rparr>) = vk_clean l b" "vk_clean l (b\<lparr>vb_swap_format := v14\<rparr>) = vk_clean l b"
  "vk_clean l (b\<lparr>vb_swap_extent := v15\<rparr>) = vk_clean l b" "vk_clean l (b\<lparr>vb_swap_px := v16\<rparr>) = vk_clean l b"
  "vk_clean l (b\<lparr>vb_last_sync := v17\<rparr>) = vk_clean l b" "vk_clean l (b\<lparr>vb_calls := v18\<rparr>) = vk_clean l b"
  "vk_clean l (b\<lparr>vb_signals := v19\<rparr>) = vk_clean l b" "vk_clean l (b\<lparr>vb_presents := v20\<rparr>) = vk_clean l b"
  "vk_clean l (b\<lparr>vb_crashed := v21\<rparr>) = vk_clean l b" "vk_clean l (vk_crash b) = vk_clean l b"
  by (simp_all add: vk_clean_def vk_crash_def)

text \<open>Dropping a member that no other is a part of.\<close>

definition loose :: "vk_field \<Rightarrow> bool" where
  "loose f \<longleftrightarrow> f \<notin> {FDevice, FInstance, FOffImage, FPool}"

lemma loose_part: "part_of g = Some f \<Longrightarrow> \<not> loose f"
  by (cases g) (auto simp: loose_def)

lemma vk_clean_drops: "vk_clean l b \<Longrightarrow> list_all loose fs \<Longrightarrow> vk_clean l (vk_drops fs b)"
proof -
  assume "vk_clean l b" "list_all loose fs"
  moreover have "FDevice \<notin> set fs" "FInstance \<notin> set fs"
    using \<open>list_all loose fs\<close> by (auto simp: list_all_iff loose_def)
  moreover have "g \<notin> set fs" if "part_of f = Some g" for f g
    using \<open>list_all loose fs\<close> loose_part [OF that] by (auto simp: list_all_iff)
  ultimately show ?thesis
    unfolding vk_clean_def vk_tidy_def using vk_up_drops [of b fs] by (auto split: if_splits)
qed

lemma vk_clean_drop: "vk_clean l b \<Longrightarrow> loose f \<Longrightarrow> vk_clean l (vk_drop f b)"
  using vk_clean_drops [of l b "[f]"] by simp

lemma vk_clean_close: "vk_clean l b \<Longrightarrow> vk_clean l (vk_close h b)"
  unfolding vk_clean_def vk_tidy_def using vk_up_close [of b h] by (simp add: vk_close_fields)

section \<open>The swap chain's members\<close>

lemma destroy_swapchain_clean: "vk_clean l b \<Longrightarrow> vk_clean l (destroy_swapchain b)"
proof -
  assume b: "vk_clean l b"
  then have up: "vk_up b" by (simp add: vk_clean_def vk_tidy_def)
  have "vb_obj (destroy_swapchain b) g \<noteq> None" if "part_of f = Some g" "vb_obj (destroy_swapchain b) f \<noteq> None" for f g
  proof -
    have "vb_obj b f \<noteq> None"
      using that(2) by (auto simp: destroy_swapchain_up [OF up] split: if_splits)
    with b that(1) have "vb_obj b g \<noteq> None"
      unfolding vk_clean_def vk_tidy_def by blast
    moreover have "g = FOffImage \<or> g = FPool"
      using that(1) by (cases f) auto
    ultimately show ?thesis
      by (auto simp: destroy_swapchain_up [OF up])
  qed
  moreover have "vb_obj (destroy_swapchain b) FFramebuffer = vb_obj b FFramebuffer"
    using destroy_swapchain_up(2) [OF up, of FFramebuffer] by simp
  ultimately show ?thesis
    using b unfolding vk_clean_def vk_tidy_def by (simp only: destroy_swapchain_up(1,5,6) [OF up]) blast
qed

lemma swap_views_cmds:
  "Make f \<in> set (swap_views n) \<longleftrightarrow> f = FAcquireSem \<or> (\<exists>i<n. f = FSwapView i \<or> f = FPresentSem i)"
  "Share h \<notin> set (swap_views n)" "filter (\<lambda>c. \<exists>f. c = Make f) (swap_views n) = swap_views n"
  "filter (\<lambda>c. \<exists>h. c = Share h) (swap_views n) = []" "distinct (swap_views n)"
proof -
  show "Make f \<in> set (swap_views n) \<longleftrightarrow> f = FAcquireSem \<or> (\<exists>i<n. f = FSwapView i \<or> f = FPresentSem i)" "Share h \<notin> set (swap_views n)"
    by (auto simp: swap_views_def)
  show "filter (\<lambda>c. \<exists>f. c = Make f) (swap_views n) = swap_views n" "filter (\<lambda>c. \<exists>h. c = Share h) (swap_views n) = []"
    by (auto simp: swap_views_def filter_id_conv filter_empty_conv)
  have "distinct (concat (map (\<lambda>i. [Make (FSwapView i), Make (FPresentSem i)]) [0..<n]))"
    by (induction n) auto
  then show "distinct (swap_views n)"
    by (auto simp: swap_views_def)
qed

end
