(* ===== verification/RP_Vulkan_Life.thy ===== *)
theory RP_Vulkan_Life
  imports RP_Vulkan_Own
begin

text \<open>
  The operations of the Vulkan backend keep the ledger of \<open>RP_Vulkan_Own\<close>, and what the destructor leaves behind.
  The proofs are over a small calculus of triples: what is known of the members before a step, the step, and what is known after
  it succeeded.
\<close>

section \<open>Rules for runs of calls\<close>

text \<open>In a state that keeps the ledger: members known to be null, members known to be held, kernel handles known to be null,
  lower bounds on the number of shared images and swap images, and whether the compositor is known to be complete.\<close>

record vk_known =
  kn_null :: "vk_field set"
  kn_held :: "vk_field set"
  kn_closed :: "vk_handle set"
  kn_surfaces :: nat
  kn_images :: nat
  kn_ready :: bool

definition vk_room :: "nat list \<Rightarrow> vk_known \<Rightarrow> VulkanBackend \<Rightarrow> bool" where
  "vk_room l k b \<longleftrightarrow>
     vk_clean l b \<and> (\<forall>f \<in> kn_null k. vb_obj b f = None) \<and> (\<forall>f \<in> kn_held k. vb_obj b f \<noteq> None) \<and>
     (\<forall>h \<in> kn_closed k. vb_handle b h = None) \<and> kn_surfaces k \<le> vb_surfaces b \<and> kn_images k \<le> vb_swap_images b \<and>
     (kn_ready k \<longrightarrow> vb_compositor_ready b)"

definition unknown :: vk_known where
  "unknown = \<lparr>kn_null = {}, kn_held = {}, kn_closed = {}, kn_surfaces = 0, kn_images = 0, kn_ready = False\<rparr>"

fun cmd_allowed :: "vk_known \<Rightarrow> vk_cmd \<Rightarrow> bool" where
  "cmd_allowed k (Make f) \<longleftrightarrow>
     f \<in> kn_null k \<and> field_fits (kn_surfaces k) (kn_images k) f \<and>
     (case part_of f of None \<Rightarrow> True | Some g \<Rightarrow> g \<in> kn_held k) \<and> (f = FFramebuffer \<longrightarrow> kn_ready k)"
| "cmd_allowed k (Share h) \<longleftrightarrow> h \<in> kn_closed k \<and> handle_fits (kn_surfaces k) h"
| "cmd_allowed k c \<longleftrightarrow> True"

fun lasting :: "vk_cmd \<Rightarrow> bool" where
  "lasting (Make f) = True"
| "lasting (Share h) = True"
| "lasting c = False"

definition cmd_known :: "vk_cmd list \<Rightarrow> vk_known \<Rightarrow> vk_known" where
  "cmd_known cs k =
     k\<lparr>kn_null := kn_null k - {f. Make f \<in> set cs}, kn_held := kn_held k \<union> {f. Make f \<in> set cs},
       kn_closed := kn_closed k - {h. Share h \<in> set cs}\<rparr>"

definition vk_triple ::
  "nat list \<Rightarrow> vk_known \<Rightarrow> (VulkanBackend \<Rightarrow> VulkanBackend \<times> rp_result) \<Rightarrow> vk_known \<Rightarrow> bool" where
  "vk_triple l k m k' \<longleftrightarrow>
     (\<forall>b. vk_room l k b \<longrightarrow> vk_clean l (fst (m b)) \<and> (snd (m b) = RP_OK \<longrightarrow> vk_room l k' (fst (m b))))"

definition vk_safe :: "nat list \<Rightarrow> vk_known \<Rightarrow> (VulkanBackend \<Rightarrow> VulkanBackend \<times> 'r) \<Rightarrow> bool" where
  "vk_safe l k m \<longleftrightarrow> (\<forall>b. vk_room l k b \<longrightarrow> vk_clean l (fst (m b)))"

lemma field_fits_mono: "field_fits n m f \<Longrightarrow> n \<le> n' \<Longrightarrow> m \<le> m' \<Longrightarrow> field_fits n' m' f"
  by (cases f) auto

lemma handle_fits_mono: "handle_fits n h \<Longrightarrow> n \<le> n' \<Longrightarrow> handle_fits n' h"
  by (cases h) auto

lemma vk_room_run:
  assumes "vk_room l k b" "list_all (cmd_allowed k) cs" "distinct (filter lasting cs)"
  shows "vk_clean l (fst (vk_run api cs b))"
    "snd (vk_run api cs b) = RP_OK \<Longrightarrow> vk_room l (cmd_known cs k) (fst (vk_run api cs b))"
proof -
  have sub: "distinct (filter (\<lambda>c. \<exists>h. c = Share h) cs)" "distinct (filter (\<lambda>c. \<exists>f. c = Make f) cs)"
    using assms(3) by (induction cs) (auto split: if_splits)
  have allowed: "cmd_allowed k c" if "c \<in> set cs" for c
    using assms(2) that by (simp add: list_all_iff)
  show clean: "vk_clean l (fst (vk_run api cs b))"
  proof (rule vk_clean_run [OF _ _ _ sub])
    show "vk_clean l b"
      using assms(1) by (simp add: vk_room_def)
    show "field_fits (vb_surfaces b) (vb_swap_images b) f \<and> vb_obj b f = None" if "Make f \<in> set cs" for f
      using allowed [OF that] assms(1) by (auto simp: vk_room_def intro: field_fits_mono)
    show "vb_handle b h = None \<and> handle_fits (vb_surfaces b) h" if "Share h \<in> set cs" for h
      using allowed [OF that] assms(1) by (auto simp: vk_room_def intro: handle_fits_mono)
    show "vb_obj b g \<noteq> None" if "Make f \<in> set cs" "part_of f = Some g" for f g
      using allowed [OF that(1)] that(2) assms(1) by (simp add: vk_room_def)
    show "vb_compositor_ready b" if "Make FFramebuffer \<in> set cs"
      using allowed [OF that] assms(1) by (simp add: vk_room_def)
  qed
  assume ok: "snd (vk_run api cs b) = RP_OK"
  have "vb_obj (fst (vk_run api cs b)) f = None" if "f \<in> kn_null (cmd_known cs k)" for f
    using that assms(1) by (simp add: cmd_known_def vk_room_def vk_run_tables(1))
  moreover have "vb_obj (fst (vk_run api cs b)) f \<noteq> None" if "f \<in> kn_held (cmd_known cs k)" for f
    using that assms(1) vk_run_made [OF ok] vk_run_tables(2) [of b f api cs] by (auto simp: cmd_known_def vk_room_def)
  moreover have "vb_handle (fst (vk_run api cs b)) h = None" if "h \<in> kn_closed (cmd_known cs k)" for h
    using that assms(1) by (simp add: cmd_known_def vk_room_def vk_run_tables(3))
  ultimately show "vk_room l (cmd_known cs k) (fst (vk_run api cs b))"
    using clean assms(1) unfolding vk_room_def by (simp add: cmd_known_def)
qed

lemma vk_room_clean: "vk_room l k b \<Longrightarrow> vk_clean l b"
  by (simp add: vk_room_def)

lemma vk_room_unknown: "vk_room l unknown b = vk_clean l b"
  by (simp add: vk_room_def unknown_def)

text \<open>The rules. A step may be applied to an update of the backend that keeps what is known.\<close>

lemma triple_run:
  assumes "\<And>b. vk_room l k b \<Longrightarrow> vk_room l k (u b)" "list_all (cmd_allowed k) cs" "distinct (filter lasting cs)"
  shows "vk_triple l k (\<lambda>b. vk_run api cs (u b)) (cmd_known cs k)"
  using vk_room_run [OF assms(1) assms(2,3)] by (simp add: vk_triple_def)

lemma triple_then:
  "vk_triple l k m k1 \<Longrightarrow> vk_triple l k1 f k2 \<Longrightarrow> vk_triple l k (\<lambda>b. vk_then (m b) f) k2"
  by (auto simp: vk_triple_def vk_then_def split: prod.splits)

lemma safe_then: "vk_triple l k m k1 \<Longrightarrow> vk_safe l k1 f \<Longrightarrow> vk_safe l k (\<lambda>b. vk_then (m b) f)"
  by (auto simp: vk_triple_def vk_safe_def vk_then_def split: prod.splits)

lemma safe_then_out: "vk_triple l k m k1 \<Longrightarrow> vk_safe l k1 f \<Longrightarrow> vk_safe l k (\<lambda>b. vk_then_out (m b) f)"
  by (auto simp: vk_triple_def vk_safe_def vk_then_out_def split: prod.splits)

lemma triple_safe: "vk_triple l k m k1 \<Longrightarrow> vk_safe l k m"
  by (simp add: vk_triple_def vk_safe_def)

lemma safe_triple: "vk_safe l k m \<Longrightarrow> vk_triple l k m unknown"
  by (simp add: vk_triple_def vk_safe_def vk_room_unknown)

lemma safe_if: "vk_safe l k f \<Longrightarrow> vk_safe l k g \<Longrightarrow> vk_safe l k (\<lambda>b. if c b then f b else g b)"
  by (simp add: vk_safe_def)

lemma safe_return: "(\<And>b. vk_clean l b \<Longrightarrow> vk_clean l (u b)) \<Longrightarrow> vk_safe l k (\<lambda>b. (u b, r b))"
  by (simp add: vk_safe_def vk_room_def)

lemma vk_room_updates [simp]:
  "vk_room l k (b\<lparr>vb_uuid := v1\<rparr>) = vk_room l k b" "vk_room l k (b\<lparr>vb_queue_family := v0\<rparr>) = vk_room l k b"
  "vk_room l k (b\<lparr>vb_surface_size := v2\<rparr>) = vk_room l k b" "vk_room l k (b\<lparr>vb_width := v3\<rparr>) = vk_room l k b"
  "vk_room l k (b\<lparr>vb_height := v4\<rparr>) = vk_room l k b" "vk_room l k (b\<lparr>vb_fb := v6\<rparr>) = vk_room l k b"
  "vk_room l k (b\<lparr>vb_cmd := v7\<rparr>) = vk_room l k b" "vk_room l k (b\<lparr>vb_offscreen := v8\<rparr>) = vk_room l k b"
  "vk_room l k (b\<lparr>vb_staging := v9\<rparr>) = vk_room l k b" "vk_room l k (b\<lparr>vb_driven_staging := v12\<rparr>) = vk_room l k b"
  "vk_room l k (b\<lparr>vb_driven_image := v13\<rparr>) = vk_room l k b" "vk_room l k (b\<lparr>vb_swap_format := v14\<rparr>) = vk_room l k b"
  "vk_room l k (b\<lparr>vb_swap_extent := v15\<rparr>) = vk_room l k b" "vk_room l k (b\<lparr>vb_swap_px := v16\<rparr>) = vk_room l k b"
  "vk_room l k (b\<lparr>vb_last_sync := v17\<rparr>) = vk_room l k b" "vk_room l k (b\<lparr>vb_calls := v18\<rparr>) = vk_room l k b"
  "vk_room l k (b\<lparr>vb_signals := v19\<rparr>) = vk_room l k b" "vk_room l k (b\<lparr>vb_presents := v20\<rparr>) = vk_room l k b"
  "vk_room l k (vk_crash b) = vk_room l k b"
  by (simp_all add: vk_room_def) (simp_all add: vk_crash_def)

section \<open>Swap chain and shared images\<close>

lemma swap_views_safe:
  assumes "insert FAcquireSem (range FSwapView \<union> range FPresentSem) \<subseteq> kn_null k"
  shows "vk_safe l k (\<lambda>b. vk_run api (swap_views n) (b\<lparr>vb_swap_images := n\<rparr>))"
  unfolding vk_safe_def
proof (intro allI impI)
  fix b assume room: "vk_room l k b"
  let ?k = "unknown\<lparr>kn_null := insert FAcquireSem (range FSwapView \<union> range FPresentSem), kn_images := n\<rparr>"
  have null: "vb_obj b f = None" if "f \<in> insert FAcquireSem (range FSwapView \<union> range FPresentSem)" for f
    using room assms that by (auto simp: vk_room_def)
  have "vk_clean l (b\<lparr>vb_swap_images := n\<rparr>)"
    using room null vk_up_images [of b n] by (auto simp: vk_room_def vk_clean_def vk_tidy_def)
  then have "vk_room l ?k (b\<lparr>vb_swap_images := n\<rparr>)"
    using null by (auto simp: vk_room_def unknown_def)
  moreover have "list_all (cmd_allowed ?k) (swap_views n)" "distinct (filter lasting (swap_views n))"
    using swap_views_cmds(5) [of n] by (auto simp: swap_views_def list_all_iff)
  ultimately show "vk_clean l (fst (vk_run api (swap_views n) (b\<lparr>vb_swap_images := n\<rparr>)))"
    by (rule vk_room_run(1))
qed

lemma create_swapchain_clean:
  assumes "vk_clean l b"
  shows "vk_clean l (fst (create_swapchain api b))"
proof -
  let ?k = "unknown\<lparr>kn_null := {FAcquireSem, FSwapchain, FSwapSurface} \<union> range FSwapView \<union> range FPresentSem\<rparr>"
  let ?si = "vk_surface api"
  let ?rest = "\<lambda>b. vk_then (vk_run api [Make FSwapSurface, Check] b) (\<lambda>b.
         if \<not> vs_supported ?si then (b, RP_ERR_UNSUPPORTED)
         else vk_then (vk_run api [Check] b) (\<lambda>b.
         if vs_formats ?si = [] then (b, RP_ERR_UNSUPPORTED)
         else vk_then (vk_run api [Check] b) (\<lambda>b.
         vk_then (vk_run api [Check]
                    (b\<lparr>vb_swap_format := fst (scan_formats (hd (vs_formats ?si)) (vs_formats ?si))\<rparr>)) (\<lambda>b.
         vk_then (vk_run api [Make FSwapchain, Check, Check]
                    (b\<lparr>vb_swap_extent := swap_extent ?si (vb_width b) (vb_height b)\<rparr>)) (\<lambda>b.
         vk_run api (swap_views (vs_images ?si)) (b\<lparr>vb_swap_images := vs_images ?si\<rparr>))))))"
  have up: "vk_up b"
    using assms by (simp add: vk_clean_def vk_tidy_def)
  have "vk_room l ?k (destroy_swapchain b)"
    using destroy_swapchain_clean [OF assms] by (auto simp: vk_room_def unknown_def destroy_swapchain_up(2) [OF up])
  moreover have "vk_safe l ?k ?rest"
    by (intro safe_then [OF triple_run] safe_if safe_return swap_views_safe) (auto simp: cmd_known_def unknown_def)
  ultimately show ?thesis
    unfolding create_swapchain_def Let_def vk_safe_def by blast
qed

lemma surface_members_bound:
  assumes "vk_clean l b" "vb_surfaces b \<le> i"
  shows "vb_obj b (FSurfImage i) = None" "vb_obj b (FSurfMem i) = None" "vb_obj b (FSurfView i) = None"
    "vb_handle b (HSurface i) = None"
proof -
  have "field_fits (vb_surfaces b) (vb_swap_images b) f" if "vb_obj b f \<noteq> None" for f
    using assms(1) that unfolding vk_clean_def vk_tidy_def vk_up_iff by blast
  from this [of "FSurfImage i"] this [of "FSurfMem i"] this [of "FSurfView i"] assms(2)
  show "vb_obj b (FSurfImage i) = None" "vb_obj b (FSurfMem i) = None" "vb_obj b (FSurfView i) = None"
    by fastforce+
  have "handle_fits (vb_surfaces b) h" if "vb_handle b h \<noteq> None" for h
    using assms(1) that unfolding vk_clean_def vk_tidy_def vk_up_iff by blast
  from this [of "HSurface i"] assms(2) show "vb_handle b (HSurface i) = None"
    by fastforce
qed

lemma vk_clean_surfaces:
  assumes "vk_clean l b"
    "\<And>i. n \<le> i \<Longrightarrow> vb_obj b (FSurfImage i) = None \<and> vb_obj b (FSurfMem i) = None \<and> vb_obj b (FSurfView i) = None \<and>
        vb_handle b (HSurface i) = None"
  shows "vk_clean l (b\<lparr>vb_surfaces := n\<rparr>)"
proof -
  have up: "vk_up b"
    using assms(1) by (simp add: vk_clean_def vk_tidy_def)
  have "field_fits n (vb_swap_images b) f" if "vb_obj b f \<noteq> None" for f
  proof -
    have "field_fits (vb_surfaces b) (vb_swap_images b) f"
      using up that unfolding vk_up_iff by blast
    then show ?thesis
      using that assms(2) by (cases f) (fastforce simp: not_less [symmetric])+
  qed
  moreover have "handle_fits n h" if "vb_handle b h \<noteq> None" for h
    using that assms(2) by (cases h) (fastforce simp: not_less [symmetric])+
  ultimately have "vk_up (b\<lparr>vb_surfaces := n\<rparr>)"
    using up unfolding vk_up_iff by simp
  with assms(1) show ?thesis
    by (simp add: vk_clean_def vk_tidy_def)
qed

definition drop_surface :: "nat \<Rightarrow> VulkanBackend \<Rightarrow> VulkanBackend" where
  "drop_surface i b = vk_close (HSurface i) (vk_drops [FSurfView i, FSurfImage i, FSurfMem i] b)"

lemma drop_surface_fields:
  "vk_clean l b \<Longrightarrow> vk_clean l (drop_surface i b)" "vb_surfaces (drop_surface i b) = vb_surfaces b"
  "vb_obj (drop_surface i b) f = (if f \<in> {FSurfView i, FSurfImage i, FSurfMem i} then None else vb_obj b f)"
  "vb_handle (drop_surface i b) = (vb_handle b)(HSurface i := None)"
  unfolding drop_surface_def
  by (auto simp: vk_close_fields simp del: vk_drops_Cons intro!: vk_clean_close vk_clean_drops) (auto simp: loose_def)

lemma drop_surfaces_fields:
  assumes "vk_clean l b"
  shows "vk_clean l (fold drop_surface is b)" "vb_surfaces (fold drop_surface is b) = vb_surfaces b"
    "vb_obj (fold drop_surface is b) f =
       (if \<exists>i \<in> set is. f \<in> {FSurfView i, FSurfImage i, FSurfMem i} then None else vb_obj b f)"
    "vb_handle (fold drop_surface is b) h = (if \<exists>i \<in> set is. h = HSurface i then None else vb_handle b h)"
  using assms by (induction "is" arbitrary: b) (auto simp: drop_surface_fields)

definition after_surfaces :: vk_known where
  "after_surfaces = unknown\<lparr>kn_null := {FTimeline, FConsume} \<union> range FSurfImage \<union> range FSurfMem \<union> range FSurfView,
     kn_closed := UNIV\<rparr>"

lemma destroy_surfaces_room:
  assumes "vk_clean l b"
  shows "vk_room l after_surfaces (destroy_surfaces b)" "vb_surfaces (destroy_surfaces b) = 0"
    "vb_obj (destroy_surfaces b) f =
       (if f \<in> kn_null after_surfaces then None else vb_obj b f)"
proof -
  let ?b = "fold drop_surface (rev [0..<vb_surfaces b]) b"
  let ?c = "vk_close HSync (vk_drop FTimeline (?b\<lparr>vb_surfaces := 0\<rparr>))"
  have eq: "destroy_surfaces b = vk_close HConsume (vk_drop FConsume ?c)"
    by (simp add: destroy_surfaces_def Let_def drop_surface_def [abs_def])
  note f = drop_surfaces_fields [OF assms, of "rev [0..<vb_surfaces b]"]
  have gone: "vb_obj ?b (FSurfImage i) = None \<and> vb_obj ?b (FSurfMem i) = None \<and> vb_obj ?b (FSurfView i) = None \<and>
        vb_handle ?b (HSurface i) = None" for i
    using surface_members_bound [OF assms, of i] by (cases "i < vb_surfaces b") (auto simp: f)
  have clean: "vk_clean l (destroy_surfaces b)"
    unfolding eq
    by (intro vk_clean_close vk_clean_drop vk_clean_surfaces f(1)) (simp_all add: gone loose_def)
  show obj: "vb_obj (destroy_surfaces b) f = (if f \<in> kn_null after_surfaces then None else vb_obj b f)" for f
  proof (cases "\<exists>i. f \<in> {FSurfView i, FSurfImage i, FSurfMem i}")
    case True
    with gone show ?thesis by (auto simp: eq vk_drop_fields vk_close_fields after_surfaces_def)
  next
    case False
    then show ?thesis by (auto simp: eq vk_drop_fields vk_close_fields f after_surfaces_def)
  qed
  have "vb_handle (destroy_surfaces b) h = None" for h
    using gone by (cases h) (simp_all add: eq vk_drop_fields vk_close_fields)
  with clean obj show "vk_room l after_surfaces (destroy_surfaces b)"
    by (simp add: vk_room_def after_surfaces_def unknown_def)
  show "vb_surfaces (destroy_surfaces b) = 0"
    by (simp add: eq vk_drop_fields vk_close_fields)
qed

definition before_timelines :: vk_known where
  "before_timelines = unknown\<lparr>kn_null := {FTimeline, FConsume}, kn_closed := {HSync, HConsume}\<rparr>"

lemma make_surface_room:
  assumes "vk_room l before_timelines b" and "i = vb_surfaces b"
    and "cs = [Make (FSurfImage i), Memory DEVICE_LOCAL, Make (FSurfMem i), Check, Share (HSurface i), Make (FSurfView i)]"
  shows "vk_clean l (fst (vk_run api cs (b\<lparr>vb_surfaces := Suc i\<rparr>)))"
    "snd (vk_run api cs (b\<lparr>vb_surfaces := Suc i\<rparr>)) = RP_OK \<Longrightarrow>
       vk_room l before_timelines (fst (vk_run api cs (b\<lparr>vb_surfaces := Suc i\<rparr>)))"
proof -
  let ?k = "\<lparr>kn_null = {FTimeline, FConsume, FSurfImage i, FSurfMem i, FSurfView i}, kn_held = {},
     kn_closed = {HSync, HConsume, HSurface i}, kn_surfaces = Suc i, kn_images = 0, kn_ready = False\<rparr>"
  note bound = surface_members_bound [OF vk_room_clean [OF assms(1)]]
  have "vk_clean l (b\<lparr>vb_surfaces := Suc i\<rparr>)"
    using vk_room_clean [OF assms(1)] by (rule vk_clean_surfaces) (simp add: bound assms(2))
  then have room: "vk_room l ?k (b\<lparr>vb_surfaces := Suc i\<rparr>)"
    using assms(1) by (simp add: vk_room_def before_timelines_def unknown_def bound assms(2))
  have allowed: "list_all (cmd_allowed ?k) cs" "distinct (filter lasting cs)"
    by (simp_all add: assms(3))
  show "vk_clean l (fst (vk_run api cs (b\<lparr>vb_surfaces := Suc i\<rparr>)))"
    using vk_room_run(1) [OF room allowed] .
  assume "snd (vk_run api cs (b\<lparr>vb_surfaces := Suc i\<rparr>)) = RP_OK"
  from vk_room_run(2) [OF room allowed this]
  show "vk_room l before_timelines (fst (vk_run api cs (b\<lparr>vb_surfaces := Suc i\<rparr>)))"
    by (simp add: vk_room_def before_timelines_def unknown_def cmd_known_def assms(3))
qed

lemma make_vk_surfaces_room:
  "vk_room l before_timelines b \<Longrightarrow> make_vk_surfaces api n w h b out = (b', r, out') \<Longrightarrow>
   vk_clean l b' \<and> (r = RP_OK \<longrightarrow> vk_room l before_timelines b')"
proof (induction n arbitrary: b out)
  case (Suc n)
  let ?i = "vb_surfaces b"
  let ?cs = "[Make (FSurfImage ?i), Memory DEVICE_LOCAL, Make (FSurfMem ?i), Check, Share (HSurface ?i), Make (FSurfView ?i)]"
  note step = make_surface_room [OF Suc.prems(1) refl refl, of api]
  obtain b1 r1 where run: "vk_run api ?cs (b\<lparr>vb_surfaces := Suc ?i\<rparr>) = (b1, r1)"
    by (cases "vk_run api ?cs (b\<lparr>vb_surfaces := Suc ?i\<rparr>)")
  show ?case
  proof (cases "r1 = RP_OK")
    case True
    with step(2) run have "vk_room l before_timelines b1" by simp
    moreover obtain out1 where "make_vk_surfaces api n w h b1 out1 = (b', r, out')"
      using Suc.prems(2) run True by (simp add: Let_def del: vk_run.simps)
    ultimately show ?thesis by (rule Suc.IH)
  next
    case False
    with step(1) run Suc.prems(2) show ?thesis
      by (simp add: Let_def del: vk_run.simps)
  qed
qed (simp add: vk_room_clean)

lemma vk_allocate_surfaces_clean:
  assumes "vk_clean l b"
  shows "vk_clean l (fst (vk_allocate_surfaces api b n w h))"
proof -
  let ?timelines = "\<lambda>b. vk_then (vk_run api [Make FTimeline] b) (\<lambda>b.
     vk_run api [Share HSync, Make FConsume, Share HConsume] (b\<lparr>vb_last_sync := 0\<rparr>))"
  have timelines: "vk_safe l before_timelines ?timelines"
    by (intro safe_then [OF triple_run] triple_safe [OF triple_run]) (auto simp: cmd_known_def before_timelines_def unknown_def)
  obtain b1 r1 where b1: "vk_run api [Check] (destroy_surfaces b) = (b1, r1)"
    by (cases "vk_run api [Check] (destroy_surfaces b)")
  have room1: "vk_clean l b1 \<and> (r1 = RP_OK \<longrightarrow> vk_room l before_timelines b1)"
    using vk_room_run [OF destroy_surfaces_room(1) [OF assms], of "[Check]" api] b1
    by (auto simp: vk_room_def before_timelines_def unknown_def cmd_known_def after_surfaces_def)
  let ?b1 = "b1\<lparr>vb_width := w, vb_height := h, vb_surface_size := (w, h)\<rparr>"
  obtain b2 r2 out where b2: "make_vk_surfaces api (unat n) w h ?b1 [] = (b2, r2, out)"
    by (cases "make_vk_surfaces api (unat n) w h ?b1 []")
  have room2: "vk_clean l b2 \<and> (r2 = RP_OK \<longrightarrow> vk_room l before_timelines b2)" if "r1 = RP_OK"
    using make_vk_surfaces_room [of l ?b1, OF _ b2] room1 that by simp
  have "vk_clean l (fst (vk_then (b2, r2) ?timelines))" if "r1 = RP_OK"
    using room2 [OF that] timelines by (auto simp: vk_then_def [of "(b2, r2)"] vk_safe_def)
  with assms b1 b2 room1 show ?thesis
    by (simp add: vk_allocate_surfaces_def split_beta del: vk_run.simps)
qed

section \<open>Compositor and targets\<close>

text \<open>The compositor's members are the only ones that a retry can overwrite.\<close>

definition compositor_null :: "VulkanBackend \<Rightarrow> bool" where
  "compositor_null b \<longleftrightarrow> (\<forall>f \<in> set compositor_fields. vb_obj b f = None)"

definition ready_known :: vk_known where
  "ready_known = unknown\<lparr>kn_ready := True\<rparr>"

lemma triple_weaken:
  assumes "vk_triple l k m k1" "kn_null k2 \<subseteq> kn_null k1" "kn_held k2 \<subseteq> kn_held k1" "kn_closed k2 \<subseteq> kn_closed k1"
    "kn_surfaces k2 \<le> kn_surfaces k1" "kn_images k2 \<le> kn_images k1" "kn_ready k2 \<Longrightarrow> kn_ready k1"
  shows "vk_triple l k m k2"
proof -
  have "vk_room l k2 b" if "vk_room l k1 b" for b
    using that assms(2-7) unfolding vk_room_def by (meson order.trans subsetD)
  with assms(1) show ?thesis
    unfolding vk_triple_def by blast
qed

lemma triple_when:
  assumes "\<And>b. vk_room l k b \<Longrightarrow> c b \<Longrightarrow> vk_room l k1 b" "vk_triple l k1 m k"
  shows "vk_triple l k (\<lambda>b. if c b then m b else (b, RP_OK)) k"
  using assms by (auto simp: vk_triple_def vk_room_clean)

lemma triple_checks: "list_all (\<lambda>c. c = Check) cs \<Longrightarrow> (\<And>b. vk_room l k b \<Longrightarrow> vk_room l k (u b)) \<Longrightarrow>
    vk_triple l k (\<lambda>b. vk_run api cs (u b)) k"
proof (rule triple_weaken [OF triple_run])
  assume "list_all (\<lambda>c. c = Check) cs"
  then have only: "c = Check" if "c \<in> set cs" for c
    using that by (simp add: list_all_iff)
  then show "list_all (cmd_allowed k) cs" "kn_null k \<subseteq> kn_null (cmd_known cs k)" "kn_closed k \<subseteq> kn_closed (cmd_known cs k)"
    by (force simp: list_all_iff cmd_known_def)+
  have "filter lasting cs = []"
    using only by (fastforce simp: filter_empty_conv)
  then show "distinct (filter lasting cs)"
    by simp
qed (auto simp: cmd_known_def)

lemma ensure_compositor_outcome:
  assumes "vk_clean l b"
  obtains l' where "vk_clean l' (fst (ensure_compositor api b))"
    "snd (ensure_compositor api b) = RP_OK \<Longrightarrow> vk_room l' ready_known (fst (ensure_compositor api b))"
    "vb_compositor_ready b \<or> compositor_null b \<Longrightarrow> l' = l"
proof (cases "vb_compositor_ready b")
  case True
  with assms that [of l] show ?thesis
    by (simp add: ensure_compositor_def vk_room_def ready_known_def unknown_def)
next
  case False
  let ?cs = "[Make FVert, Make FFrag, Make FSetLayout, Make FSampler, Make FDescPool, Check, Make FRenderPass,
                 Make FCoreLayout, Make FPipeline]"
  let ?b = "fst (vk_run api ?cs b)"
  have tidy: "vk_tidy ?b"
    using assms by (intro vk_tidy_run) (auto simp: vk_clean_def)
  then have ready: "vk_tidy (?b\<lparr>vb_compositor_ready := True\<rparr>)"
    by (simp add: vk_tidy_def)
  have lost: "vb_lost ?b = l" if "compositor_null b"
  proof -
    have "vb_lost ?b = vb_lost b"
      using that by (intro vk_run_lost_obj) (auto simp: compositor_null_def compositor_fields_def)
    with assms show ?thesis by (simp add: vk_clean_def)
  qed
  have eq: "ensure_compositor api b =
      (if snd (vk_run api ?cs b) = RP_OK then (?b\<lparr>vb_compositor_ready := True\<rparr>, RP_OK) else vk_run api ?cs b)"
    using False by (simp add: ensure_compositor_def VulkanCompositor_initialize_def vk_then_def split_beta del: vk_run.simps)
  show ?thesis
  proof (rule that [of "vb_lost ?b"])
    show "vk_clean (vb_lost ?b) (fst (ensure_compositor api b))"
      using tidy ready by (simp add: eq vk_clean_def del: vk_run.simps)
    show "vk_room (vb_lost ?b) ready_known (fst (ensure_compositor api b))" if "snd (ensure_compositor api b) = RP_OK"
      using ready that by (simp add: eq vk_room_def ready_known_def unknown_def vk_clean_def del: vk_run.simps split: if_splits)
    show "vb_lost ?b = l" if "vb_compositor_ready b \<or> compositor_null b"
      using that False lost by blast
  qed
qed

lemma vk_room_parts:
  assumes "vk_room l k b" "vb_obj b g = None"
  shows "vk_room l (k\<lparr>kn_null := insert g {f. part_of f = Some g}\<rparr>) b"
proof -
  have "vb_obj b f = None" if "part_of f = Some g" for f
    using that assms unfolding vk_room_def vk_clean_def vk_tidy_def by blast
  with assms show ?thesis
    unfolding vk_room_def by simp
qed

lemma triple_arg: "(\<And>a. vk_triple l k (m a) k') \<Longrightarrow> vk_triple l k (\<lambda>b. m (g b) b) k'"
  by (simp add: vk_triple_def)

lemma safe_arg: "(\<And>a. vk_safe l k (m a)) \<Longrightarrow> vk_safe l k (\<lambda>b. m (g b) b)"
  by (simp add: vk_safe_def)

lemma ensure_offscreen_triple:
  "vk_triple l (ready_known\<lparr>kn_null := insert FOffImage {f. part_of f = Some FOffImage}\<rparr>) (ensure_offscreen api) ready_known"
  unfolding ensure_offscreen_def [abs_def] Let_def
  by (rule triple_arg [where g = "\<lambda>b. picture_bytes (vb_width b) (vb_height b)"],
      rule triple_weaken [OF triple_then [OF triple_run triple_then [OF triple_run triple_run]]])
     (auto simp: cmd_known_def ready_known_def unknown_def)

lemma ensure_commands_triple:
  "vk_triple l (ready_known\<lparr>kn_null := insert FPool {f. part_of f = Some FPool}\<rparr>) (ensure_commands api) ready_known"
  unfolding ensure_commands_def [abs_def]
  by (rule triple_weaken [OF triple_then [OF triple_run triple_run]])
     (auto simp: cmd_known_def ready_known_def unknown_def)

lemma render_triple: "vk_triple l ready_known (VulkanCompositor_render api t w h) ready_known"
proof -
  let ?k = "ready_known\<lparr>kn_null := {FFramebuffer}\<rparr>"
  have drop: "vk_room l ?k (vk_drop FFramebuffer b)" if "vk_room l ready_known b" for b
    using that vk_clean_drop [of l b FFramebuffer]
    by (simp add: vk_room_def ready_known_def unknown_def vk_drop_fields loose_def)
  have "vk_triple l ?k (\<lambda>b. vk_then (vk_run api [Make FFramebuffer] b) (\<lambda>b. (b\<lparr>vb_fb := Some (t, w, h)\<rparr>, RP_OK))) ready_known"
  proof (rule triple_then)
    show "vk_triple l ?k (\<lambda>b. vk_run api [Make FFramebuffer] b) ready_known"
      by (rule triple_weaken [OF triple_run]) (auto simp: cmd_known_def ready_known_def unknown_def)
  qed (simp add: vk_triple_def vk_room_clean)
  with drop show ?thesis
    by (simp add: vk_triple_def VulkanCompositor_render_def Let_def vk_room_clean del: vk_run.simps)
qed

lemma begin_triple: "vk_triple l k (vk_begin api) k"
  unfolding vk_begin_def [abs_def] by (rule triple_checks) simp_all

lemma wait_fence_triple:
  assumes "\<And>b. vk_room l k b \<Longrightarrow> vk_room l k (u b)"
  shows "vk_triple l k (\<lambda>b. vk_wait_fence api (u b)) k"
  using assms by (auto simp: vk_triple_def vk_wait_fence_def vk_call_def intro: vk_room_clean)

lemma ensure_composite_outcome:
  assumes "vk_clean l b"
  obtains l' where "vk_clean l' (fst (ensure_composite_resources api b))"
    "snd (ensure_composite_resources api b) = RP_OK \<Longrightarrow> vk_room l' ready_known (fst (ensure_composite_resources api b))"
    "vb_compositor_ready b \<or> compositor_null b \<Longrightarrow> l' = l"
proof -
  let ?rest = "\<lambda>b. vk_then (if \<not> windowed b \<and> vb_obj b FOffImage = None then ensure_offscreen api b else (b, RP_OK)) (\<lambda>b.
     if vb_obj b FPool = None then ensure_commands api b else (b, RP_OK))"
  obtain l' where l': "vk_clean l' (fst (ensure_compositor api b))"
    "snd (ensure_compositor api b) = RP_OK \<Longrightarrow> vk_room l' ready_known (fst (ensure_compositor api b))"
    "vb_compositor_ready b \<or> compositor_null b \<Longrightarrow> l' = l"
    using ensure_compositor_outcome [OF assms, of api] by blast
  have "vk_triple l' ready_known ?rest ready_known"
    by (rule triple_then [OF triple_when [OF _ ensure_offscreen_triple] triple_when [OF _ ensure_commands_triple]])
       (auto intro: vk_room_parts)
  with l'(1,2) have "vk_clean l' (fst (ensure_composite_resources api b))"
    "snd (ensure_composite_resources api b) = RP_OK \<Longrightarrow> vk_room l' ready_known (fst (ensure_composite_resources api b))"
    unfolding ensure_composite_resources_def vk_triple_def vk_then_def [of "ensure_compositor api b"]
    by (auto split: prod.splits if_splits)
  with l'(3) that show ?thesis by blast
qed

section \<open>Composition and driven frames\<close>

lemma vk_room_helpers:
  "vk_room l k (submit_signal nf s b) = vk_room l k b" "vk_room l k (consumed nf s b) = vk_room l k b"
  "vk_room l k (record_offscreen_readback b) = vk_room l k b" "vk_room l k (paint_offscreen api src b) = vk_room l k b"
  by (simp_all add: submit_signal_def consumed_def record_offscreen_readback_def paint_offscreen_def Let_def split_beta)

lemma vk_clean_helpers:
  "vk_clean l (submit_signal nf s b) = vk_clean l b" "vk_clean l (consumed nf s b) = vk_clean l b"
  by (simp_all add: submit_signal_def consumed_def)

lemma copy_staging_safe: "vk_safe l k (copy_staging_to_out api)"
  unfolding copy_staging_to_out_def [abs_def] Let_def
  by (rule safe_then_out [OF triple_checks]) (auto simp: vk_safe_def vk_room_clean)

lemma safe_out_finish:
  assumes "vk_safe l k m" "\<And>b. vk_clean l b \<Longrightarrow> vk_clean l (u b)"
  shows "vk_safe l k (\<lambda>b. case (if c then m b else (b, RP_OK, None)) of (b, r, img) \<Rightarrow>
           if r \<noteq> RP_OK then (b, r, None) else (u b, RP_OK, img))"
  using assms by (cases c) (auto simp: vk_safe_def split_beta vk_room_clean)

lemma composite_headless_safe:
  "vk_safe l ready_known (composite_headless api src readback nf s out)"
proof -
  have finish: "vk_safe l ready_known (\<lambda>b. vk_then_out (vk_wait_fence api (submit_signal nf s (if readback
       then record_offscreen_readback (paint_offscreen api src b) else paint_offscreen api src b))) (\<lambda>b.
        case (if out then copy_staging_to_out api b else (b, RP_OK, None)) of (b, r, img) \<Rightarrow>
          if r \<noteq> RP_OK then (b, r, None) else (consumed nf s b, RP_OK, img)))"
    by (rule safe_then_out [OF wait_fence_triple safe_out_finish [OF copy_staging_safe]])
       (simp_all add: vk_room_helpers vk_clean_helpers)
  have submit: "vk_triple l ready_known (\<lambda>b. vk_run api [Check, Check] b) ready_known"
    by (rule triple_checks) simp_all
  have "vk_safe l ready_known (\<lambda>b. vk_then_out (VulkanCompositor_render api t w h b) (\<lambda>b.
      vk_then_out (vk_run api [Check, Check] b) (\<lambda>b. vk_then_out (vk_wait_fence api (submit_signal nf s (if readback
       then record_offscreen_readback (paint_offscreen api src b) else paint_offscreen api src b))) (\<lambda>b.
        case (if out then copy_staging_to_out api b else (b, RP_OK, None)) of (b, r, img) \<Rightarrow>
          if r \<noteq> RP_OK then (b, r, None) else (consumed nf s b, RP_OK, img)))))" for t w h
    by (rule safe_then_out [OF render_triple safe_then_out [OF submit finish]])
  then show ?thesis
    unfolding composite_headless_def [abs_def] Let_def
    by (intro safe_then_out [OF begin_triple]) (simp add: vk_safe_def)
qed

lemma composite_windowed_safe: "vk_safe l ready_known (composite_windowed api src nf s)"
proof -
  have ended: "vk_triple l ready_known (\<lambda>b. vk_run api [Check, Check] b) ready_known"
    by (rule triple_checks) simp_all
  have submitted: "vk_triple l ready_known
      (\<lambda>b. vk_run api [Check] (submit_signal nf s (b\<lparr>vb_swap_px := vk_draw api src w h\<rparr>))) ready_known" for w h
    by (rule triple_checks) (simp_all add: vk_room_helpers)
  have presented: "vk_triple l ready_known (\<lambda>b. vk_wait_fence api (b\<lparr>vb_presents := Suc (vb_presents b)\<rparr>)) ready_known"
    by (rule wait_fence_triple) simp
  have "vk_safe l ready_known (\<lambda>b. vk_then (VulkanCompositor_render api t w h b) (\<lambda>b.
             vk_then (vk_run api [Check, Check] b) (\<lambda>b.
             vk_then (vk_run api [Check] (submit_signal nf s (b\<lparr>vb_swap_px := vk_draw api src w h\<rparr>))) (\<lambda>b.
             vk_then (vk_wait_fence api (b\<lparr>vb_presents := Suc (vb_presents b)\<rparr>)) (\<lambda>b. (consumed nf s b, RP_OK))))))" for t w h
    by (rule safe_then [OF render_triple safe_then [OF ended safe_then [OF submitted safe_then [OF presented safe_return]]]])
       (simp add: vk_clean_helpers)
  then have "vk_safe l ready_known (\<lambda>b. vk_then (vk_begin api b) (\<lambda>b. vk_then (VulkanCompositor_render api (vb_obj b f) w h b) (\<lambda>b.
             vk_then (vk_run api [Check, Check] b) (\<lambda>b.
             vk_then (vk_run api [Check] (submit_signal nf s (b\<lparr>vb_swap_px := vk_draw api src w h\<rparr>))) (\<lambda>b.
             vk_then (vk_wait_fence api (b\<lparr>vb_presents := Suc (vb_presents b)\<rparr>)) (\<lambda>b. (consumed nf s b, RP_OK)))))))" for f w h
    by (intro safe_then [OF begin_triple]) (simp add: vk_safe_def)
  then show ?thesis
    by (simp add: vk_safe_def composite_windowed_def Let_def vk_room_clean split_beta split: vk_acquire.split)
qed

lemma destroy_driven_clean: "vk_clean l b \<Longrightarrow> vk_clean l (destroy_driven b)"
  using vk_clean_drops [of l b "[FDrivenView, FDrivenImage, FDrivenMem, FDrivenBuf, FDrivenBufMem]"]
  by (simp add: destroy_driven_def loose_def del: vk_drops_Cons)

definition driven_members :: "vk_field set" where
  "driven_members = {FDrivenView, FDrivenImage, FDrivenMem, FDrivenBuf, FDrivenBufMem}"

lemma destroy_driven_room:
  assumes "vk_room l ready_known b"
  shows "vk_room l (ready_known\<lparr>kn_null := driven_members\<rparr>) (destroy_driven b)"
proof -
  have "vb_obj b FDevice \<noteq> None"
    using assms by (simp add: vk_room_def vk_clean_def vk_tidy_def vk_up_iff)
  then show ?thesis
    using assms destroy_driven_clean [OF vk_room_clean [OF assms]]
    by (auto simp: vk_room_def driven_members_def destroy_driven_def ready_known_def unknown_def simp del: vk_drops_Cons)
qed

lemma ensure_driven_triple: "vk_triple l ready_known (ensure_driven api w h) ready_known"
proof -
  let ?k = "ready_known\<lparr>kn_null := driven_members\<rparr>"
  let ?n = "picture_bytes w h"
  let ?cs = "[Memory DEVICE_LOCAL, Make FDrivenMem, Check, Make FDrivenView, Make FDrivenBuf,
                                   Memory HOST_VISIBLE_COHERENT, Make FDrivenBufMem, Check]"
  have tail: "vk_triple l ready_known (\<lambda>b. (b\<lparr>vb_driven_staging := take ?n (vk_memory api ?n), vb_driven_w := w,
      vb_driven_h := h\<rparr>, RP_OK)) ready_known"
    by (simp add: vk_triple_def vk_room_def)
  have "vk_triple l ?k (\<lambda>b. vk_then (vk_run api [Make FDrivenImage] b) (\<lambda>b.
              vk_then (vk_run api ?cs (b\<lparr>vb_driven_image := (w, h, take ?n (vk_memory api ?n))\<rparr>)) (\<lambda>b.
              (b\<lparr>vb_driven_staging := take ?n (vk_memory api ?n), vb_driven_w := w, vb_driven_h := h\<rparr>, RP_OK)))) ready_known"
    by (rule triple_then [OF triple_run triple_then [OF triple_weaken [OF triple_run] tail]])
       (auto simp: cmd_known_def ready_known_def unknown_def driven_members_def)
  then show ?thesis
    using destroy_driven_room unfolding vk_triple_def ensure_driven_def Let_def
    by (auto intro: vk_room_clean simp del: vk_run.simps)
qed

lemma upload_driven_triple: "vk_triple l ready_known (upload_driven_frame api data w h pitch) ready_known"
proof -
  have check: "vk_triple l ready_known (\<lambda>b. vk_run api cs b) ready_known" if "cs = [Check] \<or> cs = [Check, Check]" for cs
    by (rule triple_checks) (use that in auto)
  let ?n = "picture_bytes w h"
  have up: "vk_triple l ready_known (\<lambda>b. vk_then (vk_begin api (b\<lparr>vb_driven_staging := mem\<rparr>)) (\<lambda>b.
         vk_then (vk_run api [Check, Check] b) (\<lambda>b.
         vk_wait_fence api (b\<lparr>vb_driven_image := (w, h, take ?n mem)\<rparr>)))) ready_known" for mem
  proof (rule triple_then)
    show "vk_triple l ready_known (\<lambda>b. vk_begin api (b\<lparr>vb_driven_staging := mem\<rparr>)) ready_known"
      using begin_triple [of l ready_known api] by (simp add: vk_triple_def)
    show "vk_triple l ready_known (\<lambda>b. vk_then (vk_run api [Check, Check] b) (\<lambda>b.
         vk_wait_fence api (b\<lparr>vb_driven_image := (w, h, take ?n mem)\<rparr>))) ready_known"
      by (rule triple_then [OF check wait_fence_triple]) simp_all
  qed
  have "vk_triple l ready_known (\<lambda>b. case Option.bind data (\<lambda>src. copy_rgba8_rows src w h pitch (vb_driven_staging b) (w * 4)) of
       None \<Rightarrow> (vk_crash b, RP_ERR_INTERNAL)
     | Some mem \<Rightarrow>
         vk_then (vk_begin api (b\<lparr>vb_driven_staging := mem\<rparr>)) (\<lambda>b.
         vk_then (vk_run api [Check, Check] b) (\<lambda>b.
         vk_wait_fence api (b\<lparr>vb_driven_image := (w, h, take ?n mem)\<rparr>)))) ready_known"
    using up by (auto simp: vk_triple_def vk_room_clean simp del: vk_run.simps split: option.split)
  then show ?thesis
    unfolding upload_driven_frame_def [abs_def]
    using triple_then [OF ensure_driven_triple triple_then [OF check]] by blast
qed

lemma safe_windowed_out:
  "vk_safe l ready_known (\<lambda>b. vk_then_out (composite_windowed api (src b) (nf b) s b) (\<lambda>b. (b, RP_OK, None :: bytes option)))"
  using composite_windowed_safe unfolding vk_safe_def vk_then_out_def by (auto split: prod.split) (metis fst_conv)+

text \<open>Both composing operations: the ledger is kept, and nothing is lost unless a part-made compositor is made again.\<close>

definition vk_steady :: "VulkanBackend \<Rightarrow> VulkanBackend \<Rightarrow> bool" where
  "vk_steady b b' \<longleftrightarrow> vk_tidy b' \<and> (vb_compositor_ready b \<or> compositor_null b \<longrightarrow> vb_lost b' = vb_lost b)"

lemma vk_steadyI: "vk_clean (vb_lost b) b' \<Longrightarrow> vk_steady b b'"
  by (simp add: vk_steady_def vk_clean_def)

lemma steady_composed:
  assumes "vk_tidy b" "\<And>l. vk_safe l ready_known f"
  shows "vk_steady b (fst (vk_then_out (ensure_composite_resources api b) f))"
proof -
  have "vk_clean (vb_lost b) b"
    using assms(1) by (simp add: vk_clean_def)
  from ensure_composite_outcome [OF this, of api] obtain l' where l':
    "vk_clean l' (fst (ensure_composite_resources api b))"
    "snd (ensure_composite_resources api b) = RP_OK \<Longrightarrow> vk_room l' ready_known (fst (ensure_composite_resources api b))"
    "vb_compositor_ready b \<or> compositor_null b \<Longrightarrow> l' = vb_lost b"
    by blast
  have "vk_clean l' (fst (vk_then_out (ensure_composite_resources api b) f))"
    using l'(1,2) assms(2) [of l'] by (auto simp: vk_then_out_def vk_safe_def split: prod.split)
  with l'(3) show ?thesis
    by (auto simp: vk_steady_def vk_clean_def)
qed

lemma vk_composite_steady:
  assumes "vk_tidy b"
  shows "vk_steady b (fst (vk_composite_and_present api b i s has_frame out))"
proof -
  have "vk_safe l ready_known (\<lambda>b. let new_frame = has_frame \<and> vb_last_sync b < s;
            src = (if has_frame then Some (shared_picture api (unat i) b) else None)
        in if windowed b
           then vk_then_out (composite_windowed api src new_frame s b) (\<lambda>b. (b, RP_OK, None))
           else composite_headless api src True new_frame s out b)" for l
    unfolding Let_def using composite_headless_safe
    by (intro safe_if safe_windowed_out) (simp add: vk_safe_def)
  from steady_composed [OF assms this] show ?thesis
    using assms by (simp add: vk_composite_and_present_def vk_steadyI vk_clean_def)
qed

lemma vk_driven_steady:
  assumes "vk_tidy b"
  shows "vk_steady b (fst (vk_composite_driven api b data w h pitch dupe out))"
proof -
  have upload: "vk_triple l ready_known (\<lambda>b. if dupe then (b, RP_OK) else upload_driven_frame api data w h pitch b) ready_known" for l
    using upload_driven_triple [of l api data w h pitch] by (auto simp: vk_triple_def intro: vk_room_clean)
  have show_it: "vk_safe l ready_known (\<lambda>b. if windowed b
        then vk_then_out (present_driven_windowed api b) (\<lambda>b. (b, RP_OK, None))
        else composite_driven_headless api out b)" for l
    unfolding present_driven_windowed_def composite_driven_headless_def
    using composite_headless_safe by (intro safe_if safe_windowed_out) (simp add: vk_safe_def)
  from steady_composed [OF assms safe_then_out [OF upload show_it]] show ?thesis
    using assms by (simp add: vk_composite_driven_def vk_steadyI vk_clean_def)
qed

section \<open>From construction to destruction\<close>

text \<open>Before there is a device, only the instance can be held.\<close>

definition vk_inv :: "VulkanBackend \<Rightarrow> bool" where
  "vk_inv b \<longleftrightarrow> vk_shape b \<and> (vb_obj b FDevice \<noteq> None \<longrightarrow> vk_tidy b)"

lemma vk_shape_run_first:
  assumes "vk_shape b" "vb_obj b FDevice = None" "f = FDevice \<Longrightarrow> vb_obj b FInstance \<noteq> None" "f \<in> {FInstance, FDevice}"
  shows "vk_inv (fst (vk_run api [Make f] b))"
    "snd (vk_run api [Make f] b) = RP_OK \<Longrightarrow> vb_obj (fst (vk_run api [Make f] b)) f \<noteq> None"
    "f = FInstance \<Longrightarrow> vb_obj (fst (vk_run api [Make f] b)) FDevice = None"
    "f = FDevice \<Longrightarrow> vb_lost (fst (vk_run api [Make f] b)) = vb_lost b"
    "vb_obj b FInstance = None \<Longrightarrow> vb_lost (fst (vk_run api [Make f] b)) = vb_lost b"
proof -
  let ?b = "fst (vk_run api [Make f] b)"
  have obj: "vb_obj ?b g = vb_obj b g" if "g \<noteq> f" for g
    using that by (intro vk_run_tables(1)) auto
  have handle: "vb_handle ?b h = vb_handle b h" for h
    by (intro vk_run_tables(3)) auto
  have lost: "vb_lost_handles ?b = vb_lost_handles b"
    by (rule vk_run_lost) auto
  have books: "vk_books ?b"
    using assms(1) by (intro vk_run_books) (simp add: vk_shape_def)
  have none: "vb_obj ?b g = None" if "g \<notin> {FInstance, FDevice}" for g
    using that obj [of g] assms by (auto simp: vk_shape_def)
  have closed: "vb_handle ?b h = None" for h
    using handle [of h] assms(1,2) by (auto simp: vk_shape_def)
  have fits: "field_fits n m g" if "vb_obj ?b g \<noteq> None" for g n m
    using that none [of g] by (cases g) auto
  have inst: "vb_obj ?b FInstance \<noteq> None" if "vb_obj ?b FDevice \<noteq> None"
    using that obj [of FDevice] obj [of FInstance] assms(2,3,4) by auto
  have shape: "vk_shape ?b"
    unfolding vk_shape_def
  proof (intro conjI allI impI)
    show "vb_lost_handles ?b = []"
      using lost assms(1) by (simp add: vk_shape_def)
    show "vb_obj ?b g = None" if "vb_obj ?b FDevice = None" "g \<noteq> FInstance" for g
      using that none [of g] by auto
  qed (use books closed fits inst in auto)
  have "vk_tidy ?b" if "vb_obj ?b FDevice \<noteq> None"
  proof -
    have "vb_obj ?b g = None" if "part_of g = Some g'" for g g'
      using that by (intro none) auto
    with shape that none [of FFramebuffer] show ?thesis
      unfolding vk_tidy_def vk_up_def by auto
  qed
  with shape show "vk_inv ?b"
    by (simp add: vk_inv_def)
  show "vb_obj ?b f \<noteq> None" if "snd (vk_run api [Make f] b) = RP_OK"
    using vk_run_made [OF that, of f] by simp
  show "vb_obj ?b FDevice = None" if "f = FInstance"
    using obj [of FDevice] assms(2) that by simp
  show "vb_lost ?b = vb_lost b" if "f = FDevice"
    using assms(2) that by (intro vk_run_lost_obj) auto
  show "vb_lost ?b = vb_lost b" if "vb_obj b FInstance = None"
    using assms(2,4) that by (intro vk_run_lost_obj) auto
qed

lemma vk_shape_config: "vk_shape (b\<lparr>vb_uuid := u, vb_queue_family := q\<rparr>) = vk_shape b"
  by (simp add: vk_shape_def)

lemma create_device_inv:
  assumes "vk_shape b" "vb_obj b FDevice = None"
  shows "vk_inv (fst (create_instance_and_device api b))"
    "snd (create_instance_and_device api b) = RP_OK \<Longrightarrow> vb_obj (fst (create_instance_and_device api b)) FDevice \<noteq> None"
    "vb_obj b FInstance = None \<Longrightarrow> vb_lost (fst (create_instance_and_device api b)) = vb_lost b"
proof -
  obtain b1 r1 where run: "vk_run api [Make FInstance] b = (b1, r1)"
    by (cases "vk_run api [Make FInstance] b")
  note first = vk_shape_run_first [OF assms, of FInstance api, unfolded run]
  have inv1: "vk_inv b1" and dev1: "vb_obj b1 FDevice = None" and inst1: "r1 = RP_OK \<Longrightarrow> vb_obj b1 FInstance \<noteq> None"
    and lost1: "vb_obj b FInstance = None \<Longrightarrow> vb_lost b1 = vb_lost b"
    using first by auto
  have second: "vk_inv (fst (vk_run api [Make FDevice] b2))"
    "snd (vk_run api [Make FDevice] b2) = RP_OK \<Longrightarrow> vb_obj (fst (vk_run api [Make FDevice] b2)) FDevice \<noteq> None"
    "vb_lost (fst (vk_run api [Make FDevice] b2)) = vb_lost b1"
    if "r1 = RP_OK" "b2 = b1\<lparr>vb_uuid := u, vb_queue_family := q\<rparr>" for b2 u q
    using vk_shape_run_first [of b2 FDevice api] inv1 dev1 inst1 that by (auto simp: vk_shape_config vk_inv_def simp del: vk_run.simps)
  note eq = create_instance_and_device_def [of api b, unfolded vk_then_def run prod.case]
  show "vk_inv (fst (create_instance_and_device api b))"
    unfolding eq using inv1 second(1) by (auto split: option.split simp del: vk_run.simps)
  show "vb_obj (fst (create_instance_and_device api b)) FDevice \<noteq> None"
    if "snd (create_instance_and_device api b) = RP_OK"
    using that second(2) unfolding eq by (auto split: option.splits if_splits simp del: vk_run.simps)
  show "vb_lost (fst (create_instance_and_device api b)) = vb_lost b" if "vb_obj b FInstance = None"
    unfolding eq using lost1 [OF that] second(3) by (auto split: option.split simp del: vk_run.simps)
qed

text \<open>One call of the interface. The driver may behave differently at every call.\<close>

inductive vk_step :: "VulkanBackend \<Rightarrow> VulkanBackend \<Rightarrow> bool" where
  initialize: "vk_step b (fst (vk_initialize api b window w h))"
| allocate: "vk_step b (fst (vk_allocate_surfaces api b n w h))"
| composite: "vk_step b (fst (vk_composite_and_present api b i sync has_frame out))"
| driven: "vk_step b (fst (vk_composite_driven api b data w h pitch dupe out))"

inductive vk_reachable :: "VulkanBackend \<Rightarrow> bool" where
  new: "vk_reachable VulkanBackend_new"
| step: "vk_reachable b \<Longrightarrow> vk_step b b' \<Longrightarrow> vk_reachable b'"

lemma vk_inv_new: "vk_inv VulkanBackend_new"
  using vk_books_new by (simp add: vk_inv_def vk_shape_def VulkanBackend_new_def)

lemma vk_tidy_inv: "vk_tidy b \<Longrightarrow> vk_inv b"
  by (simp add: vk_inv_def vk_tidy_def vk_up_def)

text \<open>When something can be lost: a second instance is made, or a compositor that was left part-made is made again.\<close>

definition vk_retry :: "VulkanBackend \<Rightarrow> bool" where
  "vk_retry b \<longleftrightarrow> (if vb_obj b FDevice = None then vb_obj b FInstance \<noteq> None
     else \<not> vb_compositor_ready b \<and> \<not> compositor_null b)"

lemma vk_initialize_keeps:
  assumes "vk_inv b"
  shows "vk_inv (fst (vk_initialize api b window w h)) \<and>
    (\<not> vk_retry b \<longrightarrow> vb_lost (fst (vk_initialize api b window w h)) = vb_lost b)"
proof -
  let ?b = "b\<lparr>vb_width := w, vb_height := h\<rparr>"
  have windowed: "vk_inv (fst (if window \<noteq> None then create_swapchain api b else (b, RP_OK))) \<and>
      vb_lost (fst (if window \<noteq> None then create_swapchain api b else (b, RP_OK))) = vb_lost b" if "vk_tidy b" for b
    using create_swapchain_clean [of "vb_lost b" b api] that by (simp add: vk_clean_def vk_tidy_inv)
  show ?thesis
  proof (cases "vb_obj b FDevice = None")
    case True
    have shape: "vk_shape ?b"
      using assms by (simp add: vk_inv_def vk_shape_def)
    note made = create_device_inv [OF shape, of api]
    obtain b1 r1 where run: "create_instance_and_device api ?b = (b1, r1)"
      by (cases "create_instance_and_device api ?b")
    have "vk_inv b1" "r1 = RP_OK \<Longrightarrow> vk_tidy b1" "vb_obj b FInstance = None \<Longrightarrow> vb_lost b1 = vb_lost b"
      using made True run by (auto simp: vk_inv_def)
    moreover have "vk_initialize api b window w h =
        (if r1 \<noteq> RP_OK then (b1, r1) else if window \<noteq> None then create_swapchain api b1 else (b1, RP_OK))"
      using True run by (simp add: vk_initialize_def vk_then_def)
    ultimately show ?thesis
      using windowed [of b1] True by (auto simp: vk_retry_def)
  next
    case False
    then have "vk_tidy ?b"
      using assms by (simp add: vk_inv_def)
    moreover have "vk_initialize api b window w h = (if window \<noteq> None then create_swapchain api ?b else (?b, RP_OK))"
      using False by (auto simp: vk_initialize_def vk_then_def Let_def)
    ultimately show ?thesis
      using windowed [of ?b] by simp
  qed
qed

lemma vk_step_keeps:
  assumes "vk_step b b'" "vk_inv b"
  shows "vk_inv b' \<and> (\<not> vk_retry b \<longrightarrow> vb_lost b' = vb_lost b)"
proof (cases "vb_obj b FDevice = None")
  case True
  from assms(1) show ?thesis
    by cases (use True assms(2) vk_initialize_keeps [OF assms(2)] in
      \<open>auto simp: vk_allocate_surfaces_def vk_composite_and_present_def vk_composite_driven_def\<close>)
next
  case False
  then have tidy: "vk_tidy b" and clean: "vk_clean (vb_lost b) b"
    using assms(2) by (simp_all add: vk_inv_def vk_clean_def)
  have steady: ?thesis if "vk_steady b b'"
    using that False by (auto simp: vk_steady_def vk_retry_def vk_tidy_inv)
  from assms(1) show ?thesis
  proof cases
    case allocate
    with vk_allocate_surfaces_clean [OF clean] show ?thesis
      by (intro steady vk_steadyI) simp
  qed (use vk_initialize_keeps [OF assms(2)] steady vk_composite_steady [OF tidy] vk_driven_steady [OF tidy] in simp_all)
qed

lemma vk_reachable_inv: "vk_reachable b \<Longrightarrow> vk_inv b"
  by (induction rule: vk_reachable.induct) (use vk_inv_new vk_step_keeps in blast)+

text \<open>What a backend holds decides what exists.\<close>

lemma vk_books_live: "vk_books b \<Longrightarrow> set (vb_live b) = ran (vb_obj b) \<union> set (vb_lost b)"
  by (simp add: vk_books_def ledger_def)

lemma vk_books_open: "vk_books b \<Longrightarrow> vb_lost_handles b = [] \<Longrightarrow> set (vb_open b) = ran (vb_handle b)"
  by (simp add: vk_books_def ledger_def)

lemma vk_books_drops: "vk_books b \<Longrightarrow> vk_books (vk_drops fs b)"
  by (induction fs arbitrary: b) (simp_all add: vk_books_drop)

lemma vk_drops_lost_handles [simp]: "vb_lost_handles (vk_drops fs b) = vb_lost_handles b"
  by (induction fs arbitrary: b) (simp_all add: vk_drop_fields)

definition composite_members :: "vk_field set" where
  "composite_members = {FFence, FPool, FStagingBuf, FStagingMem, FOffView, FOffImage, FOffMem}"

lemma destroy_composite_fields:
  assumes "vk_up b"
  shows "vk_up (destroy_composite b)" "vb_handle (destroy_composite b) = vb_handle b" "vb_lost (destroy_composite b) = vb_lost b"
    "vb_obj (destroy_composite b) f =
       (if f \<in> composite_members \<or> vb_compositor_ready b \<and> f \<in> set compositor_fields then None else vb_obj b f)"
proof -
  have dev: "vb_obj b FDevice \<noteq> None"
    using assms by (simp add: vk_up_iff)
  have "FDevice \<notin> set compositor_fields" "FInstance \<notin> set compositor_fields"
    by (simp_all add: compositor_fields_def)
  with assms dev show "vk_up (destroy_composite b)"
    by (auto simp: destroy_composite_def VulkanCompositor_destroy_def Let_def simp del: vk_drops_Cons intro!: vk_up_drops)
  show "vb_handle (destroy_composite b) = vb_handle b" "vb_lost (destroy_composite b) = vb_lost b"
    by (simp_all add: destroy_composite_def VulkanCompositor_destroy_def Let_def del: vk_drops_Cons)
  show "vb_obj (destroy_composite b) f =
       (if f \<in> composite_members \<or> vb_compositor_ready b \<and> f \<in> set compositor_fields then None else vb_obj b f)"
    using dev by (auto simp: destroy_composite_def VulkanCompositor_destroy_def Let_def composite_members_def simp del: vk_drops_Cons)
qed

lemma destroy_composite_clean:
  assumes "vk_clean l b"
  shows "vk_clean l (destroy_composite b)"
proof -
  have up: "vk_up b" and tidy: "vk_tidy b"
    using assms by (simp_all add: vk_clean_def vk_tidy_def)
  note f = destroy_composite_fields [OF up]
  have "vb_obj (destroy_composite b) f' = None" if "part_of f' = Some g" for f' g
    using that by (cases f') (simp_all add: f(4) composite_members_def)
  moreover have "vb_obj (destroy_composite b) FFramebuffer = None"
    using tidy by (auto simp: f(4) vk_tidy_def compositor_fields_def)
  ultimately show ?thesis
    using assms f(1,3) unfolding vk_clean_def vk_tidy_def by auto
qed

lemma destroy_driven_fields:
  assumes "vk_up b"
  shows "vb_obj (destroy_driven b) f = (if f \<in> driven_members then None else vb_obj b f)"
    "vb_compositor_ready (destroy_driven b) = vb_compositor_ready b"
  using assms by (auto simp: destroy_driven_def driven_members_def vk_up_iff simp del: vk_drops_Cons)

text \<open>The destructor, with a device: everything but a part-made compositor goes.\<close>

lemma vk_clean_up: "vk_clean l b \<Longrightarrow> vk_up b"
  by (simp add: vk_clean_def vk_tidy_def)

lemma destructor_members:
  assumes "vk_clean l b"
  defines "b' \<equiv> destroy_surfaces (destroy_swapchain (destroy_composite (destroy_driven b)))"
  shows "vk_clean l b'" "vb_handle b' h = None"
    "vb_obj b' f = (if f \<in> {FInstance, FDevice} \<or> \<not> vb_compositor_ready b \<and> f \<in> set compositor_fields then vb_obj b f else None)"
proof -
  note c1 = destroy_driven_clean [OF assms(1)]
  note c2 = destroy_composite_clean [OF c1]
  note c3 = destroy_swapchain_clean [OF c2]
  note c4 = destroy_surfaces_room [OF c3]
  show "vk_clean l b'" "vb_handle b' h = None"
    using c4(1) by (simp_all add: b'_def vk_room_def after_surfaces_def)
  show "vb_obj b' f =
      (if f \<in> {FInstance, FDevice} \<or> \<not> vb_compositor_ready b \<and> f \<in> set compositor_fields then vb_obj b f else None)"
    unfolding b'_def c4(3) destroy_swapchain_up(2) [OF vk_clean_up [OF c2]]
      destroy_composite_fields(4) [OF vk_clean_up [OF c1]] destroy_driven_fields [OF vk_clean_up [OF assms(1)]]
    by (cases f) (auto simp: after_surfaces_def driven_members_def composite_members_def compositor_fields_def)
qed

lemma VulkanBackend_destroy_members:
  assumes "vk_inv b"
  shows "vk_books (VulkanBackend_destroy b)" "vb_lost_handles (VulkanBackend_destroy b) = []"
    "vb_handle (VulkanBackend_destroy b) h = None" "vb_lost (VulkanBackend_destroy b) = vb_lost b"
    "vb_obj (VulkanBackend_destroy b) f = (if \<not> vb_compositor_ready b \<and> f \<in> set compositor_fields then vb_obj b f else None)"
proof -
  consider "vb_obj b FDevice = None" | "vb_obj b FDevice \<noteq> None" by blast
  then have "vk_books (VulkanBackend_destroy b) \<and> vb_lost_handles (VulkanBackend_destroy b) = [] \<and>
    vb_handle (VulkanBackend_destroy b) h = None \<and> vb_lost (VulkanBackend_destroy b) = vb_lost b \<and>
    vb_obj (VulkanBackend_destroy b) f = (if \<not> vb_compositor_ready b \<and> f \<in> set compositor_fields then vb_obj b f else None)"
  proof cases
    case 1
    then have "VulkanBackend_destroy b = vk_drop FInstance b"
      by (simp add: VulkanBackend_destroy_def)
    with 1 assms vk_books_drop [of b FInstance] show ?thesis
      by (auto simp: vk_inv_def vk_shape_def vk_drop_fields compositor_fields_def)
  next
    case 2
    let ?b = "destroy_surfaces (destroy_swapchain (destroy_composite (destroy_driven b)))"
    have "vk_clean (vb_lost b) b"
      using assms 2 by (simp add: vk_inv_def vk_clean_def)
    note m = destructor_members [OF this]
    have eq: "VulkanBackend_destroy b = vk_drop FInstance (vk_drop FDevice ?b)"
      using 2 by (simp add: VulkanBackend_destroy_def)
    have "vk_books ?b" "vb_lost_handles ?b = []" "vb_lost ?b = vb_lost b"
      using m(1) by (simp_all add: vk_clean_def vk_tidy_def vk_up_iff)
    then show ?thesis
      unfolding eq using vk_books_drop [OF vk_books_drop [of ?b FDevice], of FInstance] m(2,3)
      by (auto simp: vk_drop_fields compositor_fields_def)
  qed
  then show "vk_books (VulkanBackend_destroy b)" "vb_lost_handles (VulkanBackend_destroy b) = []"
    "vb_handle (VulkanBackend_destroy b) h = None" "vb_lost (VulkanBackend_destroy b) = vb_lost b"
    "vb_obj (VulkanBackend_destroy b) f = (if \<not> vb_compositor_ready b \<and> f \<in> set compositor_fields then vb_obj b f else None)"
    by blast+
qed

definition part_made :: "VulkanBackend \<Rightarrow> nat set" where
  "part_made b = (if vb_compositor_ready b then {} else {x. \<exists>f \<in> set compositor_fields. vb_obj b f = Some x})"

lemma VulkanBackend_destroy_leaves:
  assumes "vk_inv b"
  shows "vb_open (VulkanBackend_destroy b) = []" "\<not> vb_freed_twice (VulkanBackend_destroy b)"
    "set (vb_live (VulkanBackend_destroy b)) = set (vb_lost b) \<union> part_made b"
proof -
  note d = VulkanBackend_destroy_members [OF assms]
  have "ran (vb_handle (VulkanBackend_destroy b)) = {}"
    using d(3) by (auto simp: ran_def)
  with vk_books_open [OF d(1,2)] show "vb_open (VulkanBackend_destroy b) = []"
    by simp
  show "\<not> vb_freed_twice (VulkanBackend_destroy b)"
    using d(1) by (simp add: vk_books_def)
  have "ran (vb_obj (VulkanBackend_destroy b)) = part_made b"
    using d(5) by (auto simp: ran_def part_made_def split: if_splits)
  with vk_books_live [OF d(1)] d(4) show "set (vb_live (VulkanBackend_destroy b)) = set (vb_lost b) \<union> part_made b"
    by auto
qed

text \<open>A step that loses an object is a retry.\<close>

lemma vk_step_loses_only_on_retry:
  "vk_reachable b \<Longrightarrow> vk_step b b' \<Longrightarrow> vb_lost b' \<noteq> vb_lost b \<Longrightarrow> vk_retry b"
  using vk_step_keeps vk_reachable_inv by blast

text \<open>C24. After any sequence of calls of the Vulkan backend, whichever calls of the driver failed on the way: every kernel
  handle that is open is held by a member, none is held twice, and nothing was destroyed twice; every object of the
  driver is held or lost. The destructor closes every kernel handle, destroys nothing twice, and
  leaves only the objects lost before and the parts of a compositor whose initialisation failed. A further call
  loses nothing unless it repeats a failed creation of the device or of the compositor.\<close>

theorem vulkan_handles_balanced:
  assumes "vk_reachable b"
  shows "distinct (vb_open b) \<and> set (vb_open b) = ran (vb_handle b) \<and> inj_on (vb_handle b) (dom (vb_handle b)) \<and>
    \<not> vb_freed_twice b \<and> set (vb_live b) = ran (vb_obj b) \<union> set (vb_lost b) \<and>
    vb_open (VulkanBackend_destroy b) = [] \<and> \<not> vb_freed_twice (VulkanBackend_destroy b) \<and>
    set (vb_live (VulkanBackend_destroy b)) = set (vb_lost b) \<union> part_made b \<and>
    (vk_step b b' \<longrightarrow> \<not> vk_retry b \<longrightarrow> vb_lost b' = vb_lost b)"
proof -
  note inv = vk_reachable_inv [OF assms]
  then have books: "vk_books b" "vb_lost_handles b = []"
    by (simp_all add: vk_inv_def vk_shape_def)
  have inj: "inj_on (vb_handle b) (dom (vb_handle b))"
    using books(1) by (auto simp: vk_books_def ledger_def inj_on_def)
  show ?thesis
    using books inj vk_books_live [OF books(1)] vk_books_open [OF books] VulkanBackend_destroy_leaves [OF inv]
      vk_step_keeps [of b b'] inv
    by (simp add: vk_books_def ledger_def)
qed

text \<open>A driver that refuses one call, the creation of the compositor's pipeline.\<close>

definition vk_refusing :: "nat \<Rightarrow> vk_api" where
  "vk_refusing n = \<lparr>vk_ok = (\<lambda>i. i \<noteq> n), vk_devices = [\<lparr>vd_families = [True], vd_discrete = True, vd_uuid = []\<rparr>],
     vk_memory_types = [7], vk_type_bits = (\<lambda>_. 1),
     vk_surface = \<lparr>vs_supported = True, vs_formats = [(44, 0)], vs_current_extent = (4, 4), vs_min_extent = (1, 1),
        vs_max_extent = (9, 9), vs_min_images = 2, vs_max_images = 0, vs_images = 2\<rparr>,
     vk_acquire = (\<lambda>_. AcquireOk 0), vk_memory = (\<lambda>n. replicate n 0), vk_shared = (\<lambda>_. []),
     vk_draw = (\<lambda>_ w h. replicate (unat w * unat h * 4) 9)\<rparr>"

definition vk_demo :: "nat \<Rightarrow> VulkanBackend" where
  "vk_demo n =
     fst (vk_composite_and_present (vk_refusing n)
       (fst (vk_allocate_surfaces (vk_refusing n) (fst (vk_initialize (vk_refusing n) VulkanBackend_new None 1 1)) 1 1 1)) 0 2 True True)"

lemma vk_demo_reachable: "vk_reachable (vk_demo n)"
  unfolding vk_demo_def
  by (rule vk_reachable.step [OF vk_reachable.step [OF vk_reachable.step [OF vk_reachable.new vk_step.initialize]
        vk_step.allocate] vk_step.composite])

theorem vulkan_handles_balanced_witness:
  "vb_open (vk_demo 20) = [10, 8, 5] \<and> set (vb_open (vk_demo 20)) = ran (vb_handle (vk_demo 20)) \<and>
   vb_open (VulkanBackend_destroy (vk_demo 20)) = [] \<and> vb_live (VulkanBackend_destroy (vk_demo 20)) = [17, 16, 15, 14, 13, 12, 11]"
proof -
  have "vb_open (vk_demo 20) = [10, 8, 5]"
    by code_simp
  moreover have "vb_live (VulkanBackend_destroy (vk_demo 20)) = [17, 16, 15, 14, 13, 12, 11]"
    by code_simp
  ultimately show ?thesis
    using vulkan_handles_balanced [OF vk_demo_reachable, of 20] by simp
qed

end
