(* ===== verification/RP_Vulkan_Frames.thy ===== *)
theory RP_Vulkan_Frames
  imports RP_Vulkan_Life
begin

text \<open>
  What the Vulkan backend shows without a window: a frame of a driven core reaches the caller's buffer through the upload, the
  compositor and the read-back unchanged, and a duplicate shows it again.
\<close>

section \<open>Successful calls\<close>






text \<open>A headless backend whose objects are complete and have the current size, with the picture of the core it holds.\<close>

definition vk_headless :: "VulkanBackend \<Rightarrow> bool" where
  "vk_headless b \<longleftrightarrow>
     vb_obj b FDevice \<noteq> None \<and> vb_obj b FSwapchain = None \<and> \<not> vb_crashed b \<and>
     (vb_obj b FOffImage \<noteq> None \<longrightarrow>
        vb_obj b FOffView \<noteq> None \<and> vb_obj b FStagingBuf \<noteq> None \<and>
        fst (vb_offscreen b) = vb_width b \<and> fst (snd (vb_offscreen b)) = vb_height b \<and>
        length (vb_staging b) = picture_bytes (vb_width b) (vb_height b)) \<and>
     (vb_obj b FPool \<noteq> None \<longrightarrow> vb_obj b FFence \<noteq> None \<and> vb_cmd b) \<and>
     (vb_obj b FDrivenImage \<noteq> None \<and> vb_driven_w b \<noteq> 0 \<longrightarrow>
        vb_obj b FDrivenView \<noteq> None \<and> length (vb_driven_staging b) = picture_bytes (vb_driven_w b) (vb_driven_h b))"

definition vk_complete :: "VulkanBackend \<Rightarrow> bool" where
  "vk_complete b \<longleftrightarrow> vk_headless b \<and> vb_obj b FOffImage \<noteq> None \<and> vb_obj b FPool \<noteq> None"

text \<open>What the steps leave alone.\<close>

definition vk_same_view :: "VulkanBackend \<Rightarrow> VulkanBackend \<Rightarrow> bool" where
  "vk_same_view b b' \<longleftrightarrow>
     vb_width b' = vb_width b \<and> vb_height b' = vb_height b \<and> driven_picture b' = driven_picture b"



lemma vk_headless_updates [simp]:
  "vk_headless (b\<lparr>vb_fb := v1\<rparr>) = vk_headless b" "vk_headless (b\<lparr>vb_signals := v2\<rparr>) = vk_headless b"
  "vk_headless (b\<lparr>vb_last_sync := v3\<rparr>) = vk_headless b" "vk_headless (b\<lparr>vb_calls := v4\<rparr>) = vk_headless b"
  "vk_headless (b\<lparr>vb_driven_image := v5\<rparr>) = vk_headless b"
  "vk_headless (b\<lparr>vb_compositor_ready := v7\<rparr>) = vk_headless b"
  by (simp_all add: vk_headless_def)

lemma vk_same_view_updates [simp]:
  "vk_same_view b (c\<lparr>vb_fb := v1\<rparr>) = vk_same_view b c" "vk_same_view b (c\<lparr>vb_signals := v2\<rparr>) = vk_same_view b c"
  "vk_same_view b (c\<lparr>vb_last_sync := v3\<rparr>) = vk_same_view b c" "vk_same_view b (c\<lparr>vb_calls := v4\<rparr>) = vk_same_view b c"
  "vk_same_view b (c\<lparr>vb_cmd := v5\<rparr>) = vk_same_view b c" "vk_same_view b (c\<lparr>vb_staging := v6\<rparr>) = vk_same_view b c"
  "vk_same_view b (c\<lparr>vb_offscreen := v7\<rparr>) = vk_same_view b c" "vk_same_view b (c\<lparr>vb_compositor_ready := v8\<rparr>) = vk_same_view b c"
  "vk_same_view b (c\<lparr>vb_driven_staging := v9\<rparr>) = vk_same_view b c"
  by (simp_all add: vk_same_view_def driven_picture_def del: split_paired_Ex)


lemma vk_same_view_refl [simp]: "vk_same_view b b"
  by (simp add: vk_same_view_def)

section \<open>Preparation\<close>





section \<open>Upload\<close>







lemma vk_complete_updates [simp]:
  "vk_complete (b\<lparr>vb_fb := v1\<rparr>) = vk_complete b" "vk_complete (b\<lparr>vb_signals := v2\<rparr>) = vk_complete b"
  "vk_complete (b\<lparr>vb_last_sync := v3\<rparr>) = vk_complete b" "vk_complete (b\<lparr>vb_calls := v4\<rparr>) = vk_complete b"
  "vk_complete (b\<lparr>vb_driven_image := v5\<rparr>) = vk_complete b"
  by (simp_all add: vk_complete_def)



section \<open>Composition and read-back\<close>





section \<open>Frames are shown\<close>



text \<open>A driver that copies the picture into the corner of the target.\<close>

definition vk_plain_driver :: "nat \<Rightarrow> vk_api" where
  "vk_plain_driver n = (vk_refusing n)\<lparr>vk_draw := (\<lambda>src w h. take (picture_bytes w h)
     ((case src of None \<Rightarrow> [] | Some (_, _, px) \<Rightarrow> px) @ replicate (picture_bytes w h) 0))\<rparr>"

definition vk_first :: "nat \<Rightarrow> u32 \<Rightarrow> u32 \<Rightarrow> VulkanBackend" where
  "vk_first n w h = fst (vk_initialize (vk_plain_driver n) VulkanBackend_new None w h)"




section \<open>Where the code goes wrong\<close>

text \<open>Allocating larger surfaces after a headless composition changes the display size but keeps the target and the staging buffer
  of the old size: the next composition draws and copies beyond both.\<close>

lemma vulkan_resize_overruns:
  fixes api b1 b2
  defines "api \<equiv> vk_plain_driver 99"
    and "b1 \<equiv> fst (vk_composite_driven api (vk_first 99 1 1) (Some [1, 2, 3, 4]) 1 1 4 False True)"
    and "b2 \<equiv> fst (vk_allocate_surfaces api b1 2 2 2)"
  shows "\<not> vb_crashed b2 \<and> vb_crashed (fst (vk_composite_and_present api b2 0 0 False True))"
  unfolding assms by code_simp

text \<open>The target image is made before its view; when the view fails the next call takes the image for a complete target.\<close>

lemma vulkan_failed_view_crashes:
  fixes api b1
  defines "api \<equiv> vk_plain_driver 14"
    and "b1 \<equiv> vk_composite_driven api (vk_first 14 1 1) (Some [1, 2, 3, 4]) 1 1 4 False True"
  shows "fst (snd b1) = RP_ERR_DEVICE \<and> \<not> vb_crashed (fst b1) \<and>
     vb_crashed (fst (vk_composite_driven api (fst b1) (Some [1, 2, 3, 4]) 1 1 4 False True))"
  unfolding assms by code_simp

text \<open>A present whose read-back fails after the submission does not record the frame as consumed: the next present
  signals the same value again, although timeline values have to increase.\<close>

lemma vulkan_signals_twice:
  fixes api b0 b1
  defines "api \<equiv> vk_plain_driver 38"
    and "b0 \<equiv> fst (vk_allocate_surfaces api (vk_first 38 1 1) 1 1 1)"
    and "b1 \<equiv> vk_composite_and_present api b0 0 2 True True"
  shows "vb_signals (fst (vk_composite_and_present api (fst b1) 0 2 True True)) = [(FTimeline, 3), (FTimeline, 3)]"
  unfolding assms by code_simp

end
