(* ===== verification/RP_Present.thy ===== *)
theory RP_Present
  imports RP_SurfaceRing
begin

text \<open>
  The presenting reference core \<open>cores/refcore_present/RefCore.cpp\<close> together with the host side it works with:
  the part of \<open>Runtime::render\<close> and \<open>D3D11Backend::composite_and_present\<close> that picks a slot, takes its keyed
  mutex, draws and gives it back, and \<open>Runtime::resize\<close>, which stops the core's thread, makes new surfaces
  and starts it again. The two threads interleave at every call that touches shared state.

  The keyed mutex is the operating system's: it is the parameter \<open>km\<close>, with its documented behaviour as
  the hypothesis \<open>keyed_mutex_law\<close>. A wait that ends in a time-out is an acquisition that fails.
  Colours are rational numbers.
\<close>

section \<open>Shared surfaces\<close>

record 'm keyed_mutex =
  km_fresh :: 'm
  km_acquire :: "'m \<Rightarrow> u64 \<Rightarrow> 'm \<times> bool"
  km_release :: "'m \<Rightarrow> u64 \<Rightarrow> 'm"

text \<open>\<open>key_of\<close> reads a mutex: the key it was released with, or \<open>None\<close> while it is held.\<close>

definition keyed_mutex_law :: "'m keyed_mutex \<Rightarrow> ('m \<Rightarrow> u64 option) \<Rightarrow> bool" where
  "keyed_mutex_law km key_of \<longleftrightarrow>
     key_of (km_fresh km) = Some 0 \<and>
     (\<forall>m key. snd (km_acquire km m key) \<longleftrightarrow> key_of m = Some key) \<and>
     (\<forall>m key. key_of (fst (km_acquire km m key)) = (if key_of m = Some key then None else key_of m)) \<and>
     (\<forall>m key. key_of m = None \<longrightarrow> key_of (km_release km m key) = Some key)"

text \<open>A clear that is queued is \<open>Painting\<close> until the flush has run it.\<close>

type_synonym colour = "rat \<times> rat \<times> rat \<times> rat"

datatype picture = Unpainted | Painting colour | Painted colour

record 'm shared_surface =
  su_mutex :: 'm
  su_px :: picture

section \<open>The core\<close>

record Slot =
  sl_handle :: nat
  sl_index :: u32
  sl_generation :: u64

text \<open>Where the core's thread stands in \<open>RefCore::loop\<close>.\<close>

datatype core_pc = CTop | CAcquire Slot | CClear Slot | CFlush Slot | CRelease Slot | CSubmit Slot | CSleep | CExit

record RefCore =
  co_slots :: "Slot list"
  co_running :: bool
  co_cursor :: u32
  co_frame :: u32
  co_thread :: "core_pc option"

definition RefCore_new :: RefCore where
  "RefCore_new = \<lparr>co_slots = [], co_running = False, co_cursor = 0, co_frame = 0, co_thread = None\<rparr>"

definition frame_colour :: "u32 \<Rightarrow> colour" where
  "frame_colour f = (0, 1, of_nat (unat (f mod 120)) / 120, 1)"

definition ref_info :: rp_core_info where
  "ref_info = \<lparr>ci_abi_version = RETROPARK_ABI_VERSION, ci_type = 0, ci_graphics_api = 0, ci_id = ''refcore_present''\<rparr>"

text \<open>\<open>ref_create\<close>: whether the device and its newer interface can be had is up to Direct3D.\<close>

definition ref_create :: "bool \<Rightarrow> bool \<Rightarrow> RefCore option" where
  "ref_create device device1 = (if \<not> device then None else if \<not> device1 then None else Some RefCore_new)"

text \<open>\<open>ref_set_surfaces\<close>: \<open>opened\<close> is how many surfaces the device manages to open and view. The cursor
  is reset only when all are.\<close>

fun open_slots :: "nat \<Rightarrow> rp_surface_desc list \<Rightarrow> Slot list \<times> rp_result" where
  "open_slots opened [] = ([], RP_OK)"
| "open_slots 0 (d # ds) = ([], RP_ERR_DEVICE)"
| "open_slots (Suc opened) (d # ds) =
     (case open_slots opened ds of (slots, r) \<Rightarrow>
        (\<lparr>sl_handle = the (sd_shared_handle d), sl_index = sd_index d, sl_generation = sd_generation d\<rparr> # slots, r))"

definition ref_set_surfaces :: "nat \<Rightarrow> RefCore \<Rightarrow> rp_surface_set \<Rightarrow> RefCore \<times> rp_result" where
  "ref_set_surfaces opened c surfs =
     (case open_slots opened (ss_surfaces surfs) of (slots, r) \<Rightarrow>
        let c = c\<lparr>co_slots := slots\<rparr> in if r = RP_OK then (c\<lparr>co_cursor := 0\<rparr>, RP_OK) else (c, r))"

definition ref_start :: "RefCore \<Rightarrow> RefCore \<times> rp_result" where
  "ref_start c =
     (if co_running c then (c, RP_OK) else (c\<lparr>co_running := True, co_thread := Some CTop\<rparr>, RP_OK))"

text \<open>\<open>ref_stop\<close> and \<open>ref_destroy\<close> clear the flag and then wait in \<open>join\<close> for the thread to end.\<close>

definition ref_ask_stop :: "RefCore \<Rightarrow> RefCore" where
  "ref_ask_stop c = c\<lparr>co_running := False\<rparr>"

definition ref_join :: "RefCore \<Rightarrow> RefCore option" where
  "ref_join c =
     (case co_thread c of None \<Rightarrow> Some c
      | Some pc \<Rightarrow> if pc = CExit then Some (c\<lparr>co_thread := None\<rparr>) else None)"

section \<open>The two threads\<close>

text \<open>What one \<open>present\<close> did, and where the host's thread stands. \<open>HJoin\<close> waits for the core's thread, to go on
  with a resize (in which \<open>made\<close> surfaces can be made and \<open>opened\<close> of them opened) or to unload the core.\<close>

datatype present_outcome = Shown picture | ShownBlack | TimedOut

datatype after_join = ThenResize u32 u32 nat nat | ThenUnload

datatype host_pc = HIdle | HAcquire u32 | HDraw u32 | HRelease u32 | HJoin after_join

record 'm present_sys =
  ps_core :: RefCore
  ps_store :: "'m shared_surface list"
  ps_ring :: SurfaceRing
  ps_surfaces :: "nat list"
  ps_loaded :: bool
  ps_paused :: bool
  ps_last_ready :: "u32 option"
  ps_host :: host_pc
  ps_log :: "present_outcome list"

definition present_init :: "u32 \<Rightarrow> 'm present_sys" where
  "present_init n = \<lparr>ps_core = RefCore_new, ps_store = [], ps_ring = SurfaceRing_new n, ps_surfaces = [],
     ps_loaded = False, ps_paused = False, ps_last_ready = None, ps_host = HIdle, ps_log = []\<rparr>"

definition at_pc :: "core_pc \<Rightarrow> 'm present_sys \<Rightarrow> 'm present_sys" where
  "at_pc pc s = s\<lparr>ps_core := (ps_core s)\<lparr>co_thread := Some pc\<rparr>\<rparr>"

definition set_mutex :: "nat \<Rightarrow> 'm \<Rightarrow> 'm present_sys \<Rightarrow> 'm present_sys" where
  "set_mutex h m s = s\<lparr>ps_store := (ps_store s)[h := (ps_store s ! h)\<lparr>su_mutex := m\<rparr>]\<rparr>"

definition set_px :: "nat \<Rightarrow> picture \<Rightarrow> 'm present_sys \<Rightarrow> 'm present_sys" where
  "set_px h px s = s\<lparr>ps_store := (ps_store s)[h := (ps_store s ! h)\<lparr>su_px := px\<rparr>]\<rparr>"

definition loop_top :: "'m present_sys \<Rightarrow> 'm present_sys" where
  "loop_top s =
     (let c = ps_core s
      in if \<not> co_running c then at_pc CExit s
         else if co_slots c = [] then at_pc CSleep s
         else at_pc (CAcquire (co_slots c ! unat (co_cursor c)))
                (s\<lparr>ps_core := c\<lparr>co_cursor := (co_cursor c + 1) mod of_nat (length (co_slots c))\<rparr>\<rparr>))"

definition loop_acquire :: "'m keyed_mutex \<Rightarrow> Slot \<Rightarrow> 'm present_sys \<Rightarrow> 'm present_sys" where
  "loop_acquire km sl s =
     (case km_acquire km (su_mutex (ps_store s ! sl_handle sl)) 0 of (m, ok) \<Rightarrow>
        at_pc (if ok then CClear sl else CSleep) (set_mutex (sl_handle sl) m s))"

definition loop_clear :: "Slot \<Rightarrow> 'm present_sys \<Rightarrow> 'm present_sys" where
  "loop_clear sl s =
     (let c = ps_core s
      in at_pc (CFlush sl)
           (set_px (sl_handle sl) (Painting (frame_colour (co_frame c)))
             (s\<lparr>ps_core := c\<lparr>co_frame := co_frame c + 1\<rparr>\<rparr>)))"

fun finish_painting :: "picture \<Rightarrow> picture" where
  "finish_painting (Painting c) = Painted c"
| "finish_painting px = px"

definition core_step :: "'m keyed_mutex \<Rightarrow> 'm present_sys \<Rightarrow> 'm present_sys" where
  "core_step km s =
     (case co_thread (ps_core s) of
        None \<Rightarrow> s
      | Some pc \<Rightarrow>
          (case pc of
             CTop \<Rightarrow> loop_top s
           | CAcquire sl \<Rightarrow> loop_acquire km sl s
           | CClear sl \<Rightarrow> loop_clear sl s
           | CFlush sl \<Rightarrow>
               at_pc (CRelease sl) (set_px (sl_handle sl) (finish_painting (su_px (ps_store s ! sl_handle sl))) s)
           | CRelease sl \<Rightarrow>
               at_pc (CSubmit sl) (set_mutex (sl_handle sl) (km_release km (su_mutex (ps_store s ! sl_handle sl)) 1) s)
           | CSubmit sl \<Rightarrow>
               at_pc CSleep (s\<lparr>ps_ring := fst (accept_submit (ps_ring s) (sl_index sl) (sl_generation sl) 0)\<rparr>)
           | CSleep \<Rightarrow> at_pc CTop s
           | CExit \<Rightarrow> s))"

text \<open>The host: \<open>Runtime::render\<close> picks the slot, \<open>composite_and_present\<close> takes it, draws and returns it.\<close>

definition host_pick :: "'m present_sys \<Rightarrow> 'm present_sys" where
  "host_pick s =
     (let (s, idx) =
        (if ps_paused s then (s, ps_last_ready s)
         else case latest_ready (ps_ring s) of None \<Rightarrow> (s, None)
              | Some (i, _) \<Rightarrow> (s\<lparr>ps_last_ready := Some i\<rparr>, Some i))
      in case idx of
           Some i \<Rightarrow> if unat i < length (ps_surfaces s) then s\<lparr>ps_host := HAcquire i\<rparr>
                     else s\<lparr>ps_log := ShownBlack # ps_log s\<rparr>
         | None \<Rightarrow> s\<lparr>ps_log := ShownBlack # ps_log s\<rparr>)"

definition host_acquire :: "'m keyed_mutex \<Rightarrow> u32 \<Rightarrow> 'm present_sys \<Rightarrow> 'm present_sys" where
  "host_acquire km i s =
     (let h = ps_surfaces s ! unat i
      in case km_acquire km (su_mutex (ps_store s ! h)) 1 of (m, ok) \<Rightarrow>
           if ok then (set_mutex h m s)\<lparr>ps_host := HDraw i\<rparr>
           else (set_mutex h m s)\<lparr>ps_host := HIdle, ps_log := TimedOut # ps_log s\<rparr>)"

text \<open>\<open>Runtime::rebuild_surfaces\<close> and the start after it, which \<open>finish_load_core\<close> and \<open>resize\<close> share, once no
  thread runs: allocate, reallocate the ring, hand over, start.\<close>

definition rebuild_and_start ::
  "'m keyed_mutex \<Rightarrow> u32 \<Rightarrow> u32 \<Rightarrow> nat \<Rightarrow> nat \<Rightarrow> 'm present_sys \<Rightarrow> 'm present_sys \<times> rp_result" where
  "rebuild_and_start km w h made opened s =
     (let n = unat (slot_count (ps_ring s));
          k = min made n;
          base = length (ps_store s);
          s = s\<lparr>ps_store := ps_store s @ replicate k \<lparr>su_mutex = km_fresh km, su_px = Unpainted\<rparr>,
                ps_surfaces := [base..<base + k]\<rparr>
      in if k < n then (s, RP_ERR_DEVICE)
         else case reallocate (ps_ring s) w h of (ring, gen) \<Rightarrow>
           let s = s\<lparr>ps_ring := ring, ps_last_ready := None\<rparr>;
               descs = map (\<lambda>i. \<lparr>sd_index = of_nat i, sd_width = w, sd_height = h,
                                 sd_format = RP_FMT_R8G8B8A8_UNORM, sd_shared_handle = Some (base + i),
                                 sd_generation = gen\<rparr>) [0..<n]
           in case ref_set_surfaces opened (ps_core s)
                     \<lparr>ss_count = of_nat n, ss_surfaces = descs, ss_sync_handle = None, ss_device_uuid = [],
                      ss_consume_sync_handle = None\<rparr> of (c, r) \<Rightarrow>
                if r \<noteq> RP_OK then (s\<lparr>ps_core := c\<rparr>, r)
                else case ref_start c of (c, r) \<Rightarrow> (s\<lparr>ps_core := c\<rparr>, r))"

definition drop_present_core :: "'m present_sys \<Rightarrow> 'm present_sys" where
  "drop_present_core s = s\<lparr>ps_core := RefCore_new, ps_loaded := False, ps_paused := False, ps_last_ready := None\<rparr>"

definition load_present_core ::
  "'m keyed_mutex \<Rightarrow> RefCore option \<Rightarrow> u32 \<Rightarrow> u32 \<Rightarrow> nat \<Rightarrow> nat \<Rightarrow> 'm present_sys \<Rightarrow> 'm present_sys" where
  "load_present_core km created w h made opened s =
     (case created of None \<Rightarrow> s
      | Some c \<Rightarrow>
          (case rebuild_and_start km w h made opened (s\<lparr>ps_core := c\<rparr>) of (s, r) \<Rightarrow>
             if r = RP_OK then s\<lparr>ps_loaded := True\<rparr> else drop_present_core s))"

definition finish_join :: "'m keyed_mutex \<Rightarrow> after_join \<Rightarrow> 'm present_sys \<Rightarrow> 'm present_sys" where
  "finish_join km j s =
     (case ref_join (ps_core s) of
        None \<Rightarrow> s\<lparr>ps_host := HJoin j\<rparr>
      | Some c \<Rightarrow>
          (let s = s\<lparr>ps_core := c, ps_host := HIdle\<rparr>
           in case j of
                ThenResize w h made opened \<Rightarrow> fst (rebuild_and_start km w h made opened s)
              | ThenUnload \<Rightarrow> drop_present_core s))"

definition host_step :: "'m keyed_mutex \<Rightarrow> 'm present_sys \<Rightarrow> 'm present_sys" where
  "host_step km s =
     (case ps_host s of
        HIdle \<Rightarrow> host_pick s
      | HAcquire i \<Rightarrow> host_acquire km i s
      | HDraw i \<Rightarrow> s\<lparr>ps_log := Shown (su_px (ps_store s ! (ps_surfaces s ! unat i))) # ps_log s, ps_host := HRelease i\<rparr>
      | HRelease i \<Rightarrow>
          (let h = ps_surfaces s ! unat i
           in (set_mutex h (km_release km (su_mutex (ps_store s ! h)) 0) s)\<lparr>ps_host := HIdle\<rparr>)
      | HJoin j \<Rightarrow> finish_join km j s)"

text \<open>The moves of the system. A call of the frontend other than the one under way has to wait for it.\<close>

datatype move = CoreMove | HostMove | Pause | Resume | Load bool bool u32 u32 nat nat | Resize u32 u32 nat nat | Unload

definition stop_then :: "'m keyed_mutex \<Rightarrow> after_join \<Rightarrow> 'm present_sys \<Rightarrow> 'm present_sys" where
  "stop_then km j s =
     (if ps_loaded s then finish_join km j (s\<lparr>ps_core := ref_ask_stop (ps_core s)\<rparr>) else s)"

fun host_call_step :: "'m keyed_mutex \<Rightarrow> move \<Rightarrow> 'm present_sys \<Rightarrow> 'm present_sys" where
  "host_call_step km Pause s = (if ps_loaded s then s\<lparr>ps_paused := True\<rparr> else s)"
| "host_call_step km Resume s = s\<lparr>ps_paused := False\<rparr>"
| "host_call_step km (Load device device1 w h made opened) s =
     (if ps_loaded s then s else load_present_core km (ref_create device device1) w h made opened s)"
| "host_call_step km (Resize w h made opened) s = stop_then km (ThenResize w h made opened) s"
| "host_call_step km Unload s = stop_then km ThenUnload s"
| "host_call_step km mv s = s"

fun present_step :: "'m keyed_mutex \<Rightarrow> move \<Rightarrow> 'm present_sys \<Rightarrow> 'm present_sys" where
  "present_step km CoreMove s = core_step km s"
| "present_step km HostMove s = host_step km s"
| "present_step km mv s = (if ps_host s = HIdle then host_call_step km mv s else s)"

inductive present_reachable :: "'m keyed_mutex \<Rightarrow> u32 \<Rightarrow> 'm present_sys \<Rightarrow> bool" for km n where
  init: "present_reachable km n (present_init n)"
| step: "present_reachable km n s \<Longrightarrow> present_reachable km n (present_step km mv s)"

section \<open>Mutual exclusion\<close>

fun pc_slot :: "core_pc \<Rightarrow> Slot option" where
  "pc_slot (CAcquire sl) = Some sl"
| "pc_slot (CClear sl) = Some sl"
| "pc_slot (CFlush sl) = Some sl"
| "pc_slot (CRelease sl) = Some sl"
| "pc_slot (CSubmit sl) = Some sl"
| "pc_slot pc = None"

fun pc_holds :: "core_pc \<Rightarrow> nat option" where
  "pc_holds (CClear sl) = Some (sl_handle sl)"
| "pc_holds (CFlush sl) = Some (sl_handle sl)"
| "pc_holds (CRelease sl) = Some (sl_handle sl)"
| "pc_holds pc = None"

definition core_holds :: "'m present_sys \<Rightarrow> nat option" where
  "core_holds s = (case co_thread (ps_core s) of None \<Rightarrow> None | Some pc \<Rightarrow> pc_holds pc)"

fun host_pc_holds :: "nat list \<Rightarrow> host_pc \<Rightarrow> nat option" where
  "host_pc_holds hs (HDraw i) = Some (hs ! unat i)"
| "host_pc_holds hs (HRelease i) = Some (hs ! unat i)"
| "host_pc_holds hs pc = None"

definition host_holds :: "'m present_sys \<Rightarrow> nat option" where
  "host_holds s = host_pc_holds (ps_surfaces s) (ps_host s)"

text \<open>A finished frame of the core: green with some blue.\<close>

definition whole_frame :: "picture \<Rightarrow> bool" where
  "whole_frame px \<longleftrightarrow> (\<exists>f. px = Painted (frame_colour f))"

definition surface_ok :: "('m \<Rightarrow> u64 option) \<Rightarrow> bool \<Rightarrow> bool \<Rightarrow> 'm shared_surface \<Rightarrow> bool" where
  "surface_ok key_of core host su \<longleftrightarrow>
     (key_of (su_mutex su) = None \<longleftrightarrow> core \<or> host) \<and> \<not> (core \<and> host) \<and>
     key_of (su_mutex su) \<in> {None, Some 0, Some 1} \<and>
     (key_of (su_mutex su) = Some 1 \<or> host \<longrightarrow> whole_frame (su_px su))"

fun pc_px_ok :: "'m shared_surface list \<Rightarrow> core_pc \<Rightarrow> bool" where
  "pc_px_ok st (CFlush sl) = (\<exists>f. su_px (st ! sl_handle sl) = Painting (frame_colour f))"
| "pc_px_ok st (CRelease sl) = whole_frame (su_px (st ! sl_handle sl))"
| "pc_px_ok st pc = True"

fun outcome_ok :: "present_outcome \<Rightarrow> bool" where
  "outcome_ok (Shown px) = whole_frame px"
| "outcome_ok _ = True"

fun host_pc_ok :: "nat \<Rightarrow> host_pc \<Rightarrow> bool" where
  "host_pc_ok n (HAcquire i) = (unat i < n)"
| "host_pc_ok n (HDraw i) = (unat i < n)"
| "host_pc_ok n (HRelease i) = (unat i < n)"
| "host_pc_ok n pc = True"

definition core_ok :: "'m shared_surface list \<Rightarrow> RefCore \<Rightarrow> bool" where
  "core_ok st c \<longleftrightarrow>
     (\<forall>sl \<in> set (co_slots c). sl_handle sl < length st) \<and>
     length (co_slots c) < 2 ^ 32 \<and> (co_running c \<longrightarrow> co_thread c \<notin> {None, Some CExit}) \<and>
     (case co_thread c of None \<Rightarrow> True
      | Some pc \<Rightarrow> unat (co_cursor c) < length (co_slots c) \<and> pc_px_ok st pc \<and>
          (case pc_slot pc of None \<Rightarrow> True | Some sl \<Rightarrow> sl \<in> set (co_slots c)))"

definition handoff_inv :: "('m \<Rightarrow> u64 option) \<Rightarrow> 'm present_sys \<Rightarrow> bool" where
  "handoff_inv key_of s \<longleftrightarrow>
     (\<forall>h < length (ps_store s). surface_ok key_of (core_holds s = Some h) (host_holds s = Some h) (ps_store s ! h)) \<and>
     core_ok (ps_store s) (ps_core s) \<and>
     (\<forall>h \<in> set (ps_surfaces s). h < length (ps_store s)) \<and>
     host_pc_ok (length (ps_surfaces s)) (ps_host s) \<and>
     (\<forall>out \<in> set (ps_log s). outcome_ok out) \<and>
     0 < slot_count (ps_ring s)"

lemmas handoff_defs = at_pc_def set_mutex_def set_px_def core_holds_def host_holds_def

lemma handoff_inv_init: "handoff_inv key_of (present_init n)"
  by (simp add: handoff_inv_def present_init_def core_ok_def RefCore_new_def SurfaceRing_new_def word_gt_0)

lemma next_cursor:
  assumes "unat (c :: u32) < n" "n < 2 ^ 32"
  shows "unat ((c + 1) mod of_nat n) = Suc (unat c) mod n"
proof -
  have "unat (c + 1) = Suc (unat c)"
    using assms by (simp add: unat_word_ariths)
  then show ?thesis
    using assms by (simp add: unat_mod_distrib unat_of_nat)
qed

lemma loop_top_inv:
  assumes "handoff_inv key_of s" "co_thread (ps_core s) = Some CTop"
  shows "handoff_inv key_of (loop_top s)"
  using assms
  by (auto simp: handoff_inv_def loop_top_def handoff_defs core_ok_def Let_def next_cursor)

lemma acquireD:
  assumes "keyed_mutex_law km key_of" "km_acquire km m key = (m', ok)"
  shows "ok \<longleftrightarrow> key_of m = Some key" "key_of m' = (if key_of m = Some key then None else key_of m)"
  using assms unfolding keyed_mutex_law_def by (metis snd_conv, metis fst_conv)

lemma releaseD:
  "keyed_mutex_law km key_of \<Longrightarrow> key_of m = None \<Longrightarrow> key_of (km_release km m key) = Some key"
  by (simp add: keyed_mutex_law_def)

lemma loop_acquire_inv:
  assumes "keyed_mutex_law km key_of" "handoff_inv key_of s" "co_thread (ps_core s) = Some (CAcquire sl)"
  shows "handoff_inv key_of (loop_acquire km sl s)"
proof -
  obtain m ok where m: "km_acquire km (su_mutex (ps_store s ! sl_handle sl)) 0 = (m, ok)"
    by fastforce
  from acquireD [OF assms(1) m] assms(2,3) m show ?thesis
    by (auto simp: handoff_inv_def loop_acquire_def handoff_defs core_ok_def
        nth_list_update surface_ok_def)
qed

lemma loop_clear_inv:
  assumes "handoff_inv key_of s" "co_thread (ps_core s) = Some (CClear sl)"
  shows "handoff_inv key_of (loop_clear sl s)"
  using assms
  by (auto simp: handoff_inv_def loop_clear_def handoff_defs core_ok_def Let_def
      nth_list_update surface_ok_def split: prod.splits)

lemma core_step_inv:
  assumes "keyed_mutex_law km key_of" "handoff_inv key_of s"
  shows "handoff_inv key_of (core_step km s)"
proof (cases "co_thread (ps_core s)")
  case None
  with assms show ?thesis by (simp add: core_step_def)
next
  case (Some pc)
  show ?thesis
  proof (cases pc)
    case (CFlush sl)
    with Some assms(2) show ?thesis
      by (auto simp: core_step_def handoff_inv_def handoff_defs core_ok_def whole_frame_def
          nth_list_update surface_ok_def)
  next
    case (CRelease sl)
    with Some assms(2) show ?thesis
      by (auto simp: core_step_def handoff_inv_def handoff_defs core_ok_def releaseD [OF assms(1)]
          nth_list_update surface_ok_def)
  next
    case (CSubmit sl)
    with Some assms(2) show ?thesis
      by (auto simp: core_step_def handoff_inv_def handoff_defs core_ok_def accept_submit_def)
  next
    case CSleep
    with Some assms(2) show ?thesis
      by (auto simp: core_step_def handoff_inv_def handoff_defs core_ok_def)
  qed (use Some assms in \<open>simp_all add: core_step_def loop_top_inv loop_acquire_inv loop_clear_inv\<close>)
qed

lemma host_pick_inv:
  assumes "handoff_inv key_of s" "ps_host s = HIdle"
  shows "handoff_inv key_of (host_pick s)"
  using assms
  by (auto simp: handoff_inv_def host_pick_def core_holds_def host_holds_def split: option.splits)

lemma host_acquire_inv:
  assumes "keyed_mutex_law km key_of" "handoff_inv key_of s" "ps_host s = HAcquire i"
  shows "handoff_inv key_of (host_acquire km i s)"
proof -
  let ?h = "ps_surfaces s ! unat i"
  obtain m ok where m: "km_acquire km (su_mutex (ps_store s ! ?h)) 1 = (m, ok)"
    by fastforce
  have h: "?h < length (ps_store s)"
    using assms(2,3) by (auto simp: handoff_inv_def)
  have "pc_px_ok ((ps_store s)[?h := (ps_store s ! ?h)\<lparr>su_mutex := m\<rparr>]) pc = pc_px_ok (ps_store s) pc" for pc
    using h by (cases pc) (auto simp: nth_list_update)
  with acquireD [OF assms(1) m] assms(2,3) m h show ?thesis
    by (auto simp: handoff_inv_def host_acquire_def handoff_defs core_ok_def Let_def
        nth_list_update surface_ok_def split: option.splits)
qed

definition new_slots :: "nat \<Rightarrow> nat \<Rightarrow> u64 \<Rightarrow> Slot list" where
  "new_slots base n gen = map (\<lambda>i. \<lparr>sl_handle = base + i, sl_index = of_nat i, sl_generation = gen\<rparr>) [0..<n]"

lemma open_slots_eq:
  "open_slots opened ds =
     (take opened (map (\<lambda>d. \<lparr>sl_handle = the (sd_shared_handle d), sl_index = sd_index d,
        sl_generation = sd_generation d\<rparr>) ds), if length ds \<le> opened then RP_OK else RP_ERR_DEVICE)"
  by (induction opened ds rule: open_slots.induct) simp_all

text \<open>What a rebuild gives: nothing handed over, some slots opened, or the core running on all of them.\<close>

lemma rebuild_result:
  "fst (rebuild_and_start km w h made opened s) =
     (let n = unat (slot_count (ps_ring s)); k = min made n; base = length (ps_store s);
          slots = new_slots base n (generation (ps_ring s) + 1); c = ps_core s;
          s = s\<lparr>ps_store := ps_store s @ replicate k \<lparr>su_mutex = km_fresh km, su_px = Unpainted\<rparr>,
                ps_surfaces := [base..<base + k]\<rparr>
      in if made < n then s
         else s\<lparr>ps_ring := fst (reallocate (ps_ring s) w h), ps_last_ready := None,
                ps_core := (if opened < n then c\<lparr>co_slots := take opened slots\<rparr>
                            else fst (ref_start (c\<lparr>co_slots := slots, co_cursor := 0\<rparr>)))\<rparr>)"
  by (auto simp: rebuild_and_start_def reallocate_def ref_set_surfaces_def ref_start_def open_slots_eq
      new_slots_def Let_def comp_def)

text \<open>The store only grows; fresh surfaces are free with key 0.\<close>

lemma surface_ok_fresh:
  "keyed_mutex_law km key_of \<Longrightarrow> surface_ok key_of False False \<lparr>su_mutex = km_fresh km, su_px = Unpainted\<rparr>"
  by (simp add: surface_ok_def keyed_mutex_law_def)

lemma rebuild_store:
  "ps_store (fst (rebuild_and_start km w h made opened s)) =
     ps_store s @ replicate (min made (unat (slot_count (ps_ring s)))) \<lparr>su_mutex = km_fresh km, su_px = Unpainted\<rparr>"
  "ps_surfaces (fst (rebuild_and_start km w h made opened s)) =
     [length (ps_store s)..<length (ps_store s) + min made (unat (slot_count (ps_ring s)))]"
  "ps_host (fst (rebuild_and_start km w h made opened s)) = ps_host s"
  "ps_log (fst (rebuild_and_start km w h made opened s)) = ps_log s"
  "slot_count (ps_ring (fst (rebuild_and_start km w h made opened s))) = slot_count (ps_ring s)"
  by (simp_all add: rebuild_and_start_def reallocate_def Let_def split: prod.splits)

lemma new_slots_handles: "sl \<in> set (take opened (new_slots base n gen)) \<Longrightarrow> sl_handle sl < base + n"
  by (drule in_set_takeD) (auto simp: new_slots_def)

lemma rebuild_core:
  assumes "core_ok (ps_store s) (ps_core s)" "co_thread (ps_core s) = None" "0 < slot_count (ps_ring s)"
    and "s' = fst (rebuild_and_start km w h made opened s)"
  shows "core_ok (ps_store s') (ps_core s') \<and> core_holds s' = None"
proof -
  let ?n = "unat (slot_count (ps_ring s))"
  have n: "0 < ?n" "?n < 2 ^ 32"
    using assms(3) unat_bound [of "slot_count (ps_ring s)"] by (simp_all add: word_less_nat_alt)
  have len: "length (new_slots b ?n g) = ?n" "length (take opened (new_slots b ?n g)) < 2 ^ 32" for b g
    using le_less_trans [OF min.cobounded1 n(2), of opened] by (simp_all add: new_slots_def)
  have sl: "sl \<in> set (new_slots b ?n g) \<Longrightarrow> sl_handle sl < b + ?n" for sl b g
    using new_slots_handles [of sl ?n b ?n g] by (simp add: len)
  show ?thesis
    unfolding assms(4) rebuild_result Let_def using assms(1,2) n len
    by (auto simp: core_ok_def core_holds_def ref_start_def intro: sl new_slots_handles)
qed

lemma rebuild_inv:
  assumes "keyed_mutex_law km key_of" "handoff_inv key_of s" "co_thread (ps_core s) = None" "ps_host s = HIdle"
  shows "handoff_inv key_of (fst (rebuild_and_start km w h made opened s))"
proof -
  let ?s = "fst (rebuild_and_start km w h made opened s)"
  have "core_ok (ps_store ?s) (ps_core ?s) \<and> core_holds ?s = None"
    using assms(2,3) by (intro rebuild_core [of s]) (auto simp: handoff_inv_def)
  moreover have "host_holds ?s = None" "host_holds s = None" "core_holds s = None"
    using assms(3,4) by (simp_all add: host_holds_def core_holds_def rebuild_store)
  moreover have "surface_ok key_of False False (replicate k \<lparr>su_mutex = km_fresh km, su_px = Unpainted\<rparr> ! (j - l))"
    if "\<not> j < l" "j < l + k" for j k l
    using that surface_ok_fresh [OF assms(1)] nth_replicate [of "j - l" k] by simp
  then have "surface_ok key_of False False ((st @ replicate k \<lparr>su_mutex = km_fresh km, su_px = Unpainted\<rparr>) ! j)"
    if "\<forall>h<length st. surface_ok key_of False False (st ! h)" "j < length st + k" for j k st
    using that by (simp add: nth_append)
  ultimately show ?thesis
    using assms(2,4) by (auto simp: handoff_inv_def rebuild_store)
qed

lemma handoff_inv_core:
  assumes "handoff_inv key_of s" "core_ok (ps_store s) c" "core_holds s = (case co_thread c of None \<Rightarrow> None | Some pc \<Rightarrow> pc_holds pc)"
  shows "handoff_inv key_of (s\<lparr>ps_core := c\<rparr>)"
  using assms by (simp add: handoff_inv_def core_holds_def host_holds_def)

lemma core_ok_new [simp]: "core_ok st RefCore_new"
  by (simp add: core_ok_def RefCore_new_def)

lemma drop_inv:
  assumes "handoff_inv key_of s" "core_holds s = None"
  shows "handoff_inv key_of (drop_present_core s)"
  using assms
  by (simp add: handoff_inv_def drop_present_core_def core_holds_def host_holds_def) (simp add: RefCore_new_def)

lemma finish_join_inv:
  assumes "keyed_mutex_law km key_of" "handoff_inv key_of s" "ps_host s = HIdle \<or> ps_host s = HJoin j"
  shows "handoff_inv key_of (finish_join km j s)"
proof (cases "ref_join (ps_core s)")
  case None
  with assms(2,3) show ?thesis
    by (auto simp: finish_join_def handoff_inv_def core_holds_def host_holds_def)
next
  case (Some c)
  let ?s = "s\<lparr>ps_core := c, ps_host := HIdle\<rparr>"
  have c: "co_thread c = None" "handoff_inv key_of ?s"
    using Some assms(2,3)
    by (auto simp: ref_join_def handoff_inv_def core_holds_def host_holds_def core_ok_def split: option.splits if_splits)
  then have "core_holds ?s = None"
    by (simp add: core_holds_def)
  with c Some show ?thesis
    by (cases j) (simp_all add: finish_join_def rebuild_inv [OF assms(1)] drop_inv)
qed

lemma ask_stop_inv: "handoff_inv key_of s \<Longrightarrow> handoff_inv key_of (s\<lparr>ps_core := ref_ask_stop (ps_core s)\<rparr>)"
  by (rule handoff_inv_core)
    (auto simp: handoff_inv_def ref_ask_stop_def core_ok_def core_holds_def split: option.splits)

lemma stop_then_inv:
  assumes "keyed_mutex_law km key_of" "handoff_inv key_of s" "ps_host s = HIdle"
  shows "handoff_inv key_of (stop_then km j s)"
  using assms by (simp add: stop_then_def finish_join_inv [OF assms(1) ask_stop_inv])

lemma handoff_inv_paused [simp]: "handoff_inv key_of (s\<lparr>ps_paused := p\<rparr>) = handoff_inv key_of s"
  by (simp add: handoff_inv_def core_holds_def host_holds_def)

lemma host_call_step_inv:
  assumes "keyed_mutex_law km key_of" "handoff_inv key_of s" "ps_host s = HIdle" "\<not> ps_loaded s \<longrightarrow> co_thread (ps_core s) = None"
  shows "handoff_inv key_of (host_call_step km mv s)"
proof (cases mv)
  case (Load device device1 w h made opened)
  let ?s = "s\<lparr>ps_core := RefCore_new\<rparr>" and ?r = "rebuild_and_start km w h made opened (s\<lparr>ps_core := RefCore_new\<rparr>)"
  have "handoff_inv key_of ?s" if "\<not> ps_loaded s"
    using assms(2,4) that by (intro handoff_inv_core) (simp_all add: core_holds_def, simp add: RefCore_new_def)
  then have r: "handoff_inv key_of (fst ?r)" "core_holds (fst ?r) = None" if "\<not> ps_loaded s"
    using that assms(3) rebuild_inv [OF assms(1), of ?s] rebuild_core [of ?s]
    by (auto simp: RefCore_new_def handoff_inv_def)
  then have "handoff_inv key_of ((fst ?r)\<lparr>ps_loaded := True\<rparr>)" if "\<not> ps_loaded s"
    using that by (simp add: handoff_inv_def core_holds_def host_holds_def)
  with r assms(2) Load show ?thesis
    by (cases ?r) (auto simp: load_present_core_def ref_create_def drop_inv)
qed (use assms in \<open>simp_all add: stop_then_inv\<close>)

section \<open>Wiring\<close>

text \<open>While the core's thread exists, its slots are the host's surfaces, and a filled surface has been, or is
  about to be, submitted.\<close>

definition filled :: "('m \<Rightarrow> u64 option) \<Rightarrow> 'm present_sys \<Rightarrow> bool" where
  "filled key_of s \<longleftrightarrow>
     (\<exists>h \<in> set (ps_surfaces s). key_of (su_mutex (ps_store s ! h)) = Some 1 \<or> host_holds s = Some h)"

fun submitting :: "core_pc option \<Rightarrow> bool" where
  "submitting (Some (CSubmit sl)) = True"
| "submitting t = False"

definition slots_are :: "RefCore \<Rightarrow> nat list \<Rightarrow> SurfaceRing \<Rightarrow> bool" where
  "slots_are c hs ring \<longleftrightarrow>
     (\<exists>base. hs = [base..<base + unat (slot_count ring)] \<and>
        co_slots c = new_slots base (unat (slot_count ring)) (generation ring))"

definition wired :: "('m \<Rightarrow> u64 option) \<Rightarrow> 'm present_sys \<Rightarrow> bool" where
  "wired key_of s \<longleftrightarrow>
     ring_inv (ps_ring s) \<and>
     (co_thread (ps_core s) \<noteq> None \<longrightarrow>
        ps_loaded s \<and> slots_are (ps_core s) (ps_surfaces s) (ps_ring s) \<and>
        (filled key_of s \<longrightarrow> has_ready (ps_ring s) \<or> submitting (co_thread (ps_core s))))"

lemma slots_are_member:
  assumes "slots_are c hs ring" "sl \<in> set (co_slots c)"
  shows "sl_index sl < slot_count ring" "sl_generation sl = generation ring" "sl_handle sl \<in> set hs"
    "hs ! unat (sl_index sl) = sl_handle sl"
proof -
  obtain base i where i: "hs = [base..<base + unat (slot_count ring)]" "i < unat (slot_count ring)"
      "sl = \<lparr>sl_handle = base + i, sl_index = of_nat i, sl_generation = generation ring\<rparr>"
    using assms by (auto simp: slots_are_def new_slots_def)
  have "unat (of_nat i :: u32) = i"
    using less_trans [OF i(2) unat_bound] by (simp add: unat_of_nat)
  with i show "sl_index sl < slot_count ring" "sl_generation sl = generation ring" "sl_handle sl \<in> set hs"
    "hs ! unat (sl_index sl) = sl_handle sl"
    by (simp_all add: word_less_nat_alt)
qed

lemma wired_init: "wired key_of (present_init n)"
  by (simp add: wired_def present_init_def RefCore_new_def)

lemma core_step_wired:
  assumes "keyed_mutex_law km key_of" "handoff_inv key_of s" "wired key_of s"
  shows "wired key_of (core_step km s)"
proof (cases "co_thread (ps_core s)")
  case None
  with assms show ?thesis by (simp add: core_step_def)
next
  case (Some pc)
  show ?thesis
  proof (cases pc)
    case (CAcquire sl)
    obtain m ok where m: "km_acquire km (su_mutex (ps_store s ! sl_handle sl)) 0 = (m, ok)"
      by fastforce
    from acquireD [OF assms(1) m] Some CAcquire m assms(2,3) show ?thesis
      by (auto simp: core_step_def loop_acquire_def wired_def filled_def slots_are_def handoff_defs handoff_inv_def
          core_ok_def nth_list_update split: if_splits)
  next
    case (CSubmit sl)
    with Some assms(2,3) have "sl \<in> set (co_slots (ps_core s))" "slots_are (ps_core s) (ps_surfaces s) (ps_ring s)"
      by (auto simp: handoff_inv_def core_ok_def wired_def)
    from slots_are_member [OF this(2,1)] Some CSubmit assms(3) show ?thesis
      by (auto simp: core_step_def wired_def slots_are_def handoff_defs accept_submit_def ring_inv_def)
  qed (use Some assms(2,3) in \<open>auto simp: core_step_def loop_top_def loop_clear_def wired_def filled_def slots_are_def
      handoff_defs handoff_inv_def core_ok_def nth_list_update Let_def split: if_splits\<close>)
qed

lemma host_step_inv:
  assumes "keyed_mutex_law km key_of" "handoff_inv key_of s"
  shows "handoff_inv key_of (host_step km s)"
proof (cases "ps_host s")
  case (HDraw i)
  with assms(2) have "whole_frame (su_px (ps_store s ! (ps_surfaces s ! unat i)))"
    by (auto simp: handoff_inv_def host_holds_def surface_ok_def)
  with HDraw assms(2) show ?thesis
    by (auto simp: host_step_def handoff_inv_def core_holds_def host_holds_def)
next
  case (HRelease i)
  let ?h = "ps_surfaces s ! unat i"
  have h: "?h < length (ps_store s)"
    using assms(2) HRelease by (auto simp: handoff_inv_def)
  have "pc_px_ok ((ps_store s)[?h := (ps_store s ! ?h)\<lparr>su_mutex := m\<rparr>]) pc = pc_px_ok (ps_store s) pc" for m pc
    using h by (cases pc) (auto simp: nth_list_update)
  with HRelease assms(2) h show ?thesis
    by (auto simp: host_step_def handoff_inv_def handoff_defs core_ok_def Let_def nth_list_update surface_ok_def
        releaseD [OF assms(1)] split: option.splits)
qed (use assms in \<open>simp_all add: host_step_def host_pick_inv host_acquire_inv finish_join_inv\<close>)

lemma rebuild_wired:
  assumes "keyed_mutex_law km key_of" "wired key_of s" "handoff_inv key_of s" "co_thread (ps_core s) = None" "ps_host s = HIdle"
    and "rebuild_and_start km w h made opened s = (s', r)"
  shows "wired key_of (s'\<lparr>ps_loaded := True\<rparr>)" "r = RP_OK \<or> co_thread (ps_core s') = None" "ps_loaded s' = ps_loaded s"
proof -
  have s': "s' = fst (rebuild_and_start km w h made opened s)"
    using assms(6) by simp
  have fresh: "key_of (km_fresh km) = Some 0"
    using assms(1) by (simp add: keyed_mutex_law_def)
  have "\<not> filled key_of s'" if "\<not> made < unat (slot_count (ps_ring s))"
    using that fresh assms(5) by (auto simp: s' filled_def rebuild_store nth_append host_holds_def)
  moreover have "slots_are (ps_core s') (ps_surfaces s') (ps_ring s')" if "co_thread (ps_core s') \<noteq> None"
    using that assms(4) unfolding s' rebuild_result
    by (auto simp: Let_def slots_are_def reallocate_def ref_start_def min_def split: if_splits)
  moreover have "ring_inv (ps_ring s')" "co_thread (ps_core s') = None \<or> \<not> made < unat (slot_count (ps_ring s))"
    using assms(2,4) unfolding s' rebuild_result by (auto simp: Let_def wired_def)
  ultimately show "wired key_of (s'\<lparr>ps_loaded := True\<rparr>)"
    by (auto simp: wired_def filled_def host_holds_def)
  show "r = RP_OK \<or> co_thread (ps_core s') = None" "ps_loaded s' = ps_loaded s"
    using assms(4,6)
    by (auto simp: rebuild_and_start_def Let_def ref_set_surfaces_def ref_start_def split: prod.splits if_splits)
qed

lemma finish_join_wired:
  assumes "keyed_mutex_law km key_of" "handoff_inv key_of s" "wired key_of s" "ps_loaded s"
    and "ps_host s = HIdle \<or> ps_host s = HJoin j"
  shows "wired key_of (finish_join km j s)"
proof (cases "ref_join (ps_core s)")
  case None
  with assms(3,5) show ?thesis
    by (auto simp: finish_join_def wired_def filled_def host_holds_def)
next
  case (Some c)
  let ?s = "s\<lparr>ps_core := c, ps_host := HIdle\<rparr>"
  have c: "co_thread c = None" "handoff_inv key_of ?s" "wired key_of ?s"
    using Some assms(2,3,5)
    by (auto simp: ref_join_def handoff_inv_def core_holds_def host_holds_def core_ok_def wired_def
        split: option.splits if_splits)
  show ?thesis
  proof (cases j)
    case (ThenResize w h made opened)
    obtain s' r where s': "rebuild_and_start km w h made opened ?s = (s', r)"
      by fastforce
    have "wired key_of (s'\<lparr>ps_loaded := True\<rparr>)" "ps_loaded s'"
      using rebuild_wired [OF assms(1) c(3,2) _ _ s'] c(1) assms(4) by simp_all
    moreover from this(2) have "s'\<lparr>ps_loaded := True\<rparr> = s'"
      by (cases s') simp
    ultimately show ?thesis
      using Some s' ThenResize by (simp add: finish_join_def)
  next
    case ThenUnload
    with Some c(3) show ?thesis
      by (simp add: finish_join_def drop_present_core_def wired_def RefCore_new_def)
  qed
qed

lemma host_step_wired:
  assumes "keyed_mutex_law km key_of" "handoff_inv key_of s" "wired key_of s" "\<forall>j. ps_host s = HJoin j \<longrightarrow> ps_loaded s"
  shows "wired key_of (host_step km s)"
proof (cases "ps_host s")
  case HIdle
  with assms(3) show ?thesis
    by (auto simp: host_step_def host_pick_def wired_def filled_def host_holds_def split: option.splits)
next
  case (HAcquire i)
  obtain m ok where m: "km_acquire km (su_mutex (ps_store s ! (ps_surfaces s ! unat i))) 1 = (m, ok)"
    by fastforce
  from acquireD [OF assms(1) m] HAcquire m assms(2,3) show ?thesis
    by (auto simp: host_step_def host_acquire_def wired_def filled_def handoff_defs handoff_inv_def Let_def
        nth_list_update split: if_splits)
next
  case (HDraw i)
  with assms(3) show ?thesis
    by (simp add: host_step_def wired_def filled_def host_holds_def)
next
  case (HRelease i)
  then have "key_of (su_mutex (ps_store s ! (ps_surfaces s ! unat i))) = None"
    using assms(2) by (auto simp: handoff_inv_def surface_ok_def host_holds_def)
  with HRelease assms(2,3) releaseD [OF assms(1) this] show ?thesis
    by (auto simp: host_step_def wired_def filled_def handoff_defs handoff_inv_def Let_def
        nth_list_update split: if_splits)
next
  case (HJoin j)
  with assms show ?thesis
    by (simp add: host_step_def finish_join_wired)
qed

lemma host_call_step_wired:
  assumes "keyed_mutex_law km key_of" "handoff_inv key_of s" "wired key_of s" "ps_host s = HIdle"
  shows "wired key_of (host_call_step km mv s)"
proof -
  have stop: "wired key_of (stop_then km j s)" for j
  proof (cases "ps_loaded s")
    case True
    have "wired key_of (s\<lparr>ps_core := ref_ask_stop (ps_core s)\<rparr>)"
      using assms(3) by (simp add: wired_def ref_ask_stop_def slots_are_def filled_def host_holds_def)
    with ask_stop_inv [OF assms(2)] show ?thesis
      using True assms(4) by (simp add: stop_then_def finish_join_wired [OF assms(1)])
  qed (simp add: stop_then_def assms(3))
  show ?thesis
  proof (cases mv)
    case (Load device device1 w h made opened)
    let ?s = "s\<lparr>ps_core := RefCore_new\<rparr>"
    obtain s' r where s': "rebuild_and_start km w h made opened ?s = (s', r)"
      by fastforce
    have "handoff_inv key_of ?s" if "\<not> ps_loaded s"
      using assms(2,3) that
      by (intro handoff_inv_core) (auto simp: core_holds_def wired_def, simp add: RefCore_new_def)
    moreover have "wired key_of ?s"
      using assms(3) by (simp add: wired_def RefCore_new_def)
    ultimately have "wired key_of (s'\<lparr>ps_loaded := True\<rparr>)" if "\<not> ps_loaded s"
      using rebuild_wired(1) [OF assms(1) _ _ _ _ s'] assms(4) that by (simp add: RefCore_new_def)
    with s' Load assms(3) show ?thesis
      by (auto simp: load_present_core_def ref_create_def drop_present_core_def wired_def RefCore_new_def)
  qed (use assms(3) stop in \<open>auto simp: wired_def filled_def host_holds_def\<close>)
qed

lemma core_step_host: "ps_host (core_step km s) = ps_host s" "ps_loaded (core_step km s) = ps_loaded s"
  "ps_log (core_step km s) = ps_log s" "ps_paused (core_step km s) = ps_paused s"
  "ps_surfaces (core_step km s) = ps_surfaces s" "length (ps_store (core_step km s)) = length (ps_store s)"
  by (simp_all add: core_step_def loop_top_def loop_acquire_def loop_clear_def at_pc_def set_mutex_def set_px_def Let_def
      split: option.split core_pc.split prod.split)

lemma finish_join_host:
  "ps_host (finish_join km j s) = HJoin i \<Longrightarrow> ps_loaded s \<Longrightarrow> ps_loaded (finish_join km j s)"
  by (auto simp: finish_join_def rebuild_store drop_present_core_def Let_def split: option.splits after_join.splits)

lemma join_loaded_step:
  assumes "\<forall>j. ps_host s = HJoin j \<longrightarrow> ps_loaded s"
  shows "ps_host (present_step km mv s) = HJoin j \<longrightarrow> ps_loaded (present_step km mv s)"
proof (cases mv)
  case CoreMove
  with assms show ?thesis by (simp add: core_step_host)
next
  case HostMove
  with assms show ?thesis
    by (cases "ps_host s")
      (auto simp: host_step_def host_pick_def host_acquire_def Let_def split: option.splits prod.splits
        dest: finish_join_host)
next
  case (Load device device1 w h made opened)
  obtain s' r where s': "rebuild_and_start km w h made opened (s\<lparr>ps_core := RefCore_new\<rparr>) = (s', r)"
    by fastforce
  then have "ps_host s' = ps_host s"
    using rebuild_store(3) [of km w h made opened "s\<lparr>ps_core := RefCore_new\<rparr>"] by simp
  with Load s' assms show ?thesis
    by (auto simp: load_present_core_def ref_create_def drop_present_core_def)
qed (use assms in \<open>auto simp: stop_then_def dest: finish_join_host\<close>)

lemma reachable_inv:
  assumes "keyed_mutex_law km key_of" "present_reachable km n s"
  shows "handoff_inv key_of s \<and> wired key_of s \<and> (\<forall>j. ps_host s = HJoin j \<longrightarrow> ps_loaded s)"
  using assms(2)
proof (induction rule: present_reachable.induct)
  case init
  show ?case
    using handoff_inv_init [of key_of n] wired_init [of key_of n] by (simp add: present_init_def)
next
  case (step s mv)
  then have "\<not> ps_loaded s \<longrightarrow> co_thread (ps_core s) = None"
    by (auto simp: wired_def)
  with step have "handoff_inv key_of (present_step km mv s) \<and> wired key_of (present_step km mv s)"
    using core_step_inv [OF assms(1)] core_step_wired [OF assms(1)] host_step_inv [OF assms(1)]
      host_step_wired [OF assms(1)] host_call_step_inv [OF assms(1)] host_call_step_wired [OF assms(1)]
    by (cases mv) (auto simp del: host_call_step.simps)
  with join_loaded_step [of s km mv] step.IH show ?case by blast
qed

end
