(* ===== verification/RP_Fair.thy ===== *)
theory RP_Fair
  imports RP_Prelude
begin

text \<open>
  Progress of two threads that share a state. A schedule says at each instant which of the two moves; it is
  fair when each moves again and again. \<open>leads_to\<close> is what every fair schedule brings about. The locale
  holds the rules that the progress proofs of the components use: one helpful step, chaining, and a measure
  that goes down.
\<close>

primrec pair_run :: "('s \<Rightarrow> 's) \<Rightarrow> ('s \<Rightarrow> 's) \<Rightarrow> (nat \<Rightarrow> bool) \<Rightarrow> 's \<Rightarrow> nat \<Rightarrow> 's" where
  "pair_run a b sched s 0 = s"
| "pair_run a b sched s (Suc t) = (if sched t then a else b) (pair_run a b sched s t)"

definition fair :: "(nat \<Rightarrow> bool) \<Rightarrow> bool" where
  "fair sched \<longleftrightarrow> (\<forall>t. \<exists>u \<ge> t. sched u) \<and> (\<forall>t. \<exists>u \<ge> t. \<not> sched u)"

lemma recurs_shift:
  fixes t k :: nat
  assumes "\<forall>t. \<exists>u \<ge> t. P u"
  shows "\<exists>u \<ge> t. P (u + k)"
proof -
  obtain v where "v \<ge> t + k" "P v"
    using assms by blast
  then show ?thesis
    by (intro exI [of _ "v - k"]) auto
qed

lemma fair_shift: "fair sched \<Longrightarrow> fair (\<lambda>t. sched (t + k))"
  by (auto simp: fair_def intro: recurs_shift)

lemma pair_run_add: "pair_run a b sched s (k + t) = pair_run a b (\<lambda>t. sched (t + k)) (pair_run a b sched s k) t"
  by (induction t) (simp_all add: add.commute)

lemma fair_alternating: "fair even"
  unfolding fair_def by (metis even_Suc le_refl le_Suc_eq)

locale fair_pair =
  fixes step_a step_b :: "'s \<Rightarrow> 's" and inv :: "'s \<Rightarrow> bool"
  assumes inv_a: "inv s \<Longrightarrow> inv (step_a s)"
    and inv_b: "inv s \<Longrightarrow> inv (step_b s)"
begin

definition leads_to :: "('s \<Rightarrow> bool) \<Rightarrow> ('s \<Rightarrow> bool) \<Rightarrow> bool" where
  "leads_to p q \<longleftrightarrow> (\<forall>s sched. inv s \<and> p s \<and> fair sched \<longrightarrow> (\<exists>t. q (pair_run step_a step_b sched s t)))"

lemma run_inv: "inv s \<Longrightarrow> inv (pair_run step_a step_b sched s t)"
  by (induction t) (simp_all add: inv_a inv_b)

lemma leads_toD:
  "leads_to p q \<Longrightarrow> inv s \<Longrightarrow> p s \<Longrightarrow> fair sched \<Longrightarrow> \<exists>t. q (pair_run step_a step_b sched s t)"
  unfolding leads_to_def by blast

lemma leads_now:
  assumes "\<And>s. inv s \<Longrightarrow> p s \<Longrightarrow> q s"
  shows "leads_to p q"
  unfolding leads_to_def
proof (intro allI impI)
  fix s and sched :: "nat \<Rightarrow> bool"
  assume "inv s \<and> p s \<and> fair sched"
  then have "q (pair_run step_a step_b sched s 0)"
    by (simp add: assms)
  then show "\<exists>t. q (pair_run step_a step_b sched s t)" ..
qed

lemma leads_trans:
  assumes "leads_to p q" "leads_to q r"
  shows "leads_to p r"
  unfolding leads_to_def
proof (intro allI impI)
  fix s and sched :: "nat \<Rightarrow> bool"
  assume s: "inv s \<and> p s \<and> fair sched"
  then obtain t where t: "q (pair_run step_a step_b sched s t)"
    using leads_toD [OF assms(1)] by blast
  obtain u where "r (pair_run step_a step_b (\<lambda>i. sched (i + t)) (pair_run step_a step_b sched s t) u)"
    using leads_toD [OF assms(2) _ t fair_shift] run_inv s by blast
  then have "r (pair_run step_a step_b sched s (t + u))"
    by (simp only: pair_run_add)
  then show "\<exists>t. r (pair_run step_a step_b sched s t)" ..
qed

lemma leads_mono:
  assumes "leads_to p q" "\<And>s. inv s \<Longrightarrow> p' s \<Longrightarrow> p s" "\<And>s. inv s \<Longrightarrow> q s \<Longrightarrow> q' s"
  shows "leads_to p' q'"
  using leads_trans [OF leads_now leads_trans [OF assms(1) leads_now]] assms(2,3) by blast

lemma leads_cases:
  assumes "leads_to p r" "leads_to q r"
  shows "leads_to (\<lambda>s. p s \<or> q s) r"
  using assms unfolding leads_to_def by blast

lemma leads_disj:
  assumes "leads_to p (\<lambda>s. q s \<or> r s)" "leads_to q r"
  shows "leads_to p r"
  by (rule leads_trans [OF assms(1) leads_cases [OF assms(2) leads_now]])

lemma leads_stable:
  assumes "leads_to p q" "\<And>s. inv s \<Longrightarrow> r s \<Longrightarrow> r (step_a s)" "\<And>s. inv s \<Longrightarrow> r s \<Longrightarrow> r (step_b s)"
  shows "leads_to (\<lambda>s. p s \<and> r s) (\<lambda>s. q s \<and> r s)"
  unfolding leads_to_def
proof (intro allI impI)
  fix s and sched :: "nat \<Rightarrow> bool"
  assume s: "inv s \<and> (p s \<and> r s) \<and> fair sched"
  have "r (pair_run step_a step_b sched s t)" for t
    by (induction t) (use s run_inv assms(2,3) in auto)
  with leads_toD [OF assms(1)] s show "\<exists>t. q (pair_run step_a step_b sched s t) \<and> r (pair_run step_a step_b sched s t)"
    by blast
qed

text \<open>The helpful step: the one thread's move establishes \<open>q\<close>, the other's keeps \<open>p\<close> until then.\<close>

lemma helpful:
  assumes "\<And>s. inv s \<Longrightarrow> p s \<Longrightarrow> q ((if who then step_a else step_b) s)"
    and "\<And>s. inv s \<Longrightarrow> p s \<Longrightarrow> p ((if who then step_b else step_a) s) \<or> q ((if who then step_b else step_a) s)"
  shows "leads_to p q"
  unfolding leads_to_def
proof (intro allI impI)
  fix s and sched :: "nat \<Rightarrow> bool"
  assume s: "inv s \<and> p s \<and> fair sched"
  let ?run = "pair_run step_a step_b sched s"
  obtain u where u: "sched u = who"
    using s by (cases who) (auto simp: fair_def)
  have "(\<exists>t. q (?run t)) \<or> p (?run t)" for t
  proof (induction t)
    case (Suc t)
    have "(q (?run (Suc t)) \<or> p (?run (Suc t))) \<or> (\<exists>t. q (?run t))"
      using Suc s run_inv [of s sched t] assms(1) [of "?run t"] assms(2) [of "?run t"]
      by (cases "sched t"; cases who) auto
    then show ?case by blast
  qed (use s in simp)
  then consider "\<exists>t. q (?run t)" | "p (?run u)"
    by blast
  then show "\<exists>t. q (?run t)"
  proof cases
    case 2
    then have "q (?run (Suc u))"
      using assms(1) [of "?run u"] run_inv [of s sched u] s u by (cases who) auto
    then show ?thesis ..
  qed
qed

lemma helpful_a:
  assumes "\<And>s. inv s \<Longrightarrow> p s \<Longrightarrow> q (step_a s)" "\<And>s. inv s \<Longrightarrow> p s \<Longrightarrow> p (step_b s) \<or> q (step_b s)"
  shows "leads_to p q"
  by (rule helpful [where who = True]) (simp_all add: assms)

lemma helpful_b:
  assumes "\<And>s. inv s \<Longrightarrow> p s \<Longrightarrow> q (step_b s)" "\<And>s. inv s \<Longrightarrow> p s \<Longrightarrow> p (step_a s) \<or> q (step_a s)"
  shows "leads_to p q"
  by (rule helpful [where who = False]) (simp_all add: assms)

lemma leads_measure:
  fixes f :: "'s \<Rightarrow> nat"
  assumes "\<And>n. leads_to (\<lambda>s. p s \<and> f s = n) (\<lambda>s. q s \<or> p s \<and> f s < n)"
  shows "leads_to p q"
proof -
  have "leads_to (\<lambda>s. p s \<and> f s = n) q" for n
  proof (induction n rule: less_induct)
    case (less n)
    have "leads_to (\<lambda>s. p s \<and> f s < n) q"
      using less unfolding leads_to_def by blast
    from leads_cases [OF leads_now this, of q] have "leads_to (\<lambda>s. q s \<or> p s \<and> f s < n) q"
      by simp
    then show ?case
      by (rule leads_trans [OF assms])
  qed
  then show ?thesis
    unfolding leads_to_def by blast
qed

end

end
