(* ===== verification/RP_Present_Live.thy ===== *)
theory RP_Present_Live
  imports RP_Present RP_Fair
begin

text \<open>
  What the hand-off of \<open>RP_Present\<close> promises over time. Frames keep coming: under every fair schedule of the core's
  thread and the host's thread another frame of the core is drawn. Not every surface stays in use, though: a surface whose frame
  is overtaken before the host reads it is never filled again.
\<close>

section \<open>Safety\<close>

text \<open>
  C5. Whatever the interleaving of the core's thread with presents, pauses, resizes (with any surface
  failing to be made or opened), loads and unloads: every picture the host has drawn is a finished frame of
  the core, never one half painted, and the two sides never hold the same surface.
\<close>

theorem handoff_whole_frames:
  assumes "keyed_mutex_law km key_of" "present_reachable km n s"
  shows "(\<forall>px. Shown px \<in> set (ps_log s) \<longrightarrow> whole_frame px) \<and>
    (core_holds s = None \<or> core_holds s \<noteq> host_holds s)"
proof -
  have inv: "handoff_inv key_of s"
    using reachable_inv [OF assms] by blast
  then have log: "\<forall>px. Shown px \<in> set (ps_log s) \<longrightarrow> whole_frame px"
    by (fastforce simp: handoff_inv_def)
  have "host_holds s \<noteq> Some h" if "core_holds s = Some h" for h
  proof -
    obtain pc sl where "co_thread (ps_core s) = Some pc" "pc_slot pc = Some sl" "h = sl_handle sl"
      using \<open>core_holds s = Some h\<close> by (auto simp: core_holds_def split: option.splits elim: pc_holds.elims)
    with inv have "h < length (ps_store s)"
      by (auto simp: handoff_inv_def core_ok_def)
    with inv that show ?thesis
      by (auto simp: handoff_inv_def surface_ok_def)
  qed
  with log show ?thesis
    by (cases "core_holds s") auto
qed

section \<open>Progress\<close>

text \<open>A run in which the core's thread and the host's presents take turns, with nothing else going on.\<close>

definition live :: "'m keyed_mutex \<Rightarrow> ('m \<Rightarrow> u64 option) \<Rightarrow> 'm present_sys \<Rightarrow> bool" where
  "live km key_of s \<longleftrightarrow>
     keyed_mutex_law km key_of \<and> handoff_inv key_of s \<and> wired key_of s \<and>
     co_running (ps_core s) \<and> \<not> ps_paused s \<and> (\<forall>j. ps_host s \<noteq> HJoin j)"

lemma core_step_running: "co_running (ps_core (core_step km s)) = co_running (ps_core s)"
  by (simp add: core_step_def loop_top_def loop_acquire_def loop_clear_def at_pc_def set_mutex_def set_px_def Let_def
      split: option.split core_pc.split prod.split)

lemma host_step_keeps:
  assumes "\<forall>j. ps_host s \<noteq> HJoin j"
  shows "ps_core (host_step km s) = ps_core s" "ps_paused (host_step km s) = ps_paused s"
    "\<forall>j. ps_host (host_step km s) \<noteq> HJoin j" "ps_surfaces (host_step km s) = ps_surfaces s"
    "ps_ring (host_step km s) = ps_ring s"
  using assms
  by (auto simp: host_step_def host_pick_def host_acquire_def set_mutex_def Let_def
      split: host_pc.splits option.splits prod.splits)

interpretation turns: fair_pair "core_step km" "host_step km" "live km key_of" for km :: "'m keyed_mutex" and key_of
proof
  show "live km key_of (core_step km s)" if "live km key_of s" for s
    using that unfolding live_def
    by (simp add: core_step_inv core_step_wired core_step_running core_step_host)
  show "live km key_of (host_step km s)" if "live km key_of s" for s
    using that host_step_keeps [of s km] unfolding live_def
    by (simp add: host_step_inv host_step_wired)
qed

fun is_shown :: "present_outcome \<Rightarrow> bool" where
  "is_shown (Shown px) = True"
| "is_shown _ = False"

definition frames_shown :: "'m present_sys \<Rightarrow> nat" where
  "frames_shown s = length (filter is_shown (ps_log s))"

definition drawing :: "'m present_sys \<Rightarrow> bool" where
  "drawing s \<longleftrightarrow> (\<exists>i. ps_host s = HDraw i)"

lemma frames_shown_core [simp]: "frames_shown (core_step km s) = frames_shown s"
  by (simp add: frames_shown_def core_step_host)

lemma frames_shown_host: "\<forall>j. ps_host s \<noteq> HJoin j \<Longrightarrow> frames_shown s \<le> frames_shown (host_step km s)"
  by (auto simp: frames_shown_def host_step_def host_pick_def host_acquire_def set_mutex_def Let_def
      split: host_pc.splits option.splits prod.splits)

text \<open>Once the host has a surface, its next move shows it.\<close>

lemma drawing_shows:
  "turns.leads_to km key_of (\<lambda>s. drawing s \<and> k \<le> frames_shown s) (\<lambda>s. k < frames_shown s)"
proof (rule turns.helpful_b)
  fix s assume s: "live km key_of s" "drawing s \<and> k \<le> frames_shown s"
  then show "k < frames_shown (host_step km s)"
    by (auto simp: drawing_def host_step_def frames_shown_def)
  show "(drawing (core_step km s) \<and> k \<le> frames_shown (core_step km s)) \<or> k < frames_shown (core_step km s)"
    using s(2) by (simp add: drawing_def core_step_host)
qed

text \<open>Full: every surface holds a frame the host may take, and one has been submitted. The core can only
  wait, and the host's next present takes the latest.\<close>

definition key_at :: "('m \<Rightarrow> u64 option) \<Rightarrow> 'm present_sys \<Rightarrow> nat \<Rightarrow> u64 option" where
  "key_at key_of s h = key_of (su_mutex (ps_store s ! h))"

definition full :: "('m \<Rightarrow> u64 option) \<Rightarrow> 'm present_sys \<Rightarrow> bool" where
  "full key_of s \<longleftrightarrow> (\<forall>h \<in> set (ps_surfaces s). key_at key_of s h = Some 1) \<and> has_ready (ps_ring s)"

lemma live_core:
  assumes "live km key_of s"
  obtains pc where "co_thread (ps_core s) = Some pc" "pc \<noteq> CExit" "slots_are (ps_core s) (ps_surfaces s) (ps_ring s)"
    "ring_inv (ps_ring s)" "unat (co_cursor (ps_core s)) < length (co_slots (ps_core s))"
    "\<And>sl. pc_slot pc = Some sl \<Longrightarrow> sl \<in> set (co_slots (ps_core s))"
  using assms by (auto simp: live_def handoff_inv_def core_ok_def wired_def split: option.splits)

lemma live_key:
  assumes "live km key_of s" "h \<in> set (ps_surfaces s)"
  shows "key_at key_of s h = None \<longleftrightarrow> core_holds s = Some h \<or> host_holds s = Some h"
    "\<not> (core_holds s = Some h \<and> host_holds s = Some h)" "key_at key_of s h \<in> {None, Some 0, Some 1}"
    "h < length (ps_store s)"
  using assms by (auto simp: live_def handoff_inv_def surface_ok_def key_at_def)

lemma px_keeps_mutex [simp]: "su_mutex (st[i := (st ! i)\<lparr>su_px := px\<rparr>] ! h) = su_mutex (st ! h)"
  by (cases "i = h"; cases "i < length st") (auto simp: list_update_beyond)

lemma core_step_keys:
  assumes "live km key_of s" "h \<in> set (ps_surfaces s)"
  shows "key_at key_of (core_step km s) h =
    (case co_thread (ps_core s) of
       Some (CAcquire sl) \<Rightarrow> if sl_handle sl = h \<and> key_at key_of s h = Some 0 then None else key_at key_of s h
     | Some (CRelease sl) \<Rightarrow> if sl_handle sl = h then Some 1 else key_at key_of s h
     | _ \<Rightarrow> key_at key_of s h)"
proof -
  obtain pc where pc: "co_thread (ps_core s) = Some pc"
    using live_core [OF assms(1)] by blast
  have law: "keyed_mutex_law km key_of" and h: "h < length (ps_store s)"
    using assms live_key(4) by (auto simp: live_def)
  show ?thesis
  proof (cases pc)
    case (CAcquire sl)
    obtain m ok where m: "km_acquire km (su_mutex (ps_store s ! sl_handle sl)) 0 = (m, ok)"
      by fastforce
    from acquireD [OF law m] pc CAcquire m h show ?thesis
      by (cases "sl_handle sl = h") (auto simp: core_step_def loop_acquire_def handoff_defs key_at_def nth_list_update)
  next
    case (CRelease sl)
    then have "sl_handle sl = h \<Longrightarrow> key_at key_of s h = None"
      using live_key(1) [OF assms] pc by (simp add: core_holds_def)
    with releaseD [OF law] pc CRelease h show ?thesis
      by (auto simp: core_step_def handoff_defs key_at_def nth_list_update)
  qed (use pc h in \<open>auto simp: core_step_def loop_top_def loop_clear_def handoff_defs key_at_def nth_list_update Let_def\<close>)
qed

lemma host_step_keys:
  assumes "live km key_of s" "h \<in> set (ps_surfaces s)"
  shows "key_at key_of (host_step km s) h =
    (case ps_host s of
       HAcquire i \<Rightarrow> if ps_surfaces s ! unat i = h \<and> key_at key_of s h = Some 1 then None else key_at key_of s h
     | HRelease i \<Rightarrow> if ps_surfaces s ! unat i = h then Some 0 else key_at key_of s h
     | _ \<Rightarrow> key_at key_of s h)"
proof -
  have law: "keyed_mutex_law km key_of" and h: "h < length (ps_store s)"
    using assms live_key(4) by (auto simp: live_def)
  show ?thesis
  proof (cases "ps_host s")
    case (HAcquire i)
    obtain m ok where m: "km_acquire km (su_mutex (ps_store s ! (ps_surfaces s ! unat i))) 1 = (m, ok)"
      by fastforce
    from acquireD [OF law m] HAcquire m h show ?thesis
      by (cases "ps_surfaces s ! unat i = h") (auto simp: host_step_def host_acquire_def handoff_defs key_at_def nth_list_update Let_def)
  next
    case (HRelease i)
    then have "ps_surfaces s ! unat i = h \<Longrightarrow> key_at key_of s h = None"
      using live_key(1) [OF assms] by (simp add: host_holds_def)
    with releaseD [OF law] HRelease h show ?thesis
      by (auto simp: host_step_def handoff_defs key_at_def nth_list_update Let_def)
  next
    case (HJoin j)
    with assms show ?thesis by (simp add: live_def)
  qed (auto simp: host_step_def host_pick_def key_at_def split: option.splits)
qed

lemma live_ready:
  assumes "live km key_of s" "has_ready (ps_ring s)"
  obtains i v where "latest_ready (ps_ring s) = Some (i, v)" "unat i < length (ps_surfaces s)"
proof -
  have "slots_are (ps_core s) (ps_surfaces s) (ps_ring s)" "ring_inv (ps_ring s)"
    using live_core [OF assms(1)] by blast+
  with assms(2) that show ?thesis
    by (auto simp: latest_ready_def ring_inv_def slots_are_def word_less_nat_alt)
qed

lemma full_core_step:
  assumes "live km key_of s" "full key_of s"
  shows "full key_of (core_step km s)"
proof -
  have "key_at key_of (core_step km s) h = Some 1" if "h \<in> set (ps_surfaces s)" for h
    using core_step_keys [OF assms(1) that] assms(2) that
    by (auto simp: full_def split: option.splits core_pc.splits)
  moreover have "has_ready (ps_ring (core_step km s))"
    using assms(2) by (auto simp: full_def core_step_def loop_top_def loop_acquire_def loop_clear_def handoff_defs
        accept_submit_def Let_def split: option.splits core_pc.splits prod.splits)
  ultimately show ?thesis
    by (simp add: full_def core_step_host)
qed

lemma live_holders:
  assumes "live km key_of s" "core_holds s = Some h \<or> host_holds s = Some h"
  shows "h \<in> set (ps_surfaces s)"
proof (cases "host_holds s = Some h")
  case True
  with assms(1) show ?thesis
    by (auto simp: host_holds_def live_def handoff_inv_def elim: host_pc_holds.elims)
next
  case False
  obtain pc where pc: "co_thread (ps_core s) = Some pc" "slots_are (ps_core s) (ps_surfaces s) (ps_ring s)"
    "\<And>sl. pc_slot pc = Some sl \<Longrightarrow> sl \<in> set (co_slots (ps_core s))"
    using live_core [OF assms(1)] by blast
  with assms(2) False slots_are_member(3) [OF pc(2)] show ?thesis
    by (auto simp: core_holds_def elim: pc_holds.elims)
qed

lemma full_no_holder:
  assumes "live km key_of s" "full key_of s"
  shows "host_holds s = None"
proof (rule ccontr)
  assume "host_holds s \<noteq> None"
  then obtain h where h: "host_holds s = Some h"
    by blast
  with live_holders [OF assms(1)] have "h \<in> set (ps_surfaces s)"
    by blast
  with live_key(1) [OF assms(1) this] h assms(2) show False
    by (auto simp: full_def)
qed

lemma host_takes:
  assumes "live km key_of s" "ps_host s = HAcquire i"
  shows "drawing (host_step km s) \<longleftrightarrow> key_at key_of s (ps_surfaces s ! unat i) = Some 1"
proof -
  obtain m ok where m: "km_acquire km (su_mutex (ps_store s ! (ps_surfaces s ! unat i))) 1 = (m, ok)"
    by fastforce
  with acquireD(1) [OF _ m] assms show ?thesis
    by (auto simp: host_step_def host_acquire_def drawing_def live_def key_at_def Let_def)
qed

lemma full_draws: "turns.leads_to km key_of (full key_of) drawing"
proof -
  let ?take = "\<lambda>s. full key_of s \<and> (\<exists>i. ps_host s = HAcquire i)"
  have pick: "turns.leads_to km key_of (\<lambda>s. full key_of s \<and> ps_host s = HIdle) ?take"
  proof (rule turns.helpful_b)
    fix s assume s: "live km key_of s" "full key_of s \<and> ps_host s = HIdle"
    obtain i v where i: "latest_ready (ps_ring s) = Some (i, v)" "unat i < length (ps_surfaces s)"
      using live_ready [OF s(1)] s(2) by (auto simp: full_def)
    with s show "?take (host_step km s)"
      by (auto simp: host_step_def host_pick_def live_def full_def key_at_def)
    show "(full key_of (core_step km s) \<and> ps_host (core_step km s) = HIdle) \<or> ?take (core_step km s)"
      using s by (simp add: full_core_step core_step_host)
  qed
  have take: "turns.leads_to km key_of ?take drawing"
  proof (rule turns.helpful_b)
    fix s assume s: "live km key_of s" "?take s"
    then obtain i where i: "ps_host s = HAcquire i" "unat i < length (ps_surfaces s)"
      by (auto simp: live_def handoff_inv_def)
    with s show "drawing (host_step km s)"
      by (auto simp: host_takes full_def)
    show "?take (core_step km s) \<or> drawing (core_step km s)"
      using s by (simp add: full_core_step core_step_host)
  qed
  show ?thesis
  proof (rule turns.leads_mono [OF turns.leads_cases [OF turns.leads_trans [OF pick take] take]])
    fix s assume s: "live km key_of s" "full key_of s"
    then show "(full key_of s \<and> ps_host s = HIdle) \<or> ?take s"
      using full_no_holder [OF s] by (cases "ps_host s") (auto simp: host_holds_def live_def)
  qed
qed

text \<open>How far a surface is from being full: to be released by the host, to be taken by the core, to be
  released by the core. Their sum only grows when the host takes a surface, which it then shows.\<close>

definition weight :: "('m \<Rightarrow> u64 option) \<Rightarrow> 'm present_sys \<Rightarrow> nat \<Rightarrow> nat" where
  "weight key_of s h =
     (if key_at key_of s h = Some 1 then 0 else if host_holds s = Some h then 3
      else if core_holds s = Some h then 1 else 2)"

definition load :: "('m \<Rightarrow> u64 option) \<Rightarrow> 'm present_sys \<Rightarrow> nat" where
  "load key_of s = (\<Sum>h \<in> set (ps_surfaces s). weight key_of s h)"

lemma weight_core_step:
  assumes "live km key_of s" "h \<in> set (ps_surfaces s)"
  shows "weight key_of (core_step km s) h \<le> weight key_of s h"
    "\<And>sl. co_thread (ps_core s) = Some (CAcquire sl) \<Longrightarrow> sl_handle sl = h \<Longrightarrow> key_at key_of s h = Some 0 \<Longrightarrow>
       weight key_of (core_step km s) h < weight key_of s h"
    "\<And>sl. co_thread (ps_core s) = Some (CRelease sl) \<Longrightarrow> sl_handle sl = h \<Longrightarrow>
       weight key_of (core_step km s) h < weight key_of s h"
proof -
  obtain pc where pc: "co_thread (ps_core s) = Some pc"
    using live_core [OF assms(1)] by blast
  have host: "host_holds (core_step km s) = host_holds s"
    by (simp add: host_holds_def core_step_host)
  have holds: "core_holds (core_step km s) =
      (case pc of CAcquire sl \<Rightarrow> if key_at key_of s (sl_handle sl) = Some 0 then Some (sl_handle sl) else None
       | CRelease sl \<Rightarrow> None | _ \<Rightarrow> core_holds s)"
    using pc assms(1) acquireD(1) [of km key_of "su_mutex (ps_store s ! sl_handle sl)" 0 for sl]
    by (auto simp: core_step_def loop_top_def loop_acquire_def loop_clear_def core_holds_def at_pc_def set_mutex_def
        set_px_def Let_def live_def key_at_def split: core_pc.split prod.split)
  note keys = core_step_keys [OF assms] live_key [OF assms]
  show "weight key_of (core_step km s) h \<le> weight key_of s h"
    using keys pc holds host by (auto simp: weight_def core_holds_def split: core_pc.splits if_splits)
  show "weight key_of (core_step km s) h < weight key_of s h"
    if "co_thread (ps_core s) = Some (CAcquire sl)" "sl_handle sl = h" "key_at key_of s h = Some 0" for sl
    using keys pc holds host that by (auto simp: weight_def core_holds_def)
  show "weight key_of (core_step km s) h < weight key_of s h"
    if "co_thread (ps_core s) = Some (CRelease sl)" "sl_handle sl = h" for sl
    using keys pc holds host that by (auto simp: weight_def core_holds_def)
qed

lemma load_core_step:
  assumes "live km key_of s"
  shows "load key_of (core_step km s) \<le> load key_of s"
    "\<And>h. h \<in> set (ps_surfaces s) \<Longrightarrow> weight key_of (core_step km s) h < weight key_of s h \<Longrightarrow>
       load key_of (core_step km s) < load key_of s"
  unfolding load_def core_step_host using weight_core_step(1) [OF assms]
  by (auto intro: sum_mono sum_strict_mono_ex1)

lemma host_step_holds:
  assumes "live km key_of s" "\<not> drawing s" "\<not> drawing (host_step km s)"
  shows "host_holds (host_step km s) = None" "core_holds (host_step km s) = core_holds s"
  using assms by (auto simp: host_step_def host_pick_def host_acquire_def host_holds_def core_holds_def drawing_def
      set_mutex_def live_def Let_def split: host_pc.splits option.splits prod.splits if_splits)

lemma load_host_step:
  assumes "live km key_of s" "\<not> drawing s" "\<not> drawing (host_step km s)"
  shows "load key_of (host_step km s) \<le> load key_of s"
    "\<And>i. ps_host s = HRelease i \<Longrightarrow> load key_of (host_step km s) < load key_of s"
proof -
  have hs: "ps_surfaces (host_step km s) = ps_surfaces s"
    using host_step_keeps(4) [of s km] assms(1) by (simp add: live_def)
  have le: "weight key_of (host_step km s) h \<le> weight key_of s h" if "h \<in> set (ps_surfaces s)" for h
    using host_step_keys [OF assms(1) that] live_key [OF assms(1) that] host_step_holds [OF assms]
      host_takes [OF assms(1), of _] assms(2,3)
    by (auto simp: weight_def host_holds_def drawing_def split: host_pc.splits if_splits)
  then show "load key_of (host_step km s) \<le> load key_of s"
    by (simp add: load_def hs sum_mono)
  fix i assume i: "ps_host s = HRelease i"
  then have "ps_surfaces s ! unat i \<in> set (ps_surfaces s)"
    using assms(1) by (simp add: live_def handoff_inv_def)
  moreover from host_step_keys [OF assms(1) this] live_key [OF assms(1) this] host_step_holds [OF assms] i
  have "weight key_of (host_step km s) (ps_surfaces s ! unat i) < weight key_of s (ps_surfaces s ! unat i)"
    by (auto simp: weight_def host_holds_def)
  ultimately show "load key_of (host_step km s) < load key_of s"
    unfolding load_def hs using le by (auto intro: sum_strict_mono_ex1)
qed

text \<open>What the host cannot undo: a fact of the core's state, the load once it is down, a free surface.\<close>

definition stage :: "('m \<Rightarrow> u64 option) \<Rightarrow> nat \<Rightarrow> 'm present_sys \<Rightarrow> bool" where
  "stage key_of n s \<longleftrightarrow> load key_of s = n \<and> \<not> drawing s"

definition gained :: "('m \<Rightarrow> u64 option) \<Rightarrow> nat \<Rightarrow> 'm present_sys \<Rightarrow> bool" where
  "gained key_of n s \<longleftrightarrow> full key_of s \<or> drawing s \<or> load key_of s < n"

lemma host_step_core:
  "live km key_of s \<Longrightarrow> ps_core (host_step km s) = ps_core s"
  "live km key_of s \<Longrightarrow> ps_surfaces (host_step km s) = ps_surfaces s"
  "live km key_of s \<Longrightarrow> ps_ring (host_step km s) = ps_ring s"
  using host_step_keeps [of s km] by (simp_all add: live_def)

lemma stage_host:
  assumes "live km key_of s" "stage key_of n s"
  shows "stage key_of n (host_step km s) \<or> gained key_of n (host_step km s)"
  using load_host_step(1) [OF assms(1)] assms(2) by (fastforce simp: stage_def gained_def)

lemma stage_core:
  assumes "live km key_of s" "stage key_of n s"
  shows "stage key_of n (core_step km s) \<or> gained key_of n (core_step km s)"
  using load_core_step(1) [OF assms(1)] assms(2)
  by (auto simp: stage_def gained_def drawing_def core_step_host)

text \<open>The host gives a surface back.\<close>

lemma host_returns:
  "turns.leads_to km key_of (\<lambda>s. stage key_of n s \<and> (\<exists>i. ps_host s = HRelease i)) (gained key_of n)"
proof (rule turns.helpful_b)
  fix s assume s: "live km key_of s" "stage key_of n s \<and> (\<exists>i. ps_host s = HRelease i)"
  then have "\<not> drawing s" "\<not> drawing (host_step km s)"
    by (auto simp: drawing_def host_step_def set_mutex_def Let_def)
  with load_host_step(2) [OF s(1)] s(2) show "gained key_of n (host_step km s)"
    by (auto simp: gained_def stage_def)
  show "(stage key_of n (core_step km s) \<and> (\<exists>i. ps_host (core_step km s) = HRelease i)) \<or> gained key_of n (core_step km s)"
    using stage_core [OF s(1)] s(2) by (simp add: core_step_host)
qed

text \<open>The core finishes the surface it holds.\<close>

lemma core_finishes:
  "turns.leads_to km key_of (\<lambda>s. stage key_of n s \<and> core_holds s \<noteq> None) (gained key_of n)"
proof (rule turns.leads_measure [where f = "\<lambda>s. case co_thread (ps_core s) of Some (CClear sl) \<Rightarrow> 2
      | Some (CFlush sl) \<Rightarrow> 1 | _ \<Rightarrow> (0 :: nat)"], rule turns.helpful_a)
  let ?f = "\<lambda>s. case co_thread (ps_core s) of Some (CClear sl) \<Rightarrow> 2 | Some (CFlush sl) \<Rightarrow> 1 | _ \<Rightarrow> (0 :: nat)"
  let ?p = "\<lambda>s. stage key_of n s \<and> core_holds s \<noteq> None"
  fix m s assume s: "live km key_of s" "?p s \<and> ?f s = m"
  have "?p (host_step km s) \<and> ?f (host_step km s) = m \<or> gained key_of n (host_step km s)"
    using stage_host [OF s(1), of n] s(2) host_step_core [OF s(1)] by (simp add: core_holds_def)
  then show "(?p (host_step km s) \<and> ?f (host_step km s) = m) \<or>
      gained key_of n (host_step km s) \<or> ?p (host_step km s) \<and> ?f (host_step km s) < m"
    by blast
  obtain pc where pc: "co_thread (ps_core s) = Some pc" "pc_holds pc \<noteq> None"
    using s(2) by (auto simp: core_holds_def split: option.splits)
  show "gained key_of n (core_step km s) \<or> ?p (core_step km s) \<and> ?f (core_step km s) < m"
  proof (cases pc)
    case (CRelease sl)
    with pc have "core_holds s = Some (sl_handle sl)"
      by (simp add: core_holds_def)
    then have "sl_handle sl \<in> set (ps_surfaces s)"
      using live_holders [OF s(1)] by blast
    with weight_core_step(3) [OF s(1) this] load_core_step(2) [OF s(1) this] pc CRelease s(2) show ?thesis
      by (auto simp: gained_def stage_def)
  qed (use pc s(2) stage_core [OF s(1)] in \<open>auto simp: core_step_def loop_clear_def handoff_defs Let_def\<close>)
qed

text \<open>The core comes round to a free surface. \<open>to_go\<close> counts the moves until it asks for surface \<open>i\<close>.\<close>

definition slots_ahead :: "nat \<Rightarrow> nat \<Rightarrow> nat \<Rightarrow> nat" where
  "slots_ahead n i c = (if c \<le> i then i - c else i + n - c)"

definition to_go :: "nat \<Rightarrow> 'm present_sys \<Rightarrow> nat" where
  "to_go i s =
     (let ahead = 1 + 4 * slots_ahead (length (ps_surfaces s)) i (unat (co_cursor (ps_core s)))
      in case co_thread (ps_core s) of
           Some (CAcquire sl) \<Rightarrow> if sl_handle sl = ps_surfaces s ! i then 0 else ahead + 3
         | Some CSleep \<Rightarrow> ahead + 1
         | Some (CSubmit sl) \<Rightarrow> ahead + 2
         | _ \<Rightarrow> ahead)"

lemma slots_ahead_less:
  "c \<noteq> i \<Longrightarrow> c < n \<Longrightarrow> i < n \<Longrightarrow> Suc (slots_ahead n i (Suc c mod n)) = slots_ahead n i c"
  by (cases "Suc c = n") (auto simp: slots_ahead_def)

lemma slots_are_nth:
  assumes "slots_are c hs ring"
  shows "length (co_slots c) = length hs" "distinct hs" "i < length hs \<Longrightarrow> sl_handle (co_slots c ! i) = hs ! i"
  using assms by (auto simp: slots_are_def new_slots_def)

lemma to_go_core:
  assumes "live km key_of s" "core_holds s = None" "i < length (ps_surfaces s)"
    and "key_at key_of s (ps_surfaces s ! i) = Some 0"
  shows "load key_of (core_step km s) < load key_of s \<or> to_go i (core_step km s) < to_go i s \<and>
     core_holds (core_step km s) = None \<and> key_at key_of (core_step km s) (ps_surfaces s ! i) = Some 0"
proof -
  obtain pc where pc: "co_thread (ps_core s) = Some pc" "pc \<noteq> CExit" "slots_are (ps_core s) (ps_surfaces s) (ps_ring s)"
    "unat (co_cursor (ps_core s)) < length (co_slots (ps_core s))"
    "\<And>sl. pc_slot pc = Some sl \<Longrightarrow> sl \<in> set (co_slots (ps_core s))"
    using live_core [OF assms(1)] by blast
  have key: "key_at key_of (core_step km s) (ps_surfaces s ! i) = Some 0"
    if "\<forall>sl. pc \<noteq> CAcquire sl \<and> pc \<noteq> CRelease sl"
    using core_step_keys [OF assms(1) nth_mem [OF assms(3)]] assms(4) pc(1) that
    by (cases pc) auto
  show ?thesis
  proof (cases pc)
    case CTop
    have n: "length (co_slots (ps_core s)) < 2 ^ 32" "co_running (ps_core s)"
      using assms(1) by (auto simp: live_def handoff_inv_def core_ok_def)
    let ?c = "unat (co_cursor (ps_core s))"
    have "sl_handle (co_slots (ps_core s) ! ?c) = ps_surfaces s ! ?c"
      using slots_are_nth [OF pc(3)] pc(4) by simp
    moreover have "ps_surfaces s ! ?c = ps_surfaces s ! i \<longleftrightarrow> ?c = i"
      using slots_are_nth [OF pc(3)] pc(4) assms(3) by (simp add: nth_eq_iff_index_eq)
    moreover have "Suc (slots_ahead (length (ps_surfaces s)) i (Suc ?c mod length (ps_surfaces s))) =
        slots_ahead (length (ps_surfaces s)) i ?c" if "?c \<noteq> i"
      using slots_ahead_less that pc(4) assms(3) slots_are_nth(1) [OF pc(3)] by simp
    ultimately show ?thesis
      using key CTop pc(1,4) n slots_are_nth(1) [OF pc(3)]
      by (auto simp: core_step_def loop_top_def to_go_def handoff_defs Let_def next_cursor)
  next
    case (CAcquire sl)
    have h: "sl_handle sl \<in> set (ps_surfaces s)"
      using slots_are_member(3) [OF pc(3) pc(5)] CAcquire by simp
    show ?thesis
    proof (cases "key_at key_of s (sl_handle sl) = Some 0")
      case True
      with weight_core_step(2) [OF assms(1) h] load_core_step(2) [OF assms(1) h] pc(1) CAcquire show ?thesis
        by simp
    next
      case False
      obtain m ok where m: "km_acquire km (su_mutex (ps_store s ! sl_handle sl)) 0 = (m, ok)"
        by fastforce
      then have "\<not> ok"
        using acquireD(1) [OF _ m] False assms(1) by (auto simp: live_def key_at_def)
      moreover have "sl_handle sl \<noteq> ps_surfaces s ! i"
        using False assms(4) by auto
      ultimately show ?thesis
        using m CAcquire pc(1) core_step_keys [OF assms(1) nth_mem [OF assms(3)]] assms(4)
        by (auto simp: core_step_def loop_acquire_def to_go_def handoff_defs Let_def)
    qed
  next
    case (CSubmit sl)
    with key pc(1) show ?thesis
      by (auto simp: core_step_def to_go_def handoff_defs Let_def)
  next
    case CSleep
    with key pc(1) show ?thesis
      by (auto simp: core_step_def to_go_def handoff_defs Let_def)
  qed (use pc assms(2) in \<open>auto simp: core_holds_def\<close>)
qed

lemma core_comes_round:
  "turns.leads_to km key_of (\<lambda>s. stage key_of n s \<and> core_holds s = None \<and> i < length (ps_surfaces s) \<and>
     key_at key_of s (ps_surfaces s ! i) = Some 0) (gained key_of n)"
proof (rule turns.leads_measure [where f = "to_go i"], rule turns.helpful_a)
  let ?p = "\<lambda>s. stage key_of n s \<and> core_holds s = None \<and> i < length (ps_surfaces s) \<and>
     key_at key_of s (ps_surfaces s ! i) = Some 0"
  fix m s assume s: "live km key_of s" "?p s \<and> to_go i s = m"
  show "gained key_of n (core_step km s) \<or> ?p (core_step km s) \<and> to_go i (core_step km s) < m"
    using to_go_core [OF s(1), of i] stage_core [OF s(1), of n] s(2)
    by (auto simp: core_step_host gained_def stage_def)
  have "key_at key_of (host_step km s) (ps_surfaces s ! i) = Some 0"
    using host_step_keys [OF s(1), of "ps_surfaces s ! i"] s(2) by (auto split: host_pc.split)
  moreover have "to_go i (host_step km s) = to_go i s"
    using host_step_core [OF s(1)] by (simp add: to_go_def split: option.split core_pc.split)
  ultimately have "?p (host_step km s) \<and> to_go i (host_step km s) = m \<or> gained key_of n (host_step km s)"
    using stage_host [OF s(1), of n] s(2) host_step_core [OF s(1)] by (simp add: core_holds_def)
  then show "(?p (host_step km s) \<and> to_go i (host_step km s) = m) \<or>
      gained key_of n (host_step km s) \<or> ?p (host_step km s) \<and> to_go i (host_step km s) < m"
    by blast
qed

text \<open>With every surface filled, the frame that is not yet submitted is submitted next.\<close>

lemma load_0: "load key_of s = 0 \<Longrightarrow> h \<in> set (ps_surfaces s) \<Longrightarrow> key_at key_of s h = Some 1"
  by (auto simp: load_def weight_def split: if_splits)

lemma core_submits:
  "turns.leads_to km key_of (\<lambda>s. stage key_of 0 s \<and> submitting (co_thread (ps_core s))) (gained key_of 0)"
proof (rule turns.helpful_a)
  fix s assume s: "live km key_of s" "stage key_of 0 s \<and> submitting (co_thread (ps_core s))"
  obtain sl where sl: "co_thread (ps_core s) = Some (CSubmit sl)"
    using s(2) by (auto elim: submitting.elims)
  then have "slots_are (ps_core s) (ps_surfaces s) (ps_ring s)" "sl \<in> set (co_slots (ps_core s))"
    using live_core [OF s(1)] by auto
  from slots_are_member [OF this] sl have "has_ready (ps_ring (core_step km s))"
    by (auto simp: core_step_def at_pc_def accept_submit_def)
  moreover have "load key_of (core_step km s) = 0"
    using load_core_step(1) [OF s(1)] s(2) by (simp add: stage_def)
  ultimately show "gained key_of 0 (core_step km s)"
    using load_0 [of key_of "core_step km s"] by (simp add: gained_def full_def)
  show "(stage key_of 0 (host_step km s) \<and> submitting (co_thread (ps_core (host_step km s)))) \<or> gained key_of 0 (host_step km s)"
    using stage_host [OF s(1), of 0] s(2) host_step_core [OF s(1)] by simp
qed

text \<open>Whatever the state, one of these applies.\<close>

definition free_at :: "('m \<Rightarrow> u64 option) \<Rightarrow> nat \<Rightarrow> 'm present_sys \<Rightarrow> bool" where
  "free_at key_of i s \<longleftrightarrow> core_holds s = None \<and> i < length (ps_surfaces s) \<and> key_at key_of s (ps_surfaces s ! i) = Some 0"

lemma stage_0:
  assumes "live km key_of s" "stage key_of 0 s"
  shows "gained key_of 0 s \<or> submitting (co_thread (ps_core s))"
proof -
  obtain pc where pc: "co_thread (ps_core s) = Some pc" "slots_are (ps_core s) (ps_surfaces s) (ps_ring s)"
    "ring_inv (ps_ring s)"
    using live_core [OF assms(1)] by blast
  then have "length (ps_surfaces s) = unat (slot_count (ps_ring s))" "0 < unat (slot_count (ps_ring s))"
    by (auto simp: slots_are_def ring_inv_def word_less_nat_alt)
  then have "0 < length (ps_surfaces s)"
    by simp
  then have h: "ps_surfaces s ! 0 \<in> set (ps_surfaces s)"
    by (rule nth_mem)
  have all: "key_at key_of s h = Some 1" if "h \<in> set (ps_surfaces s)" for h
    using load_0 [OF _ that, of key_of] assms(2) by (simp add: stage_def)
  with h have "filled key_of s"
    unfolding filled_def key_at_def [symmetric] by blast
  then have "has_ready (ps_ring s) \<or> submitting (co_thread (ps_core s))"
    using assms(1) pc(1) by (simp add: live_def wired_def)
  with all show ?thesis
    by (auto simp: gained_def full_def)
qed

lemma stage_Suc:
  assumes "live km key_of s" "stage key_of n s" "n \<noteq> 0"
  shows "(\<exists>i. ps_host s = HRelease i) \<or> core_holds s \<noteq> None \<or> (\<exists>i. free_at key_of i s)"
proof -
  have "\<exists>h \<in> set (ps_surfaces s). weight key_of s h \<noteq> 0"
    by (rule ccontr) (use assms(2,3) in \<open>simp add: stage_def load_def\<close>)
  then obtain h where h: "h \<in> set (ps_surfaces s)" "weight key_of s h \<noteq> 0"
    by blast
  then obtain i where i: "i < length (ps_surfaces s)" "h = ps_surfaces s ! i"
    by (auto simp: in_set_conv_nth)
  have "key_at key_of s h = None \<or> key_at key_of s h = Some 0"
    using live_key(3) [OF assms(1) h(1)] h(2) by (auto simp: weight_def)
  then consider "host_holds s = Some h" | "core_holds s \<noteq> None" | "core_holds s = None" "key_at key_of s h = Some 0"
    using live_key(1) [OF assms(1) h(1)] by auto
  then show ?thesis
  proof cases
    case 1
    with assms(2) show ?thesis
      by (cases "ps_host s") (auto simp: host_holds_def stage_def drawing_def)
  next
    case 3
    with i have "free_at key_of i s"
      by (simp add: free_at_def)
    then show ?thesis by blast
  qed blast
qed

lemma always_gains: "turns.leads_to km key_of (stage key_of n) (gained key_of n)"
proof (cases "n = 0")
  case True
  show ?thesis
    by (rule turns.leads_mono [OF turns.leads_cases [OF core_submits turns.leads_now [where p = "gained key_of 0"]]])
      (use True stage_0 in auto)
next
  case False
  have "turns.leads_to km key_of (\<lambda>s. \<exists>i. stage key_of n s \<and> free_at key_of i s) (gained key_of n)"
    using core_comes_round [of km key_of n] unfolding turns.leads_to_def free_at_def by blast
  then show ?thesis
    by (rule turns.leads_mono [OF turns.leads_cases [OF host_returns turns.leads_cases [OF core_finishes]]])
      (use False stage_Suc in blast)+
qed

lemma fills_or_draws: "turns.leads_to km key_of (\<lambda>s. \<not> drawing s) (\<lambda>s. full key_of s \<or> drawing s)"
proof (rule turns.leads_measure [where f = "load key_of"])
  fix n
  show "turns.leads_to km key_of (\<lambda>s. \<not> drawing s \<and> load key_of s = n)
     (\<lambda>s. (full key_of s \<or> drawing s) \<or> \<not> drawing s \<and> load key_of s < n)"
    by (rule turns.leads_mono [OF always_gains [of km key_of n]]) (auto simp: stage_def gained_def)
qed

lemma always_draws: "turns.leads_to km key_of (\<lambda>s. True) drawing"
proof -
  have "turns.leads_to km key_of (\<lambda>s. \<not> drawing s) drawing"
    by (rule turns.leads_trans [OF fills_or_draws turns.leads_cases [OF full_draws turns.leads_now]])
  then show ?thesis
    by (rule turns.leads_mono [OF turns.leads_cases [OF _ turns.leads_now]]) auto
qed

text \<open>
  C6. The core and the host never block each other for good. From every reachable state in which the core
  runs, the runtime is not paused and no resize or unload is under way, under every fair schedule of the
  two threads: at every instant there is a later one at which the host has drawn another frame of the core.
\<close>

theorem frames_keep_coming:
  assumes "keyed_mutex_law km key_of" "present_reachable km n s" "fair sched"
    and "co_running (ps_core s)" "\<not> ps_paused s" "\<forall>j. ps_host s \<noteq> HJoin j"
  shows "\<exists>u > t. frames_shown (pair_run (core_step km) (host_step km) sched s t) <
     frames_shown (pair_run (core_step km) (host_step km) sched s u)"
proof -
  let ?run = "pair_run (core_step km) (host_step km)"
  let ?s = "?run sched s t" and ?sched = "\<lambda>i. sched (i + t)"
  have "live km key_of s"
    using reachable_inv [OF assms(1,2)] assms by (simp add: live_def)
  then have live: "live km key_of ?s"
    by (rule turns.run_inv)
  have "turns.leads_to km key_of (\<lambda>s. frames_shown ?s \<le> frames_shown s) (\<lambda>s. frames_shown ?s < frames_shown s)"
    by (rule turns.leads_mono [OF turns.leads_trans [OF turns.leads_stable [OF always_draws] drawing_shows]])
      (auto simp: live_def intro: order.trans [OF _ frames_shown_host])
  from turns.leads_toD [OF this live _ fair_shift [OF assms(3)]]
  obtain v where "frames_shown ?s < frames_shown (?run ?sched ?s v)"
    by blast
  then have "frames_shown ?s < frames_shown (?run sched s (t + v))"
    by (simp add: pair_run_add)
  then show ?thesis
    by (metis add.right_neutral less_add_same_cancel1 not_gr_zero order_less_irrefl)
qed

section \<open>Overtaken surfaces\<close>

text \<open>Surface \<open>i\<close> holds a frame, but another one was submitted since, and the host is not about to take it.\<close>

definition parked :: "('m \<Rightarrow> u64 option) \<Rightarrow> u32 \<Rightarrow> 'm present_sys \<Rightarrow> bool" where
  "parked key_of i s \<longleftrightarrow>
     unat i < length (ps_surfaces s) \<and> key_at key_of s (ps_surfaces s ! unat i) = Some 1 \<and>
     ready_index (ps_ring s) \<noteq> i \<and> ps_last_ready s \<noteq> Some i \<and> ps_host s \<noteq> HAcquire i \<and>
     (\<forall>sl. co_thread (ps_core s) = Some (CSubmit sl) \<longrightarrow> sl_index sl \<noteq> i)"

lemma parked_core:
  assumes "live km key_of s" "parked key_of i s"
  shows "parked key_of i (core_step km s)"
proof -
  let ?h = "ps_surfaces s ! unat i"
  obtain pc where pc: "co_thread (ps_core s) = Some pc" "pc \<noteq> CExit" "slots_are (ps_core s) (ps_surfaces s) (ps_ring s)"
    "unat (co_cursor (ps_core s)) < length (co_slots (ps_core s))"
    "\<And>sl. pc_slot pc = Some sl \<Longrightarrow> sl \<in> set (co_slots (ps_core s))"
    using live_core [OF assms(1)] by blast
  have h: "?h \<in> set (ps_surfaces s)" "key_at key_of s ?h = Some 1"
    using assms(2) by (simp_all add: parked_def)
  then have free: "core_holds s \<noteq> Some ?h"
    using live_key(1) [OF assms(1) h(1)] by auto
  have "key_at key_of (core_step km s) ?h = Some 1"
    using core_step_keys [OF assms(1) h(1)] h(2) by (auto split: option.splits core_pc.splits)
  moreover have "\<forall>sl. co_thread (ps_core (core_step km s)) = Some (CSubmit sl) \<longrightarrow> sl_index sl \<noteq> i"
    using pc(1) free slots_are_member(4) [OF pc(3) pc(5)]
    by (auto simp: core_step_def loop_top_def loop_acquire_def loop_clear_def handoff_defs Let_def
        split: core_pc.splits prod.splits if_splits)
  moreover have "ready_index (ps_ring (core_step km s)) \<noteq> i" "ps_last_ready (core_step km s) = ps_last_ready s"
    using pc(1) assms(2)
    by (auto simp: parked_def core_step_def loop_top_def loop_acquire_def loop_clear_def handoff_defs accept_submit_def Let_def
        split: core_pc.splits prod.splits)
  ultimately show ?thesis
    using assms(2) by (simp add: parked_def core_step_host)
qed

lemma parked_host:
  assumes "live km key_of s" "parked key_of i s"
  shows "parked key_of i (host_step km s)"
proof -
  let ?h = "ps_surfaces s ! unat i"
  have h: "?h \<in> set (ps_surfaces s)" "key_at key_of s ?h = Some 1" "unat i < length (ps_surfaces s)"
    using assms(2) by (simp_all add: parked_def)
  have "distinct (ps_surfaces s)" "ring_inv (ps_ring s)"
    using live_core [OF assms(1)] slots_are_nth(2) by blast+
  then have inj: "ps_surfaces s ! unat j = ?h \<longleftrightarrow> j = i" if "unat j < length (ps_surfaces s)" for j
    using that h(3) by (simp add: nth_eq_iff_index_eq word_unat_eq_iff)
  have "host_holds s \<noteq> Some ?h"
    using live_key(1) [OF assms(1) h(1)] h(2) by auto
  then have "key_at key_of (host_step km s) ?h = Some 1"
    using host_step_keys [OF assms(1) h(1)] h(2) assms inj
    by (auto simp: host_holds_def parked_def live_def handoff_inv_def split: host_pc.splits)
  moreover have "ps_last_ready (host_step km s) \<noteq> Some i \<and> ps_host (host_step km s) \<noteq> HAcquire i"
    using assms by (auto simp: host_step_def host_pick_def host_acquire_def set_mutex_def latest_ready_def live_def
        parked_def Let_def split: host_pc.splits option.splits prod.splits if_splits)
  ultimately show ?thesis
    using assms(2) host_step_core [OF assms(1)] by (simp add: parked_def)
qed

text \<open>A frame that is overtaken before the host draws it takes its surface out of use: for as long as the
  threads run, the core never gets it back and only waits for it, 100 ms each time round.\<close>

lemma overtaken_surface_lost:
  assumes "live km key_of s" "parked key_of i s"
  shows "parked key_of i (pair_run (core_step km) (host_step km) sched s t)"
  by (induction t) (use assms in \<open>simp_all add: parked_core parked_host turns.run_inv\<close>)

section \<open>A mutex\<close>

definition plain_mutex :: "u64 option keyed_mutex" where
  "plain_mutex = \<lparr>km_fresh = Some 0, km_acquire = (\<lambda>m key. if m = Some key then (None, True) else (m, False)),
     km_release = (\<lambda>m key. Some key)\<rparr>"

lemma plain_mutex_law: "keyed_mutex_law plain_mutex (\<lambda>m. m)"
  by (simp add: keyed_mutex_law_def plain_mutex_def)

definition present_moves :: "move list \<Rightarrow> u64 option present_sys" where
  "present_moves mvs = fold (present_step plain_mutex) mvs (present_init 3)"

lemma present_moves_reachable: "present_reachable plain_mutex 3 (present_moves mvs)"
proof (induction mvs rule: rev_induct)
  case Nil
  show ?case by (simp add: present_moves_def present_reachable.init)
next
  case (snoc mv mvs)
  then show ?case
    unfolding present_moves_def by (simp add: present_reachable.step)
qed

definition one_frame :: "move list" where
  "one_frame = replicate 7 CoreMove"

theorem handoff_whole_frames_witness:
  "map is_shown (ps_log (present_moves ([Load True True 8 8 3 3] @ one_frame @ replicate 3 HostMove))) = [True] \<and>
   list_all outcome_ok (ps_log (present_moves ([Load True True 8 8 3 3] @ one_frame @ replicate 3 HostMove)))"
proof
  let ?s = "present_moves ([Load True True 8 8 3 3] @ one_frame @ replicate 3 HostMove)"
  show "map is_shown (ps_log ?s) = [True]"
    by code_simp
  have "outcome_ok out" if "out \<in> set (ps_log ?s)" for out
    using that handoff_whole_frames [OF plain_mutex_law present_moves_reachable]
    by (cases out rule: present_outcome.exhaust) simp_all
  then show "list_all outcome_ok (ps_log ?s)"
    by (simp add: list_all_iff)
qed

theorem frames_keep_coming_witness:
  "\<exists>u > 0. frames_shown (present_moves [Load True True 8 8 3 3]) <
     frames_shown (pair_run (core_step plain_mutex) (host_step plain_mutex) even (present_moves [Load True True 8 8 3 3]) u)"
proof -
  have "co_running (ps_core (present_moves [Load True True 8 8 3 3]))" "\<not> ps_paused (present_moves [Load True True 8 8 3 3])"
    "ps_host (present_moves [Load True True 8 8 3 3]) = HIdle"
    by code_simp+
  then show ?thesis
    using frames_keep_coming [OF plain_mutex_law present_moves_reachable fair_alternating, of "[Load True True 8 8 3 3]" 0]
    by simp
qed

text \<open>Two frames before the host looks: the first surface is lost from then on.\<close>

lemma overtaken_surface_lost_example:
  "parked (\<lambda>m. m) 0 (pair_run (core_step plain_mutex) (host_step plain_mutex) sched
     (present_moves ([Load True True 8 8 3 3] @ one_frame @ one_frame)) t)"
proof (rule overtaken_surface_lost)
  let ?s = "present_moves ([Load True True 8 8 3 3] @ one_frame @ one_frame)"
  have "co_running (ps_core ?s)" "\<not> ps_paused ?s" "ps_host ?s = HIdle" "co_thread (ps_core ?s) = Some CTop"
    "length (ps_surfaces ?s) = 3" "key_at (\<lambda>m. m) ?s (ps_surfaces ?s ! 0) = Some 1" "ready_index (ps_ring ?s) = 1"
    "ps_last_ready ?s = None"
    by code_simp+
  with reachable_inv [OF plain_mutex_law present_moves_reachable]
  show "live plain_mutex (\<lambda>m. m) ?s" "parked (\<lambda>m. m) 0 ?s"
    by (simp_all add: live_def plain_mutex_law parked_def)
qed

text \<open>A paused present asks for the mutex again: with nothing painted since, it times out instead of
  repeating the frame, and once the core has painted that surface again the picture moves.\<close>

lemma paused_present_times_out:
  "hd (ps_log (present_moves ([Load True True 8 8 3 3] @ one_frame @ replicate 4 HostMove @ [Pause] @ replicate 2 HostMove))) = TimedOut"
  by code_simp

lemma paused_present_advances:
  "let first = [Load True True 8 8 3 3] @ one_frame @ replicate 4 HostMove @ [Pause];
       later = first @ one_frame @ one_frame @ one_frame @ replicate 3 HostMove
   in hd (ps_log (present_moves later)) \<noteq> hd (ps_log (present_moves first)) \<and>
      is_shown (hd (ps_log (present_moves first))) \<and> is_shown (hd (ps_log (present_moves later)))"
  by code_simp

end
