(* ===== verification/RP_RefVk.thy ===== *)
theory RP_RefVk
  imports RP_Vulkan_Own RP_Present
begin

text \<open>
  The Vulkan presenting reference core, \<open>cores/refcore_present_vk/RefCoreVk.cpp\<close>: its device and imports, its life cycle, and
  the record its render thread works on. Objects of the driver are kept in a table with a ledger as in \<open>RP_Vulkan_Own\<close>; the
  driver is the parameter \<open>vk_api\<close> of \<open>RP_Vulkan\<close>.
\<close>

section \<open>The core\<close>

record VkSlot =
  vs_width :: u32
  vs_height :: u32
  vs_index :: u32
  vs_generation :: u64
  vs_submitted :: bool

datatype vc_field = VInstance | VDevice | VPool | VTimeline | VImage nat | VMem nat | VFenceObj nat

text \<open>Where the render thread stands in \<open>RefCoreVk::loop\<close>.\<close>

datatype vk_core_pc = VTop | VFence nat | VSubmit nat | VReport nat | VStoreIndex nat | VStoreGeneration nat
  | VStoreSync nat | VStoreFlag nat | VSleep | VExit

record RefCoreVk =
  vc_obj :: "vc_field \<Rightarrow> nat option"
  vc_slots :: "VkSlot list"
  vc_running :: bool
  vc_thread :: "vk_core_pc option"
  vc_frame :: u64
  vc_calls :: nat
  vc_next :: nat
  vc_live :: "nat list"
  vc_lost :: "nat list"
  vc_freed_twice :: bool

definition RefCoreVk_new :: RefCoreVk where
  "RefCoreVk_new = \<lparr>vc_obj = (\<lambda>_. None), vc_slots = [], vc_running = False, vc_thread = None, vc_frame = 0, vc_calls = 0,
     vc_next = 0, vc_live = [], vc_lost = [], vc_freed_twice = False\<rparr>"

definition vc_store :: "vc_field \<Rightarrow> RefCoreVk \<Rightarrow> RefCoreVk" where
  "vc_store f c =
     (let lost = (case vc_obj c f of None \<Rightarrow> vc_lost c | Some x \<Rightarrow> x # vc_lost c)
      in c\<lparr>vc_obj := (vc_obj c)(f := Some (vc_next c)), vc_live := vc_next c # vc_live c,
           vc_next := Suc (vc_next c), vc_lost := lost\<rparr>)"

definition vc_drop :: "vc_field \<Rightarrow> RefCoreVk \<Rightarrow> RefCoreVk" where
  "vc_drop f c =
     (case vc_obj c f of None \<Rightarrow> c
      | Some x \<Rightarrow> c\<lparr>vc_obj := (vc_obj c)(f := None), vc_live := remove1 x (vc_live c),
                    vc_freed_twice := (vc_freed_twice c \<or> x \<notin> set (vc_live c))\<rparr>)"

text \<open>Checked calls, up to the first failure.\<close>

datatype vc_cmd = VMake vc_field | VCheck | VMemory u32

fun vc_cmd_step :: "vk_api \<Rightarrow> vc_cmd \<Rightarrow> RefCoreVk \<Rightarrow> RefCoreVk \<times> bool" where
  "vc_cmd_step api (VMake f) c =
     (let ok = vk_ok api (vc_calls c); c = c\<lparr>vc_calls := Suc (vc_calls c)\<rparr> in (if ok then vc_store f c else c, ok))"
| "vc_cmd_step api VCheck c = (c\<lparr>vc_calls := Suc (vc_calls c)\<rparr>, vk_ok api (vc_calls c))"
| "vc_cmd_step api (VMemory props) c = (c, find_mem_type (vk_memory_types api) (vk_type_bits api (vc_calls c)) props \<noteq> None)"

fun vc_run :: "vk_api \<Rightarrow> vc_cmd list \<Rightarrow> RefCoreVk \<Rightarrow> RefCoreVk \<times> rp_result" where
  "vc_run api [] c = (c, RP_OK)"
| "vc_run api (x # xs) c = (case vc_cmd_step api x c of (c, ok) \<Rightarrow> if ok then vc_run api xs c else (c, RP_ERR_DEVICE))"

section \<open>Set-up and tear-down\<close>

definition vkc_info :: rp_core_info where
  "vkc_info = \<lparr>ci_abi_version = RETROPARK_ABI_VERSION, ci_type = 0, ci_graphics_api = 1, ci_id = ''refcore_present_vk''\<rparr>"

definition vkc_create :: "vk_api \<Rightarrow> RefCoreVk option" where
  "vkc_create api =
     (case vc_run api [VMake VInstance] RefCoreVk_new of (c, r) \<Rightarrow> if r = RP_OK then Some c else None)"

text \<open>\<open>pick_device_by_uuid\<close>: the first device with the host's identifier that has a graphics queue.\<close>

fun pick_device_by_uuid :: "vk_device_info list \<Rightarrow> bytes \<Rightarrow> (vk_device_info \<times> u32) option" where
  "pick_device_by_uuid [] uuid = None"
| "pick_device_by_uuid (d # ds) uuid =
     (if vd_uuid d \<noteq> uuid then pick_device_by_uuid ds uuid
      else case gfx_family d of None \<Rightarrow> pick_device_by_uuid ds uuid | Some q \<Rightarrow> Some (d, q))"

definition drop_slot :: "nat \<Rightarrow> RefCoreVk \<Rightarrow> RefCoreVk" where
  "drop_slot i c = vc_drop (VMem i) (vc_drop (VImage i) (vc_drop (VFenceObj i) c))"

definition destroy_device :: "RefCoreVk \<Rightarrow> RefCoreVk" where
  "destroy_device c =
     (let c = (fold drop_slot (rev [0..<length (vc_slots c)]) c)\<lparr>vc_slots := []\<rparr>
      in vc_drop VDevice (vc_drop VPool (vc_drop VTimeline c)))"

definition import_cmds :: "nat \<Rightarrow> vc_cmd list" where
  "import_cmds i = [VMake (VImage i), VMemory DEVICE_LOCAL, VMake (VMem i), VCheck, VCheck, VMake (VFenceObj i)]"

fun import_surfaces :: "vk_api \<Rightarrow> rp_surface_desc list \<Rightarrow> RefCoreVk \<Rightarrow> RefCoreVk \<times> rp_result" where
  "import_surfaces api [] c = (c, RP_OK)"
| "import_surfaces api (d # ds) c =
     (let i = length (vc_slots c);
          c = c\<lparr>vc_slots := vc_slots c @ [\<lparr>vs_width = sd_width d, vs_height = sd_height d, vs_index = sd_index d,
            vs_generation = sd_generation d, vs_submitted = False\<rparr>]\<rparr>
      in case vc_run api (import_cmds i) c of (c, r) \<Rightarrow> if r \<noteq> RP_OK then (c, r) else import_surfaces api ds c)"

definition build_from_surfaces :: "vk_api \<Rightarrow> rp_surface_set \<Rightarrow> RefCoreVk \<Rightarrow> RefCoreVk \<times> rp_result" where
  "build_from_surfaces api surfs c =
     (if pick_device_by_uuid (vk_devices api) (ss_device_uuid surfs) = None then (c, RP_ERR_DEVICE)
      else case vc_run api [VMake VDevice, VCheck, VMake VPool] c of (c, r) \<Rightarrow>
        if r \<noteq> RP_OK then (c, r)
        else case import_surfaces api (ss_surfaces surfs) c of (c, r) \<Rightarrow>
          if r \<noteq> RP_OK then (c, r) else vc_run api [VMake VTimeline, VCheck] c)"

text \<open>\<open>ref_set_surfaces\<close>, \<open>ref_stop\<close> and \<open>ref_destroy\<close> stop the thread and wait for it; here it has ended (the wait is
  modelled where the threads interleave).\<close>

definition vkc_stop :: "RefCoreVk \<Rightarrow> RefCoreVk \<times> rp_result" where
  "vkc_stop c = (c\<lparr>vc_running := False, vc_thread := None\<rparr>, RP_OK)"

definition vkc_set_surfaces :: "vk_api \<Rightarrow> rp_surface_set \<Rightarrow> RefCoreVk \<Rightarrow> RefCoreVk \<times> rp_result" where
  "vkc_set_surfaces api surfs c =
     (if ss_count surfs = 0 \<or> ss_surfaces surfs = [] \<or> ss_sync_handle surfs = None then (c, RP_ERR_BAD_ARG)
      else case build_from_surfaces api surfs (destroy_device (fst (vkc_stop c))) of (c, r) \<Rightarrow>
        if r \<noteq> RP_OK then (destroy_device c, r) else (c, RP_OK))"

text \<open>\<open>ref_start\<close>: the frame counter is a local variable of the loop and starts again at zero.\<close>

definition vkc_start :: "RefCoreVk \<Rightarrow> RefCoreVk \<times> rp_result" where
  "vkc_start c =
     (if vc_obj c VDevice = None then (c, RP_ERR_INTERNAL)
      else if vc_running c then (c, RP_OK)
      else (c\<lparr>vc_running := True, vc_thread := Some VTop, vc_frame := 0\<rparr>, RP_OK))"

definition vkc_destroy :: "RefCoreVk \<Rightarrow> RefCoreVk" where
  "vkc_destroy c = vc_drop VInstance (destroy_device (fst (vkc_stop c)))"

section \<open>Ownership\<close>

text \<open>The ledger balances, nothing was lost or destroyed twice, and the members of a slot are held only for slots in the list.\<close>

fun slot_of :: "vc_field \<Rightarrow> nat option" where
  "slot_of (VImage i) = Some i"
| "slot_of (VMem i) = Some i"
| "slot_of (VFenceObj i) = Some i"
| "slot_of f = None"

definition vc_inv :: "RefCoreVk \<Rightarrow> bool" where
  "vc_inv c \<longleftrightarrow>
     ledger (vc_obj c) (vc_live c) [] (vc_next c) \<and> vc_lost c = [] \<and> \<not> vc_freed_twice c \<and>
     (\<forall>f i. slot_of f = Some i \<and> length (vc_slots c) \<le> i \<longrightarrow> vc_obj c f = None)"

lemma vc_inv_new: "vc_inv RefCoreVk_new"
  by (simp add: vc_inv_def RefCoreVk_new_def ledger_def)

lemma vc_inv_updates [simp]:
  "vc_inv (c\<lparr>vc_running := a\<rparr>) = vc_inv c" "vc_inv (c\<lparr>vc_thread := t\<rparr>) = vc_inv c" "vc_inv (c\<lparr>vc_frame := f\<rparr>) = vc_inv c"
  "vc_inv (c\<lparr>vc_calls := n\<rparr>) = vc_inv c"
  by (simp_all add: vc_inv_def)

lemma vc_drop_fields [simp]:
  "vc_obj (vc_drop f c) = (vc_obj c)(f := None)" "vc_slots (vc_drop f c) = vc_slots c" "vc_running (vc_drop f c) = vc_running c"
  "vc_thread (vc_drop f c) = vc_thread c" "vc_lost (vc_drop f c) = vc_lost c"
  by (auto simp: vc_drop_def split: option.split)

lemma vc_inv_drop: "vc_inv c \<Longrightarrow> vc_inv (vc_drop f c)"
  by (cases "vc_obj c f") (auto simp: vc_inv_def vc_drop_def dest: ledger_drop)

lemma vc_inv_drop_slot: "vc_inv c \<Longrightarrow> vc_inv (drop_slot i c)"
  by (simp add: drop_slot_def vc_inv_drop)

lemma vc_inv_store:
  assumes "vc_inv c" "vc_obj c f = None" "\<And>i. slot_of f = Some i \<Longrightarrow> i < length (vc_slots c)"
  shows "vc_inv (vc_store f c)"
  using assms ledger_store [of "vc_obj c" "vc_live c" "[]" "vc_next c" f]
  by (auto simp: vc_inv_def vc_store_def Let_def)

lemma drop_slots_fields:
  "vc_inv c \<Longrightarrow> vc_inv (fold drop_slot js c)"
  "vc_slots (fold drop_slot js c) = vc_slots c"
  "vc_obj (fold drop_slot js c) f = (if \<exists>i \<in> set js. slot_of f = Some i then None else vc_obj c f)"
proof (induction js arbitrary: c)
  case (Cons i js)
  { case 1 then show ?case using Cons.IH(1) by (simp add: vc_inv_drop_slot) }
  { case 2 show ?case using Cons.IH(2) by (simp add: drop_slot_def) }
  { case 3
    have "vc_obj (drop_slot i c) f = (if slot_of f = Some i then None else vc_obj c f)"
      by (cases f) (auto simp: drop_slot_def)
    then show ?case using Cons.IH(3) [of "drop_slot i c"] by auto }
qed simp_all

text \<open>Tearing down leaves the instance alone.\<close>

lemma destroy_device_fields:
  assumes "vc_inv c"
  shows "vc_inv (destroy_device c)" "vc_slots (destroy_device c) = []"
    "vc_obj (destroy_device c) f = (if f = VInstance then vc_obj c f else None)"
proof -
  let ?c = "fold drop_slot (rev [0..<length (vc_slots c)]) c"
  note d = drop_slots_fields [where c = c and js = "rev [0..<length (vc_slots c)]"]
  have gone: "vc_obj ?c f = None" if "slot_of f = Some i" for f i
    using assms that by (cases "i < length (vc_slots c)") (auto simp: d(3) vc_inv_def)
  have "vc_inv (?c\<lparr>vc_slots := []\<rparr>)"
    using d(1) [OF assms] gone by (auto simp: vc_inv_def)
  then show "vc_inv (destroy_device c)"
    by (simp add: destroy_device_def Let_def vc_inv_drop)
  show "vc_slots (destroy_device c) = []"
    by (simp add: destroy_device_def Let_def)
  show "vc_obj (destroy_device c) f = (if f = VInstance then vc_obj c f else None)"
    using gone [of f] by (cases f) (auto simp: destroy_device_def Let_def d(3))
qed

text \<open>A run that makes only null members.\<close>

lemma vc_run_inv:
  assumes "vc_inv c" "distinct (filter (\<lambda>x. \<exists>f. x = VMake f) xs)"
    and "\<And>f. VMake f \<in> set xs \<Longrightarrow> vc_obj c f = None \<and> (\<forall>i. slot_of f = Some i \<longrightarrow> i < length (vc_slots c))"
  shows "vc_inv (fst (vc_run api xs c)) \<and> vc_slots (fst (vc_run api xs c)) = vc_slots c \<and>
    (\<forall>f. VMake f \<notin> set xs \<longrightarrow> vc_obj (fst (vc_run api xs c)) f = vc_obj c f) \<and>
    (snd (vc_run api xs c) = RP_OK \<longrightarrow> (\<forall>f. VMake f \<in> set xs \<longrightarrow> vc_obj (fst (vc_run api xs c)) f \<noteq> None)) \<and>
    vc_running (fst (vc_run api xs c)) = vc_running c"
  using assms
proof (induction xs arbitrary: c)
  case (Cons x xs)
  obtain c1 ok where step: "vc_cmd_step api x c = (c1, ok)"
    by (cases "vc_cmd_step api x c")
  have one: "vc_inv c1 \<and> vc_slots c1 = vc_slots c \<and> (\<forall>f. x \<noteq> VMake f \<longrightarrow> vc_obj c1 f = vc_obj c f) \<and>
      (ok \<longrightarrow> (\<forall>f. x = VMake f \<longrightarrow> vc_obj c1 f \<noteq> None)) \<and> vc_running c1 = vc_running c"
  proof (cases x)
    case (VMake f)
    have "vc_inv (vc_store f (c\<lparr>vc_calls := Suc (vc_calls c)\<rparr>))"
      using Cons.prems(1) Cons.prems(3) [of f] VMake by (intro vc_inv_store) auto
    with VMake step Cons.prems(1) show ?thesis
      by (auto simp: Let_def vc_store_def split: if_splits)
  qed (use step Cons.prems(1) in auto)
  show ?case
  proof (cases ok)
    case True
    have "vc_inv c1" "distinct (filter (\<lambda>x. \<exists>f. x = VMake f) xs)"
      using one Cons.prems(2) by (auto split: if_splits)
    moreover have "vc_obj c1 f = None \<and> (\<forall>i. slot_of f = Some i \<longrightarrow> i < length (vc_slots c1))" if "VMake f \<in> set xs" for f
    proof -
      have "x \<noteq> VMake f"
        using Cons.prems(2) that by auto
      with one that Cons.prems(3) [of f] show ?thesis by auto
    qed
    ultimately show ?thesis
      using Cons.IH [of c1] one step True Cons.prems(2) by (auto split: if_splits)
  qed (use one step in auto)
qed simp

definition slot_for :: "rp_surface_desc \<Rightarrow> VkSlot" where
  "slot_for d = \<lparr>vs_width = sd_width d, vs_height = sd_height d, vs_index = sd_index d, vs_generation = sd_generation d, vs_submitted = False\<rparr>"

lemma import_cmds_set:
  "VMake f \<in> set (import_cmds i) \<longleftrightarrow> slot_of f = Some i" "distinct (filter (\<lambda>x. \<exists>f. x = VMake f) (import_cmds i))"
  by (cases f) (auto simp: import_cmds_def)

lemma vc_inv_push: "vc_inv c \<Longrightarrow> vc_inv (c\<lparr>vc_slots := vc_slots c @ [s]\<rparr>)"
  by (simp add: vc_inv_def)

lemma import_surfaces_inv:
  assumes "vc_inv c" "import_surfaces api ds c = (c', r)"
  shows "vc_inv c' \<and> (\<forall>f. slot_of f = None \<longrightarrow> vc_obj c' f = vc_obj c f) \<and>
    (r = RP_OK \<longrightarrow> vc_slots c' = vc_slots c @ map slot_for ds) \<and> vc_running c' = vc_running c"
  using assms
proof (induction ds arbitrary: c)
  case (Cons d ds)
  let ?i = "length (vc_slots c)"
  let ?c = "c\<lparr>vc_slots := vc_slots c @ [slot_for d]\<rparr>"
  obtain c1 r1 where run: "vc_run api (import_cmds ?i) ?c = (c1, r1)"
    by (cases "vc_run api (import_cmds ?i) ?c")
  have "vc_obj c f = None" if "slot_of f = Some ?i" for f
    using Cons.prems(1) that by (simp add: vc_inv_def)
  with vc_run_inv [OF vc_inv_push [OF Cons.prems(1)] import_cmds_set(2), of ?i "slot_for d" api] run
  have one: "vc_inv c1" "vc_slots c1 = vc_slots c @ [slot_for d]" "vc_running c1 = vc_running c"
    "\<forall>f. slot_of f \<noteq> Some ?i \<longrightarrow> vc_obj c1 f = vc_obj c f"
    by (auto simp: import_cmds_set(1))
  have rest: "(if r1 \<noteq> RP_OK then (c1, r1) else import_surfaces api ds c1) = (c', r)"
    using Cons.prems(2) run by (simp add: Let_def slot_for_def)
  show ?case
  proof (cases "r1 = RP_OK")
    case True
    with Cons.IH [OF one(1)] rest one show ?thesis by auto
  qed (use rest one in auto)
qed simp

lemma build_from_surfaces_inv:
  assumes "vc_inv c" "vc_slots c = []" "\<And>f. f \<noteq> VInstance \<Longrightarrow> vc_obj c f = None" "build_from_surfaces api surfs c = (c', r)"
  shows "vc_inv c' \<and> vc_obj c' VInstance = vc_obj c VInstance \<and> vc_running c' = vc_running c \<and>
    (r = RP_OK \<longrightarrow> vc_obj c' VDevice \<noteq> None \<and> vc_obj c' VTimeline \<noteq> None \<and> vc_slots c' = map slot_for (ss_surfaces surfs))"
proof (cases "pick_device_by_uuid (vk_devices api) (ss_device_uuid surfs) = None")
  case False
  obtain c1 r1 where 1: "vc_run api [VMake VDevice, VCheck, VMake VPool] c = (c1, r1)"
    by (cases "vc_run api [VMake VDevice, VCheck, VMake VPool] c")
  obtain c2 r2 where 2: "import_surfaces api (ss_surfaces surfs) c1 = (c2, r2)"
    by (cases "import_surfaces api (ss_surfaces surfs) c1")
  obtain c3 r3 where 3: "vc_run api [VMake VTimeline, VCheck] c2 = (c3, r3)"
    by (cases "vc_run api [VMake VTimeline, VCheck] c2")
  have one: "vc_inv c1" "vc_slots c1 = []" "vc_running c1 = vc_running c" "vc_obj c1 VInstance = vc_obj c VInstance"
    "vc_obj c1 VTimeline = None" "r1 = RP_OK \<Longrightarrow> vc_obj c1 VDevice \<noteq> None"
  proof -
    have "vc_obj c f = None \<and> (\<forall>i. slot_of f = Some i \<longrightarrow> i < length (vc_slots c))"
      if "VMake f \<in> set [VMake VDevice, VCheck, VMake VPool]" for f
      using that assms(3) by auto
    from vc_run_inv [where api = api and xs = "[VMake VDevice, VCheck, VMake VPool]", OF assms(1) _ this] assms(2,3) 1
    show "vc_inv c1" "vc_slots c1 = []" "vc_running c1 = vc_running c" "vc_obj c1 VInstance = vc_obj c VInstance"
      "vc_obj c1 VTimeline = None" "r1 = RP_OK \<Longrightarrow> vc_obj c1 VDevice \<noteq> None"
      by (simp_all del: vc_run.simps)
  qed
  note two = import_surfaces_inv [OF one(1) 2]
  have three: "vc_inv c3" "vc_slots c3 = vc_slots c2" "vc_running c3 = vc_running c2" "vc_obj c3 VInstance = vc_obj c2 VInstance"
    "vc_obj c3 VDevice = vc_obj c2 VDevice" "r3 = RP_OK \<Longrightarrow> vc_obj c3 VTimeline \<noteq> None"
  proof -
    have "vc_obj c2 f = None \<and> (\<forall>i. slot_of f = Some i \<longrightarrow> i < length (vc_slots c2))"
      if "VMake f \<in> set [VMake VTimeline, VCheck]" for f
      using that two one(5) by auto
    from vc_run_inv [where api = api and xs = "[VMake VTimeline, VCheck]", OF conjunct1 [OF two] _ this] 3
    show "vc_inv c3" "vc_slots c3 = vc_slots c2" "vc_running c3 = vc_running c2" "vc_obj c3 VInstance = vc_obj c2 VInstance"
      "vc_obj c3 VDevice = vc_obj c2 VDevice" "r3 = RP_OK \<Longrightarrow> vc_obj c3 VTimeline \<noteq> None"
      by (simp_all del: vc_run.simps)
  qed
  have "(c', r) = (if r1 \<noteq> RP_OK then (c1, r1) else if r2 \<noteq> RP_OK then (c2, r2) else (c3, r3))"
    using assms(4) False 1 2 3 by (auto simp: build_from_surfaces_def simp del: vc_run.simps split: if_splits)
  with one two three show ?thesis
    by (auto split: if_splits)
qed (use assms in \<open>auto simp: build_from_surfaces_def\<close>)

lemma vkc_set_surfaces_inv:
  assumes "vc_inv c" "vkc_set_surfaces api surfs c = (c', r)"
  shows "vc_inv c'" "vc_obj c' VInstance = vc_obj c VInstance"
    "r = RP_OK \<Longrightarrow> vc_obj c' VDevice \<noteq> None \<and> vc_slots c' = map slot_for (ss_surfaces surfs) \<and> \<not> vc_running c'"
    "r \<noteq> RP_OK \<Longrightarrow> r = RP_ERR_BAD_ARG \<and> c' = c \<or> (\<forall>f. f \<noteq> VInstance \<longrightarrow> vc_obj c' f = None)"
proof -
  let ?s = "fst (vkc_stop c)"
  have stop: "vc_inv ?s" "vc_obj ?s = vc_obj c" "\<not> vc_running ?s"
    using assms(1) by (simp_all add: vkc_stop_def)
  note d = destroy_device_fields [OF stop(1)]
  have run: "vc_running (destroy_device c) = vc_running c" for c
  proof -
    have "vc_running (fold drop_slot js c) = vc_running c" for js
      by (induction js arbitrary: c) (simp_all add: drop_slot_def)
    then show ?thesis by (simp add: destroy_device_def Let_def)
  qed
  obtain b rb where b: "build_from_surfaces api surfs (destroy_device ?s) = (b, rb)"
    by (cases "build_from_surfaces api surfs (destroy_device ?s)")
  note built = build_from_surfaces_inv [OF d(1,2) _ b]
  have built': "vc_inv b" "vc_obj b VInstance = vc_obj c VInstance" "\<not> vc_running b"
    "rb = RP_OK \<Longrightarrow> vc_obj b VDevice \<noteq> None \<and> vc_slots b = map slot_for (ss_surfaces surfs)"
    using built d(3) stop(2,3) run [of ?s] by auto
  have "vc_inv c' \<and> vc_obj c' VInstance = vc_obj c VInstance \<and>
    (r = RP_OK \<longrightarrow> vc_obj c' VDevice \<noteq> None \<and> vc_slots c' = map slot_for (ss_surfaces surfs) \<and> \<not> vc_running c') \<and>
    (r \<noteq> RP_OK \<longrightarrow> r = RP_ERR_BAD_ARG \<and> c' = c \<or> (\<forall>f. f \<noteq> VInstance \<longrightarrow> vc_obj c' f = None))"
    using assms b built' destroy_device_fields [OF built'(1)]
    by (auto simp: vkc_set_surfaces_def split: if_splits)
  then show "vc_inv c'" "vc_obj c' VInstance = vc_obj c VInstance"
    "r = RP_OK \<Longrightarrow> vc_obj c' VDevice \<noteq> None \<and> vc_slots c' = map slot_for (ss_surfaces surfs) \<and> \<not> vc_running c'"
    "r \<noteq> RP_OK \<Longrightarrow> r = RP_ERR_BAD_ARG \<and> c' = c \<or> (\<forall>f. f \<noteq> VInstance \<longrightarrow> vc_obj c' f = None)"
    by blast+
qed

text \<open>The host's calls, in any order.\<close>

inductive vkc_reachable :: "RefCoreVk \<Rightarrow> bool" where
  create: "vkc_create api = Some c \<Longrightarrow> vkc_reachable c"
| set_surfaces: "vkc_reachable c \<Longrightarrow> vkc_reachable (fst (vkc_set_surfaces api surfs c))"
| start: "vkc_reachable c \<Longrightarrow> vkc_reachable (fst (vkc_start c))"
| stop: "vkc_reachable c \<Longrightarrow> vkc_reachable (fst (vkc_stop c))"

lemma vkc_reachable_inv: "vkc_reachable c \<Longrightarrow> vc_inv c"
proof (induction rule: vkc_reachable.induct)
  case (create api c)
  obtain c1 r1 where run: "vc_run api [VMake VInstance] RefCoreVk_new = (c1, r1)"
    by (cases "vc_run api [VMake VInstance] RefCoreVk_new")
  then have "vc_inv c1"
    using vc_run_inv [OF vc_inv_new, of "[VMake VInstance]" api] by (simp add: RefCoreVk_new_def del: vc_run.simps)
  with create run show ?case
    by (auto simp: vkc_create_def simp del: vc_run.simps split: if_splits)
next
  case (set_surfaces c api surfs)
  then show ?case
    by (metis vkc_set_surfaces_inv(1) prod.collapse)
qed (simp_all add: vkc_start_def vkc_stop_def)

text \<open>C25. Whatever calls of the driver fail and in whatever order the host calls it, the Vulkan reference core holds every object
  it has created exactly once and destroys none twice; its destructor leaves nothing; and handing surfaces over either succeeds
  with one slot for each surface, with its index and generation, or leaves nothing but the instance (or, for arguments it refuses, everything as it was).\<close>

theorem vk_core_objects_balanced:
  assumes "vkc_reachable c"
  shows "set (vc_live c) = ran (vc_obj c) \<and> distinct (vc_live c) \<and> \<not> vc_freed_twice c \<and>
    vc_live (vkc_destroy c) = [] \<and> \<not> vc_freed_twice (vkc_destroy c) \<and>
    (case vkc_set_surfaces api surfs c of (c', r) \<Rightarrow>
       if r = RP_OK then vc_obj c' VDevice \<noteq> None \<and> vc_slots c' = map slot_for (ss_surfaces surfs)
       else (r = RP_ERR_BAD_ARG \<and> c' = c) \<or> set (vc_live c') = set_option (vc_obj c VInstance))"
proof -
  note inv = vkc_reachable_inv [OF assms]
  have live: "set (vc_live c) = ran (vc_obj c) \<and> distinct (vc_live c) \<and> \<not> vc_freed_twice c" if "vc_inv c" for c
    using that by (simp add: vc_inv_def ledger_def)
  have "vc_inv (fst (vkc_stop c))"
    using inv by (simp add: vkc_stop_def)
  note d = destroy_device_fields [OF this]
  have "vc_inv (vkc_destroy c)"
    unfolding vkc_destroy_def by (rule vc_inv_drop) (rule d(1))
  moreover have "ran (vc_obj (vkc_destroy c)) = {}"
    using d(3) by (auto simp: vkc_destroy_def ran_def)
  ultimately have gone: "vc_live (vkc_destroy c) = [] \<and> \<not> vc_freed_twice (vkc_destroy c)"
    using live [of "vkc_destroy c"] by simp
  obtain c' r where set: "vkc_set_surfaces api surfs c = (c', r)"
    by (cases "vkc_set_surfaces api surfs c")
  note s = vkc_set_surfaces_inv [OF inv this]
  have "set (vc_live c') = set_option (vc_obj c VInstance)" if "\<forall>f. f \<noteq> VInstance \<longrightarrow> vc_obj c' f = None"
  proof -
    have "ran (vc_obj c') = set_option (vc_obj c' VInstance)"
      using that by (auto simp: ran_def) (metis option.distinct(1))
    with live [OF s(1)] s(2) show ?thesis by simp
  qed
  with s(3,4) live [OF inv] gone set show ?thesis
    by auto
qed

end
