(* ===== verification/RP_Present_Vk.thy ===== *)
theory RP_Present_Vk
  imports RP_RefVk
begin

text \<open>
  The hand-off of frames from the Vulkan presenting core to the host over timeline semaphores: the core's render thread
  (\<open>RefCoreVk::loop\<close>), its queue on the graphics processor, the host's \<open>Runtime::render\<close> with
  \<open>VulkanBackend::composite_and_present\<close>, and the host's submission, all interleaved.

  The timeline semaphore is the driver's: it is the parameter \<open>ts\<close> with its documented behaviour as the hypothesis
  \<open>timeline_law\<close>: a signal above the value it has sets it (anything else is undefined). A queue runs its submissions in order;
  a submission starts when the value it waits for is reached and signals when it ends. The host waits for its submission without
  the limit of one second that the backend sets.
\<close>

section \<open>The system\<close>

record 'm timeline =
  tl_fresh :: 'm
  tl_reached :: "'m \<Rightarrow> u64 \<Rightarrow> bool"
  tl_signal :: "'m \<Rightarrow> u64 \<Rightarrow> 'm"

definition timeline_law :: "'m timeline \<Rightarrow> ('m \<Rightarrow> u64) \<Rightarrow> bool" where
  "timeline_law ts value_of \<longleftrightarrow>
     value_of (tl_fresh ts) = 0 \<and> (\<forall>m v. tl_reached ts m v \<longleftrightarrow> v \<le> value_of m) \<and>
     (\<forall>m v. value_of m < v \<longrightarrow> value_of (tl_signal ts m v) = v)"

text \<open>A submission of the core: the slot it clears, the frame, the value it waits for and the value it signals.\<close>

record vk_job =
  vj_slot :: nat
  vj_frame :: u64
  vj_wait :: "u64 option"
  vj_signal :: u64
  vj_started :: bool

text \<open>The host: idle, between the loads of \<open>latest_ready\<close>, its submission waiting for the frame, or reading the image.\<close>

datatype vk_host_pc = VHIdle | VHLoadGeneration | VHLoadIndex | VHLoadSync u32 | VHWait u32 u64 bool | VHRead u32 u64 bool picture

record 'm vk_sys =
  vy_core :: RefCoreVk
  vy_queue :: "vk_job list"
  vy_pics :: "picture list"
  vy_produce :: 'm
  vy_consume :: 'm
  vy_ring :: SurfaceRing
  vy_paused :: bool
  vy_last_ready :: "(u32 \<times> u64) option"
  vy_last_sync :: u64
  vy_host :: vk_host_pc
  vy_shown :: "(picture \<times> picture) list"

definition vk_frame_colour :: "u64 \<Rightarrow> colour" where
  "vk_frame_colour f = (0, 1, of_nat (unat (f mod 120)) / 120, 1)"

definition vk_at :: "vk_core_pc \<Rightarrow> 'm vk_sys \<Rightarrow> 'm vk_sys" where
  "vk_at pc s = s\<lparr>vy_core := (vy_core s)\<lparr>vc_thread := Some pc\<rparr>\<rparr>"

text \<open>A slot's fence is signalled once its submission has left the queue.\<close>

definition fence_pending :: "nat \<Rightarrow> 'm vk_sys \<Rightarrow> bool" where
  "fence_pending i s \<longleftrightarrow> vs_submitted (vc_slots (vy_core s) ! i) \<and> i \<in> vj_slot ` set (vy_queue s)"

definition vk_loop_top :: "'m vk_sys \<Rightarrow> 'm vk_sys" where
  "vk_loop_top s =
     (let c = vy_core s; n = length (vc_slots c)
      in if \<not> vc_running c then vk_at VExit s
         else if n = 0 then vk_at VSleep s
         else let f = vc_frame c + 1
              in vk_at (VFence (unat (f mod of_nat n))) (s\<lparr>vy_core := c\<lparr>vc_frame := f\<rparr>\<rparr>))"

text \<open>The values of the hand-off: frame \<open>f\<close> signals \<open>2f\<close> and waits for \<open>2(f - N) + 1\<close> once \<open>f > N\<close>.\<close>

definition vk_job_of :: "nat \<Rightarrow> nat \<Rightarrow> u64 \<Rightarrow> vk_job" where
  "vk_job_of n i f =
     \<lparr>vj_slot = i, vj_frame = f, vj_wait = (if of_nat n < f then Some (2 * (f - of_nat n) + 1) else None),
      vj_signal = 2 * f, vj_started = False\<rparr>"

definition vk_submit :: "nat \<Rightarrow> 'm vk_sys \<Rightarrow> 'm vk_sys" where
  "vk_submit i s =
     (let c = vy_core s; slots = vc_slots c
      in vk_at (VReport i)
           (s\<lparr>vy_queue := vy_queue s @ [vk_job_of (length slots) i (vc_frame c)],
              vy_core := c\<lparr>vc_slots := slots[i := (slots ! i)\<lparr>vs_submitted := True\<rparr>]\<rparr>\<rparr>))"

text \<open>The report to the host, \<open>SurfaceRing::accept_submit\<close>: its checks, then one store after another.\<close>

definition vk_report :: "nat \<Rightarrow> 'm vk_sys \<Rightarrow> 'm vk_sys" where
  "vk_report i s =
     (let sl = vc_slots (vy_core s) ! i
      in if submit_allowed (vy_ring s) (vs_index sl) (vs_generation sl) then vk_at (VStoreIndex i) s else vk_at VSleep s)"

definition vk_store :: "(SurfaceRing \<Rightarrow> SurfaceRing) \<Rightarrow> vk_core_pc \<Rightarrow> 'm vk_sys \<Rightarrow> 'm vk_sys" where
  "vk_store f pc s = vk_at pc (s\<lparr>vy_ring := f (vy_ring s)\<rparr>)"

definition vk_core_step :: "'m vk_sys \<Rightarrow> 'm vk_sys" where
  "vk_core_step s =
     (case vc_thread (vy_core s) of
        None \<Rightarrow> s
      | Some pc \<Rightarrow>
          (case pc of
             VTop \<Rightarrow> vk_loop_top s
           | VFence i \<Rightarrow> if fence_pending i s then s else vk_at (VSubmit i) s
           | VSubmit i \<Rightarrow> vk_submit i s
           | VReport i \<Rightarrow> vk_report i s
           | VStoreIndex i \<Rightarrow> vk_store (store_index (vs_index (vc_slots (vy_core s) ! i))) (VStoreGeneration i) s
           | VStoreGeneration i \<Rightarrow> vk_store (store_generation (vs_generation (vc_slots (vy_core s) ! i))) (VStoreSync i) s
           | VStoreSync i \<Rightarrow> vk_store (store_sync (2 * vc_frame (vy_core s))) (VStoreFlag i) s
           | VStoreFlag i \<Rightarrow> vk_store store_flag VSleep s
           | VSleep \<Rightarrow> vk_at VTop s
           | VExit \<Rightarrow> s))"

text \<open>The two ways the loop is left early: the fence is not signalled within a second, or the submission is refused.\<close>

definition vk_core_gives_up :: "'m vk_sys \<Rightarrow> 'm vk_sys" where
  "vk_core_gives_up s =
     (case vc_thread (vy_core s) of
        Some (VFence i) \<Rightarrow> if fence_pending i s then vk_at VExit s else s
      | Some (VSubmit i) \<Rightarrow> vk_at VExit s
      | _ \<Rightarrow> s)"

definition vk_gpu_step :: "'m timeline \<Rightarrow> 'm vk_sys \<Rightarrow> 'm vk_sys" where
  "vk_gpu_step ts s =
     (case vy_queue s of
        [] \<Rightarrow> s
      | j # js \<Rightarrow>
          if vj_started j
          then s\<lparr>vy_queue := js, vy_pics := (vy_pics s)[vj_slot j := Painted (vk_frame_colour (vj_frame j))],
                 vy_produce := tl_signal ts (vy_produce s) (vj_signal j)\<rparr>
          else if (case vj_wait j of None \<Rightarrow> True | Some v \<Rightarrow> tl_reached ts (vy_produce s) v)
          then s\<lparr>vy_queue := j\<lparr>vj_started := True\<rparr> # js,
                 vy_pics := (vy_pics s)[vj_slot j := Painting (vk_frame_colour (vj_frame j))]\<rparr>
          else s)"

text \<open>The host composes the frame it has; a sync value seen before is composed again without waiting.\<close>

definition vk_host_compose :: "u32 \<Rightarrow> u64 \<Rightarrow> 'm vk_sys \<Rightarrow> 'm vk_sys" where
  "vk_host_compose i sv s =
     (if length (vy_pics s) \<le> unat i then s\<lparr>vy_host := VHIdle\<rparr> else s\<lparr>vy_host := VHWait i sv (vy_last_sync s < sv)\<rparr>)"

text \<open>
  The host picks a frame as \<open>Runtime::render\<close> does: the last one again when paused, else what
  \<open>SurfaceRing::latest_ready\<close> gives, which begins with the load of the flag.
\<close>

definition vk_host_pick :: "'m vk_sys \<Rightarrow> 'm vk_sys" where
  "vk_host_pick s =
     (if vy_paused s then (case vy_last_ready s of None \<Rightarrow> s | Some (i, sv) \<Rightarrow> vk_host_compose i sv s)
      else if has_ready (vy_ring s) then s\<lparr>vy_host := VHLoadGeneration\<rparr> else s)"

definition vk_host_took :: "u32 \<Rightarrow> u64 \<Rightarrow> 'm vk_sys \<Rightarrow> 'm vk_sys" where
  "vk_host_took i sv s = vk_host_compose i sv (s\<lparr>vy_last_ready := Some (i, sv)\<rparr>)"

text \<open>The end of the composition signals the second timeline when there are several images.\<close>

definition vk_host_done :: "'m timeline \<Rightarrow> u32 \<Rightarrow> u64 \<Rightarrow> bool \<Rightarrow> picture \<Rightarrow> 'm vk_sys \<Rightarrow> 'm vk_sys" where
  "vk_host_done ts i sv new_frame seen s =
     (let s = s\<lparr>vy_host := VHIdle, vy_shown := (seen, vy_pics s ! unat i) # vy_shown s\<rparr>
      in if \<not> new_frame then s
         else if 2 \<le> length (vy_pics s) then s\<lparr>vy_consume := tl_signal ts (vy_consume s) (sv + 1), vy_last_sync := sv\<rparr>
         else s\<lparr>vy_produce := tl_signal ts (vy_produce s) (sv + 1), vy_last_sync := sv\<rparr>)"

definition vk_host_step :: "'m timeline \<Rightarrow> 'm vk_sys \<Rightarrow> 'm vk_sys" where
  "vk_host_step ts s =
     (case vy_host s of
        VHIdle \<Rightarrow> vk_host_pick s
      | VHLoadGeneration \<Rightarrow> s\<lparr>vy_host := (if load_generation_current (vy_ring s) then VHLoadIndex else VHIdle)\<rparr>
      | VHLoadIndex \<Rightarrow> s\<lparr>vy_host := VHLoadSync (ready_index (vy_ring s))\<rparr>
      | VHLoadSync i \<Rightarrow> vk_host_took i (ready_sync (vy_ring s)) s
      | VHWait i sv new_frame \<Rightarrow>
          if new_frame \<and> \<not> tl_reached ts (vy_produce s) sv then s
          else s\<lparr>vy_host := VHRead i sv new_frame (vy_pics s ! unat i)\<rparr>
      | VHRead i sv new_frame seen \<Rightarrow> vk_host_done ts i sv new_frame seen s)"

datatype vk_move = VkCore | VkCoreGivesUp | VkGpu | VkHost | VkPause | VkResume | VkAskStop

fun vk_move_step :: "'m timeline \<Rightarrow> vk_move \<Rightarrow> 'm vk_sys \<Rightarrow> 'm vk_sys" where
  "vk_move_step ts VkCore s = vk_core_step s"
| "vk_move_step ts VkCoreGivesUp s = vk_core_gives_up s"
| "vk_move_step ts VkGpu s = vk_gpu_step ts s"
| "vk_move_step ts VkHost s = vk_host_step ts s"
| "vk_move_step ts VkPause s = s\<lparr>vy_paused := True\<rparr>"
| "vk_move_step ts VkResume s = s\<lparr>vy_paused := False\<rparr>"
| "vk_move_step ts VkAskStop s = s\<lparr>vy_core := (vy_core s)\<lparr>vc_running := False\<rparr>\<rparr>"

text \<open>\<open>Runtime::rebuild_surfaces\<close> with a core that was just created, and the start after it: one description for each slot
  of the ring, with the ring's new generation.\<close>

definition vk_surface_set :: "bytes \<Rightarrow> SurfaceRing \<Rightarrow> rp_surface_set" where
  "vk_surface_set uuid ring =
     \<lparr>ss_count = slot_count ring,
      ss_surfaces = map (\<lambda>i. \<lparr>sd_index = of_nat i, sd_width = ring_width ring, sd_height = ring_height ring,
                              sd_format = RP_FMT_R8G8B8A8_UNORM, sd_shared_handle = Some i, sd_generation = generation ring\<rparr>)
                        [0..<unat (slot_count ring)],
      ss_sync_handle = Some 0, ss_device_uuid = uuid, ss_consume_sync_handle = Some 1\<rparr>"

definition vk_handoff_start :: "vk_api \<Rightarrow> 'm timeline \<Rightarrow> bytes \<Rightarrow> u32 \<Rightarrow> u32 \<Rightarrow> u32 \<Rightarrow> 'm vk_sys option" where
  "vk_handoff_start api ts uuid n w h =
     (let ring = fst (reallocate (SurfaceRing_new n) w h)
      in case vkc_create api of
           None \<Rightarrow> None
         | Some c \<Rightarrow>
             (case vkc_set_surfaces api (vk_surface_set uuid ring) c of (c, r) \<Rightarrow>
                if r \<noteq> RP_OK then None
                else Some \<lparr>vy_core = fst (vkc_start c), vy_queue = [],
                       vy_pics = replicate (unat (slot_count ring)) Unpainted,
                       vy_produce = tl_fresh ts, vy_consume = tl_fresh ts, vy_ring = ring, vy_paused = False,
                       vy_last_ready = None, vy_last_sync = 0, vy_host = VHIdle, vy_shown = []\<rparr>))"

text \<open>The states reached while the frame counter is below \<open>2 ^ 62\<close>.\<close>

inductive vk_handoff :: "'m timeline \<Rightarrow> u32 \<Rightarrow> 'm vk_sys \<Rightarrow> bool" for ts n where
  start: "vk_handoff_start api ts uuid n w h = Some s \<Longrightarrow> vk_handoff ts n s"
| move: "vk_handoff ts n s \<Longrightarrow> unat (vc_frame (vy_core s)) < 2 ^ 62 \<Longrightarrow> vk_handoff ts n (vk_move_step ts mv s)"

section \<open>The invariant\<close>

text \<open>With \<open>d\<close> frames finished and \<open>g\<close> submitted, the queue holds the frames between; its head may have started.\<close>

definition vk_jobs :: "nat \<Rightarrow> nat \<Rightarrow> nat \<Rightarrow> vk_job list" where
  "vk_jobs n d g = map (\<lambda>k. vk_job_of n (k mod n) (of_nat k)) [Suc d..<Suc g]"

definition vk_queue_of :: "nat \<Rightarrow> nat \<Rightarrow> nat \<Rightarrow> bool \<Rightarrow> vk_job list" where
  "vk_queue_of n d g st = (if st then (vk_job_of n (Suc d mod n) (of_nat (Suc d)))\<lparr>vj_started := True\<rparr> # vk_jobs n (Suc d) g
     else vk_jobs n d g)"

fun vk_pc_ok :: "nat \<Rightarrow> nat \<Rightarrow> nat \<Rightarrow> vk_core_pc \<Rightarrow> bool" where
  "vk_pc_ok n F g (VFence i) = (i = F mod n \<and> F = Suc g)"
| "vk_pc_ok n F g (VSubmit i) = (i = F mod n \<and> F = Suc g)"
| "vk_pc_ok n F g (VReport i) = (i = F mod n \<and> F = g \<and> 1 \<le> g)"
| "vk_pc_ok n F g (VStoreIndex i) = (i = F mod n \<and> F = g \<and> 1 \<le> g)"
| "vk_pc_ok n F g (VStoreGeneration i) = (i = F mod n \<and> F = g \<and> 1 \<le> g)"
| "vk_pc_ok n F g (VStoreSync i) = (i = F mod n \<and> F = g \<and> 1 \<le> g)"
| "vk_pc_ok n F g (VStoreFlag i) = (i = F mod n \<and> F = g \<and> 1 \<le> g)"
| "vk_pc_ok n F g VExit = (g \<le> F)"
| "vk_pc_ok n F g pc = (F = g)"

text \<open>The sync values the ring holds and the host may read: those of frames submitted before.\<close>

definition frame_sync :: "nat \<Rightarrow> u64 \<Rightarrow> bool" where
  "frame_sync g sv \<longleftrightarrow> (\<exists>k. 1 \<le> k \<and> k \<le> g \<and> sv = of_nat (2 * k))"

definition sync_stored :: "vk_core_pc option \<Rightarrow> bool" where
  "sync_stored pc \<longleftrightarrow> (case pc of Some (VStoreFlag i) \<Rightarrow> True | _ \<Rightarrow> False)"

fun host_loading :: "vk_host_pc \<Rightarrow> bool" where
  "host_loading VHLoadGeneration = True"
| "host_loading VHLoadIndex = True"
| "host_loading (VHLoadSync i) = True"
| "host_loading pc = False"

definition painted_frame :: "nat \<Rightarrow> picture" where
  "painted_frame k = Painted (vk_frame_colour (of_nat k))"

fun vk_host_ok :: "nat \<Rightarrow> nat \<Rightarrow> nat \<Rightarrow> nat \<Rightarrow> nat \<Rightarrow> vk_host_pc \<Rightarrow> bool" where
  "vk_host_ok n d g F ls (VHWait i sv new_frame) =
     (unat i < n \<and> (\<exists>k. 1 \<le> k \<and> k \<le> g \<and> sv = of_nat (2 * k) \<and> (new_frame \<or> k \<le> ls)))"
| "vk_host_ok n d g F ls (VHRead i sv new_frame seen) =
     (unat i < n \<and> (\<exists>k. 1 \<le> k \<and> k \<le> d \<and> sv = of_nat (2 * k) \<and>
        (\<forall>j. 1 \<le> j \<and> j \<le> k \<and> unat i = j mod n \<and> F < j + n \<longrightarrow> seen = painted_frame j)))"
| "vk_host_ok n d g F ls (VHLoadSync i) = (unat i < n)"
| "vk_host_ok n d g F ls pc = True"

definition vk_hand :: "('m \<Rightarrow> u64) \<Rightarrow> nat \<Rightarrow> nat \<Rightarrow> nat \<Rightarrow> bool \<Rightarrow> nat \<Rightarrow> 'm vk_sys \<Rightarrow> bool" where
  "vk_hand value_of n d g st ls s \<longleftrightarrow>
     (let c = vy_core s; F = unat (vc_frame c); d' = (if st then Suc d else d)
      in 2 \<le> n \<and> n < 2 ^ 32 \<and> length (vc_slots c) = n \<and> length (vy_pics s) = n \<and> unat (slot_count (vy_ring s)) = n \<and>
         (\<forall>i < n. vs_index (vc_slots c ! i) = of_nat i \<and> vs_generation (vc_slots c ! i) = generation (vy_ring s)) \<and>
         (case vc_thread c of None \<Rightarrow> g \<le> F | Some pc \<Rightarrow> vk_pc_ok n F g pc) \<and>
         d' \<le> g \<and> g \<le> F \<and> F \<le> 2 ^ 62 \<and> vy_queue s = vk_queue_of n d g st \<and> value_of (vy_produce s) = of_nat (2 * d) \<and>
         (\<forall>k. 1 \<le> k \<and> k \<le> d \<and> d' < k + n \<longrightarrow> vy_pics s ! (k mod n) = painted_frame k) \<and>
         unat (ready_index (vy_ring s)) < n \<and>
         (has_ready (vy_ring s) \<or> sync_stored (vc_thread c) \<longrightarrow> frame_sync g (ready_sync (vy_ring s))) \<and>
         pred_option (\<lambda>(i, sv). unat i < n \<and> frame_sync g sv) (vy_last_ready s) \<and>
         (host_loading (vy_host s) \<longrightarrow> has_ready (vy_ring s)) \<and>
         ls \<le> d \<and> vy_last_sync s = of_nat (2 * ls) \<and> vk_host_ok n d g F ls (vy_host s))"

lemma vk_jobs_step: "d < g \<Longrightarrow> vk_jobs n d g = vk_job_of n (Suc d mod n) (of_nat (Suc d)) # vk_jobs n (Suc d) g"
  by (simp add: vk_jobs_def upt_conv_Cons del: upt_Suc)

lemma vk_jobs_snoc: "d \<le> g \<Longrightarrow> vk_jobs n d (Suc g) = vk_jobs n d g @ [vk_job_of n (Suc g mod n) (of_nat (Suc g))]"
  by (simp add: vk_jobs_def)

lemma vk_jobs_Nil: "vk_jobs n d d = []"
  by (simp add: vk_jobs_def)

lemma vk_queue_snoc:
  "(if st then Suc d else d) \<le> g \<Longrightarrow>
   vk_queue_of n d (Suc g) st = vk_queue_of n d g st @ [vk_job_of n (Suc g mod n) (of_nat (Suc g))]"
  by (simp add: vk_queue_of_def vk_jobs_snoc split: if_splits)

text \<open>Numbers of frames in the width of the counter.\<close>

lemma unat_frame: "k \<le> 2 ^ 62 \<Longrightarrow> unat (of_nat k :: u64) = k"
  by (simp add: unat_of_nat_u64)

lemma unat_signal: "k \<le> 2 ^ 62 \<Longrightarrow> unat (of_nat (2 * k) :: u64) = 2 * k"
  by (rule unat_of_nat_u64) simp

lemma frame_slot: "unat f \<le> 2 ^ 62 \<Longrightarrow> n < 2 ^ 32 \<Longrightarrow> unat ((f :: u64) mod of_nat n) = unat f mod n"
  by (simp add: unat_mod_distrib unat_of_nat_u64)

lemma next_frame: "unat (f :: u64) < 2 ^ 62 \<Longrightarrow> unat (f + 1) = Suc (unat f)"
  by (simp add: unat_word_ariths)

lemma slot_index: "k < n \<Longrightarrow> n < 2 ^ 32 \<Longrightarrow> unat (of_nat k :: u32) = k"
  by (simp add: unat_of_nat)

text \<open>The wait of a frame is below the signal of the frame before it, as soon as there are two slots.\<close>

lemma own_signal_suffices:
  assumes "2 \<le> n" "n < 2 ^ 32" "Suc d \<le> 2 ^ 62"
  shows "(case vj_wait (vk_job_of n i (of_nat (Suc d))) of None \<Rightarrow> True | Some v \<Rightarrow> v \<le> of_nat (2 * d))"
proof (cases "of_nat n < (of_nat (Suc d) :: u64)")
  case True
  have n: "unat (of_nat n :: u64) = n"
    using assms(2) by (simp add: unat_of_nat_u64)
  have sd: "unat (of_nat (Suc d) :: u64) = Suc d"
    using assms(3) by (rule unat_frame)
  have "n < Suc d"
    using True n sd by (simp add: word_less_nat_alt)
  then have "(of_nat (Suc d) :: u64) - of_nat n = of_nat (Suc d - n)"
    by (simp add: of_nat_diff)
  then have "2 * (of_nat (Suc d) - of_nat n) + 1 = (of_nat (2 * (Suc d - n) + 1) :: u64)"
    by simp
  moreover have "unat (of_nat (2 * (Suc d - n) + 1) :: u64) = 2 * (Suc d - n) + 1"
    using assms(3) \<open>n < Suc d\<close> by (intro unat_of_nat_u64) simp
  moreover have "unat (of_nat (2 * d) :: u64) = 2 * d"
    using assms(3) by (intro unat_signal) simp
  ultimately have "2 * (of_nat (Suc d) - of_nat n) + 1 \<le> (of_nat (2 * d) :: u64)"
    using assms(1) \<open>n < Suc d\<close> by (simp only: word_le_nat_alt)
  with True show ?thesis
    by (simp add: vk_job_of_def)
qed (simp add: vk_job_of_def)

section \<open>Every step keeps it\<close>

lemma vk_handD:
  assumes "vk_hand value_of n d g st ls s"
  shows "2 \<le> n" "n < 2 ^ 32" "length (vc_slots (vy_core s)) = n" "length (vy_pics s) = n"
    "(if st then Suc d else d) \<le> g" "g \<le> unat (vc_frame (vy_core s))" "unat (vc_frame (vy_core s)) \<le> 2 ^ 62"
    "vy_queue s = vk_queue_of n d g st" "value_of (vy_produce s) = of_nat (2 * d)"
  using assms by (simp_all add: vk_hand_def Let_def)

text \<open>Moving the counter forward keeps what the host was promised.\<close>

lemma vk_host_ok_mono:
  "vk_host_ok n d g F ls pc \<Longrightarrow> d \<le> d' \<Longrightarrow> g \<le> g' \<Longrightarrow> F \<le> F' \<Longrightarrow> vk_host_ok n d' g' F' ls pc"
  by (cases pc) (force elim!: ex_forward)+

lemma frame_sync_mono: "frame_sync g sv \<Longrightarrow> g \<le> g' \<Longrightarrow> frame_sync g' sv"
  unfolding frame_sync_def by (elim ex_forward) auto

lemma vk_loop_top_hand:
  assumes "vk_hand value_of n d g st ls s" "vc_thread (vy_core s) = Some VTop" "unat (vc_frame (vy_core s)) < 2 ^ 62"
  shows "vk_hand value_of n d g st ls (vk_loop_top s)"
proof (cases "vc_running (vy_core s)")
  case True
  let ?f = "vc_frame (vy_core s)"
  have f: "unat (?f + 1) = Suc (unat ?f)"
    by (rule next_frame) (rule assms(3))
  have slot: "unat ((?f + 1) mod of_nat n) = Suc (unat ?f) mod n"
    using frame_slot [of "?f + 1" n] f assms(3) vk_handD(2) [OF assms(1)] by simp
  have "vk_loop_top s = vk_at (VFence (Suc (unat ?f) mod n)) (s\<lparr>vy_core := (vy_core s)\<lparr>vc_frame := ?f + 1\<rparr>\<rparr>)"
    using True vk_handD(1,3) [OF assms(1)] by (simp add: vk_loop_top_def Let_def slot)
  moreover have "vk_host_ok n d g (Suc (unat ?f)) ls (vy_host s)"
    using assms(1) by - (rule vk_host_ok_mono [of n d g "unat ?f"], simp_all add: vk_hand_def Let_def)
  ultimately show ?thesis
    using assms by (simp add: vk_hand_def vk_at_def sync_stored_def Let_def f)
next
  case False
  with assms show ?thesis
    by (auto simp: vk_loop_top_def vk_hand_def vk_at_def sync_stored_def Let_def)
qed

lemma vk_submit_hand:
  assumes "vk_hand value_of n d g st ls s" "vc_thread (vy_core s) = Some (VSubmit i)"
  shows "vk_hand value_of n d (Suc g) st ls (vk_submit i s)"
proof -
  let ?F = "unat (vc_frame (vy_core s))"
  have pc: "i = ?F mod n" "?F = Suc g"
    using assms by (simp_all add: vk_hand_def Let_def)
  have frame: "vc_frame (vy_core s) = of_nat (Suc g)"
    unfolding pc(2) [symmetric] by simp
  have i: "i < n"
    using pc(1) vk_handD(1) [OF assms(1)] by simp
  have "vk_queue_of n d (Suc g) st = vk_queue_of n d g st @ [vk_job_of n i (vc_frame (vy_core s))]"
    using vk_queue_snoc [OF vk_handD(5) [OF assms(1)]] pc frame by simp
  moreover have "vk_host_ok n d (Suc g) ?F ls (vy_host s)"
    using assms(1) by - (rule vk_host_ok_mono [of n d g ?F], simp_all add: vk_hand_def Let_def)
  moreover have "has_ready (vy_ring s) \<longrightarrow> frame_sync (Suc g) (ready_sync (vy_ring s))"
      "pred_option (\<lambda>(i, sv). unat i < n \<and> frame_sync (Suc g) sv) (vy_last_ready s)"
    using assms(1) by (auto simp: vk_hand_def Let_def intro: frame_sync_mono elim!: option.pred_mono_strong)
  ultimately show ?thesis
    using assms(1) pc i by (simp add: vk_hand_def vk_submit_def vk_at_def sync_stored_def Let_def nth_list_update)
qed

lemma vk_report_hand:
  assumes "vk_hand value_of n d g st ls s" "vc_thread (vy_core s) = Some (VReport i)"
  shows "vk_hand value_of n d g st ls (vk_report i s)"
  using assms by (auto simp: vk_hand_def vk_report_def vk_at_def sync_stored_def Let_def)

text \<open>Each store keeps the index in range and the sync value that of a frame submitted before.\<close>

lemma vk_store_hand:
  assumes hand: "vk_hand value_of n d g st ls s" and thread: "vc_thread (vy_core s) = Some pc"
    and pc: "pc \<in> {VStoreIndex i, VStoreGeneration i, VStoreSync i, VStoreFlag i}"
  shows "vk_hand value_of n d g st ls (vk_core_step s)"
proof -
  let ?F = "unat (vc_frame (vy_core s))"
  have ok: "i = ?F mod n" "?F = g" "1 \<le> g"
    using hand thread pc by (auto simp: vk_hand_def Let_def)
  have frame: "vc_frame (vy_core s) = of_nat g"
    unfolding ok(2) [symmetric] by simp
  have "i < n"
    using ok(1) vk_handD(1) [OF hand] by simp
  then have index: "unat (vs_index (vc_slots (vy_core s) ! i)) < n"
    using hand vk_handD(2) [OF hand] slot_index [of i n] by (simp add: vk_hand_def Let_def)
  have sync: "frame_sync g (2 * vc_frame (vy_core s))"
    unfolding frame_sync_def using ok(3) frame by (intro exI [of _ g]) simp
  from pc consider "pc = VStoreIndex i" | "pc = VStoreGeneration i" | "pc = VStoreSync i" | "pc = VStoreFlag i"
    by blast
  then show ?thesis
    using hand thread ok index sync
    by cases (simp_all add: vk_core_step_def vk_store_def vk_hand_def vk_at_def sync_stored_def ring_access_defs Let_def)
qed

lemma vk_core_step_hand:
  assumes "vk_hand value_of n d g st ls s" "unat (vc_frame (vy_core s)) < 2 ^ 62"
  shows "\<exists>g'. vk_hand value_of n d g' st ls (vk_core_step s)"
proof (cases "vc_thread (vy_core s)")
  case None
  with assms(1) show ?thesis by (auto simp: vk_core_step_def)
next
  case (Some pc)
  have same: "vk_hand value_of n d g st ls (vk_at pc' s)" if "vk_pc_ok n (unat (vc_frame (vy_core s))) g pc'" "\<not> sync_stored (Some pc')" for pc'
    using assms(1) that Some by (simp add: vk_hand_def vk_at_def sync_stored_def Let_def)
  have ok: "vk_pc_ok n (unat (vc_frame (vy_core s))) g pc"
    using assms(1) Some by (simp add: vk_hand_def Let_def)
  show ?thesis
  proof (cases pc)
    case VTop
    with vk_loop_top_hand [OF assms(1) _ assms(2)] Some show ?thesis by (auto simp: vk_core_step_def)
  next
    case (VFence i)
    with ok same [of "VSubmit i"] Some assms(1) show ?thesis by (auto simp: vk_core_step_def sync_stored_def)
  next
    case (VSubmit i)
    with vk_submit_hand [OF assms(1), of i] Some show ?thesis by (auto simp: vk_core_step_def)
  next
    case (VReport i)
    with vk_report_hand [OF assms(1), of i] Some show ?thesis by (auto simp: vk_core_step_def)
  next
    case (VStoreIndex i)
    with vk_store_hand [OF assms(1) Some, of i] show ?thesis by auto
  next
    case (VStoreGeneration i)
    with vk_store_hand [OF assms(1) Some, of i] show ?thesis by auto
  next
    case (VStoreSync i)
    with vk_store_hand [OF assms(1) Some, of i] show ?thesis by auto
  next
    case (VStoreFlag i)
    with vk_store_hand [OF assms(1) Some, of i] show ?thesis by auto
  next
    case VSleep
    with ok same [of VTop] Some show ?thesis by (auto simp: vk_core_step_def sync_stored_def)
  next
    case VExit
    with Some assms(1) show ?thesis by (auto simp: vk_core_step_def)
  qed
qed

lemma vk_gives_up_hand:
  assumes "vk_hand value_of n d g st ls s"
  shows "vk_hand value_of n d g st ls (vk_core_gives_up s)"
proof -
  have "vk_hand value_of n d g st ls (vk_at VExit s)"
    using assms by (simp add: vk_hand_def vk_at_def sync_stored_def Let_def)
  with assms show ?thesis
    by (auto simp: vk_core_gives_up_def split: option.split vk_core_pc.split)
qed

lemma window_slots: "a < b \<Longrightarrow> b < a + n \<Longrightarrow> a mod n \<noteq> (b :: nat) mod n"
  using mod_eq_dvd_iff_nat [of a b n] nat_dvd_not_less [of "b - a" n] by auto

lemma vk_gpu_start_hand:
  assumes law: "timeline_law ts value_of" and hand: "vk_hand value_of n d g False ls s" and "d < g"
  shows "vk_hand value_of n d g True ls (vk_gpu_step ts s)" "vk_gpu_step ts s \<noteq> s"
proof -
  let ?j = "vk_job_of n (Suc d mod n) (of_nat (Suc d))"
  let ?s = "s\<lparr>vy_queue := ?j\<lparr>vj_started := True\<rparr> # vk_jobs n (Suc d) g,
      vy_pics := (vy_pics s)[Suc d mod n := Painting (vk_frame_colour (of_nat (Suc d)))]\<rparr>"
  have queue: "vy_queue s = ?j # vk_jobs n (Suc d) g"
    using vk_handD(8) [OF hand] vk_jobs_step [OF assms(3)] by (simp add: vk_queue_of_def)
  have "case vj_wait ?j of None \<Rightarrow> True | Some v \<Rightarrow> tl_reached ts (vy_produce s) v"
    using own_signal_suffices [OF vk_handD(1,2) [OF hand], of d "Suc d mod n"] vk_handD(6,7,9) [OF hand] assms(3) law
    by (auto simp: timeline_law_def split: option.splits)
  moreover have "\<not> vj_started ?j" "vj_slot ?j = Suc d mod n" "vj_frame ?j = of_nat (Suc d)"
    by (simp_all add: vk_job_of_def)
  ultimately have step: "vk_gpu_step ts s = ?s"
    using queue by (simp add: vk_gpu_step_def)
  have pics: "vy_pics ?s ! (k mod n) = painted_frame k" if "1 \<le> k" "k \<le> d" "Suc d < k + n" for k
  proof -
    have "k mod n \<noteq> Suc d mod n"
      using that by (intro window_slots) simp_all
    then show ?thesis
      using hand that by (simp add: vk_hand_def Let_def)
  qed
  show "vk_hand value_of n d g True ls (vk_gpu_step ts s)"
    using hand pics assms(3) unfolding step by (simp add: vk_hand_def Let_def vk_queue_of_def)
  show "vk_gpu_step ts s \<noteq> s"
  proof
    assume "vk_gpu_step ts s = s"
    then have "vj_started (hd (vy_queue ?s)) = vj_started (hd (vy_queue s))"
      by (simp add: step)
    then show False by (simp add: queue vk_job_of_def)
  qed
qed

lemma vk_gpu_finish_hand:
  assumes law: "timeline_law ts value_of" and hand: "vk_hand value_of n d g True ls s"
  shows "vk_hand value_of n (Suc d) g False ls (vk_gpu_step ts s)" "length (vy_queue (vk_gpu_step ts s)) < length (vy_queue s)"
proof -
  let ?j = "(vk_job_of n (Suc d mod n) (of_nat (Suc d)))\<lparr>vj_started := True\<rparr>"
  let ?s = "s\<lparr>vy_queue := vk_jobs n (Suc d) g, vy_pics := (vy_pics s)[Suc d mod n := painted_frame (Suc d)],
      vy_produce := tl_signal ts (vy_produce s) (of_nat (2 * Suc d))\<rparr>"
  have queue: "vy_queue s = ?j # vk_jobs n (Suc d) g"
    using vk_handD(8) [OF hand] by (simp add: vk_queue_of_def)
  then have step: "vk_gpu_step ts s = ?s"
    by (simp add: vk_gpu_step_def vk_job_of_def painted_frame_def)
  have pics: "vy_pics ?s ! (k mod n) = painted_frame k" if "1 \<le> k" "k \<le> Suc d" "Suc d < k + n" for k
  proof (cases "k = Suc d")
    case True
    with vk_handD(1,4) [OF hand] show ?thesis by simp
  next
    case False
    with that have "k mod n \<noteq> Suc d mod n"
      by (intro window_slots) simp_all
    with False that hand show ?thesis by (simp add: vk_hand_def Let_def)
  qed
  have "vk_host_ok n (Suc d) g (unat (vc_frame (vy_core s))) ls (vy_host s)"
    using hand by - (rule vk_host_ok_mono [of n d g "unat (vc_frame (vy_core s))"], simp_all add: vk_hand_def Let_def)
  moreover have "value_of (vy_produce ?s) = of_nat (2 * Suc d)"
  proof -
    have "Suc d \<le> 2 ^ 62"
      using vk_handD(5-7) [OF hand] by simp
    with unat_signal [of d] unat_signal [of "Suc d"] have "value_of (vy_produce s) < of_nat (2 * Suc d)"
      unfolding vk_handD(9) [OF hand] word_less_nat_alt by simp
    with law show ?thesis by (simp add: timeline_law_def)
  qed
  ultimately show "vk_hand value_of n (Suc d) g False ls (vk_gpu_step ts s)"
    using hand pics unfolding step by (simp add: vk_hand_def Let_def vk_queue_of_def)
  show "length (vy_queue (vk_gpu_step ts s)) < length (vy_queue s)"
    unfolding step by (simp add: queue)
qed

lemma vk_gpu_step_hand:
  assumes "timeline_law ts value_of" "vk_hand value_of n d g st ls s"
  shows "\<exists>d' st'. vk_hand value_of n d' g st' ls (vk_gpu_step ts s)"
proof (cases st)
  case True
  with assms(2) have "vk_hand value_of n d g True ls s" by simp
  from vk_gpu_finish_hand(1) [OF assms(1) this] show ?thesis by blast
next
  case False
  show ?thesis
  proof (cases "d < g")
    case True
    have "vk_hand value_of n d g False ls s" using assms(2) False by simp
    from vk_gpu_start_hand(1) [OF assms(1) this True] show ?thesis by blast
  next
    case nothing: False
    with vk_handD(5,8) [OF assms(2)] False have "vy_queue s = []"
      by (simp add: vk_queue_of_def vk_jobs_Nil)
    with assms(2) show ?thesis
      by (auto simp: vk_gpu_step_def)
  qed
qed

lemma vk_host_compose_hand:
  assumes hand: "vk_hand value_of n d g st ls s" and sv: "unat i < n" "frame_sync g sv"
  shows "vk_hand value_of n d g st ls (vk_host_compose i sv s)"
proof -
  have bound: "g \<le> 2 ^ 62" "ls \<le> 2 ^ 62"
    using vk_handD(5-7) [OF hand] hand by (auto simp: vk_hand_def Let_def split: if_splits)
  from sv(2) obtain k where k: "1 \<le> k" "k \<le> g" "sv = of_nat (2 * k)"
    by (auto simp: frame_sync_def)
  have "vy_last_sync s < sv \<or> k \<le> ls"
  proof (cases "k \<le> ls")
    case False
    have "vy_last_sync s = of_nat (2 * ls)"
      using hand by (simp add: vk_hand_def Let_def)
    then have "vy_last_sync s < sv"
      unfolding k(3) word_less_nat_alt
      using unat_signal [OF bound(2)] unat_signal [of k] k(2) bound(1) False by simp
    then show ?thesis ..
  qed simp
  with k have "\<exists>k. 1 \<le> k \<and> k \<le> g \<and> sv = of_nat (2 * k) \<and> (vy_last_sync s < sv \<or> k \<le> ls)"
    by blast
  with hand sv(1) show ?thesis
    by (simp add: vk_host_compose_def vk_hand_def Let_def)
qed

text \<open>The picture in a slot, for each frame that may still be in it.\<close>

lemma vk_hand_pics:
  assumes hand: "vk_hand value_of n d g st ls s" and "1 \<le> j" "j \<le> d" "unat (vc_frame (vy_core s)) < j + n"
  shows "vy_pics s ! (j mod n) = painted_frame j"
proof -
  have "(if st then Suc d else d) \<le> unat (vc_frame (vy_core s))"
    using vk_handD(5,6) [OF hand] by simp
  with assms show ?thesis by (auto simp: vk_hand_def Let_def)
qed

lemma vk_host_read_hand:
  assumes law: "timeline_law ts value_of" and hand: "vk_hand value_of n d g st ls s"
    and host: "vy_host s = VHWait i sv new_frame" and go: "new_frame \<longrightarrow> tl_reached ts (vy_produce s) sv"
  shows "vk_hand value_of n d g st ls (s\<lparr>vy_host := VHRead i sv new_frame (vy_pics s ! unat i)\<rparr>)"
proof -
  from hand host obtain k where i: "unat i < n" and k: "1 \<le> k" "k \<le> g" "sv = of_nat (2 * k)" "new_frame \<or> k \<le> ls"
    by (auto simp: vk_hand_def Let_def)
  have bound: "k \<le> 2 ^ 62" "d \<le> 2 ^ 62"
    using k(2) vk_handD(5-7) [OF hand] by (auto split: if_splits)
  have "k \<le> d"
  proof (cases new_frame)
    case True
    with go have "sv \<le> value_of (vy_produce s)"
      using law by (simp add: timeline_law_def)
    then have "unat sv \<le> unat (of_nat (2 * d) :: u64)"
      by (simp only: word_le_nat_alt vk_handD(9) [OF hand])
    then show ?thesis
      unfolding k(3) unat_signal [OF bound(1)] unat_signal [OF bound(2)] by simp
  next
    case False
    with k(4) hand show ?thesis by (auto simp: vk_hand_def Let_def)
  qed
  then have "\<forall>j. 1 \<le> j \<and> j \<le> k \<and> unat i = j mod n \<and> unat (vc_frame (vy_core s)) < j + n \<longrightarrow>
      vy_pics s ! unat i = painted_frame j"
    using vk_hand_pics [OF hand] by auto
  with i k \<open>k \<le> d\<close> have "vk_host_ok n d g (unat (vc_frame (vy_core s))) ls (VHRead i sv new_frame (vy_pics s ! unat i))"
    by auto
  with hand show ?thesis
    by (simp add: vk_hand_def Let_def)
qed

lemma vk_host_step_hand:
  assumes law: "timeline_law ts value_of" and hand: "vk_hand value_of n d g st ls s"
  shows "\<exists>ls'. vk_hand value_of n d g st ls' (vk_host_step ts s)"
proof (cases "vy_host s")
  case VHIdle
  have last: "pred_option (\<lambda>(i, sv). unat i < n \<and> frame_sync g sv) (vy_last_ready s)"
    using hand by (simp add: vk_hand_def Let_def)
  have "vk_hand value_of n d g st ls (vk_host_pick s)"
  proof (cases "vy_paused s")
    case True
    with last vk_host_compose_hand [OF hand] hand show ?thesis
      by (auto simp: vk_host_pick_def split: option.split)
  next
    case False
    have "vk_hand value_of n d g st ls (s\<lparr>vy_host := VHLoadGeneration\<rparr>)" if "has_ready (vy_ring s)"
      using hand that by (simp add: vk_hand_def Let_def)
    with False hand show ?thesis by (simp add: vk_host_pick_def)
  qed
  with VHIdle show ?thesis by (auto simp: vk_host_step_def)
next
  case VHLoadGeneration
  with hand have "vk_hand value_of n d g st ls (vk_host_step ts s)"
    by (simp add: vk_host_step_def vk_hand_def Let_def)
  then show ?thesis ..
next
  case VHLoadIndex
  with hand have "vk_hand value_of n d g st ls (vk_host_step ts s)"
    by (simp add: vk_host_step_def vk_hand_def Let_def)
  then show ?thesis ..
next
  case (VHLoadSync i)
  with hand have i: "unat i < n" "frame_sync g (ready_sync (vy_ring s))"
    by (simp_all add: vk_hand_def Let_def)
  with hand have "vk_hand value_of n d g st ls (s\<lparr>vy_last_ready := Some (i, ready_sync (vy_ring s))\<rparr>)"
    by (simp add: vk_hand_def Let_def)
  from vk_host_compose_hand [OF this i] VHLoadSync show ?thesis
    by (auto simp: vk_host_step_def vk_host_took_def)
next
  case (VHWait i sv new_frame)
  with vk_host_read_hand [OF law hand VHWait] hand show ?thesis
    by (auto simp: vk_host_step_def)
next
  case (VHRead i sv new_frame seen)
  from hand VHRead obtain k where k: "k \<le> d" "sv = of_nat (2 * k)"
    by (auto simp: vk_hand_def Let_def)
  have two: "2 \<le> length (vy_pics s)"
    using vk_handD(1,4) [OF hand] by simp
  have "vk_hand value_of n d g st (if new_frame then k else ls) (vk_host_done ts i sv new_frame seen s)"
    using hand k two by (cases new_frame) (simp_all add: vk_host_done_def vk_hand_def Let_def)
  with VHRead show ?thesis
    by (auto simp: vk_host_step_def)
qed

lemma vk_hand_paused: "vk_hand value_of n d g st ls (s\<lparr>vy_paused := p\<rparr>) = vk_hand value_of n d g st ls s"
  by (simp add: vk_hand_def Let_def)

lemma vk_move_hand:
  assumes "timeline_law ts value_of" "vk_hand value_of n d g st ls s" "unat (vc_frame (vy_core s)) < 2 ^ 62"
  shows "\<exists>d g st ls. vk_hand value_of n d g st ls (vk_move_step ts mv s)"
proof (cases mv)
  case VkCore
  with vk_core_step_hand [OF assms(2,3)] show ?thesis by auto
next
  case VkCoreGivesUp
  with vk_gives_up_hand [OF assms(2)] show ?thesis by auto
next
  case VkGpu
  with vk_gpu_step_hand [OF assms(1,2)] show ?thesis by auto
next
  case VkHost
  with vk_host_step_hand [OF assms(1,2)] show ?thesis by auto
next
  case VkAskStop
  have "vk_hand value_of n d g st ls (s\<lparr>vy_core := (vy_core s)\<lparr>vc_running := False\<rparr>\<rparr>)"
    using assms(2) by (cases "vc_thread (vy_core s)") (simp_all add: vk_hand_def Let_def)
  with VkAskStop show ?thesis by auto
next
  case VkPause
  with assms(2) vk_hand_paused [where p = True and s = s] show ?thesis by auto
next
  case VkResume
  with assms(2) vk_hand_paused [where p = False and s = s] show ?thesis by auto
qed

lemma vk_start_hand:
  assumes law: "timeline_law ts value_of" and "2 \<le> unat n" and start: "vk_handoff_start api ts uuid n w h = Some s"
  shows "vk_hand value_of (unat n) 0 0 False 0 s" "vc_thread (vy_core s) = Some VTop" "vc_frame (vy_core s) = 0" "\<not> has_ready (vy_ring s)"
proof -
  let ?ring = "fst (reallocate (SurfaceRing_new n) w h)"
  have n: "n \<noteq> 0" "slot_count ?ring = n"
    using assms(2) by (auto simp: reallocate_def SurfaceRing_new_def)
  from start obtain c0 c where c0: "vkc_create api = Some c0"
    and c: "vkc_set_surfaces api (vk_surface_set uuid ?ring) c0 = (c, RP_OK)"
    and s: "s = \<lparr>vy_core = fst (vkc_start c), vy_queue = [], vy_pics = replicate (unat n) Unpainted,
         vy_produce = tl_fresh ts, vy_consume = tl_fresh ts, vy_ring = ?ring, vy_paused = False,
         vy_last_ready = None, vy_last_sync = 0, vy_host = VHIdle, vy_shown = []\<rparr>"
    using n(2) by (auto simp: vk_handoff_start_def Let_def split: option.splits prod.splits if_splits)
  note set = vkc_set_surfaces_inv(3) [OF vkc_reachable_inv [OF vkc_reachable.create [OF c0]] c refl]
  have ring: "ring_width ?ring = w" "ring_height ?ring = h"
    by (simp_all add: reallocate_def)
  have slots: "vc_slots c = map (\<lambda>i. \<lparr>vs_width = w, vs_height = h, vs_index = of_nat i, vs_generation = generation ?ring, vs_submitted = False\<rparr>) [0..<unat n]"
    using set n(2) ring by (simp add: vk_surface_set_def slot_for_def comp_def)
  have core: "fst (vkc_start c) = c\<lparr>vc_running := True, vc_thread := Some VTop, vc_frame := 0\<rparr>"
    using set by (auto simp: vkc_start_def)
  have fresh: "\<not> has_ready ?ring" "ready_index ?ring = 0"
    by (simp_all add: reallocate_def SurfaceRing_new_def)
  show "vc_thread (vy_core s) = Some VTop" "vc_frame (vy_core s) = 0" "\<not> has_ready (vy_ring s)"
    using fresh by (simp_all add: s core)
  show "vk_hand value_of (unat n) 0 0 False 0 s"
    using fresh assms(2) law n(2) unat_u32_bound [of n]
    by (simp add: s core vk_hand_def sync_stored_def Let_def slots vk_queue_of_def vk_jobs_Nil timeline_law_def)
qed

lemma vk_handoff_inv:
  assumes "timeline_law ts value_of" "2 \<le> unat n" "vk_handoff ts n s"
  obtains d g st ls where "vk_hand value_of (unat n) d g st ls s"
proof -
  from assms(3) have "\<exists>d g st ls. vk_hand value_of (unat n) d g st ls s"
  proof induction
    case (start api uuid w h s)
    with vk_start_hand(1) [OF assms(1,2)] show ?case by blast
  next
    case (move s mv)
    with vk_move_hand [OF assms(1)] show ?case by blast
  qed
  with that show ?thesis by blast
qed









section \<open>What the protocol gives\<close>


text \<open>C7. With two or more slots, in every interleaving of the core's thread, its queue and the host (each load and store of the
  ring a step of its own, taking effect in the order of the steps): while the host reads an image for the sync value \<open>2k\<close>, frame \<open>k\<close> has
  been painted to the end; and if the slot it reads is that of frame \<open>k\<close>, or of an earlier frame \<open>j\<close> because a publication came between
  the loads of the index and of the sync value, then as long as the core has not begun a frame that uses the slot again the host sees exactly
  frame \<open>j\<close>, from the start of its reading on. This holds for new frames and for repeats, paused or not. It says nothing of a slot
  whose index was published ahead of its sync value.\<close>

theorem vk_handoff_exact:
  assumes "timeline_law ts value_of" "2 \<le> unat n" "vk_handoff ts n s" "vy_host s = VHRead i sv new_frame seen"
  shows "\<exists>k. 1 \<le> k \<and> sv = of_nat (2 * k) \<and> i < n \<and> of_nat (2 * k) \<le> value_of (vy_produce s) \<and>
    (\<forall>j. 1 \<le> j \<and> j \<le> k \<and> unat i = j mod unat n \<and> unat (vc_frame (vy_core s)) < j + unat n \<longrightarrow>
       seen = Painted (vk_frame_colour (of_nat j)) \<and> vy_pics s ! unat i = Painted (vk_frame_colour (of_nat j)))"
proof -
  obtain d g st ls where hand: "vk_hand value_of (unat n) d g st ls s"
    using vk_handoff_inv [OF assms(1-3)] .
  from hand assms(4) obtain k where i: "unat i < unat n" and k: "1 \<le> k" "k \<le> d" "sv = of_nat (2 * k)"
    "\<forall>j. 1 \<le> j \<and> j \<le> k \<and> unat i = j mod unat n \<and> unat (vc_frame (vy_core s)) < j + unat n \<longrightarrow> seen = painted_frame j"
    by (auto simp: vk_hand_def Let_def)
  have "d \<le> 2 ^ 62"
    using vk_handD(5-7) [OF hand] by (simp split: if_splits)
  then have reached: "of_nat (2 * k) \<le> value_of (vy_produce s)"
    unfolding vk_handD(9) [OF hand] word_le_nat_alt using k(2) unat_signal [of k] unat_signal [of d] by simp
  have "vy_pics s ! unat i = painted_frame j"
    if "1 \<le> j" "j \<le> k" "unat i = j mod unat n" "unat (vc_frame (vy_core s)) < j + unat n" for j
    using vk_hand_pics [OF hand that(1) _ that(4)] that(2,3) k(2) by simp
  with i k reached show ?thesis
    unfolding painted_frame_def word_less_nat_alt by blast
qed

lemma vk_queue_length:
  assumes "vk_hand value_of n d g st ls s"
  shows "length (vy_queue s) = g - d"
  using vk_handD(5,8) [OF assms] by (auto simp: vk_queue_of_def vk_jobs_def split: if_splits)

lemma vk_gpu_step_empty: "vy_queue s = [] \<Longrightarrow> vk_gpu_step ts s = s"
  by (simp add: vk_gpu_step_def)

lemma vk_idle_queue_drains:
  assumes "timeline_law ts value_of" "vk_hand value_of n d g False ls s"
  shows "vy_queue ((vk_gpu_step ts ^^ (2 * (g - d))) s) = []"
  using assms(2)
proof (induction "g - d" arbitrary: d s)
  case 0
  with vk_queue_length [OF 0(2)] show ?case by simp
next
  case (Suc m)
  then have "d < g" by simp
  from vk_gpu_start_hand(1) [OF assms(1) Suc.prems this] have "vk_hand value_of n d g True ls (vk_gpu_step ts s)" .
  from vk_gpu_finish_hand(1) [OF assms(1) this]
  have "vk_hand value_of n (Suc d) g False ls (vk_gpu_step ts (vk_gpu_step ts s))" .
  with Suc.hyps(1) [of "Suc d"] Suc.hyps(2)
  have "vy_queue ((vk_gpu_step ts ^^ (2 * (g - Suc d))) (vk_gpu_step ts (vk_gpu_step ts s))) = []"
    by simp
  moreover have "2 * (g - d) = Suc (Suc (2 * (g - Suc d)))"
    using \<open>d < g\<close> by simp
  ultimately show ?case
    by (simp add: funpow_swap1)
qed

text \<open>With two or more slots the host does not hold the core up: from every reachable state its queue runs empty by itself, in
  at most two steps for each frame in it, whatever the host signals. The comment at the wait in \<open>RefCoreVk.cpp\<close> and the one on the
  consume timeline in \<open>VulkanBackend.h\<close> mean the core to wait for the host here.\<close>

lemma vk_queue_drains:
  assumes "timeline_law ts value_of" "2 \<le> unat n" "vk_handoff ts n s"
  shows "vy_queue ((vk_gpu_step ts ^^ (2 * length (vy_queue s))) s) = []"
proof -
  obtain d g st ls where hand: "vk_hand value_of (unat n) d g st ls s"
    using vk_handoff_inv [OF assms] .
  show ?thesis
  proof (cases st)
    case True
    with hand have "vk_hand value_of (unat n) d g True ls s" by simp
    from vk_idle_queue_drains [OF assms(1) vk_gpu_finish_hand(1) [OF assms(1) this]]
    have "vy_queue ((vk_gpu_step ts ^^ (2 * (g - Suc d))) (vk_gpu_step ts s)) = []" .
    moreover have "2 * length (vy_queue s) = Suc (Suc (2 * (g - Suc d)))"
      using vk_queue_length [OF hand] vk_handD(5) [OF hand] True by simp
    ultimately show ?thesis
      using vk_gpu_step_empty [of "(vk_gpu_step ts ^^ (2 * (g - Suc d))) (vk_gpu_step ts s)" ts] by (simp add: funpow_swap1)
  next
    case False
    with hand vk_idle_queue_drains [OF assms(1), of "unat n" d g ls s] vk_queue_length [OF hand] show ?thesis
      by simp
  qed
qed

section \<open>Runs\<close>

text \<open>A timeline semaphore as a number.\<close>

definition counting :: "u64 timeline" where
  "counting = \<lparr>tl_fresh = 0, tl_reached = (\<lambda>m v. v \<le> m), tl_signal = (\<lambda>m v. v)\<rparr>"

lemma counting_law: "timeline_law counting id"
  by (simp add: timeline_law_def counting_def)

definition vk_demo_api :: vk_api where
  "vk_demo_api = \<lparr>vk_ok = (\<lambda>i. True), vk_devices = [\<lparr>vd_families = [True], vd_discrete = True, vd_uuid = []\<rparr>],
     vk_memory_types = [7], vk_type_bits = (\<lambda>_. 1),
     vk_surface = \<lparr>vs_supported = True, vs_formats = [], vs_current_extent = (4, 4), vs_min_extent = (1, 1),
        vs_max_extent = (9, 9), vs_min_images = 2, vs_max_images = 0, vs_images = 2\<rparr>,
     vk_acquire = (\<lambda>_. AcquireTimeout), vk_memory = (\<lambda>n. []), vk_shared = (\<lambda>_. []), vk_draw = (\<lambda>_ w h. [])\<rparr>"

definition vk_demo_start :: "u64 vk_sys" where
  "vk_demo_start = the (vk_handoff_start vk_demo_api counting [] 3 4 4)"

definition vk_demo_run :: "vk_move list \<Rightarrow> u64 vk_sys" where
  "vk_demo_run mvs = fold (vk_move_step counting) mvs vk_demo_start"

fun short_of_limit :: "u64 vk_sys \<Rightarrow> vk_move list \<Rightarrow> bool" where
  "short_of_limit s [] = True"
| "short_of_limit s (mv # mvs) = (vc_frame (vy_core s) < 0x4000000000000000 \<and> short_of_limit (vk_move_step counting mv s) mvs)"

lemma vk_demo_started: "vk_handoff_start vk_demo_api counting [] 3 4 4 \<noteq> None"
  by code_simp

lemma vk_fold_handoff:
  "vk_handoff counting n s \<Longrightarrow> short_of_limit s mvs \<Longrightarrow> vk_handoff counting n (fold (vk_move_step counting) mvs s)"
proof (induction mvs arbitrary: s)
  case (Cons mv mvs)
  from Cons.prems(2) have "unat (vc_frame (vy_core s)) < 2 ^ 62"
    by (simp add: word_less_nat_alt)
  from vk_handoff.move [OF Cons.prems(1) this] Cons.prems(2) Cons.IH show ?case by simp
qed simp

lemma vk_demo_handoff:
  assumes "short_of_limit vk_demo_start mvs"
  shows "vk_handoff counting 3 (vk_demo_run mvs)"
proof -
  have "vk_handoff counting 3 vk_demo_start"
    using vk_demo_started unfolding vk_demo_start_def by (intro vk_handoff.start [of vk_demo_api _ "[]" _ 4 4]) auto
  then show ?thesis
    unfolding vk_demo_run_def using assms by (rule vk_fold_handoff)
qed

text \<open>A driver that has lost its device.\<close>

definition vk_lost_api :: vk_api where
  "vk_lost_api = vk_demo_api\<lparr>vk_ok := (\<lambda>i. False)\<rparr>"

definition vk_demo_surfaces :: rp_surface_set where
  "vk_demo_surfaces = vk_surface_set [] (fst (reallocate (SurfaceRing_new 3) 4 4))"

definition vk_demo_core :: RefCoreVk where
  "vk_demo_core = fst (vkc_set_surfaces vk_demo_api vk_demo_surfaces (the (vkc_create vk_demo_api)))"

lemma vk_demo_core_made:
  "vkc_create vk_demo_api \<noteq> None" "length (vc_live vk_demo_core) = 13"
  by code_simp+

lemma vk_lost_api_refuses: "snd (vkc_set_surfaces vk_lost_api vk_demo_surfaces vk_demo_core) = RP_ERR_DEVICE"
  by (simp add: vkc_set_surfaces_def vk_demo_surfaces_def vk_surface_set_def reallocate_def SurfaceRing_new_def build_from_surfaces_def
      vk_lost_api_def vk_demo_api_def gfx_family_def Let_def split: prod.split)

theorem vk_core_objects_balanced_witness:
  "length (vc_live vk_demo_core) = 13 \<and> vc_live (vkc_destroy vk_demo_core) = [] \<and>
   snd (vkc_set_surfaces vk_lost_api vk_demo_surfaces vk_demo_core) = RP_ERR_DEVICE \<and>
   set (vc_live (fst (vkc_set_surfaces vk_lost_api vk_demo_surfaces vk_demo_core))) = set_option (vc_obj vk_demo_core VInstance)"
proof -
  have "vkc_create vk_demo_api = Some (the (vkc_create vk_demo_api))"
    using vk_demo_core_made(1) by simp
  then have reached: "vkc_reachable vk_demo_core"
    unfolding vk_demo_core_def by (intro vkc_reachable.set_surfaces vkc_reachable.create)
  obtain c r where r: "vkc_set_surfaces vk_lost_api vk_demo_surfaces vk_demo_core = (c, r)"
    by (cases "vkc_set_surfaces vk_lost_api vk_demo_surfaces vk_demo_core")
  with vk_lost_api_refuses have "r = RP_ERR_DEVICE" by simp
  with vk_core_objects_balanced [OF reached, of vk_demo_surfaces vk_lost_api] r vk_demo_core_made(2) show ?thesis
    by simp
qed

text \<open>One frame painted, reported and being read.\<close>

definition one_frame :: "vk_move list" where
  "one_frame = replicate 8 VkCore @ [VkGpu, VkGpu] @ replicate 5 VkHost"

theorem vk_handoff_exact_witness:
  "vy_host (vk_demo_run one_frame) = VHRead 1 2 True (Painted (vk_frame_colour 1)) \<and>
   vy_pics (vk_demo_run one_frame) ! 1 = Painted (vk_frame_colour 1)"
proof -
  have h: "short_of_limit vk_demo_start one_frame"
    "vy_host (vk_demo_run one_frame) = VHRead 1 2 True (Painted (vk_frame_colour 1))"
    "vc_frame (vy_core (vk_demo_run one_frame)) = 1"
    by code_simp+
  obtain k where k: "1 \<le> k" and all: "\<forall>j. 1 \<le> j \<and> j \<le> k \<and> unat (1 :: u32) = j mod unat (3 :: u32) \<and>
       unat (vc_frame (vy_core (vk_demo_run one_frame))) < j + unat (3 :: u32) \<longrightarrow>
       Painted (vk_frame_colour 1) = Painted (vk_frame_colour (of_nat j)) \<and>
       vy_pics (vk_demo_run one_frame) ! unat (1 :: u32) = Painted (vk_frame_colour (of_nat j))"
    using vk_handoff_exact [OF counting_law _ vk_demo_handoff [OF h(1)] h(2)] by auto
  from k all [rule_format, of 1] h(2,3) show ?thesis by simp
qed


text \<open>The host reads an unfinished image: after frame 1 is shown, the core stores the index of frame 2 and the host takes it with the
  sync value of frame 1, which is no new frame, so it does not wait.\<close>

lemma vk_unfinished_frame_read:
  fixes s
  defines "s \<equiv> vk_demo_run (one_frame @ [VkHost] @ replicate 6 VkCore @ replicate 5 VkHost)"
  shows "vk_handoff counting 3 s \<and> vy_host s = VHRead 2 2 False Unpainted"
proof -
  have "short_of_limit vk_demo_start (one_frame @ [VkHost] @ replicate 6 VkCore @ replicate 5 VkHost)"
    by code_simp
  then have "vk_handoff counting 3 s"
    unfolding s_def by (rule vk_demo_handoff)
  moreover have "vy_host s = VHRead 2 2 False Unpainted"
    unfolding s_def by code_simp
  ultimately show ?thesis by blast
qed

text \<open>Nothing holds the core back: it fills all its slots and starts on the first again while the host still reads it, so the picture the host
  reads changes under it.\<close>

lemma vk_slot_overwritten_while_read:
  fixes s
  defines "s \<equiv> vk_demo_run (one_frame @ concat (replicate 3 (replicate 9 VkCore @ [VkGpu, VkGpu])))"
  shows "vk_handoff counting 3 s \<and> vy_host s = VHRead 1 2 True (Painted (vk_frame_colour 1)) \<and>
    vy_pics s ! 1 = Painted (vk_frame_colour 4)"
proof -
  have "short_of_limit vk_demo_start (one_frame @ concat (replicate 3 (replicate 9 VkCore @ [VkGpu, VkGpu])))"
    by code_simp
  then have "vk_handoff counting 3 s"
    unfolding s_def by (rule vk_demo_handoff)
  moreover have "vy_host s = VHRead 1 2 True (Painted (vk_frame_colour 1))" "vy_pics s ! 1 = Painted (vk_frame_colour 4)"
    unfolding s_def by code_simp+
  ultimately show ?thesis by blast
qed

text \<open>The loop is left without clearing the flag, so a core whose thread has given up cannot be started again.\<close>

lemma vk_core_stays_dead:
  assumes "vc_thread (vy_core s) = Some (VSubmit i)" "vc_running (vy_core s)" "vc_obj (vy_core s) VDevice \<noteq> None"
  shows "vc_thread (fst (vkc_start (vy_core (vk_core_gives_up s)))) = Some VExit" "snd (vkc_start (vy_core (vk_core_gives_up s))) = RP_OK"
  using assms by (auto simp: vk_core_gives_up_def vk_at_def vkc_start_def)

text \<open>A core that is stopped and started on the same surfaces counts its frames from one again, below the values the timeline has reached.\<close>

lemma vk_restart_signals_lower:
  assumes "vc_obj c VDevice \<noteq> None" "vc_slots c \<noteq> []" "length (vc_slots c) < 2 ^ 32"
  shows "vc_frame (vy_core (vk_loop_top (s\<lparr>vy_core := fst (vkc_start (fst (vkc_stop c)))\<rparr>))) = 1"
  using assms by (auto simp: vkc_start_def vkc_stop_def vk_loop_top_def vk_at_def Let_def)

end
