(* ===== verification/RP_Harness.thy ===== *)
theory RP_Harness
  imports RP_Rollback_Correct RP_Pad
begin

text \<open>
  The windowed harness, \<open>harness/windowed/main.cpp\<close>: the command line, the choice of core and backend, the start of the
  runtime and of netplay, the keys, the input it reads, the frame pacer and the message loop.

  \<^item> \<open>harness\<close> holds the globals and the locals of \<open>wWinMain\<close> that live across frames. The runtime is one object: a session
    gets it for the tick and hands it back.
  \<^item> What Windows answers in one round of the loop is the record \<open>frame_in\<close>: keys are sampled at three moments. The virtual key
    codes are the parameter \<open>vk\<close>, the gamepad masks \<open>xm\<close>, the conversion of wide strings \<open>narrow\<close>.
  \<^item> The Dolphin library's netplay functions are foreign: what they answer is the record \<open>dolphin\<close>, the calls are logged.
  \<^item> Performance counts are integers; the source computes the pace with doubles, here it is exact. Console output and the
    stretching of the picture into the window are left out.
\<close>

section \<open>Command line\<close>

type_synonym wstring = "u16 list"

definition wide :: "string \<Rightarrow> wstring" where
  "wide s = map of_char s"

record harness_args =
  ha_vulkan :: bool
  ha_gl :: bool
  ha_driven :: bool
  ha_content_path :: string
  ha_custom_core_dir :: string
  ha_netplay_host :: bool
  ha_netplay_join :: bool
  ha_rollback :: bool
  ha_netplay_ip :: string
  ha_netplay_port :: u16

definition harness_args0 :: harness_args where
  "harness_args0 = \<lparr>ha_vulkan = False, ha_gl = False, ha_driven = False, ha_content_path = [], ha_custom_core_dir = [],
     ha_netplay_host = False, ha_netplay_join = False, ha_rollback = False, ha_netplay_ip = [], ha_netplay_port = 0\<rparr>"

text \<open>\<open>atoi\<close>: white space, a sign, digits. Beyond the range of \<open>int\<close> it is undefined; here it is exact.\<close>

definition is_space :: "char \<Rightarrow> bool" where
  "is_space c \<longleftrightarrow> c = CHR '' '' \<or> (9 \<le> (of_char c :: nat) \<and> (of_char c :: nat) \<le> 13)"

definition is_digit :: "char \<Rightarrow> bool" where
  "is_digit c \<longleftrightarrow> 48 \<le> (of_char c :: nat) \<and> (of_char c :: nat) \<le> 57"

definition digits_value :: "string \<Rightarrow> int" where
  "digits_value s = foldl (\<lambda>n c. 10 * n + (of_char c - 48)) 0 (takeWhile is_digit s)"

definition atoi :: "string \<Rightarrow> int" where
  "atoi s =
     (case dropWhile is_space s of
        [] \<Rightarrow> 0
      | c # cs \<Rightarrow> if c = CHR ''-'' then - digits_value cs
                  else if c = CHR ''+'' then digits_value cs else digits_value (c # cs))"

text \<open>One argument with those after it: an option that takes a value reads it from the next, which the loop then reads as an
  argument of its own.\<close>

definition parse_arg :: "(wstring \<Rightarrow> string) \<Rightarrow> wstring \<Rightarrow> wstring list \<Rightarrow> harness_args \<Rightarrow> harness_args" where
  "parse_arg narrow a rest h =
     (if a = wide ''--api'' \<and> rest \<noteq> []
      then (if hd rest = wide ''vulkan'' then h\<lparr>ha_vulkan := True\<rparr>
            else if hd rest = wide ''gl'' \<or> hd rest = wide ''opengl'' then h\<lparr>ha_gl := True\<rparr> else h)
      else if a = wide ''--api=vulkan'' then h\<lparr>ha_vulkan := True\<rparr>
      else if a = wide ''--api=gl'' \<or> a = wide ''--api=opengl'' then h\<lparr>ha_gl := True\<rparr>
      else if a = wide ''--driven'' then h\<lparr>ha_driven := True\<rparr>
      else if a = wide ''--content'' \<and> rest \<noteq> [] then h\<lparr>ha_content_path := narrow (hd rest)\<rparr>
      else if a = wide ''--core'' \<and> rest \<noteq> [] then h\<lparr>ha_custom_core_dir := narrow (hd rest)\<rparr>
      else if a = wide ''--netplay-host'' \<and> rest \<noteq> []
      then h\<lparr>ha_netplay_host := True, ha_netplay_port := of_int (atoi (narrow (hd rest)))\<rparr>
      else if a = wide ''--netplay-join'' \<and> rest \<noteq> []
      then (let h = h\<lparr>ha_netplay_join := True\<rparr>; spec = narrow (hd rest)
            in if CHR '':'' \<in> set spec
               then h\<lparr>ha_netplay_ip := takeWhile (\<lambda>c. c \<noteq> CHR '':'') spec,
                      ha_netplay_port := of_int (atoi (tl (dropWhile (\<lambda>c. c \<noteq> CHR '':'') spec)))\<rparr>
               else h)
      else if a = wide ''--rollback'' then h\<lparr>ha_rollback := True\<rparr>
      else h)"

fun parse_args :: "(wstring \<Rightarrow> string) \<Rightarrow> wstring list \<Rightarrow> harness_args \<Rightarrow> harness_args" where
  "parse_args narrow [] h = h"
| "parse_args narrow (a # rest) h = parse_args narrow rest (parse_arg narrow a rest h)"

text \<open>The core directories are macros of the build.\<close>

record harness_dirs =
  hd_core :: string
  hd_core_vk :: string
  hd_driven :: string
  hd_shim :: string

definition default_dirs :: harness_dirs where
  "default_dirs = \<lparr>hd_core = ''cores/refcore_present'', hd_core_vk = ''cores/refcore_present_vk'',
     hd_driven = ''cores/refcore_driven'', hd_shim = ''cores/libretro_shim''\<rparr>"

definition use_content :: "harness_args \<Rightarrow> bool" where
  "use_content h \<longleftrightarrow> ha_content_path h \<noteq> []"

definition harness_api :: "harness_args \<Rightarrow> rp_graphics_api" where
  "harness_api h = (if ha_gl h then RP_GFX_OPENGL else if ha_vulkan h then RP_GFX_VULKAN else RP_GFX_D3D11)"

definition want_driven :: "harness_args \<Rightarrow> bool" where
  "want_driven h \<longleftrightarrow> ha_driven h \<or> ha_gl h"

definition core_dir_of :: "harness_dirs \<Rightarrow> harness_args \<Rightarrow> string" where
  "core_dir_of dirs h =
     (if use_content h then hd_shim dirs
      else if want_driven h then hd_driven dirs
      else if ha_vulkan h then hd_core_vk dirs else hd_core dirs)"

definition core_id_of :: "harness_args \<Rightarrow> string" where
  "core_id_of h =
     (if use_content h then ''fceumm''
      else if want_driven h then ''refcore_driven''
      else if ha_vulkan h then ''refcore_present_vk'' else ''refcore_present'')"

section \<open>Input\<close>

text \<open>One round of the loop: the keys as the scan, the arrow fallback and the rewind test see them, the gamepad, the clock of the
  runtime, the performance counter when the pacer reads it, and the players Dolphin reports.\<close>

record frame_in =
  fi_scan :: "nat \<Rightarrow> bool"
  fi_arrows :: "nat \<Rightarrow> bool"
  fi_rewind :: bool
  fi_xinput :: "XINPUT_GAMEPAD option"
  fi_now :: u64
  fi_counter :: int
  fi_players :: u32

definition hold_arrow :: "bool \<Rightarrow> nat \<Rightarrow> nat \<Rightarrow> 16 word \<Rightarrow> rp_input_state \<Rightarrow> rp_input_state" where
  "hold_arrow down b axis v s =
     (if down then (pad_set b True s)\<lparr>pad_axes := (pad_axes s)[axis := v]\<rparr> else s)"

definition read_local_input ::
  "(vkey \<Rightarrow> nat) \<Rightarrow> (xbutton \<Rightarrow> u16) \<Rightarrow> frame_in \<Rightarrow> int \<times> bool \<Rightarrow> (int \<times> bool) \<times> rp_input_state" where
  "read_local_input vk xm fi st =
     (let s = neutral_input\<lparr>keys := map (\<lambda>k. if fi_scan fi k then 1 else 0) [0..<256]\<rparr>;
          (probe, connected) = st;
          probe = (if connected then probe else probe + 1);
          (connected, s) =
            (if connected \<or> probe mod 120 = 0
             then (case fi_xinput fi of Some gp \<Rightarrow> (True, xinput_to_pad xm gp s) | None \<Rightarrow> (False, s))
             else (connected, s));
          down = (\<lambda>k. fi_arrows fi (vk k));
          s = hold_arrow (down VK_UP) RP_PAD_DPAD_UP RP_AXIS_LEFT_Y (- 32767) s;
          s = hold_arrow (down VK_DOWN) RP_PAD_DPAD_DOWN RP_AXIS_LEFT_Y 32767 s;
          s = hold_arrow (down VK_LEFT) RP_PAD_DPAD_LEFT RP_AXIS_LEFT_X (- 32767) s;
          s = hold_arrow (down VK_RIGHT) RP_PAD_DPAD_RIGHT RP_AXIS_LEFT_X 32767 s
      in ((probe, connected), s))"

section \<open>State\<close>

datatype ('c, 'b, 't) net_mode =
    NoNet
  | Lockstep "(('c, 'b) Runtime, 't) NetSession"
  | Rollback "(('c, 'b) Runtime, 't) RollbackSession"

datatype dolphin_call = DnArm string | DnHost u16 | DnJoin string u16 | DnStart

record ('c, 'b, 't) harness =
  hz_rt :: "('c, 'b) Runtime"
  hz_save_buf :: bytes
  hz_has_saved :: bool
  hz_rewind_enabled :: bool
  hz_pad :: "int \<times> bool"
  hz_net :: "('c, 'b, 't) net_mode"
  hz_blit_mode :: bool
  hz_blit_buf :: bytes
  hz_blits :: "bytes list"
  hz_qpf :: int
  hz_deadline :: int
  hz_slept :: "int list"
  hz_dolphin_host :: bool
  hz_dolphin_calls :: "dolphin_call list"
  hz_quit_posted :: bool
  hz_running :: bool

section \<open>Keys\<close>

datatype hkey = Key_F5 | Key_F7 | Key_P | Key_F8 | Key_other

text \<open>A window message: \<open>WM_DESTROY\<close>, a key with its auto-repeat bit, anything else.\<close>

datatype wnd_msg = Wm_Destroy | Wm_KeyDown hkey bool | Wm_Other

definition harness_save :: "('c, 'b, 't) harness \<Rightarrow> ('c, 'b, 't) harness" where
  "harness_save hz =
     (case serialize_size (hz_rt hz) of (rt, sz) \<Rightarrow>
        if sz = 0 then hz\<lparr>hz_rt := rt\<rparr>
        else case save_state (Some (replicate sz 0)) rt of (rt, r, buf) \<Rightarrow>
               hz\<lparr>hz_rt := rt, hz_save_buf := the buf, hz_has_saved := (r = RP_OK)\<rparr>)"

definition harness_load :: "('c, 'b, 't) harness \<Rightarrow> ('c, 'b, 't) harness" where
  "harness_load hz =
     (if \<not> hz_has_saved hz then hz else hz\<lparr>hz_rt := fst (load_state (Some (hz_save_buf hz)) (hz_rt hz))\<rparr>)"

definition harness_toggle_pause :: "('c, 'b, 't) harness \<Rightarrow> ('c, 'b, 't) harness" where
  "harness_toggle_pause hz =
     (case get_status True (hz_rt hz) of
        Inl _ \<Rightarrow> hz\<lparr>hz_rt := fst (pause (hz_rt hz))\<rparr>
      | Inr st \<Rightarrow> hz\<lparr>hz_rt := fst (if st_paused st then resume (hz_rt hz) else pause (hz_rt hz))\<rparr>)"

fun WndProc :: "('c, 'b) rt_env \<Rightarrow> wnd_msg \<Rightarrow> ('c, 'b, 't) harness \<Rightarrow> ('c, 'b, 't) harness" where
  "WndProc env Wm_Destroy hz = hz\<lparr>hz_quit_posted := True\<rparr>"
| "WndProc env (Wm_KeyDown key repeated) hz =
     (if repeated then hz
      else case key of
        Key_F5 \<Rightarrow> harness_save hz
      | Key_F7 \<Rightarrow> harness_load hz
      | Key_P \<Rightarrow> harness_toggle_pause hz
      | Key_F8 \<Rightarrow> hz\<lparr>hz_rt := fst (reset env (hz_rt hz))\<rparr>
      | Key_other \<Rightarrow> hz)"
| "WndProc env Wm_Other hz = hz"

text \<open>The inner loop: the queue, then the quit message if one was posted.\<close>

fun pump :: "('c, 'b) rt_env \<Rightarrow> wnd_msg list \<Rightarrow> ('c, 'b, 't) harness \<Rightarrow> ('c, 'b, 't) harness" where
  "pump env [] hz = (if hz_quit_posted hz then hz\<lparr>hz_running := False\<rparr> else hz)"
| "pump env (m # ms) hz = pump env ms (WndProc env m hz)"

section \<open>Presenting\<close>

text \<open>The loop that turns RGBA into the byte order of a Windows bitmap in place.\<close>

fun swap_rb :: "bytes \<Rightarrow> bytes" where
  "swap_rb (r # g # b # a # px) = b # g # r # a # swap_rb px"
| "swap_rb [r, g, b] = [b, g, r]"
| "swap_rb px = px"

definition frame_ticks :: "int \<Rightarrow> int" where
  "frame_ticks qpf = \<lfloor>of_int qpf / (5994 / 100 :: rat)\<rfloor>"

text \<open>The pacer: the new deadline and the milliseconds slept.\<close>

definition pace :: "int \<Rightarrow> int \<Rightarrow> int \<Rightarrow> int \<times> int" where
  "pace qpf deadline now =
     (let deadline = deadline + frame_ticks qpf;
          wait_ms = of_int (deadline - now) * 1000 / (of_int qpf :: rat)
      in if 34 < wait_ms then (now, 0)
         else if 1 < wait_ms then (deadline, \<lfloor>wait_ms\<rfloor>) else (deadline, 0))"

definition present_frame :: "('c, 'b) rt_env \<Rightarrow> frame_in \<Rightarrow> ('c, 'b, 't) harness \<Rightarrow> ('c, 'b, 't) harness" where
  "present_frame env fi hz =
     (if \<not> hz_blit_mode hz then hz\<lparr>hz_rt := fst (present env (fi_now fi) False (hz_rt hz))\<rparr>
      else case present env (fi_now fi) True (hz_rt hz) of (rt, r, img) \<Rightarrow>
             let hz = hz\<lparr>hz_rt := rt, hz_blit_buf := (case img of None \<Rightarrow> hz_blit_buf hz | Some px \<Rightarrow> px)\<rparr>
             in if r \<noteq> RP_OK then hz
                else let px = swap_rb (hz_blit_buf hz)
                     in case pace (hz_qpf hz) (hz_deadline hz) (fi_counter fi) of (d, ms) \<Rightarrow>
                          hz\<lparr>hz_blit_buf := px, hz_blits := hz_blits hz @ [px], hz_deadline := d, hz_slept := hz_slept hz @ [ms]\<rparr>)"

section \<open>The message loop\<close>

definition dolphin_poll :: "frame_in \<Rightarrow> ('c, 'b, 't) harness \<Rightarrow> ('c, 'b, 't) harness" where
  "dolphin_poll fi hz =
     (if hz_dolphin_host hz \<and> 2 \<le> fi_players fi
      then hz\<lparr>hz_dolphin_calls := hz_dolphin_calls hz @ [DnStart], hz_dolphin_host := False\<rparr> else hz)"

definition harness_read :: "(vkey \<Rightarrow> nat) \<Rightarrow> (xbutton \<Rightarrow> u16) \<Rightarrow> frame_in \<Rightarrow> ('c, 'b, 't) harness \<Rightarrow>
    ('c, 'b, 't) harness \<times> rp_input_state" where
  "harness_read vk xm fi hz = (case read_local_input vk xm fi (hz_pad hz) of (st, inp) \<Rightarrow> (hz\<lparr>hz_pad := st\<rparr>, inp))"

definition single_frame ::
  "('c, 'b) rt_env \<Rightarrow> (vkey \<Rightarrow> nat) \<Rightarrow> (xbutton \<Rightarrow> u16) \<Rightarrow> frame_in \<Rightarrow> ('c, 'b, 't) harness \<Rightarrow> ('c, 'b, 't) harness" where
  "single_frame env vk xm fi hz =
     (case harness_read vk xm fi hz of (hz, inp) \<Rightarrow>
        let hz = hz\<lparr>hz_rt := set_input 0 inp (hz_rt hz)\<rparr>
        in if hz_rewind_enabled hz \<and> fi_rewind fi
           then (case rewind (hz_rt hz) of (rt, r) \<Rightarrow>
                   if r = RP_OK then present_frame env fi (hz\<lparr>hz_rt := rt\<rparr>) else hz\<lparr>hz_rt := rt\<rparr>)
           else present_frame env fi hz)"

definition lockstep_frame ::
  "('c, 'b) rt_env \<Rightarrow> 't transport \<Rightarrow> (vkey \<Rightarrow> nat) \<Rightarrow> (xbutton \<Rightarrow> u16) \<Rightarrow> frame_in \<Rightarrow>
   (('c, 'b) Runtime, 't) NetSession \<Rightarrow> ('c, 'b, 't) harness \<Rightarrow> ('c, 'b, 't) harness option" where
  "lockstep_frame env tr vk xm fi s hz =
     (case harness_read vk xm fi hz of (hz, inp) \<Rightarrow>
        case ns_tick (runtime_api env (fi_now fi)) tr inp (s\<lparr>ns_rt := hz_rt hz\<rparr>) of
          None \<Rightarrow> None
        | Some s \<Rightarrow>
            let hz = hz\<lparr>hz_rt := ns_rt s, hz_net := Lockstep s\<rparr>
            in Some (if ns_status s = NetDesync \<or> ns_status s = NetDisconnected then hz\<lparr>hz_running := False\<rparr> else hz))"

definition rollback_frame ::
  "('c, 'b) rt_env \<Rightarrow> 't transport \<Rightarrow> (vkey \<Rightarrow> nat) \<Rightarrow> (xbutton \<Rightarrow> u16) \<Rightarrow> frame_in \<Rightarrow>
   (('c, 'b) Runtime, 't) RollbackSession \<Rightarrow> ('c, 'b, 't) harness \<Rightarrow> ('c, 'b, 't) harness option" where
  "rollback_frame env tr vk xm fi s hz =
     (case harness_read vk xm fi hz of (hz, inp) \<Rightarrow>
        case rb_tick (runtime_api env (fi_now fi)) tr inp True (s\<lparr>rb_rt := hz_rt hz\<rparr>) of
          None \<Rightarrow> None
        | Some s \<Rightarrow>
            let hz = hz\<lparr>hz_rt := rb_rt s, hz_net := Rollback s\<rparr>
            in Some (if rb_status s = RbDesync \<or> rb_status s = RbDisconnected then hz\<lparr>hz_running := False\<rparr> else hz))"

text \<open>One round: the messages, Dolphin's start, the frame. The frame is run also after the quit message.\<close>

definition loop_round ::
  "('c, 'b) rt_env \<Rightarrow> 't transport \<Rightarrow> (vkey \<Rightarrow> nat) \<Rightarrow> (xbutton \<Rightarrow> u16) \<Rightarrow> wnd_msg list \<Rightarrow> frame_in \<Rightarrow>
   ('c, 'b, 't) harness \<Rightarrow> ('c, 'b, 't) harness option" where
  "loop_round env tr vk xm msgs fi hz =
     (let hz = dolphin_poll fi (pump env msgs hz)
      in case hz_net hz of
           NoNet \<Rightarrow> Some (single_frame env vk xm fi hz)
         | Lockstep s \<Rightarrow> lockstep_frame env tr vk xm fi s hz
         | Rollback s \<Rightarrow> rollback_frame env tr vk xm fi s hz)"

fun main_loop ::
  "('c, 'b) rt_env \<Rightarrow> 't transport \<Rightarrow> (vkey \<Rightarrow> nat) \<Rightarrow> (xbutton \<Rightarrow> u16) \<Rightarrow> (wnd_msg list \<times> frame_in) list \<Rightarrow>
   ('c, 'b, 't) harness \<Rightarrow> ('c, 'b, 't) harness option" where
  "main_loop env tr vk xm [] hz = Some hz"
| "main_loop env tr vk xm ((msgs, fi) # rounds) hz =
     (if \<not> hz_running hz then Some hz
      else case loop_round env tr vk xm msgs fi hz of None \<Rightarrow> None | Some hz \<Rightarrow> main_loop env tr vk xm rounds hz)"

definition harness_exit :: "('c, 'b, 't) harness \<Rightarrow> ('c, 'b) Runtime option" where
  "harness_exit hz = rp_runtime_destroy (Some (unload_core (hz_rt hz)))"

section \<open>Start\<close>

text \<open>Dolphin's netplay exports: whether all five resolve, and whether hosting succeeds.\<close>

record dolphin =
  dn_resolved :: bool
  dn_host_ok :: "u16 \<Rightarrow> bool"

definition dolphin_wiring :: "dolphin \<Rightarrow> harness_args \<Rightarrow> dolphin_call list \<times> bool" where
  "dolphin_wiring dn h =
     (if (ha_netplay_host h \<or> ha_netplay_join h) \<and> use_content h \<and> dn_resolved dn
      then if ha_netplay_host h
           then ([DnArm (ha_content_path h), DnHost (ha_netplay_port h)], dn_host_ok dn (ha_netplay_port h))
           else ([DnArm (ha_content_path h), DnJoin (ha_netplay_ip h) (ha_netplay_port h)], False)
      else ([], False))"

definition boot_runtime ::
  "('c, 'b) rt_env \<Rightarrow> harness_dirs \<Rightarrow> harness_args \<Rightarrow> nat option \<Rightarrow> ('c, 'b) Runtime" where
  "boot_runtime env dirs h hwnd =
     (let custom = ha_custom_core_dir h \<noteq> [];
          rt = Runtime_new env (harness_api h) (if custom then None else hwnd)
      in if custom
         then let rt = fst (load_core env (ha_custom_core_dir h) (fst (resize env 640 480 rt)))
              in if use_content h then fst (load_content env (Some (ha_content_path h)) rt) else rt
         else if use_content h
         then fst (load_content env (Some (ha_content_path h)) (fst (load_core env (core_dir_of dirs h) (fst (resize env 256 240 rt)))))
         else fst (load_core env (core_dir_of dirs h) (fst (resize env 640 480 rt))))"

text \<open>The runtime with its rewind ring switched on, before netplay.\<close>

definition boot ::
  "('c, 'b) rt_env \<Rightarrow> harness_dirs \<Rightarrow> dolphin \<Rightarrow> int \<Rightarrow> int \<Rightarrow> harness_args \<Rightarrow> nat option \<Rightarrow> ('c, 'b, 't) harness" where
  "boot env dirs dn qpf counter h hwnd =
     (let custom = ha_custom_core_dir h \<noteq> [];
          (calls, hosting) = (if custom then dolphin_wiring dn h else ([], False));
          rt = boot_runtime env dirs h hwnd;
          (rt, r) = (if use_content h \<or> want_driven h then set_rewind True 600 rt else (rt, RP_ERR_UNSUPPORTED))
      in \<lparr>hz_rt = rt, hz_save_buf = [], hz_has_saved = False, hz_rewind_enabled = (r = RP_OK), hz_pad = (0, True),
          hz_net = NoNet, hz_blit_mode = custom, hz_blit_buf = (if custom then replicate (640 * 480 * 4) 0 else []), hz_blits = [],
          hz_qpf = qpf, hz_deadline = counter, hz_slept = [], hz_dolphin_host = hosting, hz_dolphin_calls = calls,
          hz_quit_posted = False, hz_running = True\<rparr>)"

text \<open>The checksum of the content the peers compare; zero without content, without netplay or when the file cannot be read.\<close>

definition content_hash_of :: "('c, 'b) rt_env \<Rightarrow> harness_args \<Rightarrow> u64" where
  "content_hash_of env h =
     (if use_content h \<and> (ha_netplay_host h \<or> ha_netplay_join h)
      then case rv_read_file env (ha_content_path h) of None \<Rightarrow> 0 | Some rom \<Rightarrow> ucast (crc32 (map of_char rom)) else 0)"

text \<open>Netplay: \<open>None\<close> is the early return with exit code 1. \<open>conn\<close> is what \<open>TcpTransport::host\<close> or \<open>join\<close> gave.\<close>

definition start_lockstep ::
  "('c, 'b) rt_env \<Rightarrow> 't transport \<Rightarrow> u64 \<Rightarrow> harness_args \<Rightarrow> bool \<Rightarrow> 't \<Rightarrow> ('c, 'b, 't) harness \<Rightarrow> ('c, 'b, 't) harness option" where
  "start_lockstep env tr now h hosting t hz =
     (let api = runtime_api env now; s = NetSession_new (hz_rt hz) t;
          hash = content_hash_of env h; ident = Some (core_id_of h)
      in case (if hosting then ns_start_host api tr 2 hash ident s else ns_start_join api tr hash ident s) of (s, r) \<Rightarrow>
           if r \<noteq> RP_OK then None else Some (hz\<lparr>hz_rt := ns_rt s, hz_net := Lockstep s\<rparr>))"

definition start_rollback ::
  "('c, 'b) rt_env \<Rightarrow> 't transport \<Rightarrow> u64 \<Rightarrow> harness_args \<Rightarrow> bool \<Rightarrow> 't \<Rightarrow> ('c, 'b, 't) harness \<Rightarrow> ('c, 'b, 't) harness option" where
  "start_rollback env tr now h hosting t hz =
     (let api = runtime_api env now; s = RollbackSession_new (hz_rt hz) t;
          hash = content_hash_of env h; ident = Some (core_id_of h)
      in case (if hosting then rb_start_host api tr 8 hash ident s else rb_start_join api tr hash ident s) of (s, r) \<Rightarrow>
           if r \<noteq> RP_OK then None else Some (hz\<lparr>hz_rt := rb_rt s, hz_net := Rollback s\<rparr>))"

definition start_netplay ::
  "('c, 'b) rt_env \<Rightarrow> 't transport \<Rightarrow> u64 \<Rightarrow> (bool \<Rightarrow> rp_result + 't) \<Rightarrow> harness_args \<Rightarrow> ('c, 'b, 't) harness \<Rightarrow>
   ('c, 'b, 't) harness option" where
  "start_netplay env tr now conn h hz =
     (if ha_custom_core_dir h = [] \<and> (ha_netplay_host h \<or> ha_netplay_join h)
      then case conn (ha_netplay_host h) of
             Inl _ \<Rightarrow> None
           | Inr t \<Rightarrow> (if ha_rollback h then start_rollback else start_lockstep) env tr now h (ha_netplay_host h) t hz
      else Some hz)"

section \<open>Pace\<close>

text \<open>Frames \<open>0 \<dots> n\<close> of a loop whose pacer was started at \<open>t0\<close>: deadline \<open>d\<close>, time \<open>t\<close> after the last sleep. The counter does not run
  backwards and a sleep lasts at least as long as asked.\<close>

inductive paced :: "int \<Rightarrow> int \<Rightarrow> nat \<Rightarrow> int \<Rightarrow> int \<Rightarrow> bool" for qpf t0 where
  start: "paced qpf t0 0 t0 t0"
| frame: "paced qpf t0 n d t \<Longrightarrow> t \<le> now \<Longrightarrow> pace qpf d now = (d', ms) \<Longrightarrow> 1000 * now + ms * qpf \<le> 1000 * t' \<Longrightarrow>
    paced qpf t0 (Suc n) d' t'"

lemma frame_ticks_bound: "5994 * frame_ticks qpf \<le> 100 * qpf"
proof -
  have "(of_int (frame_ticks qpf) :: rat) \<le> of_int qpf / (5994 / 100)"
    unfolding frame_ticks_def by (rule of_int_floor_le)
  then have "(of_int (5994 * frame_ticks qpf) :: rat) \<le> of_int (100 * qpf)"
    by (simp add: field_simps)
  then show ?thesis
    by (simp only: of_int_le_iff)
qed

lemma frame_ticks_above: "100 * qpf - 5994 < 5994 * frame_ticks qpf"
proof -
  have "of_int qpf / (5994 / 100) < (of_int (frame_ticks qpf) :: rat) + 1"
    unfolding frame_ticks_def by linarith
  then have "(of_int (100 * qpf - 5994) :: rat) < of_int (5994 * frame_ticks qpf)"
    by (simp add: field_simps)
  then show ?thesis
    by (simp only: of_int_less_iff)
qed

lemma less_wait: "0 < qpf \<Longrightarrow> (of_int k < of_int x * 1000 / (of_int qpf :: rat)) = (k * qpf < 1000 * x)"
proof -
  assume "0 < qpf"
  then have "(of_int k < of_int x * 1000 / (of_int qpf :: rat)) = ((of_int (k * qpf) :: rat) < of_int (1000 * x))"
    by (simp add: field_simps)
  then show ?thesis by (simp only: of_int_less_iff)
qed

text \<open>The pacer in whole numbers.\<close>

lemma pace_cases:
  fixes qpf d now
  assumes "0 < qpf"
  defines "x \<equiv> d + frame_ticks qpf - now"
  shows "34 * qpf < 1000 * x \<Longrightarrow> pace qpf d now = (now, 0)"
    and "1000 * x \<le> 34 * qpf \<Longrightarrow> qpf < 1000 * x \<Longrightarrow>
      \<exists>ms. pace qpf d now = (d + frame_ticks qpf, ms) \<and> 1000 * x < (ms + 1) * qpf"
    and "1000 * x \<le> qpf \<Longrightarrow> pace qpf d now = (d + frame_ticks qpf, 0)"
proof -
  note w = less_wait [OF assms(1), of 34 x] less_wait [OF assms(1), of 1 x]
  show "pace qpf d now = (now, 0)" if "34 * qpf < 1000 * x"
    using that w by (simp add: pace_def x_def Let_def)
  show "pace qpf d now = (d + frame_ticks qpf, 0)" if "1000 * x \<le> qpf"
    using that w assms(1) by (simp add: pace_def x_def Let_def)
  assume a: "1000 * x \<le> 34 * qpf" "qpf < 1000 * x"
  let ?w = "of_int x * 1000 / (of_int qpf :: rat)"
  have "\<not> 34 < ?w" "1 < ?w"
    using a w by simp_all
  then have "pace qpf d now = (d + frame_ticks qpf, \<lfloor>?w\<rfloor>)"
    by (simp add: pace_def x_def Let_def)
  moreover have "1000 * x < (\<lfloor>?w\<rfloor> + 1) * qpf"
  proof -
    have "?w < of_int (\<lfloor>?w\<rfloor> + 1)"
      by linarith
    then have "(of_int (1000 * x) :: rat) < of_int ((\<lfloor>?w\<rfloor> + 1) * qpf)"
      using assms(1) by (simp add: pos_divide_less_eq mult.commute)
    then show ?thesis by (simp only: of_int_less_iff)
  qed
  ultimately show "\<exists>ms. pace qpf d now = (d + frame_ticks qpf, ms) \<and> 1000 * x < (ms + 1) * qpf"
    by blast
qed

text \<open>The branch that moves the deadline is never taken: the deadlines stay on the grid the pacer was started on.\<close>

lemma paced_grid:
  assumes "0 < qpf" "paced qpf t0 n d t"
  shows "d = t0 + int n * frame_ticks qpf \<and> 1000 * (d - t) \<le> qpf"
  using assms(2)
proof induction
  case start
  with assms(1) show ?case by simp
next
  case (frame n d t now d' ms t')
  let ?x = "d + frame_ticks qpf - now"
  have "1000 * ?x \<le> 34 * qpf"
    using conjunct2 [OF frame.IH] frame.hyps(2) frame_ticks_bound [of qpf] assms(1) by (simp add: algebra_simps)
  show ?case
  proof (cases "qpf < 1000 * ?x")
    case True
    with pace_cases(2) [OF assms(1) \<open>1000 * ?x \<le> 34 * qpf\<close>] frame.hyps(3)
    have "d' = d + frame_ticks qpf" "1000 * ?x < (ms + 1) * qpf"
      by auto
    with frame.hyps(4) frame.IH show ?thesis
      by (simp add: algebra_simps)
  next
    case False
    then have "d' = d + frame_ticks qpf" "ms = 0"
      using pace_cases(3) [OF assms(1), of d now] frame.hyps(3) by auto
    with False frame.hyps(4) frame.IH show ?thesis
      by (simp add: algebra_simps)
  qed
qed

text \<open>C37. The pacer bounds the average rate from above. Over any run of \<open>n\<close> frames the time from its start to the end of the last
  sleep is at least \<open>n\<close> frame times less a millisecond, where the frame time in ticks of the counter is \<open>qpf / 59.94\<close> rounded down.
  It holds for counters that do not run backwards and sleeps that last at least as long as asked. It is no bound on a single frame: after
  a delay frames follow each other unpaced, and with a coarse counter the rounding makes the frame time up to one tick shorter.\<close>

theorem frames_on_time:
  assumes "0 < qpf" "paced qpf t0 n d t"
  shows "int n * (1000 * frame_ticks qpf) - qpf \<le> 1000 * (t - t0) \<and>
    100 * qpf - 5994 < 5994 * frame_ticks qpf \<and> 5994 * frame_ticks qpf \<le> 100 * qpf"
  using paced_grid [OF assms] frame_ticks_bound frame_ticks_above by (simp add: algebra_simps)

theorem frames_on_time_witness:
  "\<exists>d t. paced 1000000 0 2 d t \<and> 2 * (1000 * 16683) - 1000000 \<le> 1000 * t"
proof -
  have ticks: "frame_ticks 1000000 = 16683"
    by (simp add: frame_ticks_def floor_eq_iff)
  have first: "pace 1000000 0 100 = (16683, 16)" and second: "pace 1000000 16683 17000 = (33366, 16)"
    by (simp_all add: pace_def ticks Let_def floor_eq_iff)
  have "paced 1000000 0 (Suc 0) 16683 16200"
    by (rule paced.frame [OF paced.start _ first]) simp_all
  then have two: "paced 1000000 0 2 33366 33100"
    unfolding numeral_2_eq_2 by (rule paced.frame [OF _ _ second]) simp_all
  from frames_on_time [OF _ this] ticks have "2 * (1000 * 16683) - 1000000 \<le> 1000 * (33100 :: int)"
    by simp
  with two show ?thesis by blast
qed

text \<open>The branch for a loop that fell behind tests the wrong sign: it is for deadlines in the future. A loop that has fallen behind,
  by however much, keeps its old grid and does not sleep until it has caught up.\<close>

lemma behind_is_not_resynced:
  assumes "0 < qpf" "d + frame_ticks qpf \<le> now"
  shows "pace qpf d now = (d + frame_ticks qpf, 0)"
  using pace_cases(3) [OF assms(1), of d now] assms by simp

section \<open>Pixels\<close>

lemma swap_rb_length [simp]: "length (swap_rb px) = length px"
  by (induction px rule: swap_rb.induct) simp_all

lemma swap_rb_involution: "swap_rb (swap_rb px) = px"
  by (induction px rule: swap_rb.induct) simp_all

lemma swap_rb_pixel:
  "4 * i + 3 < length px \<Longrightarrow>
   swap_rb px ! (4 * i) = px ! (4 * i + 2) \<and> swap_rb px ! (4 * i + 1) = px ! (4 * i + 1) \<and>
   swap_rb px ! (4 * i + 2) = px ! (4 * i) \<and> swap_rb px ! (4 * i + 3) = px ! (4 * i + 3)"
proof (induction px arbitrary: i rule: swap_rb.induct)
  case (1 r g b a px)
  show ?case
  proof (cases i)
    case (Suc j)
    with 1 show ?thesis by (simp add: numeral_eq_Suc)
  qed simp
qed simp_all

section \<open>What the input says\<close>

definition gamepad_read :: "frame_in \<Rightarrow> int \<times> bool \<Rightarrow> XINPUT_GAMEPAD option" where
  "gamepad_read fi st = (if snd st \<or> (fst st + 1) mod 120 = 0 then fi_xinput fi else None)"

lemma hold_arrow_fields [simp]:
  "keys (hold_arrow d b a v s) = keys s"
  "pad_axes (hold_arrow d b a v s) = (if d then (pad_axes s)[a := v] else pad_axes s)"
  by (simp_all add: hold_arrow_def pad_set_def)

lemma hold_arrow_bit:
  "k < 16 \<Longrightarrow> pad_bit (hold_arrow d b a v s) k \<longleftrightarrow> pad_bit s k \<or> d \<and> k = b"
  by (auto simp: pad_bit_iff hold_arrow_def pad_set_def bit_or_iff bit_ucast_iff bit_exp_iff)

text \<open>The input before the arrow keys are merged.\<close>

definition scanned_input :: "(xbutton \<Rightarrow> u16) \<Rightarrow> frame_in \<Rightarrow> XINPUT_GAMEPAD option \<Rightarrow> rp_input_state" where
  "scanned_input xm fi gp =
     (let s = neutral_input\<lparr>keys := map (\<lambda>k. if fi_scan fi k then 1 else 0) [0..<256]\<rparr>
      in case gp of None \<Rightarrow> s | Some gp \<Rightarrow> xinput_to_pad xm gp s)"

lemma read_local_input_alt:
  "snd (read_local_input vk xm fi st) =
     hold_arrow (fi_arrows fi (vk VK_RIGHT)) RP_PAD_DPAD_RIGHT RP_AXIS_LEFT_X 32767
       (hold_arrow (fi_arrows fi (vk VK_LEFT)) RP_PAD_DPAD_LEFT RP_AXIS_LEFT_X (- 32767)
         (hold_arrow (fi_arrows fi (vk VK_DOWN)) RP_PAD_DPAD_DOWN RP_AXIS_LEFT_Y 32767
           (hold_arrow (fi_arrows fi (vk VK_UP)) RP_PAD_DPAD_UP RP_AXIS_LEFT_Y (- 32767)
             (scanned_input xm fi (gamepad_read fi st)))))"
  by (cases st) (auto simp: read_local_input_def scanned_input_def gamepad_read_def Let_def split: option.split prod.splits)

lemma scanned_input_fields:
  "keys (scanned_input xm fi gp) = map (\<lambda>k. if fi_scan fi k then 1 else 0) [0..<256]"
  "length (pad_axes (scanned_input xm fi gp)) = 8"
  by (auto simp: scanned_input_def xinput_to_pad_def Let_def fold_pad_set_keeps neutral_input_def split: option.split)

text \<open>The fields of the input, with the arrow keys merged last.\<close>

lemma local_input_fields:
  fixes vk xm fi st
  defines "inp \<equiv> snd (read_local_input vk xm fi st)" and "base \<equiv> scanned_input xm fi (gamepad_read fi st)"
    and "down \<equiv> \<lambda>k. fi_arrows fi (vk k)"
  shows "wf_input inp \<and> keys inp = map (\<lambda>k. if fi_scan fi k then 1 else 0) [0..<256] \<and>
    map (pad_bit inp) [RP_PAD_DPAD_UP, RP_PAD_DPAD_DOWN, RP_PAD_DPAD_LEFT, RP_PAD_DPAD_RIGHT] =
      [pad_bit base RP_PAD_DPAD_UP \<or> down VK_UP, pad_bit base RP_PAD_DPAD_DOWN \<or> down VK_DOWN,
       pad_bit base RP_PAD_DPAD_LEFT \<or> down VK_LEFT, pad_bit base RP_PAD_DPAD_RIGHT \<or> down VK_RIGHT] \<and>
    pad_axes inp = (pad_axes base)
      [RP_AXIS_LEFT_X := (if down VK_RIGHT then 32767 else if down VK_LEFT then - 32767 else pad_axes base ! RP_AXIS_LEFT_X),
       RP_AXIS_LEFT_Y := (if down VK_DOWN then 32767 else if down VK_UP then - 32767 else pad_axes base ! RP_AXIS_LEFT_Y)]"
proof -
  have len: "length (pad_axes base) = 8"
    unfolding base_def by (rule scanned_input_fields)
  have bits: "pad_bit inp k \<longleftrightarrow> pad_bit base k \<or> down VK_UP \<and> k = RP_PAD_DPAD_UP \<or> down VK_DOWN \<and> k = RP_PAD_DPAD_DOWN \<or>
      down VK_LEFT \<and> k = RP_PAD_DPAD_LEFT \<or> down VK_RIGHT \<and> k = RP_PAD_DPAD_RIGHT" if "k < 16" for k
    unfolding inp_def base_def down_def read_local_input_alt using that by (simp add: hold_arrow_bit)
  have axes: "pad_axes inp = (pad_axes base)
      [RP_AXIS_LEFT_X := (if down VK_RIGHT then 32767 else if down VK_LEFT then - 32767 else pad_axes base ! RP_AXIS_LEFT_X),
       RP_AXIS_LEFT_Y := (if down VK_DOWN then 32767 else if down VK_UP then - 32767 else pad_axes base ! RP_AXIS_LEFT_Y)]"
    using len unfolding inp_def base_def down_def read_local_input_alt
    by (auto simp: RP_AXIS_LEFT_X_def RP_AXIS_LEFT_Y_def list_update_swap)
  have keys: "keys inp = map (\<lambda>k. if fi_scan fi k then 1 else 0) [0..<256]"
    unfolding inp_def read_local_input_alt by (simp add: scanned_input_fields)
  have "wf_input inp"
    unfolding wf_input_def keys axes using len by simp
  with keys axes bits show ?thesis
    by (simp add: RP_PAD_DPAD_UP_def RP_PAD_DPAD_DOWN_def RP_PAD_DPAD_LEFT_def RP_PAD_DPAD_RIGHT_def)
qed

lemma scanned_input_bit:
  assumes "(b, x) \<in> set xinput_table"
  shows "pad_bit (scanned_input xm fi gp) b \<longleftrightarrow> (\<exists>g. gp = Some g \<and> xb_down xm g x)"
proof -
  have "distinct (map fst xinput_table)" "list_all (\<lambda>(b, x). b < 16) xinput_table"
    by (simp_all add: xinput_table_def pad_defs)
  then have b: "b < 16" "\<And>y. (b, y) \<in> set xinput_table \<Longrightarrow> y = x"
    using assms eq_key_imp_eq_value [of xinput_table b] by (auto simp: list_all_iff)
  have none: "\<not> pad_bit (neutral_input\<lparr>keys := ks\<rparr>) b" for ks
    by (simp add: neutral_input_def pad_bit_def)
  show ?thesis
  proof (cases gp)
    case None
    with none show ?thesis by (simp add: scanned_input_def)
  next
    case (Some g)
    have "pad_bit (scanned_input xm fi gp) b \<longleftrightarrow> (\<exists>y. (b, y) \<in> set xinput_table \<and> xb_down xm g y)"
      using none by (simp add: Some scanned_input_def pad_bit_xinput [OF b(1)])
    with Some assms b(2) show ?thesis by blast
  qed
qed

text \<open>C38. From the player's hands to the core: with the input the harness reads, a libretro core polling the joypad through the shim
  sees each direction pressed exactly when its arrow key was down at the scan of the keyboard or at the arrow fallback, or the
  gamepad's direction is down; and A, B, Start and Select exactly when their key was down at the scan or their gamepad button is.
  The gamepad counts when it was connected, and otherwise in every 120th round only, when it is looked for. The input is
  well formed. Virtual key codes are below 256.\<close>

theorem local_input_reaches_core:
  assumes "\<forall>k. vk k < 256"
  shows "wf_input (snd (read_local_input vk xm fi st)) \<and>
    (\<forall>(ident, k, x) \<in> set (take 4 (shim_buttons vk)).
       shim_map_input vk (snd (read_local_input vk xm fi st)) RETRO_DEVICE_JOYPAD index ident =
         flag16 (fi_scan fi k \<or> fi_arrows fi k \<or> (\<exists>gp. gamepad_read fi st = Some gp \<and> xb_down xm gp x))) \<and>
    (\<forall>(ident, k, x) \<in> set (drop 4 (shim_buttons vk)).
       shim_map_input vk (snd (read_local_input vk xm fi st)) RETRO_DEVICE_JOYPAD index ident =
         flag16 (fi_scan fi k \<or> (\<exists>gp. gamepad_read fi st = Some gp \<and> xb_down xm gp x)))"
proof -
  let ?i = "snd (read_local_input vk xm fi st)" and ?base = "scanned_input xm fi (gamepad_read fi st)"
  note fields = local_input_fields [where vk = vk and xm = xm and fi = fi and st = st]
  have key: "key_down ?i k = fi_scan fi k" if "k < 256" for k
    using fields that by (simp add: key_down_def)
  have key': "key_down ?i (vk k) = fi_scan fi (vk k)" for k
    using assms key by blast
  have arrow: "pad_bit ?i RP_PAD_DPAD_UP = (pad_bit ?base RP_PAD_DPAD_UP \<or> fi_arrows fi (vk VK_UP))"
    "pad_bit ?i RP_PAD_DPAD_DOWN = (pad_bit ?base RP_PAD_DPAD_DOWN \<or> fi_arrows fi (vk VK_DOWN))"
    "pad_bit ?i RP_PAD_DPAD_LEFT = (pad_bit ?base RP_PAD_DPAD_LEFT \<or> fi_arrows fi (vk VK_LEFT))"
    "pad_bit ?i RP_PAD_DPAD_RIGHT = (pad_bit ?base RP_PAD_DPAD_RIGHT \<or> fi_arrows fi (vk VK_RIGHT))"
    using fields by simp_all
  have other: "pad_bit ?i b = pad_bit ?base b" if "b \<in> {RP_PAD_A, RP_PAD_B, RP_PAD_START, RP_PAD_SELECT}" for b
    unfolding read_local_input_alt using that by (auto simp: hold_arrow_bit pad_defs)
  have table: "(RP_PAD_DPAD_UP, XB_DPAD_UP) \<in> set xinput_table" "(RP_PAD_DPAD_DOWN, XB_DPAD_DOWN) \<in> set xinput_table"
    "(RP_PAD_DPAD_LEFT, XB_DPAD_LEFT) \<in> set xinput_table" "(RP_PAD_DPAD_RIGHT, XB_DPAD_RIGHT) \<in> set xinput_table"
    "(RP_PAD_A, XB_A) \<in> set xinput_table" "(RP_PAD_B, XB_B) \<in> set xinput_table"
    "(RP_PAD_START, XB_START) \<in> set xinput_table" "(RP_PAD_SELECT, XB_BACK) \<in> set xinput_table"
    by (simp_all add: xinput_table_def)
  have wf: "wf_input ?i"
    using fields by simp
  show ?thesis
    using wf
    by (simp add: shim_buttons_def shim_map_input_def retro_ids key key' arrow other table [THEN scanned_input_bit] disj_ac)
qed

definition arrow_keys :: "vkey \<Rightarrow> nat" where
  "arrow_keys k = (case k of VK_UP \<Rightarrow> 38 | VK_DOWN \<Rightarrow> 40 | VK_LEFT \<Rightarrow> 37 | VK_RIGHT \<Rightarrow> 39 | VK_RETURN \<Rightarrow> 13 | VK_SHIFT \<Rightarrow> 16)"

definition left_tapped :: frame_in where
  "left_tapped = \<lparr>fi_scan = \<lambda>k. False, fi_arrows = \<lambda>k. k = 37, fi_rewind = False, fi_xinput = None, fi_now = 0, fi_counter = 0, fi_players = 0\<rparr>"

theorem local_input_reaches_core_witness:
  "(\<forall>k. arrow_keys k < 256) \<and>
   shim_map_input arrow_keys (snd (read_local_input arrow_keys (\<lambda>b. 0) left_tapped (0, True))) RETRO_DEVICE_JOYPAD 0 RETRO_DEVICE_ID_JOYPAD_LEFT = 1 \<and>
   shim_map_input arrow_keys (snd (read_local_input arrow_keys (\<lambda>b. 0) left_tapped (0, True))) RETRO_DEVICE_JOYPAD 0 RETRO_DEVICE_ID_JOYPAD_RIGHT = 0"
proof -
  have codes: "\<forall>k. arrow_keys k < 256"
    by (simp add: arrow_keys_def split: vkey.split)
  from local_input_reaches_core [OF this, of "\<lambda>b. 0" left_tapped "(0, True)" 0] codes show ?thesis
    by (simp add: shim_buttons_def) (simp add: left_tapped_def gamepad_read_def arrow_keys_def)
qed

text \<open>The fallback points the stick the wrong way: the core ABI counts up as positive, as the gamepad does, and the shim negates for
  libretro, where up is negative. The up key reaches a libretro core as a stick held down.\<close>

lemma arrow_up_points_down:
  assumes "fi_arrows fi (vk VK_UP)" "\<not> fi_arrows fi (vk VK_DOWN)"
  shows "pad_axes (snd (read_local_input vk xm fi st)) ! RP_AXIS_LEFT_Y = - 32767"
    "shim_map_input vk' (snd (read_local_input vk xm fi st)) RETRO_DEVICE_ANALOG RETRO_DEVICE_INDEX_ANALOG_LEFT RETRO_DEVICE_ID_ANALOG_Y = 32767"
proof -
  show axis: "pad_axes (snd (read_local_input vk xm fi st)) ! RP_AXIS_LEFT_Y = - 32767"
    using assms scanned_input_fields(2) [of xm fi "gamepad_read fi st"]
    by (auto simp: read_local_input_alt RP_AXIS_LEFT_X_def RP_AXIS_LEFT_Y_def nth_list_update)
  show "shim_map_input vk' (snd (read_local_input vk xm fi st)) RETRO_DEVICE_ANALOG RETRO_DEVICE_INDEX_ANALOG_LEFT RETRO_DEVICE_ID_ANALOG_Y = 32767"
    by (simp add: shim_map_input_def axis Let_def) (simp add: RETRO_DEVICE_ID_ANALOG_Y_def RETRO_DEVICE_ID_ANALOG_X_def)
qed

section \<open>The harness as a tape\<close>

text \<open>What the player of a driven core has, whatever the runtime does underneath: the core's present state, the states before the last
  frames, newest last, and a saved state. \<open>tp_replay\<close>: the present state is one that was gone back to and the frame after it is
  not recorded again.\<close>

record 's tape =
  tp_past :: "'s list"
  tp_now :: 's
  tp_replay :: bool
  tp_saved :: "'s option"
  tp_paused :: bool
  tp_pad :: "int \<times> bool"

type_synonym 's core_step = "'s \<Rightarrow> rp_input_state \<Rightarrow> rp_input_state \<Rightarrow> 's"

definition tape_forward :: "'s core_step \<Rightarrow> nat \<Rightarrow> rp_input_state \<Rightarrow> rp_input_state \<Rightarrow> 's tape \<Rightarrow> 's tape" where
  "tape_forward step m i j t =
     (if tp_paused t then t
      else t\<lparr>tp_past := (if tp_replay t then tp_past t
                          else drop (Suc (length (tp_past t)) - m) (tp_past t @ [tp_now t])),
             tp_replay := False, tp_now := step (tp_now t) i j\<rparr>)"

definition tape_frame ::
  "'s core_step \<Rightarrow> nat \<Rightarrow> rp_input_state \<Rightarrow> (vkey \<Rightarrow> nat) \<Rightarrow> (xbutton \<Rightarrow> u16) \<Rightarrow> frame_in \<Rightarrow> 's tape \<Rightarrow> 's tape" where
  "tape_frame step m j vk xm fi t =
     (case read_local_input vk xm fi (tp_pad t) of (st, i) \<Rightarrow>
        let t = t\<lparr>tp_pad := st\<rparr>
        in if \<not> fi_rewind fi then tape_forward step m i j t
           else if length (tp_past t) < 2 then t
           else tape_forward step m i j
                  (t\<lparr>tp_past := butlast (tp_past t), tp_now := last (butlast (tp_past t)), tp_replay := True\<rparr>))"

fun tape_msg :: "wnd_msg \<Rightarrow> 's tape \<Rightarrow> 's tape" where
  "tape_msg (Wm_KeyDown Key_F5 False) t = t\<lparr>tp_saved := Some (tp_now t)\<rparr>"
| "tape_msg (Wm_KeyDown Key_F7 False) t = (case tp_saved t of None \<Rightarrow> t | Some s \<Rightarrow> t\<lparr>tp_now := s\<rparr>)"
| "tape_msg (Wm_KeyDown Key_P False) t = t\<lparr>tp_paused := \<not> tp_paused t\<rparr>"
| "tape_msg m t = t"

definition tape_round ::
  "'s core_step \<Rightarrow> nat \<Rightarrow> rp_input_state \<Rightarrow> (vkey \<Rightarrow> nat) \<Rightarrow> (xbutton \<Rightarrow> u16) \<Rightarrow> wnd_msg list \<times> frame_in \<Rightarrow> 's tape \<Rightarrow> 's tape" where
  "tape_round step m j vk xm rd t = tape_frame step m j vk xm (snd rd) (fold tape_msg (fst rd) t)"

text \<open>Messages other than closing the window and resetting the core.\<close>

definition playing_msg :: "wnd_msg \<Rightarrow> bool" where
  "playing_msg w \<longleftrightarrow> w \<noteq> Wm_Destroy \<and> w \<noteq> Wm_KeyDown Key_F8 False"

definition harness_tape ::
  "'c rp_core_abi \<Rightarrow> ('c \<Rightarrow> 's) \<Rightarrow> ('s \<Rightarrow> bytes) \<Rightarrow> u32 \<Rightarrow> rp_input_state \<Rightarrow> ('c, 'b, 't) harness \<Rightarrow> 's tape \<Rightarrow> bool" where
  "harness_tape abi view enc m j hz t \<longleftrightarrow>
     rt_driving abi (hz_rt hz) \<and> hz_net hz = NoNet \<and> hz_running hz \<and> \<not> hz_quit_posted hz \<and> hz_rewind_enabled hz \<and>
     rewind_part (hz_rt hz) = (map enc (tp_past t), True, tp_replay t, m) \<and> rt_view view (hz_rt hz) = tp_now t \<and>
     rt_paused (hz_rt hz) = tp_paused t \<and> rt_input (hz_rt hz) ! 1 = j \<and> hz_pad hz = tp_pad t \<and>
     hz_has_saved hz = (tp_saved t \<noteq> None) \<and> (hz_has_saved hz \<longrightarrow> hz_save_buf hz = enc (the (tp_saved t)))"

text \<open>Presenting touches the runtime and the picture only.\<close>

definition harness_controls :: "('c, 'b, 't) harness \<Rightarrow> _" where
  "harness_controls hz = (hz_net hz, hz_running hz, hz_quit_posted hz, hz_rewind_enabled hz, hz_pad hz, hz_has_saved hz, hz_save_buf hz)"

lemma present_frame_fields:
  "hz_rt (present_frame env fi hz) = fst (present env (fi_now fi) (hz_blit_mode hz) (hz_rt hz))"
  "harness_controls (present_frame env fi hz) = harness_controls hz"
  by (auto simp: present_frame_def harness_controls_def Let_def split: prod.split)

lemma harness_tape_intro:
  assumes "harness_tape abi view enc m j hz t" "harness_controls hz' = harness_controls hz"
    and "rt_driving abi (hz_rt hz')" "rewind_part (hz_rt hz') = (map enc (tp_past t'), True, tp_replay t', m)"
      "rt_view view (hz_rt hz') = tp_now t'" "rt_paused (hz_rt hz') = tp_paused t'" "rt_input (hz_rt hz') ! 1 = j"
    and "tp_pad t' = tp_pad t" "tp_saved t' = tp_saved t"
  shows "harness_tape abi view enc m j hz' t'"
  using assms by (simp add: harness_tape_def harness_controls_def)

lemma last_two: "2 \<le> length xs \<Longrightarrow> \<exists>ss s x. xs = ss @ [s, x]"
proof (cases xs rule: rev_cases)
  case (snoc ys x)
  moreover assume "2 \<le> length xs"
  ultimately show ?thesis
    by (cases ys rule: rev_cases) auto
qed simp

context driven_core
begin

lemma present_paused_driving:
  assumes "rt_driving abi rt" "rt_paused rt"
  shows "present env now out rt = render env now out rt"
  using assms by (simp add: present_def)

lemma present_frame_tape:
  assumes t: "harness_tape abi view enc m j hz t" and i: "rt_input (hz_rt hz) ! 0 = i"
  shows "harness_tape abi view enc m j (present_frame env fi hz) (tape_forward step (unat m) i j t)"
proof (cases "tp_paused t")
  case True
  with t present_paused_driving [of "hz_rt hz"]
  have "fst (present env (fi_now fi) (hz_blit_mode hz) (hz_rt hz)) = fst (render env (fi_now fi) (hz_blit_mode hz) (hz_rt hz))"
    by (simp add: harness_tape_def)
  with True t render_driving [of "hz_rt hz" env "fi_now fi" "hz_blit_mode hz"] show ?thesis
    by (intro harness_tape_intro [OF t]) (simp_all add: present_frame_fields tape_forward_def harness_tape_def)
next
  case False
  let ?past = "if tp_replay t then tp_past t else drop (Suc (length (tp_past t)) - unat m) (tp_past t @ [tp_now t])"
  have part: "rt_rewind_ring (hz_rt hz) = map enc (tp_past t)" "rt_rewind_enabled (hz_rt hz)" "rt_rewind_replay (hz_rt hz) = tp_replay t"
    "rt_rewind_max (hz_rt hz) = m" "rt_view view (hz_rt hz) = tp_now t"
    using t by (simp_all add: harness_tape_def rewind_part_def)
  then have "rewind_after (hz_rt hz) = map enc ?past"
    by (simp add: rewind_after_def rewind_ring_push_def Let_def drop_map [symmetric] del: drop_append)
  with False t i part present_driving [of "hz_rt hz" env "fi_now fi" "hz_blit_mode hz"] show ?thesis
    by (intro harness_tape_intro [OF t]) (simp_all add: present_frame_fields tape_forward_def harness_tape_def)
qed

lemma single_frame_tape:
  assumes t: "harness_tape abi view enc m j hz t"
  shows "harness_tape abi view enc m j (single_frame env vk xm fi hz) (tape_frame step (unat m) j vk xm fi t)"
proof -
  obtain st i where read: "read_local_input vk xm fi (tp_pad t) = (st, i)"
    by (cases "read_local_input vk xm fi (tp_pad t)")
  define hz1 where "hz1 = hz\<lparr>hz_pad := st, hz_rt := set_input 0 i (hz_rt hz)\<rparr>"
  have pad: "hz_pad hz = tp_pad t"
    using t by (simp add: harness_tape_def)
  have two: "length (rt_input (hz_rt hz)) = 2"
    using t rt_driving_ports [of abi "hz_rt hz"] by (simp add: harness_tape_def)
  have t1: "harness_tape abi view enc m j hz1 (t\<lparr>tp_pad := st\<rparr>)" and i1: "rt_input (hz_rt hz1) ! 0 = i"
    using t two set_input_driving [of "hz_rt hz" 0 i] by (auto simp: harness_tape_def hz1_def)
  have read': "harness_read vk xm fi hz = (hz\<lparr>hz_pad := st\<rparr>, i)"
    by (simp add: harness_read_def pad read)
  show ?thesis
  proof (cases "fi_rewind fi")
    case False
    then have "single_frame env vk xm fi hz = present_frame env fi hz1"
      by (simp add: single_frame_def read' hz1_def)
    with False present_frame_tape [OF t1 i1] read show ?thesis
      by (simp add: tape_frame_def)
  next
    case held: True
    have on: "hz_rewind_enabled hz1" "rt_rewind_enabled (hz_rt hz1)" "rt_rewind_ring (hz_rt hz1) = map enc (tp_past t)"
      "rt_driving abi (hz_rt hz1)"
      using t1 by (simp_all add: harness_tape_def rewind_part_def)
    have frame: "single_frame env vk xm fi hz =
        (case rewind (hz_rt hz1) of (rt, r) \<Rightarrow> if r = RP_OK then present_frame env fi (hz1\<lparr>hz_rt := rt\<rparr>) else hz1\<lparr>hz_rt := rt\<rparr>)"
      using held on(1) by (simp add: single_frame_def read' hz1_def Let_def split: prod.split)
    show ?thesis
    proof (cases "length (tp_past t) < 2")
      case True
      with on have "rewind (hz_rt hz1) = (hz_rt hz1, RP_ERR_NOT_FOUND)"
        by (simp add: rewind_def)
      with True held frame t1 read show ?thesis
        by (simp add: tape_frame_def)
    next
      case False
      then obtain ss s x where past: "tp_past t = ss @ [s, x]"
        using last_two [of "tp_past t"] by auto
      have ring: "rt_rewind_ring (hz_rt hz1) = map enc ss @ [enc s, enc x]"
        using on(3) past by simp
      note rw = rewind_driving [OF on(4,2) ring]
      let ?hz = "hz1\<lparr>hz_rt := fst (rewind (hz_rt hz1))\<rparr>"
      let ?t = "t\<lparr>tp_pad := st, tp_past := ss @ [s], tp_now := s, tp_replay := True\<rparr>"
      have inp: "rt_input (fst (rewind (hz_rt hz1))) = rt_input (hz_rt hz1)"
        by (simp add: rewind_def Let_def split: prod.split)
      have "rt_rewind_max (hz_rt hz1) = m"
        using t1 by (simp add: harness_tape_def rewind_part_def)
      with rw inp t1 have "harness_tape abi view enc m j ?hz ?t"
        by (intro harness_tape_intro [OF t1]) (simp_all add: harness_tape_def harness_controls_def)
      moreover have "rt_input (hz_rt ?hz) ! 0 = i"
        using inp i1 by simp
      moreover have "single_frame env vk xm fi hz = present_frame env fi ?hz"
        using frame rw(1) by (simp add: split_beta)
      moreover have "tape_frame step (unat m) j vk xm fi t = tape_forward step (unat m) i j ?t"
        using held past read by (simp add: tape_frame_def Let_def butlast_append)
      ultimately show ?thesis
        using present_frame_tape [of m j ?hz ?t i env fi] by simp
    qed
  qed
qed

end

context driven_core
begin

lemma save_tape:
  assumes t: "harness_tape abi view enc m j hz t"
  shows "harness_tape abi view enc m j (harness_save hz) (t\<lparr>tp_saved := Some (tp_now t)\<rparr>)"
proof -
  have dr: "rt_driving abi (hz_rt hz)" "rt_view view (hz_rt hz) = tp_now t"
    using t by (simp_all add: harness_tape_def)
  let ?rt = "fst (serialize_size (hz_rt hz))"
  note k = serialize_size_keeps [OF dr(1)]
  have sz: "serialize_size (hz_rt hz) = (?rt, length (enc (tp_now t)))"
    using serialize_size_driving [OF dr(1)] dr(2) by simp
  from save_state_driving [OF k(1), of "replicate (length (enc (tp_now t))) 0"] k(2) dr(2) obtain rt' where
    save: "save_state (Some (replicate (length (enc (tp_now t))) 0)) ?rt = (rt', RP_OK, Some (enc (tp_now t)))"
    and rt': "rt_driving abi rt'" "rt_view view rt' = rt_view view ?rt" "rt_input rt' = rt_input ?rt"
      "rewind_part rt' = rewind_part ?rt" "rt_paused rt' = rt_paused ?rt"
    by auto
  have "harness_save hz = hz\<lparr>hz_rt := rt', hz_save_buf := enc (tp_now t), hz_has_saved := True\<rparr>"
    unfolding harness_save_def by (subst sz) (use save enc_nonempty [of "tp_now t"] in simp)
  with rt' k t show ?thesis
    by (simp add: harness_tape_def)
qed

lemma load_tape:
  assumes t: "harness_tape abi view enc m j hz t"
  shows "harness_tape abi view enc m j (harness_load hz) (case tp_saved t of None \<Rightarrow> t | Some s \<Rightarrow> t\<lparr>tp_now := s\<rparr>)"
proof (cases "tp_saved t")
  case None
  with t show ?thesis by (simp add: harness_load_def harness_tape_def)
next
  case (Some s)
  then have buf: "hz_has_saved hz" "hz_save_buf hz = enc s"
    using t by (simp_all add: harness_tape_def)
  from load_state_driving [of "hz_rt hz" s] t obtain rt' where
    "load_state (Some (enc s)) (hz_rt hz) = (rt', RP_OK)" "rt_driving abi rt'" "rt_view view rt' = s"
      "rt_input rt' = rt_input (hz_rt hz)" "rewind_part rt' = rewind_part (hz_rt hz)" "rt_paused rt' = rt_paused (hz_rt hz)"
    by (auto simp: harness_tape_def)
  with t buf Some show ?thesis
    by (simp add: harness_load_def harness_tape_def)
qed

lemma toggle_pause_tape:
  assumes t: "harness_tape abi view enc m j hz t"
  shows "harness_tape abi view enc m j (harness_toggle_pause hz) (t\<lparr>tp_paused := \<not> tp_paused t\<rparr>)"
proof -
  have dr: "rt_driving abi (hz_rt hz)"
    using t by (simp add: harness_tape_def)
  have "rt_driving abi (fst (pause (hz_rt hz)))" "rt_driving abi (fst (resume (hz_rt hz)))"
    using dr pause_inv [of "hz_rt hz"] resume_inv [of "hz_rt hz"] by (simp_all add: rt_driving_def pause_def resume_def)
  with t dr show ?thesis
    by (simp add: harness_toggle_pause_def get_status_def harness_tape_def pause_def resume_def rt_driving_def rewind_part_def rt_view_def)
qed

lemma WndProc_tape:
  assumes "harness_tape abi view enc m j hz t" "playing_msg w"
  shows "harness_tape abi view enc m j (WndProc env w hz) (tape_msg w t)"
proof (cases w)
  case (Wm_KeyDown key repeated)
  show ?thesis
  proof (cases repeated)
    case True
    with Wm_KeyDown assms(1) show ?thesis by (cases key) simp_all
  next
    case False
    with Wm_KeyDown assms save_tape load_tape toggle_pause_tape show ?thesis
      by (cases key) (simp_all add: playing_msg_def)
  qed
qed (use assms in \<open>simp_all add: playing_msg_def\<close>)

lemma pump_tape:
  "harness_tape abi view enc m j hz t \<Longrightarrow> list_all playing_msg ws \<Longrightarrow>
   harness_tape abi view enc m j (pump env ws hz) (fold tape_msg ws t)"
proof (induction ws arbitrary: hz t)
  case Nil
  then show ?case by (simp add: harness_tape_def)
next
  case (Cons w ws)
  with WndProc_tape [OF Cons.prems(1), of w env] show ?case by simp
qed

lemma loop_round_tape:
  assumes "harness_tape abi view enc m j hz t" "list_all playing_msg (fst rd)"
  shows "\<exists>hz'. loop_round env tr vk xm (fst rd) (snd rd) hz = Some hz' \<and>
    harness_tape abi view enc m j hz' (tape_round step (unat m) j vk xm rd t)"
proof -
  let ?hz = "dolphin_poll (snd rd) (pump env (fst rd) hz)"
  have "harness_tape abi view enc m j ?hz (fold tape_msg (fst rd) t)"
    using pump_tape [OF assms] by (simp add: dolphin_poll_def harness_tape_def)
  from single_frame_tape [OF this] this show ?thesis
    by (simp add: loop_round_def tape_round_def harness_tape_def)
qed

lemma main_loop_tape:
  "harness_tape abi view enc m j hz t \<Longrightarrow> list_all (\<lambda>rd. list_all playing_msg (fst rd)) rounds \<Longrightarrow>
   \<exists>hz'. main_loop env tr vk xm rounds hz = Some hz' \<and>
     harness_tape abi view enc m j hz' (fold (tape_round step (unat m) j vk xm) rounds t)"
proof (induction rounds arbitrary: hz t)
  case (Cons rd rounds)
  obtain ws fi where rd: "rd = (ws, fi)"
    by (cases rd)
  from loop_round_tape [where env = env and tr = tr and vk = vk and xm = xm and rd = rd, OF Cons.prems(1)] Cons.prems(2) obtain hz1 where
    one: "loop_round env tr vk xm ws fi hz = Some hz1" "harness_tape abi view enc m j hz1 (tape_round step (unat m) j vk xm rd t)"
    by (auto simp: rd)
  from Cons.IH [OF one(2)] Cons.prems obtain hz2 where
    "main_loop env tr vk xm rounds hz1 = Some hz2"
    "harness_tape abi view enc m j hz2 (fold (tape_round step (unat m) j vk xm) rounds (tape_round step (unat m) j vk xm rd t))"
    by auto
  with one(1) Cons.prems(1) show ?case
    by (simp add: rd harness_tape_def)
qed auto

end

text \<open>The tape when the harness has just started.\<close>

definition fresh_tape :: "('c \<Rightarrow> 's) \<Rightarrow> ('c, 'b) Runtime \<Rightarrow> 's tape" where
  "fresh_tape view rt =
     \<lparr>tp_past = [], tp_now = rt_view view rt, tp_replay = False, tp_saved = None, tp_paused = rt_paused rt, tp_pad = (0, True)\<rparr>"

lemma boot_tape:
  assumes core: "driven_core abi view step enc" and dr: "rt_driving abi (boot_runtime env dirs h hwnd)"
    and "use_content h \<or> want_driven h" and boot: "hz = boot env dirs dn qpf counter h hwnd"
  shows "harness_tape abi view enc 600 (rt_input (boot_runtime env dirs h hwnd) ! 1) hz
    (fresh_tape view (boot_runtime env dirs h hwnd))"
proof -
  let ?rt = "boot_runtime env dirs h hwnd"
  obtain rt0 where on: "set_rewind True 600 ?rt = (rt0, RP_OK)"
    using driven_core.serialize_size_driving [OF core dr] driven_core.enc_nonempty [OF core] by (simp add: set_rewind_def)
  have inp: "rt_input rt0 = rt_input ?rt"
    using on by (auto simp: set_rewind_def serialize_size_def split: prod.splits if_splits)
  have "hz_rt hz = rt0" "hz_rewind_enabled hz" "hz_net hz = NoNet" "hz_running hz" "\<not> hz_quit_posted hz" "hz_pad hz = (0, True)"
    "\<not> hz_has_saved hz"
    using assms(3) on unfolding boot by (auto simp: boot_def Let_def split: prod.splits)
  with driven_core.set_rewind_driving [OF core dr on] set_rewind_part [OF on] inp show ?thesis
    by (simp add: harness_tape_def fresh_tape_def)
qed

text \<open>The rounds with the rewind key held included: it goes one recorded state back and steps from there.\<close>

lemma boot_plays_tape:
  assumes "driven_core abi view step enc" "rt_driving abi (boot_runtime env dirs h hwnd)" "use_content h \<or> want_driven h"
    and "list_all (\<lambda>rd. list_all playing_msg (fst rd)) rounds"
    and "t = fold (tape_round step 600 (rt_input (boot_runtime env dirs h hwnd) ! 1) vk xm) rounds (fresh_tape view (boot_runtime env dirs h hwnd))"
  shows "\<exists>hz. main_loop env tr vk xm rounds (boot env dirs dn qpf counter h hwnd) = Some hz \<and> hz_running hz \<and>
    rt_view view (hz_rt hz) = tp_now t \<and> rt_rewind_ring (hz_rt hz) = map enc (tp_past t) \<and> rt_paused (hz_rt hz) = tp_paused t \<and>
    (if hz_has_saved hz then Some (hz_save_buf hz) else None) = map_option enc (tp_saved t)"
proof -
  from driven_core.main_loop_tape [where env = env and tr = tr and vk = vk and xm = xm,
      OF assms(1) boot_tape [OF assms(1-3) refl, where dn = dn and qpf = qpf and counter = counter] assms(4)] obtain hz where
    "main_loop env tr vk xm rounds (boot env dirs dn qpf counter h hwnd) = Some hz"
    "harness_tape abi view enc 600 (rt_input (boot_runtime env dirs h hwnd) ! 1) hz t"
    using assms(5) by auto
  then show ?thesis
    by (auto simp: harness_tape_def rewind_part_def)
qed

text \<open>C12. Without netplay, the harness is a tape with a saved state. Hypotheses: the arguments ask for no netplay, the harness is started with
  content or for a driven core, and what it loads is a running driven core that keeps the driven-core contract; no round brings the message that
  closes the window or the reset key, and the rewind key is not held. Then the start of netplay does nothing, the loop runs through any number of
  rounds with any other keys and any gamepad, and the core, the recorded past (the states before the last 600 frames), the pause and the saved
  state are those of the tape: a frame records and steps with the input read in that round, F5 and F7 save and restore, P pauses.\<close>

theorem harness_plays_tape:
  assumes "driven_core abi view step enc" "rt_driving abi (boot_runtime env dirs h hwnd)" "use_content h \<or> want_driven h"
    and "\<not> ha_netplay_host h" "\<not> ha_netplay_join h"
    and "list_all (\<lambda>rd. list_all playing_msg (fst rd) \<and> \<not> fi_rewind (snd rd)) rounds"
    and "t = fold (tape_round step 600 (rt_input (boot_runtime env dirs h hwnd) ! 1) vk xm) rounds (fresh_tape view (boot_runtime env dirs h hwnd))"
  shows "\<exists>hz0 hz. start_netplay env tr now conn h (boot env dirs dn qpf counter h hwnd) = Some hz0 \<and>
    main_loop env tr vk xm rounds hz0 = Some hz \<and> hz_running hz \<and>
    rt_view view (hz_rt hz) = tp_now t \<and> rt_rewind_ring (hz_rt hz) = map enc (tp_past t) \<and> rt_paused (hz_rt hz) = tp_paused t \<and>
    (if hz_has_saved hz then Some (hz_save_buf hz) else None) = map_option enc (tp_saved t)"
proof -
  have "list_all (\<lambda>rd. list_all playing_msg (fst rd)) rounds"
    using assms(6) by (simp add: list_all_iff)
  from boot_plays_tape [where tr = tr and dn = dn and qpf = qpf and counter = counter, OF assms(1-3) this assms(7)] assms(4,5)
  show ?thesis by (simp add: start_netplay_def)
qed

section \<open>A run\<close>

text \<open>An installation with the rollback reference core in every directory, and a player at rest.\<close>

definition rc_manifest :: json where
  "rc_manifest = JObject [(''id'', JString ''refcore_rollback''), (''name'', JString ''n''), (''entry'', JString ''e.dll''),
     (''type'', JString ''driven''), (''graphics_api'', JString ''none''), (''abi_version'', JUnsigned 9)]"

definition rc_env :: "(RollbackCore, unit) rt_env" where
  "rc_env = (demo_env [])\<lparr>rv_read_file := \<lambda>_. Some [], rv_json_parse := \<lambda>_. Some rc_manifest,
     rv_dlopen := \<lambda>_. Some (StaticCoreModule_resolve (Some (Some rc_abi)))\<rparr>"

definition driven_args :: harness_args where
  "driven_args = parse_args (\<lambda>_. []) [wide ''harness'', wide ''--driven''] harness_args0"

definition at_rest :: "bool \<Rightarrow> frame_in" where
  "at_rest held = \<lparr>fi_scan = \<lambda>_. False, fi_arrows = \<lambda>_. False, fi_rewind = held, fi_xinput = None, fi_now = 0, fi_counter = 0, fi_players = 0\<rparr>"

definition no_dolphin :: dolphin where
  "no_dolphin = \<lparr>dn_resolved = False, dn_host_ok = \<lambda>_. False\<rparr>"

lemma boot_runtime_inv: "rt_inv (boot_runtime env dirs h hwnd)"
  unfolding boot_runtime_def Let_def
  by (simp add: load_content_inv load_core_inv resize_inv rt_inv_new)

lemma driven_args_simps: "want_driven driven_args" "\<not> use_content driven_args" "ha_custom_core_dir driven_args = []"
  "harness_api driven_args = RP_GFX_D3D11" "\<not> ha_netplay_host driven_args" "\<not> ha_netplay_join driven_args"
  by (simp_all add: driven_args_def parse_arg_def wide_def harness_args0_def want_driven_def use_content_def harness_api_def)

lemma rc_boot:
  fixes rt
  defines "rt \<equiv> boot_runtime rc_env default_dirs driven_args None"
  shows "rt_core_loaded rt \<and> rt_core_type rt = RP_CORE_DRIVEN \<and> ld_abi (rt_loader rt) = Some rc_abi \<and>
   \<not> rt_requires_content rt \<and> \<not> rt_paused rt \<and> rt_input rt = [neutral_input, neutral_input] \<and>
   ld_core (rt_loader rt) = Some \<lparr>rc_fb = replicate (unat core_W * unat core_H * 4) 0, rc_acc = 0\<rparr>"
proof -
  have abi: "ca_abi_version rc_abi = RETROPARK_ABI_VERSION" "ca_get_info rc_abi = Some rc_info"
    "ca_create rc_abi = Some rc_create" "ca_load_content rc_abi = None"
    "ca_get_av_info rc_abi = Some (\<lambda>c. refcore_av_info)"
    by (simp_all add: rc_abi_def)
  have av: "av_geometry_ok refcore_av_info" "av_sample_rate refcore_av_info = 0"
    by (simp_all add: av_geometry_ok_def refcore_av_info_def core_W_def core_H_def)
  have manifest: "parse_manifest (\<lambda>_. Some rc_manifest) body = Inr \<lparr>m_id = ''refcore_rollback'', m_name = ''n'', m_entry = ''e.dll'',
      m_type = RP_CORE_DRIVEN, m_graphics_api = RP_GFX_NONE, m_abi_version = 9\<rparr>" for body
    by (simp add: parse_manifest_def rc_manifest_def as_string_def json_get_def)
  show ?thesis
    unfolding rt_def
    by (simp add: boot_runtime_def driven_args_simps rc_env_def load_core_def resize_def manifest Win32CoreModule_open_def demo_defs
        CoreLoader_new_def rt_load_def loader_load_def StaticCoreModule_resolve_def rt_create_def loader_create_def
        finish_load_core_def mark_loaded_def has_load_content_def loader_get_av_info_def ld_call_def
        live_state_def set_max_geometry_def open_audio_def Let_def abi av rc_create_def)
qed

lemma rc_boot_driving: "rt_driving rc_abi (boot_runtime rc_env default_dirs driven_args None)"
  using rc_boot boot_runtime_inv [of rc_env default_dirs driven_args None] by (simp add: rt_driving_def)

lemma read_at_rest: "snd (read_local_input (\<lambda>_. 0) (\<lambda>_. 0) (at_rest b) st) = neutral_input"
  unfolding read_local_input_alt
  by (simp add: at_rest_def hold_arrow_def scanned_input_def gamepad_read_def neutral_input_def map_replicate_const)

text \<open>A frame of a player at rest, up to what the gamepad probe remembers.\<close>

lemma tape_frame_at_rest:
  "\<exists>p. tape_frame step m j (\<lambda>_. 0) (\<lambda>_. 0) (at_rest False) t = tape_forward step m neutral_input j (t\<lparr>tp_pad := p\<rparr>)"
  "2 \<le> length (tp_past t) \<Longrightarrow> \<exists>p. tape_frame step m j (\<lambda>_. 0) (\<lambda>_. 0) (at_rest True) t = tape_forward step m neutral_input j
     (t\<lparr>tp_pad := p, tp_past := butlast (tp_past t), tp_now := last (butlast (tp_past t)), tp_replay := True\<rparr>)"
  using read_at_rest [of False "tp_pad t"] read_at_rest [of True "tp_pad t"]
  by (auto simp: tape_frame_def split_beta Let_def at_rest_def simp del: split_paired_Ex)

text \<open>Two frames, with a save before the first and a restore before the second: the core is in the state after its first frame.\<close>

theorem harness_plays_tape_witness:
  "\<exists>hz0 hz. start_netplay rc_env scripted_loopback 0 (\<lambda>_. Inl RP_ERR_DEVICE) driven_args (boot rc_env default_dirs no_dolphin 1000 0 driven_args None) = Some hz0 \<and>
     main_loop rc_env scripted_loopback (\<lambda>_. 0) (\<lambda>_. 0) [([Wm_KeyDown Key_F5 False], at_rest False), ([Wm_KeyDown Key_F7 False], at_rest False)] hz0 = Some hz \<and>
     rt_view rc_acc (hz_rt hz) = 1 \<and> rt_rewind_ring (hz_rt hz) = [le_bytes 4 (0 :: u32), le_bytes 4 (0 :: u32)] \<and>
     hz_has_saved hz \<and> hz_save_buf hz = le_bytes 4 (0 :: u32)"
proof -
  let ?rounds = "[([Wm_KeyDown Key_F5 False], at_rest False), ([Wm_KeyDown Key_F7 False], at_rest False)]"
  let ?rt = "boot_runtime rc_env default_dirs driven_args None"
  have plain: "list_all (\<lambda>rd. list_all playing_msg (fst rd) \<and> \<not> fi_rewind (snd rd)) ?rounds"
    by (simp add: playing_msg_def at_rest_def)
  let ?round = "tape_round rc_step 600 neutral_input (\<lambda>_. 0) (\<lambda>_. 0)"
  have j: "rt_input ?rt ! 1 = neutral_input"
    using rc_boot by simp
  have one: "rc_step 0 neutral_input neutral_input = 1"
    by (simp add: rc_step_def neutral_input_def)
  have t0: "fresh_tape rc_acc ?rt =
      \<lparr>tp_past = [], tp_now = 0, tp_replay = False, tp_saved = None, tp_paused = False, tp_pad = (0, True)\<rparr>"
    using rc_boot by (simp add: fresh_tape_def rt_view_def)
  obtain p1 where t1: "?round ([Wm_KeyDown Key_F5 False], at_rest False) (fresh_tape rc_acc ?rt) =
      \<lparr>tp_past = [0], tp_now = 1, tp_replay = False, tp_saved = Some 0, tp_paused = False, tp_pad = p1\<rparr>"
    using tape_frame_at_rest(1) [of rc_step 600 neutral_input "(fresh_tape rc_acc ?rt)\<lparr>tp_saved := Some 0\<rparr>"] one
    unfolding t0 tape_round_def by (auto simp: tape_forward_def)
  obtain p2 where t2: "?round ([Wm_KeyDown Key_F7 False], at_rest False)
        \<lparr>tp_past = [0], tp_now = 1, tp_replay = False, tp_saved = Some 0, tp_paused = False, tp_pad = p1\<rparr> =
      \<lparr>tp_past = [0, 0], tp_now = 1, tp_replay = False, tp_saved = Some 0, tp_paused = False, tp_pad = p2\<rparr>"
    using tape_frame_at_rest(1) [of rc_step 600 neutral_input
        "\<lparr>tp_past = [0], tp_now = 0, tp_replay = False, tp_saved = Some 0, tp_paused = False, tp_pad = p1\<rparr>"] one
    by (auto simp: tape_forward_def tape_round_def)
  have t: "fold (tape_round rc_step 600 (rt_input ?rt ! 1) (\<lambda>_. 0) (\<lambda>_. 0)) ?rounds (fresh_tape rc_acc ?rt) =
      \<lparr>tp_past = [0, 0], tp_now = 1, tp_replay = False, tp_saved = Some 0, tp_paused = False, tp_pad = p2\<rparr>"
    unfolding j by (simp only: fold.simps comp_def id_apply t1 t2)
  obtain hz0 hz where "start_netplay rc_env scripted_loopback 0 (\<lambda>_. Inl RP_ERR_DEVICE) driven_args
      (boot rc_env default_dirs no_dolphin 1000 0 driven_args None) = Some hz0"
    "main_loop rc_env scripted_loopback (\<lambda>_. 0) (\<lambda>_. 0) ?rounds hz0 = Some hz"
    "rt_view rc_acc (hz_rt hz) = 1" "rt_rewind_ring (hz_rt hz) = [le_bytes 4 (0 :: u32), le_bytes 4 (0 :: u32)]"
    "(if hz_has_saved hz then Some (hz_save_buf hz) else None) = Some (le_bytes 4 (0 :: u32))"
    using harness_plays_tape [where tr = scripted_loopback and dn = no_dolphin and qpf = 1000 and counter = 0 and now = 0
          and conn = "\<lambda>_. Inl RP_ERR_DEVICE",
        OF rc.driven_core_axioms rc_boot_driving _ driven_args_simps(5,6) plain t [symmetric]] driven_args_simps(1)
    by (auto simp del: main_loop.simps)
  then show ?thesis
    by (auto simp del: main_loop.simps split: if_splits)
qed

section \<open>More about the loop\<close>

text \<open>While the rewind key is held the harness feeds it to the core as well: the frame that is gone back to is not shown as it was but
  played again with the left arrow pressed, and the player resumes from a state the game was never in.\<close>

lemma rewound_frame_sees_left:
  assumes "fi_rewind fi" "fi_arrows fi (vk VK_LEFT)" "tp_past t = ss @ [s, x]" "\<not> tp_paused t"
  shows "\<exists>i. tp_now (tape_frame step m j vk xm fi t) = step s i j \<and> pad_bit i RP_PAD_DPAD_LEFT"
proof -
  obtain st i where read: "read_local_input vk xm fi (tp_pad t) = (st, i)"
    by (cases "read_local_input vk xm fi (tp_pad t)")
  then have "pad_bit i RP_PAD_DPAD_LEFT"
    using assms(2) read_local_input_alt [of vk xm fi "tp_pad t"] by (simp add: hold_arrow_bit RP_PAD_DPAD_LEFT_def)
  with assms read show ?thesis
    by (auto simp: tape_frame_def tape_forward_def Let_def butlast_append)
qed

text \<open>The keys act on the runtime during netplay too. A paused runtime does not run the frame the session counts, so the peers part.\<close>

lemma paused_lockstep_loses_frame:
  assumes "driven_core abi view step enc" "rt_driving abi (ns_rt s)" "rt_paused (ns_rt s)"
  shows "rt_view view (ns_rt (ns_apply (runtime_api env now) s)) = rt_view view (ns_rt s)"
proof -
  obtain l r where in2: "ns_rt (ns_apply (runtime_api env now) s) =
      fst (present env now False (set_input (ns_remote_port s) r (set_input (ns_local_port s) l (ns_rt s))))"
    by (auto simp: ns_apply_def runtime_api_def Let_def split_beta)
  note a = driven_core.set_input_driving [OF assms(1,2), of "ns_local_port s" l]
  note b = driven_core.set_input_driving [OF assms(1) a(1), of "ns_remote_port s" r]
  have "rt_paused (set_input (ns_remote_port s) r (set_input (ns_local_port s) l (ns_rt s)))"
    using a(5) b(5) assms(3) by simp
  then show ?thesis
    unfolding in2 using driven_core.present_paused_driving [OF assms(1) b(1)]
      driven_core.render_driving(2) [OF assms(1) b(1)] a(2) b(2) by simp
qed

text \<open>The value of an option that takes one: the argument after its last occurrence.\<close>

fun option_values :: "wstring \<Rightarrow> wstring list \<Rightarrow> wstring list" where
  "option_values opt (a # v # rest) = (if a = opt then [v] else []) @ option_values opt (v # rest)"
| "option_values opt args = []"

lemma parse_arg_content:
  "ha_content_path (parse_arg narrow a rest h) =
     (if a = wide ''--content'' \<and> rest \<noteq> [] then narrow (hd rest) else ha_content_path h)"
  by (simp add: parse_arg_def Let_def wide_def)

lemma parse_args_content:
  "ha_content_path (parse_args narrow args h) =
     (case option_values (wide ''--content'') args of [] \<Rightarrow> ha_content_path h | vs \<Rightarrow> narrow (last vs))"
proof (induction "wide ''--content''" args arbitrary: h rule: option_values.induct)
  case (1 a v rest)
  show ?case
    unfolding parse_args.simps(2) [of narrow a "v # rest"] 1
    by (auto simp: parse_arg_content split: list.split)
qed (simp_all add: parse_arg_content)

text \<open>A port beyond 65535 is taken modulo 65536, and a join without a colon joins nowhere in particular.\<close>

definition ascii :: "wstring \<Rightarrow> string" where
  "ascii w = map (\<lambda>c. char_of (unat c)) w"

lemma port_is_truncated:
  "ha_netplay_port (parse_args ascii [wide ''--netplay-host'', wide ''70000''] harness_args0) = 4464"
  by code_simp

lemma join_without_port:
  "ha_netplay_join (parse_args ascii [wide ''--netplay-join'', wide ''localhost''] harness_args0)"
  "ha_netplay_ip (parse_args ascii [wide ''--netplay-join'', wide ''localhost''] harness_args0) = []"
  by code_simp+

text \<open>Dolphin's game is started at most once, and only after its netplay was hosted.\<close>

definition dolphin_ok :: "('c, 'b, 't) harness \<Rightarrow> bool" where
  "dolphin_ok hz \<longleftrightarrow> count_list (hz_dolphin_calls hz) DnStart \<le> (if hz_dolphin_host hz then 0 else 1)"

lemma boot_dolphin: "dolphin_ok (boot env dirs dn qpf counter h hwnd)"
  by (auto simp: dolphin_ok_def boot_def dolphin_wiring_def Let_def split: prod.split)

definition dolphin_part :: "('c, 'b, 't) harness \<Rightarrow> _" where
  "dolphin_part hz = (hz_dolphin_host hz, hz_dolphin_calls hz)"

lemma WndProc_dolphin: "dolphin_part (WndProc env w hz) = dolphin_part hz"
  by (cases w) (auto simp: dolphin_part_def harness_save_def harness_load_def harness_toggle_pause_def split_beta
      split: hkey.split sum.split)

lemma pump_dolphin: "dolphin_part (pump env ws hz) = dolphin_part hz"
proof (induction ws arbitrary: hz)
  case (Cons w ws)
  with WndProc_dolphin show ?case by simp
qed (simp add: dolphin_part_def)

lemma present_frame_dolphin: "dolphin_part (present_frame env fi hz) = dolphin_part hz"
  by (auto simp: present_frame_def dolphin_part_def Let_def split: prod.split)

lemma single_frame_dolphin: "dolphin_part (single_frame env vk xm fi hz) = dolphin_part hz"
  by (simp add: single_frame_def harness_read_def Let_def split_beta present_frame_dolphin) (simp add: dolphin_part_def)

lemma net_frames_dolphin:
  "lockstep_frame env tr vk xm fi s hz = Some hz' \<Longrightarrow> dolphin_part hz' = dolphin_part hz"
  "rollback_frame env tr vk xm fi r hz = Some hz' \<Longrightarrow> dolphin_part hz' = dolphin_part hz"
  by (auto simp: lockstep_frame_def rollback_frame_def harness_read_def dolphin_part_def Let_def split_beta split: option.splits if_splits)

lemma loop_round_dolphin:
  assumes "dolphin_ok hz" "loop_round env tr vk xm ws fi hz = Some hz'"
  shows "dolphin_ok hz'"
proof -
  let ?hz = "dolphin_poll fi (pump env ws hz)"
  have "dolphin_ok (pump env ws hz)"
    using assms(1) pump_dolphin [of env ws hz] by (simp add: dolphin_ok_def dolphin_part_def)
  then have "dolphin_ok ?hz"
    by (auto simp: dolphin_ok_def dolphin_poll_def)
  moreover have "dolphin_part hz' = dolphin_part ?hz"
    using assms(2) single_frame_dolphin [of env vk xm fi ?hz] net_frames_dolphin [of env tr vk xm fi _ ?hz hz']
    by (auto simp: loop_round_def Let_def split: net_mode.splits)
  ultimately show ?thesis
    by (simp add: dolphin_ok_def dolphin_part_def)
qed

lemma main_loop_dolphin:
  "dolphin_ok hz \<Longrightarrow> main_loop env tr vk xm rounds hz = Some hz' \<Longrightarrow> dolphin_ok hz'"
proof (induction rounds arbitrary: hz)
  case (Cons rd rounds)
  then show ?case
    by (cases rd) (auto split: if_splits option.splits dest: loop_round_dolphin)
qed simp

text \<open>Closing the window ends the loop after the frame of that round; leaving unloads the core.\<close>

lemma quit_ends_pump: "Wm_Destroy \<in> set ws \<or> hz_quit_posted hz \<Longrightarrow> \<not> hz_running (pump env ws hz)"
proof (induction ws arbitrary: hz)
  case (Cons w ws)
  have "hz_quit_posted (WndProc env w hz)" if "w = Wm_Destroy \<or> hz_quit_posted hz"
    using that by (cases w) (auto simp: harness_save_def harness_load_def harness_toggle_pause_def split_beta split: hkey.split sum.split)
  with Cons show ?case by auto
qed simp

lemma harness_exit_unloads:
  assumes "rt_inv (hz_rt hz)"
  shows "\<exists>rt. harness_exit hz = Some rt \<and> rt_cleared rt"
  using unload_inv [OF assms] unload_inv [of "unload_core (hz_rt hz)"] by (simp add: harness_exit_def rp_runtime_destroy_def)

end
