(* ===== verification/Spec2Isabelle.thy ===== *)
theory Spec2Isabelle
  imports RP_Rollback_Correct RP_Shim RP_Tcp RP_D3D11_Frames RP_GL_Frames RP_Vulkan_Frames RP_Present_Live RP_Present_Vk RP_Harness
begin

text \<open>
  A verification library for RetroPark, a runtime that hosts emulator cores (C++, \<open>src/\<close>).

  \<^bold>\<open>The program.\<close> A frontend drives a \<open>Runtime\<close> (\<open>src/runtime\<close>) through a C API. The runtime owns one core,
  loaded by \<open>CoreLoader\<close> (\<open>src/loader\<close>) from a DLL or from the static registry, a render backend
  (\<open>src/render\<close>), an audio output (\<open>src/audio\<close>), the input of two ports and a ring of savestates for
  rewinding. A \<^emph>\<open>presenting\<close> core renders on its own thread into surfaces the host shares with it (the
  \<open>SurfaceRing\<close> says which one to show); a \<^emph>\<open>driven\<close> core is run one frame at a time and hands over a
  frame in memory. The core ABI is \<open>include/retropark/retropark_abi.h\<close>. Netplay (\<open>src/net\<close>) runs on top
  of the runtime's advance, save and load: lockstep with an input delay (\<open>NetSession\<close>) or rollback
  (\<open>RollbackSession\<close>), over a message transport (in-process queues or TCP). The libretro shim
  (\<open>cores/libretro_shim\<close>) is a driven core that wraps any libretro core.

  \<^bold>\<open>The theories\<close>, in the order of their dependencies.

  \<^item> \<open>RP_Prelude\<close>: fixed-width integers, little-endian bytes, \<open>std::map\<close> as a sorted association list, shared
    lemmas. \<open>RP_Abi\<close>: the core ABI: result codes, input snapshot, geometry, a core as a record of functions over its state,
    the calls a core makes to the host as a list.
  \<^item> \<open>RP_Wire\<close> (\<open>NetProtocol\<close>), \<open>RP_Crc\<close> (\<open>Crc32.h\<close>): encoders and decoders of the netplay messages and the
    checksum. A decoder accepts exactly the encodings (C29, and lemmas for the other messages); the table-driven checksum equals the
    bit-serial one (C30).
  \<^item> \<open>RP_SurfaceRing\<close>, \<open>RP_Framebuffer\<close> (\<open>src/render\<close>): called one call at a time, the ring answers as its specification says (C17);
    lemmas show that it refuses stale submissions, that its calls are their single accesses in order, and which torn pairs a
    reader can get between them, and what the frame test accepts with its wrap-around. The row copy (C33).
  \<^item> \<open>RP_Audio\<close> (\<open>AudioPool\<close>, \<open>XAudio2Output\<close>): in every interleaving of submit, the voice's callback and the poll the backlog counter
    is exact up to what a call under way has yet to count (C19); a lemma says what a pulling core is asked for.
  \<^item> \<open>RP_Transport\<close> (\<open>LoopbackTransport\<close>), \<open>RP_Tcp\<close> (\<open>TcpTransport\<close>): the locale \<open>message_channel\<close> is the
    contract of one direction of a transport; the loopback queue interprets it and TCP framing over any
    \<open>reliable_stream\<close> is a sublocale of it (C27, C16). Set-up and tear-down leak nothing (C39).
  \<^item> \<open>RP_Loader\<close> (\<open>src/loader\<close>): manifest, registry, modules and the loader; a core sees the functions it has called in
    the order of its life cycle whatever the client does (C14); a lemma says which manifests are accepted.
  \<^item> \<open>RP_Runtime\<close>, \<open>RP_Runtime_Inv\<close> (\<open>src/runtime\<close>): every operation of the runtime, its invariant over all
    reachable states (C9), loading is all or nothing (C13), lemmas on silent advance and pause.
  \<^item> \<open>RP_Driven\<close>, \<open>RP_RefCores\<close>: the locale \<open>driven_core\<close> says what the runtime's save, load and rewind rely on;
    the two driven reference cores (\<open>cores/refcore_driven\<close>, \<open>cores/refcore_rollback\<close>) are interpretations. Save
    and load restore (C11), rewinding steps back (C10).
  \<^item> \<open>RP_NetBase\<close>: the locales \<open>sim_runtime\<close> (a runtime as a game that advances with two inputs) and
    \<open>message_stream\<close> (a transport that delivers in order), interpreted by the runtime with a driven core and by
    the loopback transport. \<open>RP_Lockstep\<close> (\<open>NetSession\<close>): a session replays the agreed inputs (C3),
    peers agree (C4).
    \<open>RP_Rollback\<close>, \<open>RP_Rollback_Correct\<close> (\<open>RollbackPredict\<close>, \<open>RollbackSession\<close>): a session is always in the state that
    playing the known inputs from the start gives (C1), peers agree (C2), when it stalls once its peer was heard (C28). Both agreements
    ask the caller to give a frame that waited or stalled the same input when it is retried; C1 and C3 do not.
  \<^item> \<open>RP_Pad\<close> (\<open>xinput_map.h\<close>, \<open>ShimInput.h\<close>): a gamepad's buttons and sticks reach a libretro core (C35, C36).
  \<^item> \<open>RP_Libretro\<close> (\<open>external/libretro/libretro.h\<close>), \<open>RP_Pixel\<close> (\<open>PixelConvert\<close>, \<open>HwRenderGL\<close>), \<open>RP_ShimOptions\<close> and
    \<open>RP_Shim\<close> (\<open>LibretroShim.cpp\<close>): pixel conversion loses no colour (C32); the option channel refines a
    specification (C18), the JSON listing reads back (C31); whatever
    core is wrapped, the shim keeps its invariant and submits well-formed frames (C15); loading content does what the core
    and the graphics setup answer (C26).
  \<^item> \<open>RP_D3D11\<close>, \<open>RP_D3D11_Frames\<close> (\<open>src/render/d3d11\<close>): the Direct3D 11 backend as an \<open>IRenderBackend\<close> of the runtime,
    with kernel handles and keyed mutexes counted: nothing leaks on any path (C23), a frame reaches
    the caller's buffer unchanged while the backend is settled (C21); lemmas exhibit the failures after which it is not.
  \<^item> \<open>RP_GL\<close>, \<open>RP_GL_Frames\<close> (\<open>src/render/gl\<close>): the OpenGL context and backend: nothing leaks (C40), a frame of the
    display's size is shown pixel for pixel on a complete target (C20), lemmas show a shared texture the right way up and what an
    incomplete target gives.
  \<^item> \<open>RP_Vulkan\<close>, \<open>RP_Vulkan_Own\<close>, \<open>RP_Vulkan_Life\<close>, \<open>RP_Vulkan_Frames\<close> (\<open>src/render/vulkan\<close>): the Vulkan backend with every object of the driver and every
    kernel handle accounted for: after any calls and any failures nothing is destroyed twice and no kernel handle is lost
    (C24); the ledger of \<open>RP_Vulkan_Own\<close> and the triples of \<open>RP_Vulkan_Life\<close> carry the proof. A frame reaches the
    caller's buffer unchanged while the objects are complete and of the current size (C22); lemmas exhibit the failures after which they are not.
  \<^item> \<open>RP_Fair\<close>, \<open>RP_Present\<close>, \<open>RP_Present_Live\<close> (\<open>cores/refcore_present\<close> with its host): the core's render thread and the
    host's presents interleaved over keyed mutexes. The host draws only finished frames (C5), and under every fair
    schedule frames keep coming (C6): the locale \<open>fair_pair\<close> has the progress rules. A lemma shows that an overtaken surface is lost.
  \<^item> \<open>RP_RefVk\<close>, \<open>RP_Present_Vk\<close> (\<open>cores/refcore_present_vk\<close> with its host): the Vulkan core's objects are accounted for over
    its life cycle (C25). Its render thread, its queue and the host interleave over timeline semaphores: what the host reads
    is a whole frame until the core uses the slot again, unless the pair it took was published half (C7), and between reports the ring
    holds the pair of the last frame (C8). Lemmas show an unfinished image read through a half-published pair, the host's image
    overwritten because nothing holds the core back, and what a restart and a failed submission leave.
  \<^item> \<open>RP_Harness\<close> (\<open>harness/windowed/main.cpp\<close>): command line, start, keys, input, pacer and message loop over the runtime and
    the two netplay sessions. For a driven core, without netplay and the rewind key, the harness refines a tape with a saved state (C12); what
    the player presses reaches a libretro core (C38); the pacer bounds the average frame rate (C37). Lemmas: the rewind key, the
    arguments, one start of Dolphin's game, the end of the loop, and the places where the loop does not do what its comments say.
  \<^item> This theory: properties that span components (C34).

  \<^bold>\<open>How code corresponds.\<close> A class is a record with the class's fields, a method a function on it of the
  same name (with the class's initials where names clash); early returns and error codes are branches
  of the result. A null pointer is \<open>None\<close>. Integers keep their width where the source's arithmetic can
  wrap. Foreign code is an argument: the core (a record of functions), the render backend, the JSON
  parser, Winsock, XAudio2, the graphics driver, the window system.

  \<^bold>\<open>Loops.\<close> Loops over containers are structural. Loops that wait for a peer or a socket are
  \<open>partial_function (option)\<close> with \<open>None\<close> for not returning, and the theorems state that they return
  under the transport's contract; the only fuel is in the reading of the generated JSON (\<open>RP_ShimOptions\<close>), where the
  length of the text is enough.

  \<^bold>\<open>Concurrency.\<close> The audio output is shared by the submitting thread, the voice's callback and the poll; each of their sections under the
  mutex and each access to an atomic is a step of its own. The surface ring is shared by a presenting core and the host: in the Vulkan
  hand-off each of its loads and stores is a step; in the Direct3D hand-off its calls are whole steps, as that host uses the index alone, one atomic.
  The cores and the host interleave at every call on shared surfaces, and the queue of the Vulkan core runs as a third party. Accesses take effect
  in the order of the steps: reordering of relaxed accesses is not modelled. Everything else is called from one thread.

  \<^bold>\<open>The driver.\<close> Whether the \<open>n\<close>-th call into Direct3D, OpenGL or Vulkan succeeds is a function of \<open>n\<close> in the
  parameter of the backend, so that the theorems cover every pattern of failures; contents of memory the
  driver owns, row pitches, sampling and drawing are functions with their documented laws as
  hypotheses.

  \<^bold>\<open>Not modelled.\<close> The backends' capability probes and shader texts, the contents of driver create-info structures, console output,
  window classes and the stretching of pictures: arguments of calls into the system without logic of their own. The parts of
  \<open>libretro.h\<close> the program does not use. Tests, build files, documentation.
\<close>

section \<open>The shim under the runtime\<close>

lemma sh_start_hw_size:
  assumes "sh_start_hw env hv s = (s', RP_OK, hcs)" "sh_hw s' = Some hr"
    and "max (max_width (sh_get_av_info s)) (base_width (sh_get_av_info s)) = mw"
      "max (max_height (sh_get_av_info s)) (base_height (sh_get_av_info s)) = mh"
  shows "hr_maxW hr = (if mw = 0 then 1 else mw)" "hr_maxH hr = (if mh = 0 then 1 else mh)"
proof -
  let ?hw = "hw_setup (sx_gl env) (hw_depth (sh_hw_cb s)) (hw_stencil (sh_hw_cb s))
      (hw_bottom_left_origin (sh_hw_cb s)) mw mh
      (hw_version_major (sh_hw_cb s)) (hw_version_minor (sh_hw_cb s)) (hv_gl_context hv)"
  have "hr = fst ?hw"
    using assms by (cases "snd ?hw")
      (auto simp: sh_start_hw_def at_least_max Let_def split_beta split: option.splits)
  then show "hr_maxW hr = (if mw = 0 then 1 else mw)" "hr_maxH hr = (if mh = 0 then 1 else mh)"
    by simp_all
qed

text \<open>
  C34. A frame of a hardware-rendering core, read back by the shim, always passes the runtime's frame
  test: the framebuffer the shim sets up is as large as the larger of the core's base and maximum size,
  which is the limit the runtime applies, and reading clamps to it.
\<close>

theorem shim_readback_accepted:
  assumes "sh_start_hw env hv s = (s', RP_OK, hcs)" "sh_hw s' = Some hr" "av_geometry_ok (sh_get_av_info s)"
    and "w \<noteq> 0" "h \<noteq> 0" "hw_read_frame hr px w h = (data, w', h', pitch)"
  shows "driven_frame_valid w' h' pitch (rt_dr_max_w (set_max_geometry (sh_get_av_info s) rt))
     (rt_dr_max_h (set_max_geometry (sh_get_av_info s) rt))"
proof -
  let ?av = "sh_get_av_info s"
  have "0 < max (max_width ?av) (base_width ?av)" "0 < max (max_height ?av) (base_height ?av)"
    using assms(3) by (auto simp: av_geometry_ok_def less_max_iff_disj)
  with sh_start_hw_size [OF assms(1,2) refl refl]
  have m: "hr_maxW hr = max (max_width ?av) (base_width ?av)" "hr_maxH hr = max (max_height ?av) (base_height ?av)"
    "hr_maxW hr \<noteq> 0" "hr_maxH hr \<noteq> 0"
    by auto
  from hw_read_frame_fields [OF assms(6)] m assms(4,5) show ?thesis
    by (auto simp: driven_frame_valid_def set_max_geometry_def clamp_to_def not_less)
qed

text \<open>The still core with a driver that gives it a context.\<close>

definition gl_env :: "nat shim_env" where
  "gl_env = (still_env True)\<lparr>sx_gl := \<lparr>ga_initialize = (\<lambda>w h major minor share. True), ga_make_current = True,
     ga_fbo = 1, ga_color = 2, ga_complete = True\<rparr>\<rparr>"

theorem shim_readback_accepted_witness:
  "driven_frame_valid 2 1 8 (rt_dr_max_w (set_max_geometry (sh_get_av_info (still_created True)) rc_rt))
     (rt_dr_max_h (set_max_geometry (sh_get_av_info (still_created True)) rc_rt))"
proof -
  let ?hr = "\<lparr>hr_fbo = 1, hr_color = 2, hr_depth_rb = None, hr_maxW = 2, hr_maxH = 1, hr_blo = False,
     hr_zero_copy = False\<rparr>"
  have start: "sh_start_hw gl_env still_view (still_created True) =
      ((still_created True)\<lparr>sh_hw := Some ?hr\<rparr>, RP_OK, [])"
    by (simp add: sh_start_hw_def gl_env_def still_env_def still_view_def still_created_def still_core_def
        Shim_new_def gl_request_def hw_cb_zero_def sh_get_av_info_def hw_setup_def at_least_def Let_def)
  have av: "av_geometry_ok (sh_get_av_info (still_created True))"
    by (simp add: av_geometry_ok_def sh_get_av_info_def still_created_def Shim_new_def still_core_def Let_def)
  have read: "hw_read_frame ?hr (\<lambda>w h. []) 5 1 = (replicate 8 0, 2, 1, 8)"
    by (simp add: hw_read_frame_def clamp_to_def Let_def)
  show ?thesis
    by (rule shim_readback_accepted [OF start _ av _ _ read]) simp_all
qed

section \<open>Rollback in the window\<close>

text \<open>The harness gives a rollback session a buffer to read the frame back into. On a window the Direct3D and the Vulkan backend refuse
  that before they draw, so a frame of the session is never shown there.\<close>

lemma windowed_readback_refused:
  assumes "rt_core_loaded rt" "rt_core_type rt = RP_CORE_DRIVEN" "\<not> rt_dr_is_gl rt" "rt_backend rt = Some b"
    and "rv_backend env = d3d11_backend dapi" "d11_swapchain b"
  shows "snd (render env now True rt) = (RP_ERR_UNSUPPORTED, None) \<and> rt_backend (fst (render env now True rt)) = Some b"
proof -
  have t: "rt_core_loaded (tick_fps now rt)" "rt_core_type (tick_fps now rt) = RP_CORE_DRIVEN" "\<not> rt_dr_is_gl (tick_fps now rt)"
    "rt_backend (tick_fps now rt) = Some b"
    using assms by (simp_all add: tick_fps_def Let_def)
  then show ?thesis
    using assms(5,6) by (simp add: render_def d3d11_backend_def d11_composite_driven_def Let_def)
qed

lemma windowed_readback_refused_vulkan:
  assumes "rt_core_loaded rt" "rt_core_type rt = RP_CORE_DRIVEN" "\<not> rt_dr_is_gl rt" "rt_backend rt = Some b"
    and "rv_backend env = vulkan_backend vapi" "windowed b" "vb_obj b FDevice \<noteq> None"
  shows "snd (render env now True rt) = (RP_ERR_UNSUPPORTED, None) \<and> rt_backend (fst (render env now True rt)) = Some b"
proof -
  have t: "rt_core_loaded (tick_fps now rt)" "rt_core_type (tick_fps now rt) = RP_CORE_DRIVEN" "\<not> rt_dr_is_gl (tick_fps now rt)"
    "rt_backend (tick_fps now rt) = Some b"
    using assms by (simp_all add: tick_fps_def Let_def)
  then show ?thesis
    using assms(5-7) by (auto simp: render_def vulkan_backend_def vk_composite_driven_def Let_def)
qed

end
